(* ===== verification/Prelude.thy ===== *)
theory Prelude
  imports Complex_Main "HOL-Library.Word" "HOL-Library.List_Lexorder" "HOL-Library.Char_ord"
    "HOL-Library.Product_Lexorder" "HOL-Library.Option_ord" "HOL-Library.Multiset"
begin

text \<open>
  Shared vocabulary of the development: machine integers, the Rust standard-library
  operations the sources call (checked and saturating arithmetic, decimal printing and
  parsing, string splitting, binary search, stable sorting by a key), time values, and the
  generic interfaces (locales) the components interpret: a transition system with an
  inductive invariant, a prefix code, a recency-ordered bounded cache.
\<close>

unbundle bit_operations_syntax

named_theorems std_defs \<open>definitions of standard-library operations\<close>
named_theorems model_defs \<open>definitions of the component operations that unfold freely\<close>

section \<open>Machine integers\<close>

type_synonym u8 = "8 word"
type_synonym u16 = "16 word"
type_synonym u32 = "32 word"
type_synonym u64 = "64 word"
type_synonym bytes = "8 word list"

text \<open>\<open>usize\<close> of the 64-bit targets the servers are built for. Sizes and queue depths are
  \<^typ>\<open>nat\<close> with the saturation written out where the source saturates.\<close>

type_synonym usize = nat

definition usize_max :: usize where
  "usize_max = 2 ^ 64 - 1"

definition u32_max :: nat where
  "u32_max = 2 ^ 32 - 1"

definition u64_max :: nat where
  "u64_max = 2 ^ 64 - 1"

definition checked_add :: "'a::len word \<Rightarrow> 'a word \<Rightarrow> 'a word option" where
  "checked_add a b = (if unat a + unat b < 2 ^ LENGTH('a) then Some (a + b) else None)"

definition usize_saturating_add :: "usize \<Rightarrow> usize \<Rightarrow> usize" where
  [std_defs]: "usize_saturating_add a b = min usize_max (a + b)"

definition usize_saturating_mul :: "usize \<Rightarrow> usize \<Rightarrow> usize" where
  [std_defs]: "usize_saturating_mul a b = min usize_max (a * b)"

definition usize_checked_add :: "usize \<Rightarrow> usize \<Rightarrow> usize option" where
  [std_defs]: "usize_checked_add a b = (if a + b \<le> usize_max then Some (a + b) else None)"

definition usize_checked_mul :: "usize \<Rightarrow> usize \<Rightarrow> usize option" where
  [std_defs]: "usize_checked_mul a b = (if a * b \<le> usize_max then Some (a * b) else None)"

lemma checked_add_Some_iff:
  "checked_add a b = Some c \<longleftrightarrow> unat a + unat b < 2 ^ LENGTH('a) \<and> c = a + b"
  for a b c :: "'a::len word"
  by (auto simp: checked_add_def)

lemma checked_add_None_iff:
  "checked_add a b = None \<longleftrightarrow> 2 ^ LENGTH('a) \<le> unat a + unat b"
  for a b :: "'a::len word"
  by (auto simp: checked_add_def)

lemma checked_add_unat:
  assumes "checked_add a b = Some c"
  shows "unat c = unat a + unat b"
  using assms by (auto simp: checked_add_Some_iff unat_word_ariths)

lemma unat_u64_le [simp]: "unat (w :: u64) \<le> u64_max"
proof -
  have "unat w < 2 ^ LENGTH(64)" by (rule unsigned_less)
  then show ?thesis by (simp add: u64_max_def)
qed

lemma unat_u32_le [simp]: "unat (w :: u32) \<le> u32_max"
proof -
  have "unat w < 2 ^ LENGTH(32)" by (rule unsigned_less)
  then show ?thesis by (simp add: u32_max_def)
qed

section \<open>Time\<close>

text \<open>A \<open>Duration\<close> is a number of nanoseconds: \<open>u64\<close> seconds and a sub-second part. An
  \<open>Instant\<close> is a number of nanoseconds on the process's monotonic clock, with \<open>i64\<close> seconds.
  Plain \<open>+\<close> on either panics on overflow, which the model returns as \<open>None\<close>.\<close>

type_synonym duration = nat
type_synonym instant = nat

definition duration_max :: duration where
  "duration_max = (2 ^ 64 - 1) * 1000000000 + 999999999"

definition instant_max :: instant where
  "instant_max = (2 ^ 63 - 1) * 1000000000 + 999999999"

definition duration_checked_add :: "duration \<Rightarrow> duration \<Rightarrow> duration option" where
  [std_defs]: "duration_checked_add a b = (if a + b \<le> duration_max then Some (a + b) else None)"

definition duration_saturating_add :: "duration \<Rightarrow> duration \<Rightarrow> duration" where
  [std_defs]: "duration_saturating_add a b = min duration_max (a + b)"

definition duration_checked_mul :: "duration \<Rightarrow> nat \<Rightarrow> duration option" where
  [std_defs]: "duration_checked_mul a n = (if a * n \<le> duration_max then Some (a * n) else None)"

definition duration_saturating_mul :: "duration \<Rightarrow> nat \<Rightarrow> duration" where
  [std_defs]: "duration_saturating_mul a n = min duration_max (a * n)"

definition instant_checked_add :: "instant \<Rightarrow> duration \<Rightarrow> instant option" where
  [std_defs]: "instant_checked_add t d = (if t + d \<le> instant_max then Some (t + d) else None)"

definition millis :: "nat \<Rightarrow> duration" where
  [std_defs]: "millis n = n * 1000000"

definition as_millis :: "duration \<Rightarrow> nat" where
  [std_defs]: "as_millis d = d div 1000000"

definition as_micros :: "duration \<Rightarrow> nat" where
  [std_defs]: "as_micros d = d div 1000"

text \<open>\<open>saturating_duration_since\<close> is truncated subtraction.\<close>

definition saturating_duration_since :: "instant \<Rightarrow> instant \<Rightarrow> duration" where
  [std_defs]: "saturating_duration_since a b = a - b"

lemma as_millis_millis [simp]: "as_millis (millis n) = n"
  by (simp add: as_millis_def millis_def)

lemma millis_as_millis_le: "millis (as_millis d) \<le> d"
  by (simp add: as_millis_def millis_def)

lemma as_millis_mono: "a \<le> b \<Longrightarrow> as_millis a \<le> as_millis b"
  by (simp add: as_millis_def div_le_mono)

lemma millis_mono: "a \<le> b \<Longrightarrow> millis a \<le> millis b"
  by (simp add: millis_def)

section \<open>Orderings\<close>

text \<open>\<open>std::cmp::Reverse\<close> flips the order of its argument.\<close>

datatype 'a reverse = Reverse (the_rev: 'a)

instantiation reverse :: (linorder) linorder
begin

definition less_eq_reverse :: "'a reverse \<Rightarrow> 'a reverse \<Rightarrow> bool" where
  "less_eq_reverse a b \<longleftrightarrow> the_rev b \<le> the_rev a"

definition less_reverse :: "'a reverse \<Rightarrow> 'a reverse \<Rightarrow> bool" where
  "less_reverse a b \<longleftrightarrow> the_rev b < the_rev a"

instance
  by standard (auto simp: less_eq_reverse_def less_reverse_def reverse.expand)

end

lemma Reverse_le [simp]: "Reverse a \<le> Reverse b \<longleftrightarrow> b \<le> a"
  by (simp add: less_eq_reverse_def)

lemma Reverse_less [simp]: "Reverse a < Reverse b \<longleftrightarrow> b < a"
  by (simp add: less_reverse_def)

text \<open>\<open>Iterator::min_by_key\<close> returns the first of the minimal elements.\<close>

fun min_by_key :: "('a \<Rightarrow> 'k::linorder) \<Rightarrow> 'a list \<Rightarrow> 'a option" where
  "min_by_key f [] = None"
| "min_by_key f (x # xs) =
     (case min_by_key f xs of None \<Rightarrow> Some x
      | Some y \<Rightarrow> if f x \<le> f y then Some x else Some y)"

lemma min_by_key_None_iff [simp]: "min_by_key f xs = None \<longleftrightarrow> xs = []"
  by (cases xs) (auto split: option.splits)

lemma min_by_key_Some:
  "min_by_key f xs = Some y \<Longrightarrow> y \<in> set xs \<and> (\<forall>x\<in>set xs. f y \<le> f x)"
proof (induction xs arbitrary: y)
  case Nil
  then show ?case by simp
next
  case (Cons x xs)
  show ?case
  proof (cases "min_by_key f xs")
    case None
    with Cons.prems show ?thesis by auto
  next
    case (Some z)
    from Cons.IH [OF this] have z: "z \<in> set xs" "\<forall>x\<in>set xs. f z \<le> f x" by auto
    with Some Cons.prems show ?thesis by (force split: if_splits)
  qed
qed

lemma min_by_key_first:
  "min_by_key f xs = Some y \<Longrightarrow> \<exists>us vs. xs = us @ y # vs \<and> (\<forall>x\<in>set us. f y < f x)"
proof (induction xs arbitrary: y)
  case (Cons x xs)
  show ?case
  proof (cases "min_by_key f xs")
    case None
    with Cons.prems show ?thesis by (intro exI [of _ "[]"]) auto
  next
    case (Some z)
    show ?thesis
    proof (cases "f x \<le> f z")
      case True
      with Some Cons.prems show ?thesis by (intro exI [of _ "[]"] exI [of _ xs]) auto
    next
      case False
      from Cons.IH [OF Some] obtain us vs where "xs = us @ z # vs" "\<forall>x\<in>set us. f z < f x" by blast
      with False Some Cons.prems show ?thesis by (intro exI [of _ "x # us"] exI [of _ vs]) auto
    qed
  qed
qed simp

lemma min_by_key_pairs: "map_option fst (min_by_key snd (map (\<lambda>i. (i, f i)) xs)) = min_by_key f xs"
proof -
  have "min_by_key snd (map (\<lambda>i. (i, f i)) xs) = map_option (\<lambda>i. (i, f i)) (min_by_key f xs)"
    by (induction xs) (auto split: option.splits)
  then show ?thesis by (simp add: option.map_comp comp_def option.map_ident)
qed

section \<open>Strings\<close>

text \<open>A Rust \<open>String\<close> is its UTF-8 bytes. \<open>{}\<close> formatting of an unsigned integer and
  \<open>str::parse\<close> back (which also takes one leading plus sign and fails on overflow).\<close>

definition digit_char :: "nat \<Rightarrow> char" where
  "digit_char d = char_of (48 + d)"

fun decimal :: "nat \<Rightarrow> string" where
  "decimal n = (if n < 10 then [digit_char n] else decimal (n div 10) @ [digit_char (n mod 10)])"

declare decimal.simps [simp del]

definition is_digit :: "char \<Rightarrow> bool" where
  "is_digit c \<longleftrightarrow> 48 \<le> (of_char c :: nat) \<and> (of_char c :: nat) < 58"

definition digit_value :: "char \<Rightarrow> nat" where
  "digit_value c = of_char c - 48"

definition digits_value :: "string \<Rightarrow> nat" where
  "digits_value s = foldl (\<lambda>a c. a * 10 + digit_value c) 0 s"

definition strip_plus :: "string \<Rightarrow> string" where
  "strip_plus s = (case s of c # cs \<Rightarrow> if c = CHR ''+'' \<and> cs \<noteq> [] then cs else s | [] \<Rightarrow> s)"

definition parse_uint :: "nat \<Rightarrow> string \<Rightarrow> nat option" where
  "parse_uint mx s =
     (let ds = strip_plus s
      in if ds \<noteq> [] \<and> list_all is_digit ds \<and> digits_value ds \<le> mx
         then Some (digits_value ds) else None)"

lemma is_digit_digit_char [simp]: "d < 10 \<Longrightarrow> is_digit (digit_char d)"
  by (simp add: is_digit_def digit_char_def of_char_of)

lemma digit_value_digit_char [simp]: "d < 10 \<Longrightarrow> digit_value (digit_char d) = d"
  by (simp add: digit_value_def digit_char_def of_char_of)

lemma decimal_not_Nil [simp]: "decimal n \<noteq> []"
  by (subst decimal.simps) simp

lemma decimal_digits [simp]: "list_all is_digit (decimal n)"
proof (induction n rule: decimal.induct)
  case (1 n)
  then show ?case by (cases "n < 10") (simp_all add: decimal.simps [of n])
qed

lemma digits_value_snoc [simp]:
  "digits_value (s @ [c]) = digits_value s * 10 + digit_value c"
  by (simp add: digits_value_def)

lemma digits_value_decimal [simp]: "digits_value (decimal n) = n"
proof (induction n rule: decimal.induct)
  case (1 n)
  show ?case
  proof (cases "n < 10")
    case True
    then show ?thesis
      by (simp add: decimal.simps [of n] digits_value_def)
  next
    case False
    with 1 show ?thesis by (simp add: decimal.simps [of n])
  qed
qed

lemma decimal_inj [simp]: "decimal a = decimal b \<longleftrightarrow> a = b"
  by (metis digits_value_decimal)

lemma decimal_char_digit: "c \<in> set (decimal n) \<Longrightarrow> is_digit c"
  using decimal_digits [of n] by (simp add: list_all_iff)

lemma not_digit_not_in_decimal: "\<not> is_digit c \<Longrightarrow> c \<notin> set (decimal n)"
  by (blast dest: decimal_char_digit)

lemma strip_plus_decimal [simp]: "strip_plus (decimal n) = decimal n"
proof (cases "decimal n")
  case Nil
  then show ?thesis by simp
next
  case (Cons c cs)
  then have "is_digit c" using decimal_char_digit [of c n] by simp
  then have "c \<noteq> CHR ''+''" by (auto simp: is_digit_def)
  with Cons show ?thesis by (simp add: strip_plus_def)
qed

lemma parse_uint_decimal: "n \<le> mx \<Longrightarrow> parse_uint mx (decimal n) = Some n"
  by (simp add: parse_uint_def)

lemma parse_uint_bound: "parse_uint mx s = Some n \<Longrightarrow> n \<le> mx"
  by (auto simp: parse_uint_def Let_def split: if_splits)

lemma parse_uint_Nil [simp]: "parse_uint mx [] = None"
  by (simp add: parse_uint_def strip_plus_def)

text \<open>\<open>str::split_once\<close> and \<open>str::rsplit_once\<close> on a single character.\<close>

fun split_once :: "char \<Rightarrow> string \<Rightarrow> (string \<times> string) option" where
  "split_once c [] = None"
| "split_once c (x # xs) =
     (if x = c then Some ([], xs)
      else map_option (\<lambda>(a, b). (x # a, b)) (split_once c xs))"

fun rsplit_once :: "char \<Rightarrow> string \<Rightarrow> (string \<times> string) option" where
  "rsplit_once c [] = None"
| "rsplit_once c (x # xs) =
     (case rsplit_once c xs of
        Some (a, b) \<Rightarrow> Some (x # a, b)
      | None \<Rightarrow> if x = c then Some ([], xs) else None)"

fun strip_prefix :: "string \<Rightarrow> string \<Rightarrow> string option" where
  "strip_prefix [] s = Some s"
| "strip_prefix (p # ps) [] = None"
| "strip_prefix (p # ps) (x # xs) = (if p = x then strip_prefix ps xs else None)"

lemma split_once_None_iff: "split_once c s = None \<longleftrightarrow> c \<notin> set s"
  by (induction s) auto

lemma split_once_append: "c \<notin> set a \<Longrightarrow> split_once c (a @ c # b) = Some (a, b)"
  by (induction a) auto

lemma split_once_Some: "split_once c s = Some (a, b) \<Longrightarrow> s = a @ c # b \<and> c \<notin> set a"
  by (induction s arbitrary: a) (auto split: if_splits)

lemma rsplit_once_None_iff: "rsplit_once c s = None \<longleftrightarrow> c \<notin> set s"
  by (induction s) (auto split: option.splits)

lemma rsplit_once_append: "c \<notin> set b \<Longrightarrow> rsplit_once c (a @ c # b) = Some (a, b)"
proof (induction a)
  case Nil
  then have "rsplit_once c b = None" by (simp add: rsplit_once_None_iff)
  then show ?case by simp
qed auto

lemma rsplit_once_Some: "rsplit_once c s = Some (a, b) \<Longrightarrow> s = a @ c # b \<and> c \<notin> set b"
  by (induction s arbitrary: a b)
    (auto simp: rsplit_once_None_iff split: if_splits option.splits)

lemma strip_prefix_append [simp]: "strip_prefix p (p @ s) = Some s"
  by (induction p) auto

lemma strip_prefix_Some: "strip_prefix p s = Some r \<longleftrightarrow> s = p @ r"
  by (induction p s rule: strip_prefix.induct) auto

section \<open>Ordered maps\<close>

text \<open>A \<open>BTreeMap\<close> is its association list in ascending key order.\<close>

fun bt_insert :: "'k::linorder \<Rightarrow> 'v \<Rightarrow> ('k \<times> 'v) list \<Rightarrow> ('k \<times> 'v) list" where
  "bt_insert k v [] = [(k, v)]"
| "bt_insert k v ((k', v') # m) =
     (if k < k' then (k, v) # (k', v') # m
      else if k = k' then (k, v) # m
      else (k', v') # bt_insert k v m)"

definition bt_sorted :: "('k::linorder \<times> 'v) list \<Rightarrow> bool" where
  "bt_sorted m \<longleftrightarrow> sorted_wrt (<) (map fst m)"

lemma set_fst_bt_insert [simp]: "fst ` set (bt_insert k v m) = insert k (fst ` set m)"
  by (induction k v m rule: bt_insert.induct) auto

lemma bt_sorted_Nil [simp]: "bt_sorted []"
  by (simp add: bt_sorted_def)

lemma bt_sorted_Cons:
  "bt_sorted (x # m) \<longleftrightarrow> (\<forall>y\<in>fst ` set m. fst x < y) \<and> bt_sorted m"
  by (simp add: bt_sorted_def)

lemma bt_sorted_insert [simp]: "bt_sorted m \<Longrightarrow> bt_sorted (bt_insert k v m)"
proof (induction m)
  case (Cons x m)
  then have "\<forall>y\<in>fst ` set m. fst x < y" and m: "bt_sorted m" by (auto simp: bt_sorted_Cons)
  then have "\<forall>y\<in>fst ` set (bt_insert k v m). fst x < y" if "fst x < k"
    using that unfolding set_fst_bt_insert by auto
  with Cons m show ?case
    by (cases x) (auto simp: bt_sorted_Cons not_less le_less simp del: set_fst_bt_insert)
qed (simp add: bt_sorted_def)

lemma map_of_bt_insert [simp]: "bt_sorted m \<Longrightarrow> map_of (bt_insert k v m) = (map_of m)(k \<mapsto> v)"
proof (induction k v m rule: bt_insert.induct)
  case (2 k v k' v' m)
  then show ?case by (auto simp: bt_sorted_def fun_eq_iff)
qed simp

lemma bt_sorted_distinct: "bt_sorted m \<Longrightarrow> distinct (map fst m)"
  by (simp add: bt_sorted_def strict_sorted_iff)

lemma bt_sorted_eqI:
  assumes "bt_sorted m" and "bt_sorted m'" and "map_of m = map_of m'"
  shows "m = m'"
proof -
  have rebuild: "map (\<lambda>k. (k, the (map_of n k))) (map fst n) = n"
    if "bt_sorted n" for n :: "('a \<times> 'b) list"
    using bt_sorted_distinct [OF that] by (auto intro!: map_idI)
  have "set (map fst m) = set (map fst m')"
    using assms(3) by (simp flip: dom_map_of_conv_image_fst)
  then have "map fst m = map fst m'"
    using assms(1,2) by (intro sorted_distinct_set_unique)
      (auto simp: bt_sorted_def strict_sorted_iff)
  with rebuild [OF assms(1)] rebuild [OF assms(2)] assms(3) show ?thesis by metis
qed

end
