(* ===== verification/Interfaces.thy ===== *)
theory Interfaces
  imports Prelude
begin

text \<open>
  The contracts the components are verified against: transition systems with an inductive
  invariant (interpreted by the queue-reservation protocol, the render-flight table and the
  cluster-view cache), prefix codes (interpreted by the length-framed cache identities, the
  PMTiles varints and the response framing), and recency-ordered bounded caches (interpreted
  by the per-slot source cache and the addlayer affinity list). The binary search of the Rust
  standard library, used by the namespace sets and the PMTiles directories, is here too.
\<close>

section \<open>Transition systems\<close>

inductive reach :: "('s \<Rightarrow> bool) \<Rightarrow> ('s \<Rightarrow> 's \<Rightarrow> bool) \<Rightarrow> 's \<Rightarrow> bool"
  for init :: "'s \<Rightarrow> bool" and step :: "'s \<Rightarrow> 's \<Rightarrow> bool"
  where
    reach_init: "init s \<Longrightarrow> reach init step s"
  | reach_step: "reach init step s \<Longrightarrow> step s t \<Longrightarrow> reach init step t"

locale transition_system =
  fixes init :: "'s \<Rightarrow> bool"
    and step :: "'s \<Rightarrow> 's \<Rightarrow> bool"
    and inv :: "'s \<Rightarrow> bool"
  assumes init_inv: "init s \<Longrightarrow> inv s"
    and step_inv: "inv s \<Longrightarrow> step s t \<Longrightarrow> inv t"
begin

lemma reachable_inv: "reach init step s \<Longrightarrow> inv s"
  by (induction rule: reach.induct) (auto intro: init_inv step_inv)

lemma rtranclp_inv: "step\<^sup>*\<^sup>* s t \<Longrightarrow> inv s \<Longrightarrow> inv t"
  by (induction rule: rtranclp.induct) (auto intro: step_inv)

end

section \<open>Prefix codes\<close>

fun decode_n :: "('c list \<Rightarrow> ('a \<times> 'c list) option) \<Rightarrow> nat \<Rightarrow> 'c list \<Rightarrow> ('a list \<times> 'c list) option"
  where
    "decode_n dec 0 bs = Some ([], bs)"
  | "decode_n dec (Suc n) bs =
       (case dec bs of None \<Rightarrow> None
        | Some (x, r) \<Rightarrow> (case decode_n dec n r of None \<Rightarrow> None
           | Some (xs, r') \<Rightarrow> Some (x # xs, r')))"

locale prefix_code =
  fixes enc :: "'a \<Rightarrow> 'c list"
    and dec :: "'c list \<Rightarrow> ('a \<times> 'c list) option"
    and ok :: "'a \<Rightarrow> bool"
  assumes dec_enc: "ok x \<Longrightarrow> dec (enc x @ r) = Some (x, r)"
    and enc_nonempty: "ok x \<Longrightarrow> enc x \<noteq> []"
begin

lemma enc_prefix_inj:
  assumes "ok x" and "ok y" and "enc x @ r = enc y @ r'"
  shows "x = y \<and> r = r'"
proof -
  have "Some (x, r) = Some (y, r')"
    using dec_enc [OF assms(1), of r] dec_enc [OF assms(2), of r']
    unfolding assms(3) by (rule trans [OF sym])
  then show ?thesis by simp
qed

lemma decode_n_concat:
  "list_all ok xs \<Longrightarrow> decode_n dec (length xs) (concat (map enc xs) @ r) = Some (xs, r)"
  by (induction xs) (simp_all add: dec_enc)

lemma concat_enc_inj:
  "list_all ok xs \<Longrightarrow> list_all ok ys \<Longrightarrow> concat (map enc xs) = concat (map enc ys) \<Longrightarrow> xs = ys"
proof (induction xs arbitrary: ys)
  case Nil
  then show ?case by (cases ys) (auto dest: enc_nonempty)
next
  case (Cons x xs)
  from Cons.prems obtain y zs where ys: "ys = y # zs"
    by (cases ys) (auto dest: enc_nonempty)
  with Cons.prems enc_prefix_inj [of x y "concat (map enc xs)" "concat (map enc zs)"]
  have "x = y" "concat (map enc xs) = concat (map enc zs)" by auto
  with Cons ys show ?case by simp
qed

end

section \<open>Recency-ordered bounded caches\<close>

text \<open>The content of such a cache is the list of its elements, least recent first. Touching an
  element moves it to the recent end and evicts from the other end down to the capacity.\<close>

definition lru_touch :: "nat \<Rightarrow> 'a \<Rightarrow> 'a list \<Rightarrow> 'a list" where
  "lru_touch cap x l = (let m = removeAll x l @ [x] in drop (length m - cap) m)"

lemma lru_touch_snoc:
  "0 < cap \<Longrightarrow>
     lru_touch cap x l = drop (Suc (length (removeAll x l)) - cap) (removeAll x l) @ [x]"
  by (simp add: lru_touch_def Let_def)

lemma set_lru_touch_subset: "set (lru_touch cap x l) \<subseteq> insert x (set l)"
  using set_drop_subset [of _ "removeAll x l @ [x]"] by (fastforce simp: lru_touch_def Let_def)

lemma distinct_lru_touch: "distinct l \<Longrightarrow> distinct (lru_touch cap x l)"
  unfolding lru_touch_def Let_def by (rule distinct_drop) (simp add: distinct_removeAll)

lemma length_lru_touch: "length (lru_touch cap x l) \<le> cap"
  by (simp add: lru_touch_def Let_def)

text \<open>What follows \<open>x\<close> in the list: the elements touched since \<open>x\<close> was.\<close>

definition after :: "'a \<Rightarrow> 'a list \<Rightarrow> 'a set" where
  "after x l = set (takeWhile (\<lambda>y. y \<noteq> x) (rev l))"

lemma after_snoc [simp]: "after x (l @ [y]) = (if y = x then {} else insert y (after x l))"
  unfolding after_def by (cases "y = x") simp_all

lemma in_drop_after:
  assumes "x \<in> set l" and "distinct l" and "card (after x l) < n"
  shows "x \<in> set (drop (length l - n) l) \<and> after x (drop (length l - n) l) = after x l"
proof -
  let ?t = "takeWhile (\<lambda>y. y \<noteq> x) (rev l)"
  have "?t @ dropWhile (\<lambda>y. y \<noteq> x) (rev l) = rev l" by simp
  moreover have dw: "dropWhile (\<lambda>y. y \<noteq> x) (rev l) \<noteq> []"
    using assms(1) by auto
  moreover have "hd (dropWhile (\<lambda>y. y \<noteq> x) (rev l)) = x"
    using dw hd_dropWhile by blast
  ultimately obtain r where r: "rev l = ?t @ x # r"
    by (metis list.collapse)
  then have l: "l = rev r @ x # rev ?t"
    by (metis append_Cons append_Nil append_assoc rev.simps(2) rev_append rev_rev_ident)
  have "length ?t < n"
    using assms(2,3) by (simp add: after_def distinct_card)
  then have dr: "drop (length l - n) l = drop (length l - n) (rev r) @ x # rev ?t"
    by (subst (2) l, subst drop_append) (simp add: l [THEN arg_cong, of length])
  have "x \<notin> set ?t" by (auto dest: set_takeWhileD)
  then have "after x (drop (length l - n) l) = set ?t"
    by (simp add: dr after_def takeWhile_append)
  with dr show ?thesis by (simp add: after_def)
qed

lemma after_removeAll: "y \<noteq> x \<Longrightarrow> after x (removeAll y l) = after x l - {y}"
proof (induction l rule: rev_induct)
  case Nil
  then show ?case by (simp add: after_def)
next
  case (snoc z l)
  then show ?case by (cases "z = y") auto
qed

locale recency_cache =
  fixes contents :: "'c \<Rightarrow> 'a list"
    and touch :: "'a \<Rightarrow> 'c \<Rightarrow> 'c"
    and cap :: "'c \<Rightarrow> nat"
    and invar :: "'c \<Rightarrow> bool"
  assumes invar_distinct: "invar c \<Longrightarrow> distinct (contents c)"
    and invar_length: "invar c \<Longrightarrow> length (contents c) \<le> cap c"
    and cap_pos: "invar c \<Longrightarrow> 0 < cap c"
    and touch_contents: "invar c \<Longrightarrow> contents (touch x c) = lru_touch (cap c) x (contents c)"
    and touch_cap: "cap (touch x c) = cap c"
    and touch_invar: "invar c \<Longrightarrow> invar (touch x c)"
begin

lemma touch_self:
  "invar c \<Longrightarrow> x \<in> set (contents (touch x c)) \<and> after x (contents (touch x c)) = {}"
  by (simp add: touch_contents lru_touch_snoc cap_pos)

lemma touch_step:
  assumes "invar c" and "x \<in> set (contents c)" and "y \<noteq> x"
    and "card (insert y (after x (contents c))) < cap c"
  shows "x \<in> set (contents (touch y c)) \<and>
    after x (contents (touch y c)) = insert y (after x (contents c))"
proof -
  let ?m = "removeAll y (contents c) @ [y]"
  have aft: "after x ?m = insert y (after x (contents c))"
    using assms(3) by (auto simp: after_removeAll)
  have "x \<in> set ?m" using assms(2,3) by simp
  moreover have "distinct ?m"
    using invar_distinct [OF assms(1)] by (simp add: distinct_removeAll)
  moreover have "card (after x ?m) < cap c" using assms(4) aft by simp
  ultimately show ?thesis
    using in_drop_after [of x ?m "cap c"] aft
    by (simp add: touch_contents [OF assms(1)] lru_touch_def Let_def del: after_snoc)
qed

text \<open>An element survives as long as fewer than \<open>cap\<close> other elements were touched after it.\<close>

lemma survives:
  assumes "invar c" and "card (set ys - {x}) < cap c"
  shows "x \<in> set (contents (fold touch ys (touch x c)))"
proof -
  have "invar (fold touch zs (touch x c)) \<and> cap (fold touch zs (touch x c)) = cap c
      \<and> x \<in> set (contents (fold touch zs (touch x c)))
      \<and> after x (contents (fold touch zs (touch x c))) \<subseteq> set zs - {x}"
    if "set zs \<subseteq> set ys" for zs
    using that
  proof (induction zs rule: rev_induct)
    case Nil
    then show ?case
      using assms(1) touch_self [of c x] by (simp add: touch_invar touch_cap)
  next
    case (snoc z zs)
    let ?c = "fold touch zs (touch x c)"
    from snoc have IH: "invar ?c" "cap ?c = cap c" "x \<in> set (contents ?c)"
      "after x (contents ?c) \<subseteq> set zs - {x}" by auto
    show ?case
    proof (cases "z = x")
      case True
      with IH touch_self [OF IH(1), of x] show ?thesis
        by (simp add: touch_invar touch_cap)
    next
      case False
      then have sub: "insert z (after x (contents ?c)) \<subseteq> set ys - {x}"
        using IH(4) snoc.prems by auto
      then have "card (insert z (after x (contents ?c))) < cap ?c"
        using assms(2) IH(2) card_mono [OF _ sub] by simp
      from touch_step [OF IH(1,3) False this] IH False show ?thesis
        by (auto simp: touch_invar touch_cap)
    qed
  qed
  then show ?thesis by blast
qed

end

section \<open>Binary search\<close>

text \<open>\<open>slice::binary_search_by\<close>: \<open>Ok\<close> is \<^const>\<open>Inr\<close>, \<open>Err\<close> (the insertion point) is
  \<^const>\<open>Inl\<close>. The loop halves the window and keeps its base.\<close>

function bs_loop :: "('a \<Rightarrow> bool) \<Rightarrow> 'a list \<Rightarrow> nat \<Rightarrow> nat \<Rightarrow> nat" where
  "bs_loop gt xs base n =
     (if 1 < n
      then let half = n div 2; mid = base + half
           in bs_loop gt xs (if gt (xs ! mid) then base else mid) (n - half)
      else base)"
  by pat_completeness auto
termination
  by (relation "measure (\<lambda>(gt, xs, base, n). n)") (auto simp: Let_def)

declare bs_loop.simps [simp del]

definition binary_search_by :: "('a \<Rightarrow> 'k::linorder) \<Rightarrow> 'a list \<Rightarrow> 'k \<Rightarrow> nat + nat" where
  "binary_search_by f xs k =
     (if xs = [] then Inl 0
      else let base = bs_loop (\<lambda>x. k < f x) xs 0 (length xs)
           in if f (xs ! base) = k then Inr base
              else Inl (base + (if f (xs ! base) < k then 1 else 0)))"

definition is_ok :: "'e + 'a \<Rightarrow> bool" where
  "is_ok r = (case r of Inr _ \<Rightarrow> True | Inl _ \<Rightarrow> False)"

lemma is_ok_iff: "is_ok r \<longleftrightarrow> (\<exists>x. r = Inr x)"
  by (simp add: is_ok_def split: sum.splits)

lemma bs_loop_step:
  "1 < n \<Longrightarrow> bs_loop gt xs base n =
     bs_loop gt xs (if gt (xs ! (base + n div 2)) then base else base + n div 2) (n - n div 2)"
  by (subst bs_loop.simps) (simp add: Let_def)

lemma bs_loop_correct:
  assumes mono: "\<And>i j. i \<le> j \<Longrightarrow> j < length xs \<Longrightarrow> gt (xs ! i) \<Longrightarrow> gt (xs ! j)"
    and "base + n \<le> length xs" and "0 < n"
    and "base = 0 \<or> \<not> gt (xs ! base)"
    and "\<And>j. base + n \<le> j \<Longrightarrow> j < length xs \<Longrightarrow> gt (xs ! j)"
  defines "r \<equiv> bs_loop gt xs base n"
  shows "r < length xs \<and> (r = 0 \<or> \<not> gt (xs ! r)) \<and> (\<forall>j. r < j \<longrightarrow> j < length xs \<longrightarrow> gt (xs ! j))"
  unfolding r_def using assms(2-5)
proof (induction n arbitrary: base rule: less_induct)
  case (less n)
  show ?case
  proof (cases "1 < n")
    case True
    define b where "b = (if gt (xs ! (base + n div 2)) then base else base + n div 2)"
    have up: "gt (xs ! j)" if "b + (n - n div 2) \<le> j" "j < length xs" for j
    proof (cases "gt (xs ! (base + n div 2))")
      case gt: True
      then show ?thesis using mono [of "base + n div 2" j] that by (simp add: b_def)
    next
      case False
      then show ?thesis using less.prems(4) [of j] that by (simp add: b_def)
    qed
    have b: "b + (n - n div 2) \<le> length xs" "b = 0 \<or> \<not> gt (xs ! b)"
      using less.prems(1,3) by (auto simp: b_def)
    from True have "n - n div 2 < n" "0 < n - n div 2" by auto
    from less.IH [OF this(1) b(1) this(2) b(2) up] show ?thesis
      unfolding bs_loop_step [OF True] b_def [symmetric] .
  next
    case False
    with less.prems have "n = 1" and "bs_loop gt xs base n = base"
      by (simp_all add: bs_loop.simps)
    with less.prems show ?thesis by auto
  qed
qed

lemma binary_search_base:
  fixes f :: "'a \<Rightarrow> 'k::linorder" and k :: 'k
  assumes "sorted (map f xs)" and "xs \<noteq> []"
  defines "b \<equiv> bs_loop (\<lambda>x. k < f x) xs 0 (length xs)"
  shows "b < length xs" and "b = 0 \<or> f (xs ! b) \<le> k"
    and "\<And>j. b < j \<Longrightarrow> j < length xs \<Longrightarrow> k < f (xs ! j)"
proof -
  have mono: "k < f (xs ! j)" if "i \<le> j" "j < length xs" "k < f (xs ! i)" for i j
    using assms(1) that sorted_nth_mono [of "map f xs" i j] by simp
  from bs_loop_correct [of xs "\<lambda>x. k < f x" 0 "length xs", OF mono] assms(2)
  show "b < length xs" and "b = 0 \<or> f (xs ! b) \<le> k"
    and "\<And>j. b < j \<Longrightarrow> j < length xs \<Longrightarrow> k < f (xs ! j)"
    by (auto simp: b_def not_less)
qed

lemma binary_search_by_Ok:
  assumes "sorted (map f xs)" and "binary_search_by f xs k = Inr i"
  shows "i < length xs \<and> f (xs ! i) = k"
proof -
  from assms(2) have "xs \<noteq> []" by (auto simp: binary_search_by_def)
  with binary_search_base [OF assms(1) this, of k] assms(2) show ?thesis
    by (auto simp: binary_search_by_def Let_def split: if_splits)
qed

lemma binary_search_by_Err:
  assumes "sorted (map f xs)" and "binary_search_by f xs k = Inl i"
  shows "i \<le> length xs" and "\<And>j. j < i \<Longrightarrow> f (xs ! j) < k"
    and "\<And>j. i \<le> j \<Longrightarrow> j < length xs \<Longrightarrow> k < f (xs ! j)"
proof -
  have "i \<le> length xs \<and> (\<forall>j<i. f (xs ! j) < k) \<and> (\<forall>j. i \<le> j \<longrightarrow> j < length xs \<longrightarrow> k < f (xs ! j))"
  proof (cases "xs = []")
    case True
    with assms(2) show ?thesis by (simp add: binary_search_by_def)
  next
    case False
    define b where "b = bs_loop (\<lambda>x. k < f x) xs 0 (length xs)"
    from binary_search_base [OF assms(1) False, of k]
    have b: "b < length xs" "b = 0 \<or> f (xs ! b) \<le> k" "\<And>j. b < j \<Longrightarrow> j < length xs \<Longrightarrow> k < f (xs ! j)"
      by (auto simp: b_def)
    have le: "f (xs ! j) \<le> f (xs ! b)" if "j \<le> b" for j
      using assms(1) that b(1) sorted_nth_mono [of "map f xs" j b] by simp
    from assms(2) False have i: "i = b + (if f (xs ! b) < k then 1 else 0)" "f (xs ! b) \<noteq> k"
      by (auto simp: binary_search_by_def Let_def b_def split: if_splits)
    show ?thesis
    proof (cases "f (xs ! b) < k")
      case True
      with i b le show ?thesis by (auto simp: less_Suc_eq_le intro: le_less_trans)
    next
      case False
      with i b(2) have "b = 0" "k < f (xs ! b)" by auto
      moreover have "k < f (xs ! j)" if "j < length xs" for j
        using \<open>b = 0\<close> \<open>k < f (xs ! b)\<close> b(3) [of j] that by (cases "j = 0") auto
      ultimately show ?thesis using False i by auto
    qed
  qed
  then show "i \<le> length xs" and "\<And>j. j < i \<Longrightarrow> f (xs ! j) < k"
    and "\<And>j. i \<le> j \<Longrightarrow> j < length xs \<Longrightarrow> k < f (xs ! j)" by auto
qed

lemma binary_search_mem:
  assumes "sorted (map f xs)"
  shows "(\<exists>i. binary_search_by f xs k = Inr i) \<longleftrightarrow> k \<in> f ` set xs"
proof (cases "binary_search_by f xs k")
  case (Inr i)
  with binary_search_by_Ok [OF assms Inr] show ?thesis
    by (auto simp: in_set_conv_nth intro!: image_eqI [of _ _ "xs ! i"])
next
  case (Inl i)
  note e = binary_search_by_Err [OF assms Inl]
  have "f (xs ! j) \<noteq> k" if "j < length xs" for j
    using e(2) [of j] e(3) [of j] that by (cases "j < i") auto
  then have "k \<notin> f ` set xs" by (force simp: in_set_conv_nth)
  with Inl show ?thesis by simp
qed

end
