(* ===== verification/Biei_Types.thy ===== *)
theory Biei_Types
  imports Interfaces
begin

text \<open>
  \<^verbatim>\<open>crates/biei-core/src/types.rs\<close>: the domain types of the Biei renderer (tasks, profiles,
  outcomes, routing decisions), the authorization namespace sets, and the per-key gossip
  encoding of a node's worker state with its decoder. The lemmas show that the namespace sets
  are canonical and that decoding inverts the encoding.
\<close>

section \<open>Identifiers, formats and styles\<close>

datatype route_tier =
  RenderCacheHit | Tier1WarmTracking | Tier2HrwBl | Tier3DrainSwap | Tier4Overflow

type_synonym worker_id = u32
type_synonym source_hash = u64
type_synonym task_id = u64
type_synonym request_id = string

text \<open>Newtypes around a string; their \<open>Ord\<close> is the bytewise order of the string.\<close>

type_synonym node_id = string
type_synonym style_id = string
type_synonym cache_partition = bytes

text \<open>\<open>f64\<close> and \<open>f32\<close> values the core only carries and compares by \<open>to_bits\<close>.\<close>

type_synonym f64 = "64 word"
type_synonym f32 = "32 word"

record style_revision =
  rev_id :: style_id
  rev_version :: u64

datatype render_mode = Static | Tile

datatype scale = X1 | X2

text \<open>The device-pixel multiplier; only 1.0 and 2.0 are constructed.\<close>

datatype pixel_ratio = PixelRatio rat

datatype image_format = Png | Webp | Jpeg

datatype cache_policy = Cacheable | OneShot

record source_ref =
  src_hash :: source_hash
  src_policy :: cache_policy

fun to_scale :: "pixel_ratio \<Rightarrow> scale" where
  "to_scale (PixelRatio r) = (if 3 / 2 \<le> r then X2 else X1)"

fun pixel_ratio_of :: "scale \<Rightarrow> pixel_ratio" where
  "pixel_ratio_of X1 = PixelRatio 1"
| "pixel_ratio_of X2 = PixelRatio 2"

lemma to_scale_pixel_ratio_of [simp]: "to_scale (pixel_ratio_of s) = s"
  by (cases s) simp_all

fun style_namespace :: "style_id \<Rightarrow> string" where
  "style_namespace i = (case split_once CHR ''/'' i of None \<Rightarrow> i | Some (ns, _) \<Rightarrow> ns)"

section \<open>Render requests\<close>

datatype positioning =
    Center (pos_lon: f64) (pos_lat: f64) (pos_zoom: f64) (pos_bearing: f32) (pos_pitch: f32)
  | Bbox (min_lon: f64) (min_lat: f64) (max_lon: f64) (max_lat: f64)
  | Auto

record padding =
  pad_top :: u16
  pad_right :: u16
  pad_bottom :: u16
  pad_left :: u16

record add_layer_source =
  als_tileset_id :: string
  als_json :: string

record add_layer =
  al_json :: string
  al_hash :: u64
  al_source :: "add_layer_source option"

record lng_lat =
  ll_lon :: f64
  ll_lat :: f64

record path_overlay =
  po_stroke_width :: "f32 option"
  po_stroke_color :: "string option"
  po_stroke_opacity :: "f32 option"
  po_fill_color :: "string option"
  po_fill_opacity :: "f32 option"
  po_coordinates :: "lng_lat list"

text \<open>\<open>serde_json::Value\<close>; numbers by their literal text.\<close>

datatype json_value =
  JNull | JBool bool | JNumber string | JString string
  | JArray "json_value list" | JObject "(string \<times> json_value) list"

record geojson_overlay =
  go_feature_collection :: json_value

datatype pin_size = Small | Medium | Large

record pin_overlay =
  pin_size :: pin_size
  pin_label :: "string option"
  pin_color :: string
  pin_coordinate :: lng_lat

datatype static_overlay =
  OPath path_overlay | OGeoJson geojson_overlay | OPin pin_overlay

record static_image =
  si_positioning :: positioning
  si_width :: u16
  si_height :: u16
  si_overlays :: "static_overlay list"
  si_before_layer :: "string option"
  si_padding :: padding
  si_addlayer :: "add_layer option"

datatype render_request =
    TileRequest (rq_z: u8) (rq_x: u32) (rq_y: u32) (rq_tile_size: u16)
  | StaticImage static_image

fun request_render_mode :: "render_request \<Rightarrow> render_mode" where
  "request_render_mode (TileRequest z x y ts) = Tile"
| "request_render_mode (StaticImage si) = Static"

fun has_addlayer_source :: "render_request \<Rightarrow> bool" where
  "has_addlayer_source (TileRequest z x y ts) = False"
| "has_addlayer_source (StaticImage si) =
     (case si_addlayer si of None \<Rightarrow> False | Some a \<Rightarrow> al_source a \<noteq> None)"

record worker_profile =
  wp_style :: style_revision
  wp_render_mode :: render_mode
  wp_scale :: scale

section \<open>Authorization\<close>

datatype namespace_set = NamespaceSet (ns_list: "string list")

record render_authorization =
  readable_namespaces :: namespace_set
  auth_partition :: cache_partition
  provider_bearer_token :: string

definition max_authorization_namespaces :: nat where
  "max_authorization_namespaces = 1024"

definition max_authorization_namespace_bytes :: nat where
  "max_authorization_namespace_bytes = 256"

definition max_provider_bearer_token_bytes :: nat where
  "max_provider_bearer_token_bytes = 4096"

text \<open>\<open>char::is_control\<close> over UTF-8 bytes: the ASCII controls and U+0080..U+009F, which UTF-8
  writes as the byte C2 followed by 80..9F.\<close>

definition is_ascii_control :: "char \<Rightarrow> bool" where
  "is_ascii_control c \<longleftrightarrow> (of_char c :: nat) < 32 \<or> (of_char c :: nat) = 127"

definition is_ascii_whitespace :: "char \<Rightarrow> bool" where
  "is_ascii_whitespace c \<longleftrightarrow> (of_char c :: nat) \<in> {32, 9, 10, 12, 13}"

fun has_control :: "string \<Rightarrow> bool" where
  "has_control [] = False"
| "has_control [c] = is_ascii_control c"
| "has_control (c # d # s) =
     (is_ascii_control c
      \<or> ((of_char c :: nat) = 194 \<and> 128 \<le> (of_char d :: nat) \<and> (of_char d :: nat) \<le> 159)
      \<or> has_control (d # s))"

datatype namespace_error = NamespaceSetBounds | NamespaceInvalid | NamespaceNotCanonical

datatype bearer_error = BearerTokenInvalid

fun bearer_try_new :: "string \<Rightarrow> bearer_error + string" where
  "bearer_try_new v =
     (if v = [] \<or> max_provider_bearer_token_bytes < length v
         \<or> list_ex (\<lambda>b. is_ascii_control b \<or> is_ascii_whitespace b) v
      then Inl BearerTokenInvalid else Inr v)"

definition namespace_invalid :: "string \<Rightarrow> bool" where
  "namespace_invalid n \<longleftrightarrow>
     n = [] \<or> max_authorization_namespace_bytes < length n \<or> has_control n"

definition wildcard :: string where
  "wildcard = ''*''"

definition namespaces_try_new :: "string list \<Rightarrow> namespace_error + namespace_set" where
  "namespaces_try_new ns =
     (if ns = [] \<or> max_authorization_namespaces < length ns then Inl NamespaceSetBounds
      else if list_ex namespace_invalid ns then Inl NamespaceInvalid
      else let ns' = remdups_adj (sort ns)
           in case binary_search_by (\<lambda>x. x) ns' wildcard of
                Inr _ \<Rightarrow> Inr (NamespaceSet [wildcard])
              | Inl _ \<Rightarrow> Inr (NamespaceSet ns'))"

fun windows_not_increasing :: "string list \<Rightarrow> bool" where
  "windows_not_increasing (a # b # r) = (b \<le> a \<or> windows_not_increasing (b # r))"
| "windows_not_increasing _ = False"

definition namespaces_try_from_shared :: "string list \<Rightarrow> namespace_error + namespace_set" where
  "namespaces_try_from_shared ns =
     (if ns = [] \<or> max_authorization_namespaces < length ns then Inl NamespaceSetBounds
      else if list_ex namespace_invalid ns then Inl NamespaceInvalid
      else if windows_not_increasing ns
           \<or> (list_ex (\<lambda>n. n = wildcard) ns \<and> \<not> (length ns = 1 \<and> ns ! 0 = wildcard))
           then Inl NamespaceNotCanonical
      else Inr (NamespaceSet ns))"

definition namespaces_allows :: "namespace_set \<Rightarrow> namespace_set \<Rightarrow> bool" where
  "namespaces_allows self required =
     ((case ns_list self of [] \<Rightarrow> False | n # _ \<Rightarrow> n = wildcard)
      \<or> list_all (\<lambda>n. n \<noteq> wildcard \<and> is_ok (binary_search_by (\<lambda>x. x) (ns_list self) n))
           (ns_list required))"

text \<open>\<open>size_of::<String>()\<close> is 24 on the 64-bit targets.\<close>

definition namespaces_size_bytes :: "namespace_set \<Rightarrow> nat" where
  "namespaces_size_bytes s = sum_list (map (\<lambda>n. 24 + length n) (ns_list s))"

section \<open>Tasks and outcomes\<close>

record internal_task =
  it_id :: task_id
  it_request_id :: request_id
  it_authorization :: "render_authorization option"
  it_style :: style_revision
  it_source :: "source_ref option"
  it_request :: render_request
  it_pixel_ratio :: pixel_ratio
  it_output_format :: image_format
  it_arrived_at :: instant
  it_deadline :: instant
  it_forwarding_hops :: u8

record task_spec =
  ts_id :: task_id
  ts_request_id :: request_id
  ts_style :: style_revision
  ts_source :: "source_ref option"
  ts_request :: render_request
  ts_pixel_ratio :: pixel_ratio
  ts_output_format :: image_format

text \<open>\<open>TaskSpec::start\<close>; the sum panics past the clock's range.\<close>

definition start_task :: "task_spec \<Rightarrow> instant \<Rightarrow> duration \<Rightarrow> internal_task option" where
  "start_task s arrived budget =
     (case instant_checked_add arrived budget of
        None \<Rightarrow> None
      | Some d \<Rightarrow> Some
          \<lparr>it_id = ts_id s, it_request_id = ts_request_id s, it_authorization = None,
           it_style = ts_style s, it_source = ts_source s, it_request = ts_request s,
           it_pixel_ratio = ts_pixel_ratio s, it_output_format = ts_output_format s,
           it_arrived_at = arrived, it_deadline = d, it_forwarding_hops = 0\<rparr>)"

definition task_worker_profile :: "internal_task \<Rightarrow> worker_profile" where
  "task_worker_profile t =
     \<lparr>wp_style = it_style t, wp_render_mode = request_render_mode (it_request t),
      wp_scale = to_scale (it_pixel_ratio t)\<rparr>"

definition task_has_source :: "internal_task \<Rightarrow> bool" where
  "task_has_source t \<longleftrightarrow> it_source t \<noteq> None \<or> has_addlayer_source (it_request t)"

datatype deadline_stage =
  AcquireRenderPermit | StyleSwap | EnsureSource | AcquireNativeRenderPermit | RenderStage

datatype failure_kind =
  RenderTimeout | RendererDead | StyleUnavailable | KindStyleNotReady | SourceUnavailable
  | PreparationTimeout | OtherFailure

datatype renderer_error =
    StyleLoadFailed style_id string
  | SetupFailed style_id string
  | StyleNotReady style_id u64
  | SourceFetchFailed source_hash string
  | RenderFailed string
  | Timeout
  | ActorDead

fun failure_kind_of :: "renderer_error \<Rightarrow> failure_kind" where
  "failure_kind_of Timeout = RenderTimeout"
| "failure_kind_of ActorDead = RendererDead"
| "failure_kind_of (StyleLoadFailed i s) = StyleUnavailable"
| "failure_kind_of (SetupFailed i s) = OtherFailure"
| "failure_kind_of (StyleNotReady i v) = KindStyleNotReady"
| "failure_kind_of (SourceFetchFailed h s) = SourceUnavailable"
| "failure_kind_of (RenderFailed s) = OtherFailure"

fun renderer_error_text :: "renderer_error \<Rightarrow> string" where
  "renderer_error_text (StyleLoadFailed i s) = ''style load failed for '' @ i @ '': '' @ s"
| "renderer_error_text (SetupFailed i s) = ''renderer setup failed for '' @ i @ '': '' @ s"
| "renderer_error_text (StyleNotReady i v) =
     ''style not ready for '' @ i @ ''@'' @ decimal (unat v)"
| "renderer_error_text (SourceFetchFailed h s) =
     ''source fetch failed for '' @ decimal (unat h) @ '': '' @ s"
| "renderer_error_text (RenderFailed s) = ''render failed: '' @ s"
| "renderer_error_text Timeout = ''render timeout''"
| "renderer_error_text ActorDead = ''renderer actor dead''"

datatype profile_content = ContentStyle style_id | ContentSource source_hash

datatype preparation_error =
    PrepStyleUnavailable style_id string
  | PrepSourceUnavailable source_hash string
  | CallerDeadlineExceeded
  | InfrastructureFailure string
  | InvalidPreparedContent profile_content string

fun into_source :: "preparation_error \<Rightarrow> source_hash \<Rightarrow> preparation_error" where
  "into_source (PrepStyleUnavailable i s) h = PrepSourceUnavailable h s"
| "into_source (InvalidPreparedContent c s) h = InvalidPreparedContent (ContentSource h) s"
| "into_source e h = e"

fun prep_failure_kind :: "preparation_error \<Rightarrow> failure_kind" where
  "prep_failure_kind (PrepStyleUnavailable i s) = StyleUnavailable"
| "prep_failure_kind (PrepSourceUnavailable h s) = SourceUnavailable"
| "prep_failure_kind CallerDeadlineExceeded = PreparationTimeout"
| "prep_failure_kind (InfrastructureFailure s) = OtherFailure"
| "prep_failure_kind (InvalidPreparedContent (ContentStyle i) s) = StyleUnavailable"
| "prep_failure_kind (InvalidPreparedContent (ContentSource h) s) = SourceUnavailable"

fun prep_error_text :: "preparation_error \<Rightarrow> string" where
  "prep_error_text (PrepStyleUnavailable i s) = ''style load failed for '' @ i @ '': '' @ s"
| "prep_error_text (InvalidPreparedContent (ContentStyle i) s) =
     ''style load failed for '' @ i @ '': '' @ s"
| "prep_error_text (PrepSourceUnavailable h s) =
     ''source fetch failed for '' @ decimal (unat h) @ '': '' @ s"
| "prep_error_text (InvalidPreparedContent (ContentSource h) s) =
     ''source fetch failed for '' @ decimal (unat h) @ '': '' @ s"
| "prep_error_text CallerDeadlineExceeded = ''profile preparation deadline exceeded''"
| "prep_error_text (InfrastructureFailure s) =
     ''profile preparation infrastructure failure: '' @ s"

record render_output =
  out_bytes :: bytes
  out_format :: image_format

record render_observation =
  ob_render_mode :: render_mode
  ob_scale :: scale
  ob_output_format :: image_format
  ob_width :: u16
  ob_height :: u16
  ob_style_setup_duration :: "duration option"
  ob_source_setup_duration :: "duration option"

fun request_dimensions :: "render_request \<Rightarrow> u16 \<times> u16" where
  "request_dimensions (TileRequest z x y ts) = (ts, ts)"
| "request_dimensions (StaticImage si) = (si_width si, si_height si)"

definition observation_from_task ::
  "internal_task \<Rightarrow> duration option \<Rightarrow> duration option \<Rightarrow> render_observation" where
  "observation_from_task t style_d source_d =
     \<lparr>ob_render_mode = request_render_mode (it_request t), ob_scale = to_scale (it_pixel_ratio t),
      ob_output_format = it_output_format t, ob_width = fst (request_dimensions (it_request t)),
      ob_height = snd (request_dimensions (it_request t)),
      ob_style_setup_duration = style_d, ob_source_setup_duration = source_d\<rparr>"

record completed_info =
  ci_node_id :: node_id
  ci_worker_id :: "worker_id option"
  ci_route_tier :: route_tier
  ci_started_at :: instant
  ci_native_render_started_at :: instant
  ci_native_render_completed_at :: instant
  ci_completed_at :: instant
  ci_style_swap :: bool
  ci_cold_start :: bool
  ci_source_loaded :: bool
  ci_admitted_at_overflow :: bool
  ci_render_observation :: "render_observation option"

datatype rejection_reason =
  QueueFull | NoCapacity | RendererDegraded | DrainTooSlow | UnknownStyle | HopLimitExceeded
  | ForwardFailed | DeadlineTooClose | DeadlineExceeded

fun is_retryable_at_forward :: "rejection_reason \<Rightarrow> bool" where
  "is_retryable_at_forward r =
     (case r of QueueFull \<Rightarrow> True | NoCapacity \<Rightarrow> True | RendererDegraded \<Rightarrow> True
      | DrainTooSlow \<Rightarrow> True | _ \<Rightarrow> False)"

datatype task_result =
    Completed completed_info render_output
  | Rejected rejection_reason
  | Failed string failure_kind

record task_outcome =
  oc_task_id :: task_id
  oc_request_id :: request_id
  oc_arrived_at :: instant
  oc_had_source :: bool
  oc_deadline_stage :: "deadline_stage option"
  oc_result :: task_result

datatype process_error =
  PQueueFull internal_task | RenderAdmissionClosed internal_task | QueueDisconnected

record forward_candidate =
  fc_node_id :: node_id
  fc_drain_worker :: "worker_id option"

datatype decision =
    Local route_tier "worker_id option" "forward_candidate list"
  | Forward route_tier "forward_candidate list"
  | Reject rejection_reason

section \<open>Node state and its gossip encoding\<close>

type_synonym node_kvs = "(string \<times> string) list"

record worker_view =
  wv_id :: worker_id
  wv_loaded_profile :: "worker_profile option"
  wv_queue_depth :: usize

record node_state_view =
  nsv_id :: node_id
  nsv_accepts_new_renders :: bool
  nsv_workers :: "worker_view list"

text \<open>\<open>states\<close> is a hash map: an association list in whatever order the map iterates.\<close>

record cluster_view =
  cv_members :: "node_id list"
  cv_states :: "(node_id \<times> node_state_view) list"
  cv_generated_at :: instant

definition has_capacity :: "node_state_view \<Rightarrow> usize \<Rightarrow> bool" where
  "has_capacity n bl \<longleftrightarrow>
     nsv_accepts_new_renders n \<and> list_ex (\<lambda>w. wv_queue_depth w < bl) (nsv_workers n)"

definition has_admission_capacity :: "node_state_view \<Rightarrow> usize \<Rightarrow> bool" where
  "has_admission_capacity n q \<longleftrightarrow>
     nsv_accepts_new_renders n \<and> list_ex (\<lambda>w. wv_queue_depth w < q) (nsv_workers n)"

definition render_admission_gossip_key :: string where
  "render_admission_gossip_key = ''renderer.accepting''"

definition revision_to_gossip :: "style_revision \<Rightarrow> string" where
  "revision_to_gossip r = rev_id r @ CHR ''@'' # decimal (unat (rev_version r))"

definition revision_parse_gossip :: "string \<Rightarrow> style_revision option" where
  "revision_parse_gossip s =
     (case rsplit_once CHR ''@'' s of
        None \<Rightarrow> None
      | Some (i, v) \<Rightarrow>
          if i = [] then None
          else map_option (\<lambda>n. \<lparr>rev_id = i, rev_version = of_nat n\<rparr>) (parse_uint u64_max v))"

fun mode_to_gossip :: "render_mode \<Rightarrow> string" where
  "mode_to_gossip Static = ''static''"
| "mode_to_gossip Tile = ''tile''"

definition mode_parse_gossip :: "string \<Rightarrow> render_mode option" where
  "mode_parse_gossip v =
     (if v = ''static'' then Some Static else if v = ''tile'' then Some Tile else None)"

fun scale_to_gossip :: "scale \<Rightarrow> string" where
  "scale_to_gossip X1 = ''1x''"
| "scale_to_gossip X2 = ''2x''"

definition scale_parse_gossip :: "string \<Rightarrow> scale option" where
  "scale_parse_gossip v = (if v = ''1x'' then Some X1 else if v = ''2x'' then Some X2 else None)"

definition worker_key :: "worker_id \<Rightarrow> string \<Rightarrow> string" where
  "worker_key w f = ''worker.'' @ decimal (unat w) @ CHR ''.'' # f"

fun profile_gossip_values :: "worker_profile option \<Rightarrow> string \<times> string \<times> string" where
  "profile_gossip_values None = ([], [], [])"
| "profile_gossip_values (Some p) =
     (revision_to_gossip (wp_style p), mode_to_gossip (wp_render_mode p), scale_to_gossip (wp_scale p))"

definition encode_worker_kvs ::
  "node_kvs \<Rightarrow> worker_id \<Rightarrow> worker_profile option \<Rightarrow> usize \<Rightarrow> node_kvs" where
  "encode_worker_kvs out w p depth =
     (case profile_gossip_values p of (sv, mv, cv) \<Rightarrow>
        bt_insert (worker_key w ''queue'') (decimal depth)
          (bt_insert (worker_key w ''scale'') cv
            (bt_insert (worker_key w ''mode'') mv
              (bt_insert (worker_key w ''style'') sv out))))"

text \<open>The per-worker accumulator of \<open>from_kvs\<close>.\<close>

record kv_builder =
  kb_loaded_revision :: "style_revision option option"
  kb_render_mode :: "render_mode option"
  kb_scale :: "scale option"
  kb_queue_depth :: "usize option"

definition empty_builder :: kv_builder where
  "empty_builder = \<lparr>kb_loaded_revision = None, kb_render_mode = None, kb_scale = None,
     kb_queue_depth = None\<rparr>"

definition builder_update :: "string \<Rightarrow> string \<Rightarrow> kv_builder \<Rightarrow> kv_builder" where
  "builder_update field v b =
     (if field = ''style'' then
        (if v = [] then b\<lparr>kb_loaded_revision := Some None\<rparr>
         else case revision_parse_gossip v of
                Some r \<Rightarrow> b\<lparr>kb_loaded_revision := Some (Some r)\<rparr>
              | None \<Rightarrow> b)
      else if field = ''mode'' \<and> v \<noteq> [] then b\<lparr>kb_render_mode := mode_parse_gossip v\<rparr>
      else if field = ''scale'' \<and> v \<noteq> [] then b\<lparr>kb_scale := scale_parse_gossip v\<rparr>
      else if field = ''queue'' then b\<lparr>kb_queue_depth := parse_uint usize_max v\<rparr>
      else b)"

text \<open>The key of a worker entry, split into its worker id and its field.\<close>

definition parse_worker_key :: "string \<Rightarrow> (worker_id \<times> string) option" where
  "parse_worker_key k =
     (case strip_prefix ''worker.'' k of
        None \<Rightarrow> None
      | Some rest \<Rightarrow>
          (case split_once CHR ''.'' rest of
             None \<Rightarrow> None
           | Some (wid_s, field) \<Rightarrow>
               map_option (\<lambda>n. (of_nat n, field)) (parse_uint u32_max wid_s)))"

definition kv_step ::
  "string \<times> string \<Rightarrow> bool \<times> (worker_id \<times> kv_builder) list \<Rightarrow> bool \<times> (worker_id \<times> kv_builder) list"
  where
  "kv_step kv acc =
     (if fst kv = render_admission_gossip_key then (snd kv = ''true'', snd acc)
      else case parse_worker_key (fst kv) of
             None \<Rightarrow> acc
           | Some (w, field) \<Rightarrow>
               let b = (case map_of (snd acc) w of None \<Rightarrow> empty_builder | Some b \<Rightarrow> b)
               in (fst acc, bt_insert w (builder_update field (snd kv) b) (snd acc)))"

definition builder_view :: "worker_id \<times> kv_builder \<Rightarrow> worker_view option" where
  "builder_view wb =
     (let b = snd wb in
      case kb_loaded_revision b of
        None \<Rightarrow> None
      | Some None \<Rightarrow>
          map_option (\<lambda>q. \<lparr>wv_id = fst wb, wv_loaded_profile = None, wv_queue_depth = q\<rparr>)
            (kb_queue_depth b)
      | Some (Some r) \<Rightarrow>
          (case (kb_render_mode b, kb_scale b, kb_queue_depth b) of
             (Some m, Some sc, Some q) \<Rightarrow>
               Some \<lparr>wv_id = fst wb,
                     wv_loaded_profile = Some \<lparr>wp_style = r, wp_render_mode = m, wp_scale = sc\<rparr>,
                     wv_queue_depth = q\<rparr>
           | _ \<Rightarrow> None))"

definition from_kvs :: "node_id \<Rightarrow> node_kvs \<Rightarrow> node_state_view" where
  "from_kvs i kvs =
     (let acc = fold kv_step kvs (False, [])
      in \<lparr>nsv_id = i, nsv_accepts_new_renders = fst acc,
          nsv_workers = List.map_filter builder_view (snd acc)\<rparr>)"

section \<open>Namespace sets are canonical\<close>

definition canonical_namespaces :: "string list \<Rightarrow> bool" where
  "canonical_namespaces ns \<longleftrightarrow>
     ns \<noteq> [] \<and> length ns \<le> max_authorization_namespaces \<and> \<not> list_ex namespace_invalid ns
     \<and> sorted_wrt (<) ns \<and> (wildcard \<in> set ns \<longrightarrow> ns = [wildcard])"

lemma windows_not_increasing_iff: "windows_not_increasing ns \<longleftrightarrow> \<not> sorted_wrt (<) ns"
proof (induction ns rule: windows_not_increasing.induct)
  case (1 a b r)
  then show ?case by (auto simp: not_le intro: less_trans)
qed simp_all

lemma singleton_conv: "length xs = 1 \<and> xs ! 0 = x \<longleftrightarrow> xs = [x]"
  by (cases xs) auto

lemma try_from_shared_Inr_iff:
  "namespaces_try_from_shared ns = Inr s \<longleftrightarrow> canonical_namespaces ns \<and> s = NamespaceSet ns"
  unfolding namespaces_try_from_shared_def canonical_namespaces_def windows_not_increasing_iff
    singleton_conv
  by (auto simp: list_ex_iff)

lemma strict_sorted_remdups_adj: "sorted xs \<Longrightarrow> sorted_wrt (<) (remdups_adj xs)"
proof (induction xs rule: remdups_adj.induct)
  case (3 x y xs)
  then show ?case by (auto simp: less_le)
qed simp_all

lemma sorted_of_strict: "sorted_wrt (<) xs \<Longrightarrow> sorted (map (\<lambda>x. x) xs)"
  for xs :: "'a::linorder list"
  by (simp add: strict_sorted_iff)

lemma is_ok_search:
  "sorted_wrt (<) xs \<Longrightarrow> is_ok (binary_search_by (\<lambda>x. x) xs k) \<longleftrightarrow> k \<in> set xs"
  using binary_search_mem [OF sorted_of_strict, of xs k] by (simp add: is_ok_iff)

lemma try_new_Inr_iff:
  "namespaces_try_new ns = Inr s \<longleftrightarrow>
     ns \<noteq> [] \<and> length ns \<le> max_authorization_namespaces \<and> \<not> list_ex namespace_invalid ns
     \<and> s = NamespaceSet (if wildcard \<in> set ns then [wildcard] else remdups_adj (sort ns))"
proof -
  have "is_ok (binary_search_by (\<lambda>x. x) (remdups_adj (sort ns)) wildcard) \<longleftrightarrow> wildcard \<in> set ns"
    by (simp add: is_ok_search strict_sorted_remdups_adj)
  then show ?thesis
    unfolding namespaces_try_new_def Let_def
    by (auto simp: is_ok_def split: sum.splits)
qed

lemma wildcard_valid: "\<not> namespace_invalid wildcard"
  by (simp add: namespace_invalid_def wildcard_def is_ascii_control_def
      max_authorization_namespace_bytes_def)

lemma try_new_canonical:
  assumes "namespaces_try_new ns = Inr s"
  shows "canonical_namespaces (ns_list s)"
proof (cases "wildcard \<in> set ns")
  case True
  with assms show ?thesis
    by (simp add: try_new_Inr_iff canonical_namespaces_def wildcard_valid
        max_authorization_namespaces_def)
next
  case False
  moreover have "length (remdups_adj (sort ns)) \<le> length ns"
    using remdups_adj_length [of "sort ns"] by simp
  moreover have "sort ns = [] \<longleftrightarrow> ns = []"
    by (metis length_0_conv length_sort)
  ultimately show ?thesis
    using assms by (auto simp: try_new_Inr_iff canonical_namespaces_def list_ex_iff
        strict_sorted_remdups_adj)
qed

lemma allows_iff:
  assumes "canonical_namespaces (ns_list a)"
  shows "namespaces_allows a b \<longleftrightarrow>
    wildcard \<in> set (ns_list a) \<or> (\<forall>n\<in>set (ns_list b). n \<noteq> wildcard \<and> n \<in> set (ns_list a))"
proof -
  have "(case ns_list a of [] \<Rightarrow> False | n # _ \<Rightarrow> n = wildcard) \<longleftrightarrow> wildcard \<in> set (ns_list a)"
    using assms by (cases "ns_list a") (auto simp: canonical_namespaces_def)
  with assms show ?thesis
    by (simp add: namespaces_allows_def list_all_iff is_ok_search canonical_namespaces_def)
qed

section \<open>Decoding inverts the gossip encoding\<close>

lemma revision_gossip_roundtrip:
  "rev_id r \<noteq> [] \<Longrightarrow> revision_parse_gossip (revision_to_gossip r) = Some r"
proof -
  have "CHR ''@'' \<notin> set (decimal (unat (rev_version r)))"
    by (rule not_digit_not_in_decimal) (simp add: is_digit_def)
  then show "rev_id r \<noteq> [] \<Longrightarrow> ?thesis"
    by (simp add: revision_parse_gossip_def revision_to_gossip_def rsplit_once_append
        parse_uint_decimal)
qed

lemma revision_to_gossip_not_Nil [simp]: "revision_to_gossip r \<noteq> []"
  by (simp add: revision_to_gossip_def)

lemma mode_gossip_roundtrip [simp]: "mode_parse_gossip (mode_to_gossip m) = Some m"
  by (cases m) (simp_all add: mode_parse_gossip_def)

lemma scale_gossip_roundtrip [simp]: "scale_parse_gossip (scale_to_gossip c) = Some c"
  by (cases c) (simp_all add: scale_parse_gossip_def)

lemma mode_to_gossip_not_Nil [simp]: "mode_to_gossip m \<noteq> []"
  by (cases m) simp_all

lemma scale_to_gossip_not_Nil [simp]: "scale_to_gossip c \<noteq> []"
  by (cases c) simp_all

lemma parse_worker_key_worker_key [simp]: "parse_worker_key (worker_key w f) = Some (w, f)"
proof -
  have "CHR ''.'' \<notin> set (decimal (unat w))"
    by (rule not_digit_not_in_decimal) (simp add: is_digit_def)
  moreover have "strip_prefix ''worker.'' (worker_key w f) = Some (decimal (unat w) @ CHR ''.'' # f)"
    unfolding worker_key_def by (rule strip_prefix_append)
  ultimately show ?thesis
    by (simp add: parse_worker_key_def split_once_append parse_uint_decimal)
qed

lemma worker_key_inj [simp]: "worker_key w f = worker_key w' f' \<longleftrightarrow> w = w' \<and> f = f'"
  by (metis option.inject parse_worker_key_worker_key prod.inject)

lemma worker_key_not_admission [simp]: "worker_key w f \<noteq> render_admission_gossip_key"
  by (simp add: worker_key_def render_admission_gossip_key_def)

definition worker_fields :: "string list" where
  "worker_fields = [''style'', ''mode'', ''scale'', ''queue'']"

text \<open>Keys as the encoder writes them.\<close>

definition encoded_keys :: "node_kvs \<Rightarrow> bool" where
  "encoded_keys kvs \<longleftrightarrow> distinct (map fst kvs) \<and>
     (\<forall>k\<in>fst ` set kvs. k = render_admission_gossip_key
        \<or> (\<exists>w. \<exists>f\<in>set worker_fields. k = worker_key w f))"

text \<open>What the decoder has accumulated for a worker: each field as its own key's value gives it.\<close>

definition built :: "(string \<rightharpoonup> string) \<Rightarrow> worker_id \<Rightarrow> kv_builder" where
  "built m w =
     \<lparr>kb_loaded_revision =
        (case m (worker_key w ''style'') of None \<Rightarrow> None
         | Some v \<Rightarrow> if v = [] then Some None else map_option Some (revision_parse_gossip v)),
      kb_render_mode =
        (case m (worker_key w ''mode'') of None \<Rightarrow> None
         | Some v \<Rightarrow> if v = [] then None else mode_parse_gossip v),
      kb_scale =
        (case m (worker_key w ''scale'') of None \<Rightarrow> None
         | Some v \<Rightarrow> if v = [] then None else scale_parse_gossip v),
      kb_queue_depth =
        (case m (worker_key w ''queue'') of None \<Rightarrow> None | Some v \<Rightarrow> parse_uint usize_max v)\<rparr>"

definition worker_seen :: "(string \<rightharpoonup> string) \<Rightarrow> worker_id \<Rightarrow> bool" where
  "worker_seen m w \<longleftrightarrow> (\<exists>f\<in>set worker_fields. m (worker_key w f) \<noteq> None)"

lemma built_unseen: "\<not> worker_seen m w \<Longrightarrow> built m w = empty_builder"
  by (simp add: built_def worker_seen_def worker_fields_def empty_builder_def)

lemma built_update_other: "w' \<noteq> w \<Longrightarrow> built (m(worker_key w f \<mapsto> v)) w' = built m w'"
  by (simp add: built_def)

lemma built_update_admission: "built (m(render_admission_gossip_key \<mapsto> v)) w = built m w"
  by (simp add: built_def)

lemma builder_update_built:
  assumes "f \<in> set worker_fields" and "m (worker_key w f) = None"
  shows "builder_update f v (built m w) = built (m(worker_key w f \<mapsto> v)) w"
  using assms by (auto simp: worker_fields_def builder_update_def built_def split: option.splits)

lemma worker_seen_update:
  "f \<in> set worker_fields \<Longrightarrow>
     worker_seen (m(worker_key w f \<mapsto> v)) w' \<longleftrightarrow> w' = w \<or> worker_seen m w'"
  by (auto simp: worker_seen_def)

lemma worker_seen_update_admission:
  "worker_seen (m(render_admission_gossip_key \<mapsto> v)) w = worker_seen m w"
  by (simp add: worker_seen_def)

lemma map_of_snoc: "k \<notin> fst ` set L \<Longrightarrow> map_of (L @ [(k, v)]) = (map_of L)(k \<mapsto> v)"
  by (induction L) auto

lemma kv_step_admission: "kv_step (render_admission_gossip_key, v) (a, bs) = (v = ''true'', bs)"
  by (simp add: kv_step_def)

lemma kv_step_worker:
  "kv_step (worker_key w f, v) (a, bs) =
     (a, bt_insert w (builder_update f v (case map_of bs w of None \<Rightarrow> empty_builder | Some b \<Rightarrow> b)) bs)"
  by (simp add: kv_step_def Let_def)

lemma fold_kv_step:
  assumes "encoded_keys kvs"
  shows "let acc = fold kv_step kvs (False, []) in
    bt_sorted (snd acc)
    \<and> fst acc = (map_of kvs render_admission_gossip_key = Some ''true'')
    \<and> (\<forall>w. map_of (snd acc) w =
         (if worker_seen (map_of kvs) w then Some (built (map_of kvs) w) else None))"
  using assms
proof (induction kvs rule: rev_induct)
  case Nil
  then show ?case by (simp add: worker_seen_def)
next
  case (snoc kv L)
  obtain k v where kv: "kv = (k, v)" by (cases kv)
  obtain a bs where acc: "fold kv_step L (False, []) = (a, bs)" by (cases "fold kv_step L (False, [])")
  from snoc.prems kv have L: "encoded_keys L" and fresh: "k \<notin> fst ` set L"
    by (auto simp: encoded_keys_def)
  with snoc.IH acc have IH: "bt_sorted bs" "a = (map_of L render_admission_gossip_key = Some ''true'')"
    "\<And>w. map_of bs w = (if worker_seen (map_of L) w then Some (built (map_of L) w) else None)"
    by (simp_all add: Let_def)
  from snoc.prems kv consider "k = render_admission_gossip_key"
    | w f where "f \<in> set worker_fields" "k = worker_key w f"
    by (auto simp: encoded_keys_def)
  then show ?case
  proof cases
    case 1
    then have m: "map_of (L @ [kv]) = (map_of L)(render_admission_gossip_key \<mapsto> v)"
      using fresh by (simp add: kv map_of_snoc del: map_of_append)
    have f: "fold kv_step (L @ [kv]) (False, []) = (v = ''true'', bs)"
      by (simp add: acc kv 1 kv_step_admission)
    show ?thesis
      unfolding m f Let_def built_update_admission worker_seen_update_admission using IH by simp
  next
    case 2
    then have m: "map_of (L @ [kv]) = (map_of L)(worker_key w f \<mapsto> v)"
      and none: "map_of L (worker_key w f) = None"
      using fresh by (simp_all add: kv map_of_snoc map_of_eq_None_iff del: map_of_append)
    have "(case map_of bs w of None \<Rightarrow> empty_builder | Some b \<Rightarrow> b) = built (map_of L) w"
      by (simp add: IH(3) built_unseen)
    then have f: "fold kv_step (L @ [kv]) (False, []) =
        (a, bt_insert w (built ((map_of L)(worker_key w f \<mapsto> v)) w) bs)"
      by (simp add: acc kv 2 kv_step_worker builder_update_built none)
    show ?thesis
      unfolding m f Let_def worker_seen_update [OF 2(1)]
      using IH by (auto simp: built_update_other worker_key_not_admission [symmetric])
  qed
qed

definition valid_worker_view :: "worker_view \<Rightarrow> bool" where
  "valid_worker_view w \<longleftrightarrow> wv_queue_depth w \<le> usize_max \<and>
     (case wv_loaded_profile w of None \<Rightarrow> True | Some p \<Rightarrow> rev_id (wp_style p) \<noteq> [])"

text \<open>The values the encoder writes for a worker, by field.\<close>

definition field_value :: "worker_view \<Rightarrow> string \<Rightarrow> string" where
  "field_value w f =
     (case profile_gossip_values (wv_loaded_profile w) of (sv, mv, cv) \<Rightarrow>
        if f = ''style'' then sv else if f = ''mode'' then mv
        else if f = ''scale'' then cv else decimal (wv_queue_depth w))"

lemma builder_view_built:
  assumes "valid_worker_view w"
    and "\<forall>f\<in>set worker_fields. m (worker_key (wv_id w) f) = Some (field_value w f)"
  shows "builder_view (wv_id w, built m (wv_id w)) = Some w"
proof (cases "wv_loaded_profile w")
  case None
  with assms show ?thesis
    by (simp add: builder_view_def built_def worker_fields_def field_value_def
        valid_worker_view_def parse_uint_decimal)
next
  case (Some p)
  with assms show ?thesis
    by (simp add: builder_view_def built_def worker_fields_def field_value_def
        valid_worker_view_def parse_uint_decimal revision_gossip_roundtrip)
qed

definition encode_worker_views :: "worker_view list \<Rightarrow> node_kvs \<Rightarrow> node_kvs" where
  "encode_worker_views ws out =
     fold (\<lambda>w out. encode_worker_kvs out (wv_id w) (wv_loaded_profile w) (wv_queue_depth w)) ws out"

lemma bt_sorted_encode_worker_kvs [simp]:
  "bt_sorted out \<Longrightarrow> bt_sorted (encode_worker_kvs out w p d)"
  by (simp add: encode_worker_kvs_def split: prod.splits)

lemma map_of_encode_worker_kvs:
  assumes "bt_sorted out"
  shows "map_of (encode_worker_kvs out (wv_id w) (wv_loaded_profile w) (wv_queue_depth w)) k =
    (if \<exists>f\<in>set worker_fields. k = worker_key (wv_id w) f
     then Some (field_value w (THE f. f \<in> set worker_fields \<and> k = worker_key (wv_id w) f))
     else map_of out k)"
proof -
  have "(THE f. f \<in> set worker_fields \<and> worker_key (wv_id w) g = worker_key (wv_id w) f) = g"
    if "g \<in> set worker_fields" for g
    using that by (intro the_equality) auto
  with assms show ?thesis
    by (auto simp: encode_worker_kvs_def worker_fields_def field_value_def split: prod.splits)
qed

lemma encode_worker_views_maps:
  assumes "distinct (map wv_id ws)"
  shows "bt_sorted (encode_worker_views ws [])
    \<and> (\<forall>w\<in>set ws. \<forall>f\<in>set worker_fields.
         map_of (encode_worker_views ws []) (worker_key (wv_id w) f) = Some (field_value w f))
    \<and> (\<forall>k. (\<forall>w\<in>set ws. \<forall>f\<in>set worker_fields. k \<noteq> worker_key (wv_id w) f) \<longrightarrow>
         map_of (encode_worker_views ws []) k = None)"
  using assms
proof (induction ws rule: rev_induct)
  case Nil
  then show ?case by (simp add: encode_worker_views_def)
next
  case (snoc x ws)
  have eq: "encode_worker_views (ws @ [x]) [] =
      encode_worker_kvs (encode_worker_views ws []) (wv_id x) (wv_loaded_profile x) (wv_queue_depth x)"
    by (simp add: encode_worker_views_def)
  have the_f: "(THE f. f \<in> set worker_fields \<and> worker_key (wv_id x) g = worker_key (wv_id x) f) = g"
    if "g \<in> set worker_fields" for g
    using that by (intro the_equality) auto
  have other: "worker_key (wv_id w) f \<noteq> worker_key (wv_id x) g" if "w \<in> set ws" for w f g
  proof -
    from snoc.prems have "wv_id x \<notin> wv_id ` set ws" by simp
    moreover from that have "wv_id w \<in> wv_id ` set ws" by (rule imageI)
    ultimately have "wv_id w \<noteq> wv_id x" by metis
    then show ?thesis by simp
  qed
  from snoc have "bt_sorted (encode_worker_views ws [])" by simp
  with snoc other show ?case
    unfolding eq by (auto simp: map_of_encode_worker_kvs the_f simp del: worker_key_inj)
qed

lemma map_of_map_key:
  "distinct (map g ws) \<Longrightarrow>
     map_of (map (\<lambda>w. (g w, h (g w))) ws) k = (if k \<in> g ` set ws then Some (h k) else None)"
  by (induction ws) auto

lemma map_filter_all_Some:
  "(\<And>x. x \<in> set xs \<Longrightarrow> f (g x) = Some x) \<Longrightarrow> List.map_filter f (map g xs) = xs"
  by (induction xs) (simp_all add: List.map_filter_simps)

lemma from_kvs_encode:
  assumes "sorted_wrt (<) (map wv_id ws)" and "\<forall>w\<in>set ws. valid_worker_view w"
  shows "from_kvs i (bt_insert render_admission_gossip_key v (encode_worker_views ws [])) =
    \<lparr>nsv_id = i, nsv_accepts_new_renders = (v = ''true''), nsv_workers = ws\<rparr>"
proof -
  have dist: "distinct (map wv_id ws)" using assms(1) by (simp add: strict_sorted_iff)
  define E where "E = encode_worker_views ws []"
  define K where "K = bt_insert render_admission_gossip_key v E"
  note E = encode_worker_views_maps [OF dist, folded E_def]
  then have sE: "bt_sorted E" by blast
  then have mK: "map_of K = (map_of E)(render_admission_gossip_key \<mapsto> v)" and sK: "bt_sorted K"
    by (simp_all add: K_def)
  have vals: "map_of K (worker_key (wv_id w) f) = Some (field_value w f)"
    if "w \<in> set ws" "f \<in> set worker_fields" for w f
    using that E by (simp add: mK)
  have keys: "encoded_keys K"
  proof -
    have "\<exists>w f. f \<in> set worker_fields \<and> k = worker_key w f"
      if "k \<in> fst ` set K" "k \<noteq> render_admission_gossip_key" for k
      using that E by (metis mK fun_upd_apply map_of_eq_None_iff)
    then show ?thesis
      using bt_sorted_distinct [OF sK] by (auto simp: encoded_keys_def)
  qed
  have seen: "worker_seen (map_of K) w \<longleftrightarrow> w \<in> wv_id ` set ws" for w
  proof
    assume "worker_seen (map_of K) w"
    then obtain f where "f \<in> set worker_fields" "map_of E (worker_key w f) \<noteq> None"
      by (auto simp: worker_seen_def mK)
    then show "w \<in> wv_id ` set ws" using E by (metis imageI worker_key_inj)
  next
    assume "w \<in> wv_id ` set ws"
    with vals show "worker_seen (map_of K) w"
      by (auto simp: worker_seen_def worker_fields_def)
  qed
  obtain a bs where acc: "fold kv_step K (False, []) = (a, bs)" by (cases "fold kv_step K (False, [])")
  from fold_kv_step [OF keys] acc
  have bs: "bt_sorted bs" "a = (v = ''true'')"
    "\<And>w. map_of bs w = (if w \<in> wv_id ` set ws then Some (built (map_of K) w) else None)"
    unfolding Let_def seen by (simp_all add: mK del: fun_upd_apply) (simp_all add: mK)
  have "bs = map (\<lambda>w. (wv_id w, built (map_of K) (wv_id w))) ws"
  proof (rule bt_sorted_eqI [OF bs(1)])
    show "bt_sorted (map (\<lambda>w. (wv_id w, built (map_of K) (wv_id w))) ws)"
      using assms(1) by (simp add: bt_sorted_def comp_def)
    show "map_of bs = map_of (map (\<lambda>w. (wv_id w, built (map_of K) (wv_id w))) ws)"
      using map_of_map_key [OF dist, of "built (map_of K)"] by (simp add: fun_eq_iff bs(3))
  qed
  moreover have "builder_view (wv_id w, built (map_of K) (wv_id w)) = Some w" if "w \<in> set ws" for w
    using assms(2) vals that by (intro builder_view_built) auto
  ultimately have "List.map_filter builder_view bs = ws"
    by (simp add: map_filter_all_Some)
  with acc bs(2) show ?thesis
    by (simp add: from_kvs_def Let_def flip: K_def E_def)
qed

section \<open>Properties\<close>

text \<open>C18: the namespaces a token grants are canonical, survive the wire form unchanged, and one grant
  covers another exactly when it is the wildcard, or the other is not and names only namespaces of the
  first: repetition and order in the token do not matter.\<close>

theorem namespaces_grants:
  assumes "namespaces_try_new ns = Inr a" and "namespaces_try_new ms = Inr b"
  shows "canonical_namespaces (ns_list a) \<and> namespaces_try_from_shared (ns_list a) = Inr a
    \<and> (namespaces_allows a b \<longleftrightarrow> wildcard \<in> set ns \<or> (wildcard \<notin> set ms \<and> set ms \<subseteq> set ns))"
proof -
  have c: "canonical_namespaces (ns_list a)" by (rule try_new_canonical [OF assms(1)])
  have "ns_list a = (if wildcard \<in> set ns then [wildcard] else remdups_adj (sort ns))"
    "ns_list b = (if wildcard \<in> set ms then [wildcard] else remdups_adj (sort ms))"
    using assms by (auto simp: try_new_Inr_iff)
  then have "namespaces_allows a b \<longleftrightarrow> wildcard \<in> set ns \<or> (wildcard \<notin> set ms \<and> set ms \<subseteq> set ns)"
    unfolding allows_iff [OF c] by auto
  moreover have "namespaces_try_from_shared (ns_list a) = Inr a"
    using c by (cases a) (simp add: try_from_shared_Inr_iff)
  ultimately show ?thesis using c by simp
qed

theorem namespaces_grants_witness:
  "namespaces_allows (NamespaceSet [''a'', ''b'']) (NamespaceSet [''b''])
   \<and> \<not> namespaces_allows (NamespaceSet [''a'', ''b'']) (NamespaceSet [''*''])
   \<and> namespaces_try_from_shared [''a'', ''b''] = Inr (NamespaceSet [''a'', ''b''])"
proof -
  have a: "namespaces_try_new [''b'', ''a'', ''b''] = Inr (NamespaceSet [''a'', ''b''])"
    and b: "namespaces_try_new [''b''] = Inr (NamespaceSet [''b''])"
    and w: "namespaces_try_new [''*''] = Inr (NamespaceSet [''*''])"
    by (simp_all add: try_new_Inr_iff max_authorization_namespaces_def namespace_invalid_def
        max_authorization_namespace_bytes_def is_ascii_control_def wildcard_def)
  from namespaces_grants [OF a b] namespaces_grants [OF a w] show ?thesis by (simp add: wildcard_def)
qed

end
