(* ===== verification/Hrw.thy ===== *)
theory Hrw
  imports Biei_Types
begin

text \<open>
  \<^verbatim>\<open>crates/mmpf-common/src/rng.rs\<close> (the SplitMix64 mixers), \<^verbatim>\<open>crates/biei-core/src/hrw.rs\<close> (the
  rendezvous-hash weight of a profile on a node), the seeds derived from them in
  \<^verbatim>\<open>dispatcher.rs\<close> and \<^verbatim>\<open>node.rs\<close>, and the bounded top-candidate scan of \<^verbatim>\<open>dispatcher.rs\<close>. The
  mixers are permutations of the 64-bit words, the weight ignores the style version, and the scan
  is the prefix of the stable descending sort, so membership changes disturb it minimally.
\<close>

section \<open>Mixers and hashes\<close>

definition splitmix64_finalize :: "u64 \<Rightarrow> u64" where
  "splitmix64_finalize v =
     (let v1 = (v XOR drop_bit 30 v) * 0xbf58476d1ce4e5b9;
          v2 = (v1 XOR drop_bit 27 v1) * 0x94d049bb133111eb
      in v2 XOR drop_bit 31 v2)"

definition splitmix64 :: "u64 \<Rightarrow> u64" where
  "splitmix64 v = splitmix64_finalize (v + 0x9e3779b97f4a7c15)"

definition fnv1a_continue :: "u64 \<Rightarrow> u64 list \<Rightarrow> u64" where
  "fnv1a_continue h bs = foldl (\<lambda>h b. (h XOR b) * 0x00000100000001b3) h bs"

text \<open>The bytes of a string, widened to \<open>u64\<close> as the loop widens them.\<close>

definition str_bytes :: "string \<Rightarrow> u64 list" where
  "str_bytes s = map of_char s"

definition fnv1a :: "u64 list \<Rightarrow> u64" where
  "fnv1a bs = fnv1a_continue 0xcbf29ce484222325 bs"

definition mode_byte :: "render_mode \<Rightarrow> u64" where
  "mode_byte m = (case m of Static \<Rightarrow> of_char CHR ''s'' | Tile \<Rightarrow> of_char CHR ''t'')"

definition scale_byte :: "scale \<Rightarrow> u64" where
  "scale_byte c = (case c of X1 \<Rightarrow> of_char CHR ''1'' | X2 \<Rightarrow> of_char CHR ''2'')"

definition fnv1a_profile :: "worker_profile \<Rightarrow> u64" where
  "fnv1a_profile p =
     (let h = fnv1a (str_bytes (rev_id (wp_style p)));
          h = fnv1a_continue h [0];
          h = fnv1a_continue h [mode_byte (wp_render_mode p)];
          h = fnv1a_continue h [0]
      in fnv1a_continue h [scale_byte (wp_scale p)])"

definition hrw_weight :: "worker_profile \<Rightarrow> node_id \<Rightarrow> u64" where
  "hrw_weight p node =
     (let profile_hash = fnv1a_profile p;
          node_hash = fnv1a (str_bytes node);
          h = profile_hash * 0x9E3779B97F4A7C15
      in splitmix64_finalize (h XOR node_hash * 0xBF58476D1CE4E5B9))"

definition routing_seed :: "u64 \<Rightarrow> u64 \<Rightarrow> u64" where
  "routing_seed seed task_id = splitmix64_finalize (seed XOR task_id * 0x9E3779B97F4A7C15)"

datatype dispatcher_entropy = Production | Deterministic u64

definition entropy_resolve :: "dispatcher_entropy \<Rightarrow> node_id \<Rightarrow> u64" where
  "entropy_resolve e node =
     (let node_hash = foldl (\<lambda>h b. (h XOR b) * 0x00000100000001b3) 0xcbf29ce484222325 (str_bytes node);
          policy = (case e of Production \<Rightarrow> 0x53b85adf17b683e9
                    | Deterministic run_seed \<Rightarrow> 0x9a6816cb6fc27d31 XOR splitmix64_finalize run_seed)
      in splitmix64_finalize (node_hash XOR policy))"

section \<open>The bounded top-candidate scan\<close>

text \<open>\<open>position(..).unwrap_or(len)\<close>: the index of the first hit, or the length.\<close>

definition position_or_len :: "('a \<Rightarrow> bool) \<Rightarrow> 'a list \<Rightarrow> nat" where
  "position_or_len P xs = length (takeWhile (\<lambda>x. \<not> P x) xs)"

definition top_insert :: "nat \<Rightarrow> 'w::linorder \<times> 'n \<Rightarrow> ('w \<times> 'n) list \<Rightarrow> ('w \<times> 'n) list" where
  "top_insert limit wn acc =
     (let insert_at = position_or_len (\<lambda>e. fst e < fst wn) acc
      in if insert_at < limit
         then take limit (take insert_at acc @ wn # drop insert_at acc)
         else acc)"

definition top_scan :: "('n \<Rightarrow> 'w::linorder) \<Rightarrow> nat \<Rightarrow> 'n list \<Rightarrow> ('w \<times> 'n) list" where
  "top_scan weight limit ns = fold (\<lambda>n. top_insert limit (weight n, n)) ns []"

definition top_hrw_candidates ::
  "node_id list \<Rightarrow> worker_profile \<Rightarrow> nat \<Rightarrow> (node_id \<Rightarrow> bool) \<Rightarrow> forward_candidate list" where
  "top_hrw_candidates members p limit eligible =
     map (\<lambda>wn. \<lparr>fc_node_id = snd wn, fc_drain_worker = None\<rparr>)
       (top_scan (hrw_weight p) limit (filter eligible members))"

section \<open>The mixers are permutations\<close>

lemma xor_drop_bit_inj:
  fixes x y :: "'a::len word"
  assumes "0 < k" and "x XOR drop_bit k x = y XOR drop_bit k y"
  shows "x = y"
proof (rule bit_word_eqI)
  have bits: "(bit x n \<noteq> bit x (k + n)) = (bit y n \<noteq> bit y (k + n))" for n
  proof -
    have "bit (x XOR drop_bit k x) n = bit (y XOR drop_bit k y) n" using assms(2) by simp
    then show ?thesis by (simp add: bit_xor_iff bit_drop_bit_eq)
  qed
  have "bit x n = bit y n" for n
  proof (induction "LENGTH('a) - n" arbitrary: n rule: less_induct)
    case less
    show ?case
    proof (cases "n < LENGTH('a)")
      case True
      then have "bit x (k + n) = bit y (k + n)" using less assms(1) by simp
      with bits [of n] show ?thesis by auto
    next
      case False
      then show ?thesis using bit_imp_le_length [of x n] bit_imp_le_length [of y n] by auto
    qed
  qed
  then show "bit x n = bit y n" for n .
qed

lemma mult_unit_inj: "c * c' = 1 \<Longrightarrow> x * c = y * c \<Longrightarrow> x = y" for x y c c' :: u64
proof -
  assume c: "c * c' = 1" and eq: "x * c = y * c"
  have "x = x * (c * c')" by (simp only: c mult_1_right)
  also have "\<dots> = y * (c * c')" by (simp only: mult.assoc [symmetric] eq)
  also have "\<dots> = y" by (simp only: c mult_1_right)
  finally show "x = y" .
qed

lemma odd_constants:
  "(0xbf58476d1ce4e5b9 :: u64) * 10871156337175269513 = 1"
  "(0x94d049bb133111eb :: u64) * 3573116690164977347 = 1"
  "(0x9E3779B97F4A7C15 :: u64) * 17428512612931826493 = 1"
  by simp_all

lemma splitmix64_finalize_eq_iff:
  "splitmix64_finalize x = splitmix64_finalize y \<longleftrightarrow> x = y"
proof
  assume eq: "splitmix64_finalize x = splitmix64_finalize y"
  let ?m1 = "\<lambda>v :: u64. (v XOR drop_bit 30 v) * 0xbf58476d1ce4e5b9"
  let ?m2 = "\<lambda>v :: u64. (v XOR drop_bit 27 v) * 0x94d049bb133111eb"
  from eq have "?m2 (?m1 x) = ?m2 (?m1 y)"
    unfolding splitmix64_finalize_def Let_def by (rule xor_drop_bit_inj [rotated]) simp
  then have "?m1 x XOR drop_bit 27 (?m1 x) = ?m1 y XOR drop_bit 27 (?m1 y)"
    by (rule mult_unit_inj [OF odd_constants(2)])
  then have "?m1 x = ?m1 y" by (rule xor_drop_bit_inj [rotated]) simp
  then have "x XOR drop_bit 30 x = y XOR drop_bit 30 y"
    by (rule mult_unit_inj [OF odd_constants(1)])
  then show "x = y" by (rule xor_drop_bit_inj [rotated]) simp
qed simp

lemma xor_left_cancel: "a XOR x = a XOR y \<longleftrightarrow> x = y" for a x y :: u64
proof
  assume "a XOR x = a XOR y"
  then have "a XOR (a XOR x) = a XOR (a XOR y)" by simp
  then show "x = y" by (simp flip: xor.assoc)
qed simp

lemma xor_right_cancel: "x XOR a = y XOR a \<longleftrightarrow> x = y" for a x y :: u64
  using xor_left_cancel [of a x y] by (simp add: xor.commute)

lemma routing_seed_eq_iff: "routing_seed s a = routing_seed s b \<longleftrightarrow> a = b"
  by (auto simp: routing_seed_def splitmix64_finalize_eq_iff xor_left_cancel
      dest: mult_unit_inj [OF odd_constants(3)])

lemma entropy_deterministic_eq_iff:
  "entropy_resolve (Deterministic a) node = entropy_resolve (Deterministic b) node \<longleftrightarrow> a = b"
  by (simp add: entropy_resolve_def Let_def splitmix64_finalize_eq_iff xor_left_cancel)

lemma hrw_weight_version: "hrw_weight (p\<lparr>wp_style := r\<rparr>) n = hrw_weight p n"
  if "rev_id r = rev_id (wp_style p)"
  using that by (simp add: hrw_weight_def fnv1a_profile_def)

lemma hrw_weight_eq_iff:
  "hrw_weight p a = hrw_weight p b \<longleftrightarrow> fnv1a (str_bytes a) = fnv1a (str_bytes b)"
  by (auto simp: hrw_weight_def Let_def splitmix64_finalize_eq_iff xor_left_cancel
      dest: mult_unit_inj [OF odd_constants(1)])

section \<open>The scan is a prefix of the stable descending sort\<close>

text \<open>Inserting behind the elements that are not smaller keeps the list sorted.\<close>

definition insert_after :: "('a \<Rightarrow> 'k::linorder) \<Rightarrow> 'a \<Rightarrow> 'a list \<Rightarrow> 'a list" where
  "insert_after f x ys = takeWhile (\<lambda>y. f y \<le> f x) ys @ x # dropWhile (\<lambda>y. f y \<le> f x) ys"

lemma sorted_insert_after: "sorted (map f ys) \<Longrightarrow> sorted (map f (insert_after f x ys))"
proof (induction ys)
  case (Cons y ys)
  then show ?case
    by (auto simp: insert_after_def dest!: set_takeWhileD set_dropWhileD intro: order_trans)
qed (simp add: insert_after_def)

lemma mset_insert_after: "mset (insert_after f x ys) = add_mset x (mset ys)"
proof -
  have "mset ys = mset (takeWhile (\<lambda>y. f y \<le> f x) ys @ dropWhile (\<lambda>y. f y \<le> f x) ys)" by simp
  then show ?thesis unfolding insert_after_def mset_append by simp
qed

lemma filter_insert_after:
  assumes "sorted (map f ys)"
  shows "filter (\<lambda>y. k = f y) (insert_after f x ys) =
    filter (\<lambda>y. k = f y) ys @ (if k = f x then [x] else [])"
  using assms
proof (induction ys)
  case Nil
  then show ?case by (simp add: insert_after_def)
next
  case (Cons y ys)
  show ?case
  proof (cases "f y \<le> f x")
    case True
    with Cons show ?thesis by (auto simp: insert_after_def split: if_splits)
  next
    case False
    with Cons.prems have "filter (\<lambda>z. f x = f z) (y # ys) = []"
      by (auto simp: filter_empty_conv)
    with False show ?thesis by (auto simp: insert_after_def)
  qed
qed

lemma sort_key_snoc: "sort_key f (xs @ [x]) = insert_after f x (sort_key f xs)"
proof (rule properties_for_sort_key)
  show "mset (insert_after f x (sort_key f xs)) = mset (xs @ [x])"
    by (simp add: mset_insert_after)
  show "filter (\<lambda>y. f k = f y) (insert_after f x (sort_key f xs)) = filter (\<lambda>y. f k = f y) (xs @ [x])"
    for k
  proof -
    have "filter (\<lambda>y. f k = f y) (sort_key f xs) = filter (\<lambda>y. f k = f y) xs"
      using sort_key_stable [of f "f k" xs] by (simp only: eq_commute [of "f k"])
    then show ?thesis by (simp add: filter_insert_after)
  qed
  show "sorted (map f (insert_after f x (sort_key f xs)))"
    by (simp add: sorted_insert_after)
qed

lemma top_insert_take:
  assumes "sorted (map (\<lambda>e. Reverse (fst e)) full)"
  shows "top_insert limit wn (take limit full) = take limit (insert_after (\<lambda>e. Reverse (fst e)) wn full)"
proof -
  let ?P = "\<lambda>e. \<not> fst e < fst wn"
  have ia: "insert_after (\<lambda>e. Reverse (fst e)) wn full = takeWhile ?P full @ wn # dropWhile ?P full"
    by (simp add: insert_after_def not_less)
  let ?n = "length (takeWhile ?P full)"
  have tw: "takeWhile ?P (take limit full) = take limit (takeWhile ?P full)"
    by (induction full arbitrary: limit) (auto simp: take_Cons split: nat.splits)
  have pos: "position_or_len (\<lambda>e. fst e < fst wn) (take limit full) = min limit ?n"
    by (simp add: position_or_len_def tw)
  have split: "full = takeWhile ?P full @ dropWhile ?P full" by simp
  show ?thesis
  proof (cases "?n < limit")
    case True
    have "take ?n (take limit full) = takeWhile ?P full"
      using True by (simp add: min_def takeWhile_eq_take [symmetric])
    moreover have "drop ?n (take limit full) = take (limit - ?n) (dropWhile ?P full)"
      using True by (simp add: drop_take dropWhile_eq_drop)
    ultimately show ?thesis
      using True by (simp add: top_insert_def pos ia min_def Let_def take_Cons')
  next
    case False
    then have tk: "take limit full = take limit (takeWhile ?P full)"
      by (subst split, subst take_append) simp
    from False have "top_insert limit wn (take limit full) = take limit full"
      by (simp add: top_insert_def pos)
    with False tk show ?thesis by (simp add: ia)
  qed
qed

lemma sort_key_map_pair:
  "sort_key (\<lambda>e. Reverse (fst e)) (map (\<lambda>n. (w n, n)) ns) =
     map (\<lambda>n. (w n, n)) (sort_key (\<lambda>n. Reverse (w n)) ns)"
proof (induction ns rule: rev_induct)
  case (snoc n ns)
  then show ?case
    by (simp add: sort_key_snoc insert_after_def takeWhile_map dropWhile_map comp_def
        del: sort_key_simps)
qed simp

lemma top_scan_sort:
  "top_scan w limit ns = take limit (map (\<lambda>n. (w n, n)) (sort_key (\<lambda>n. Reverse (w n)) ns))"
proof -
  have "top_scan w limit ns = take limit (sort_key (\<lambda>e. Reverse (fst e)) (map (\<lambda>n. (w n, n)) ns))"
  proof (induction ns rule: rev_induct)
    case Nil
    then show ?case by (simp add: top_scan_def)
  next
    case (snoc n ns)
    have "top_scan w limit (ns @ [n]) = top_insert limit (w n, n) (top_scan w limit ns)"
      by (simp add: top_scan_def)
    with snoc show ?case
      by (simp add: top_insert_take sort_key_snoc del: sort_key_simps)
  qed
  then show ?thesis by (simp add: sort_key_map_pair)
qed

section \<open>Rendezvous ranking\<close>

text \<open>What routing relies on: the selection is a prefix of the ranking by descending weight, so a
  membership change moves only what it must.\<close>

locale ranking =
  fixes weight :: "'n \<Rightarrow> 'w::linorder"
    and select :: "nat \<Rightarrow> 'n list \<Rightarrow> 'n list"
  assumes select_sorted: "select k ns = take k (sort_key (\<lambda>n. Reverse (weight n)) ns)"
begin

lemma select_subset: "set (select k ns) \<subseteq> set ns"
  using set_take_subset [of k "sort_key (\<lambda>n. Reverse (weight n)) ns"] by (simp add: select_sorted)

lemma select_length: "length (select k ns) = min k (length ns)"
  by (simp add: select_sorted)

lemma select_distinct: "distinct ns \<Longrightarrow> distinct (select k ns)"
  by (simp add: select_sorted)

lemma select_dominates:
  assumes "a \<in> set (select k ns)" and "b \<in> set ns" and "b \<notin> set (select k ns)"
  shows "weight b \<le> weight a"
proof -
  let ?L = "sort_key (\<lambda>n. Reverse (weight n)) ns"
  have L: "?L = take k ?L @ drop k ?L" by simp
  have "b \<in> set (drop k ?L)"
    using assms(2,3) unfolding select_sorted by (metis L UnE set_append set_sort)
  moreover have "a \<in> set (take k ?L)" using assms(1) by (simp only: select_sorted)
  moreover have "sorted (map (\<lambda>n. Reverse (weight n)) (take k ?L) @ map (\<lambda>n. Reverse (weight n)) (drop k ?L))"
    by (simp only: L [symmetric] map_append [symmetric] sorted_sort_key)
  ultimately have "Reverse (weight a) \<le> Reverse (weight b)"
    by (fastforce simp only: sorted_append set_map)
  then show ?thesis by simp
qed

lemma select_removeAll:
  assumes "x \<notin> set (select k ns)"
  shows "select k (removeAll x ns) = select k ns"
proof -
  let ?L = "sort_key (\<lambda>n. Reverse (weight n)) ns"
  have "sort_key (\<lambda>n. Reverse (weight n)) (removeAll x ns) = filter (\<lambda>y. x \<noteq> y) ?L"
    by (simp add: removeAll_filter_not_eq filter_sort)
  also have "\<dots> = filter (\<lambda>y. x \<noteq> y) (take k ?L) @ filter (\<lambda>y. x \<noteq> y) (drop k ?L)"
    by (metis append_take_drop_id filter_append)
  also have "filter (\<lambda>y. x \<noteq> y) (take k ?L) = take k ?L"
    using assms by (auto simp: select_sorted filter_id_conv)
  finally show ?thesis using assms
    by (cases "k \<le> length ns") (simp_all add: select_sorted)
qed

lemma take_filter_subset: "set (filter P (take k xs)) \<subseteq> set (take k (filter P xs))"
proof (induction xs arbitrary: k)
  case (Cons x xs)
  show ?case
  proof (cases k)
    case (Suc m)
    have "set (take m (filter P xs)) \<subseteq> set (take (Suc m) (filter P xs))"
      by (rule set_take_subset_set_take) simp
    with Suc Cons [of m] show ?thesis by auto
  qed simp
qed simp

lemma select_join:
  assumes "x \<notin> set (xs @ ys)"
  shows "set (select k (xs @ x # ys)) \<subseteq> insert x (set (select k (xs @ ys)))"
proof
  fix y assume y: "y \<in> set (select k (xs @ x # ys))"
  show "y \<in> insert x (set (select k (xs @ ys)))"
  proof (cases "y = x")
    case False
    let ?L = "sort_key (\<lambda>n. Reverse (weight n)) (xs @ x # ys)"
    have "y \<in> set (take k (filter (\<lambda>z. z \<noteq> x) ?L))"
      using y False take_filter_subset [of "\<lambda>z. z \<noteq> x" k ?L] by (auto simp: select_sorted)
    also have "filter (\<lambda>z. z \<noteq> x) ?L = sort_key (\<lambda>n. Reverse (weight n)) (filter (\<lambda>z. z \<noteq> x) (xs @ x # ys))"
      by (rule filter_sort)
    also have "filter (\<lambda>z. z \<noteq> x) (xs @ x # ys) = xs @ ys"
    proof -
      have "filter (\<lambda>z. z \<noteq> x) xs = xs" "filter (\<lambda>z. z \<noteq> x) ys = ys"
        using assms by (auto simp: filter_id_conv)
      then show ?thesis by simp
    qed
    finally show ?thesis by (simp add: select_sorted)
  qed simp
qed

end

text \<open>The nodes the scan of \<open>dispatcher.rs\<close> selects, in order.\<close>

definition hrw_top :: "worker_profile \<Rightarrow> nat \<Rightarrow> node_id list \<Rightarrow> node_id list" where
  "hrw_top p k ns = map fc_node_id (top_hrw_candidates ns p k (\<lambda>_. True))"

lemma map_fc_top_hrw:
  "map fc_node_id (top_hrw_candidates ns p k eligible) =
     take k (sort_key (\<lambda>n. Reverse (hrw_weight p n)) (filter eligible ns))"
  by (simp add: top_hrw_candidates_def top_scan_sort comp_def take_map)

lemma top_hrw_candidates_eq:
  "top_hrw_candidates ns p k eligible =
     map (\<lambda>n. \<lparr>fc_node_id = n, fc_drain_worker = None\<rparr>)
       (take k (sort_key (\<lambda>n. Reverse (hrw_weight p n)) (filter eligible ns)))"
  by (simp add: top_hrw_candidates_def top_scan_sort comp_def take_map)

interpretation hrw: ranking "hrw_weight p" "hrw_top p" for p
  by unfold_locales (simp add: hrw_top_def map_fc_top_hrw)

lemma top_hrw_candidates_elem:
  "c \<in> set (top_hrw_candidates ns p k eligible) \<Longrightarrow>
     fc_node_id c \<in> set ns \<and> eligible (fc_node_id c) \<and> fc_drain_worker c = None"
  using set_take_subset by (fastforce simp: top_hrw_candidates_eq)

lemma length_top_hrw_candidates:
  "length (top_hrw_candidates ns p k eligible) = min k (length (filter eligible ns))"
  by (simp add: top_hrw_candidates_eq)

lemma top_hrw_candidates_empty_iff:
  "0 < k \<Longrightarrow> top_hrw_candidates ns p k eligible = [] \<longleftrightarrow> (\<forall>n\<in>set ns. \<not> eligible n)"
proof -
  assume k: "0 < k"
  have "top_hrw_candidates ns p k eligible = [] \<longleftrightarrow> min k (length (filter eligible ns)) = 0"
    by (simp only: length_0_conv [symmetric] length_top_hrw_candidates)
  also have "\<dots> \<longleftrightarrow> filter eligible ns = []" using k by (cases k) (auto simp: min_def)
  finally show ?thesis by (simp add: filter_empty_conv)
qed

lemma distinct_top_hrw_candidates:
  "distinct ns \<Longrightarrow> distinct (map fc_node_id (top_hrw_candidates ns p k eligible))"
  by (simp add: map_fc_top_hrw)

lemma top_hrw_candidates_hrw_top:
  "top_hrw_candidates ns p k eligible =
     map (\<lambda>n. \<lparr>fc_node_id = n, fc_drain_worker = None\<rparr>) (hrw_top p k (filter eligible ns))"
  by (simp add: top_hrw_candidates_eq hrw_top_def map_fc_top_hrw comp_def)

lemma filter_removeAll: "filter P (removeAll x xs) = removeAll x (filter P xs)"
  by (induction xs) auto

section \<open>Properties\<close>

text \<open>The bounded insertion scan of the top candidates computes the reference: sort the eligible
  members by descending rendezvous weight, equal weights in member order, and keep the first
  \<open>limit\<close>.\<close>

theorem top_hrw_is_sorted_prefix:
  "map fc_node_id (top_hrw_candidates members p limit eligible) =
     take limit (sort_key (\<lambda>n. Reverse (hrw_weight p n)) (filter eligible members))"
  by (rule map_fc_top_hrw)

text \<open>Membership changes disturb the ranking minimally: losing a node that was not selected
  changes nothing, a joining node displaces others only by being selected itself, and bumping the
  style version moves no weight.\<close>

theorem hrw_minimal_disruption:
  assumes "x \<notin> fc_node_id ` set (top_hrw_candidates members p limit eligible)"
    and "y \<notin> set (xs @ ys)" and "rev_id r = rev_id (wp_style p)"
  shows "top_hrw_candidates (removeAll x members) p limit eligible = top_hrw_candidates members p limit eligible
    \<and> fc_node_id ` set (top_hrw_candidates (xs @ y # ys) p limit eligible)
        \<subseteq> insert y (fc_node_id ` set (top_hrw_candidates (xs @ ys) p limit eligible))
    \<and> top_hrw_candidates members (p\<lparr>wp_style := r\<rparr>) limit eligible = top_hrw_candidates members p limit eligible"
proof (intro conjI)
  have sel: "fc_node_id ` set (top_hrw_candidates ns p limit eligible) = set (hrw_top p limit (filter eligible ns))"
    for ns by (force simp: top_hrw_candidates_hrw_top)
  show "top_hrw_candidates (removeAll x members) p limit eligible = top_hrw_candidates members p limit eligible"
    using hrw.select_removeAll [of x p limit "filter eligible members"] assms(1) [unfolded sel]
    by (simp add: top_hrw_candidates_hrw_top filter_removeAll)
  have "y \<notin> set (filter eligible xs @ filter eligible ys)" using assms(2) by auto
  from hrw.select_join [OF this, of p limit]
  show "fc_node_id ` set (top_hrw_candidates (xs @ y # ys) p limit eligible)
        \<subseteq> insert y (fc_node_id ` set (top_hrw_candidates (xs @ ys) p limit eligible))"
    by (auto simp: sel)
  show "top_hrw_candidates members (p\<lparr>wp_style := r\<rparr>) limit eligible = top_hrw_candidates members p limit eligible"
    by (simp add: top_hrw_candidates_eq hrw_weight_version [OF assms(3)])
qed

definition demo_profile :: worker_profile where
  "demo_profile = \<lparr>wp_style = \<lparr>rev_id = ''s'', rev_version = 1\<rparr>, wp_render_mode = Tile, wp_scale = X1\<rparr>"

lemma demo_selection:
  "top_hrw_candidates [''a'', ''b''] demo_profile 1 (\<lambda>_. True) = [\<lparr>fc_node_id = ''a'', fc_drain_worker = None\<rparr>]"
  by code_simp

end
