(* ===== verification/Biei_Config.thy ===== *)
theory Biei_Config
  imports Biei_Types
begin

text \<open>
  \<^verbatim>\<open>crates/biei-core/src/config.rs\<close>: cost ranges, the SLA-oriented soft queue limit (BL), the
  resolution of a cluster configuration into one node's permits and queue limits, and
  \<^verbatim>\<open>crates/biei-core/src/style_catalog.rs\<close>: the resolution of a style id to its current revision
  and its URL. A panic of the source (an overflowing \<open>Duration\<close> sum, a division by zero) is
  \<open>None\<close>. The \<open>f64\<close> standby ratio is the exact quotient: for fewer than \<open>2 ^ 52\<close> slots the rounded
  quotient compares with \<open>1.5\<close> as the exact one does.
\<close>

section \<open>Cost ranges\<close>

record cost_range =
  cr_min :: duration
  cr_max :: duration

definition cost_fixed :: "duration \<Rightarrow> cost_range" where
  "cost_fixed d = \<lparr>cr_min = d, cr_max = d\<rparr>"

text \<open>\<open>draw lo hi\<close> is the generator's answer to \<open>random_range(lo..=hi)\<close>, which panics on an
  empty range; \<open>as u64\<close> truncates the microseconds.\<close>

definition cost_sample :: "(nat \<Rightarrow> nat \<Rightarrow> nat) \<Rightarrow> cost_range \<Rightarrow> duration option" where
  "cost_sample draw c =
     (if cr_max c \<le> cr_min c then Some (cr_min c)
      else let min_us = as_micros (cr_min c) mod 2 ^ 64;
               max_us = as_micros (cr_max c) mod 2 ^ 64
           in if max_us < min_us then None else Some (draw min_us max_us * 1000))"

definition cost_mid :: "cost_range \<Rightarrow> duration option" where
  "cost_mid c = map_option (\<lambda>d. d div 2) (duration_checked_add (cr_min c) (cr_max c))"

definition cost_saturating_add :: "cost_range \<Rightarrow> cost_range \<Rightarrow> cost_range" where
  "cost_saturating_add a b =
     \<lparr>cr_min = duration_saturating_add (cr_min a) (cr_min b),
      cr_max = duration_saturating_add (cr_max a) (cr_max b)\<rparr>"

datatype bl_capacity_policy = FixedBl usize | AutoBl

datatype tier1_strategy = WeightedRandom | PowerOfTwo

record cluster_config =
  cc_renderer_slots_per_node :: usize
  cc_render_permits_per_node :: "usize option"
  cc_native_render_permits_per_node :: "usize option"
  cc_bl_capacity :: bl_capacity_policy
  cc_queue_capacity_multiplier :: usize
  cc_source_cache_capacity :: usize
  cc_render_output_cache_capacity_bytes :: u64

record queue_limits =
  ql_soft :: usize
  ql_hard :: usize

record cost_config =
  co_style_setup_cost :: cost_range
  co_source_load_cost :: cost_range
  co_render_cpu_cost :: cost_range
  co_render_resource_cost :: cost_range
  co_first_render_resource_cost :: cost_range
  co_hop_latency :: duration
  co_sla :: duration

definition warm_render_cost :: "cost_config \<Rightarrow> cost_range" where
  "warm_render_cost c = cost_saturating_add (co_render_cpu_cost c) (co_render_resource_cost c)"

definition first_render_cost :: "cost_config \<Rightarrow> cost_range" where
  "first_render_cost c =
     cost_saturating_add (co_render_cpu_cost c) (co_first_render_resource_cost c)"

record gossip_config =
  gc_publish_interval :: duration

record routing_config =
  rc_tier1_strategy :: tier1_strategy
  rc_tier3_enabled :: bool
  rc_drain_max_queue :: usize

record resolved_node_config =
  rn_routing :: routing_config
  rn_costs :: cost_config
  rn_gossip :: gossip_config
  rn_queue_limits :: queue_limits
  rn_render_permits :: usize
  rn_native_render_permits :: usize
  rn_source_cache_capacity :: usize
  rn_render_output_cache_capacity_bytes :: u64

section \<open>Resolution\<close>

definition compute_bl_capacity :: "duration \<Rightarrow> duration \<Rightarrow> duration \<Rightarrow> usize option" where
  "compute_bl_capacity s p l =
     (let p_us = max (as_micros p) 1 mod 2 ^ 64
      in if p_us = 0 then None
         else let by_latency = as_micros s mod 2 ^ 64 div p_us;
                  by_sla = as_micros l mod 2 ^ 64 div p_us - 1
              in Some (max (min by_latency by_sla) 1))"

definition resolved_render_permits_per_node :: "cluster_config \<Rightarrow> usize" where
  "resolved_render_permits_per_node c =
     min (max (case cc_render_permits_per_node c of None \<Rightarrow> cc_renderer_slots_per_node c | Some n \<Rightarrow> n) 1)
       (max (cc_renderer_slots_per_node c) 1)"

definition resolved_native_render_permits_per_node :: "cluster_config \<Rightarrow> usize" where
  "resolved_native_render_permits_per_node c =
     min (max (case cc_native_render_permits_per_node c of
                 None \<Rightarrow> resolved_render_permits_per_node c | Some n \<Rightarrow> n) 1)
       (resolved_render_permits_per_node c)"

definition standby_ratio :: "cluster_config \<Rightarrow> rat" where
  "standby_ratio c =
     of_nat (cc_renderer_slots_per_node c) / of_nat (resolved_render_permits_per_node c)"

datatype config_error = StandbyRatio rat

definition validate_standby_ratio :: "cluster_config \<Rightarrow> config_error + unit" where
  "validate_standby_ratio c =
     (if standby_ratio c > 3 / 2 then Inl (StandbyRatio (standby_ratio c)) else Inr ())"

definition resolved_bl_capacity :: "cluster_config \<Rightarrow> cost_config \<Rightarrow> usize option" where
  "resolved_bl_capacity c costs =
     (case cc_bl_capacity c of
        FixedBl n \<Rightarrow> Some n
      | AutoBl \<Rightarrow>
          (case (cost_mid (co_style_setup_cost costs), cost_mid (warm_render_cost costs)) of
             (Some s, Some p) \<Rightarrow> compute_bl_capacity s p (co_sla costs)
           | _ \<Rightarrow> None))"

definition resolved_queue_limits :: "cluster_config \<Rightarrow> cost_config \<Rightarrow> queue_limits option" where
  "resolved_queue_limits c costs =
     (case resolved_bl_capacity c costs of
        None \<Rightarrow> None
      | Some soft \<Rightarrow>
          Some \<lparr>ql_soft = soft,
            ql_hard = max (usize_saturating_mul soft (max (cc_queue_capacity_multiplier c) 1)) soft\<rparr>)"

text \<open>\<open>None\<close> is a panic, \<open>Some (Inl e)\<close> the error the function returns.\<close>

definition resolve_node_config ::
  "cluster_config \<Rightarrow> routing_config \<Rightarrow> cost_config \<Rightarrow> gossip_config
     \<Rightarrow> (config_error + resolved_node_config) option" where
  "resolve_node_config c routing costs gossip =
     (case validate_standby_ratio c of
        Inl e \<Rightarrow> Some (Inl e)
      | Inr _ \<Rightarrow>
          (case resolved_queue_limits c costs of
             None \<Rightarrow> None
           | Some limits \<Rightarrow>
               Some (Inr \<lparr>rn_routing = routing, rn_costs = costs, rn_gossip = gossip,
                 rn_queue_limits = limits,
                 rn_render_permits = resolved_render_permits_per_node c,
                 rn_native_render_permits = resolved_native_render_permits_per_node c,
                 rn_source_cache_capacity = cc_source_cache_capacity c,
                 rn_render_output_cache_capacity_bytes = cc_render_output_cache_capacity_bytes c\<rparr>)))"

section \<open>Properties of the resolution\<close>

lemma compute_bl_capacity_pos: "compute_bl_capacity s p l = Some b \<Longrightarrow> 0 < b"
proof -
  assume b: "compute_bl_capacity s p l = Some b"
  then have "max (as_micros p) 1 mod 2 ^ 64 \<noteq> 0"
    by (intro notI) (simp only: compute_bl_capacity_def Let_def if_True simp_thms option.distinct)
  with b obtain x where "b = max x 1"
    by (simp only: compute_bl_capacity_def Let_def if_False option.inject) blast
  then show "0 < b" by simp
qed

lemma compute_bl_capacity_sla:
  assumes "compute_bl_capacity s p l = Some b"
    and "as_micros l < 2 ^ 64" and "2 * max (as_micros p) 1 \<le> as_micros l"
  shows "(b + 1) * max (as_micros p) 1 \<le> as_micros l"
proof -
  define q where "q = max (as_micros p) 1"
  have q: "0 < q" "q mod 2 ^ 64 = q" "as_micros l mod 2 ^ 64 = as_micros l"
    using assms(2,3) by (auto simp: q_def)
  have two: "2 \<le> as_micros l div q"
    using assms(3) q(1) by (simp add: q_def less_eq_div_iff_mult_less_eq mult.commute)
  from assms(1) have "b = max (min (as_micros s mod 2 ^ 64 div q) (as_micros l div q - 1)) 1"
    unfolding compute_bl_capacity_def q_def [symmetric] Let_def q(2,3)
    using q(1) by (simp split: if_splits)
  with two have "b + 1 \<le> as_micros l div q" by linarith
  then have "(b + 1) * q \<le> as_micros l div q * q" by (rule mult_le_mono1)
  also have "\<dots> \<le> as_micros l" by (rule div_times_less_eq_dividend)
  finally show ?thesis by (simp only: q_def)
qed

lemma resolved_render_permits_bounds:
  "0 < resolved_render_permits_per_node c"
  "resolved_render_permits_per_node c \<le> max (cc_renderer_slots_per_node c) 1"
  by (auto simp: resolved_render_permits_per_node_def)

lemma resolved_native_permits_bounds:
  "0 < resolved_native_render_permits_per_node c"
  "resolved_native_render_permits_per_node c \<le> resolved_render_permits_per_node c"
  using resolved_render_permits_bounds (1) [of c]
  by (auto simp: resolved_native_render_permits_per_node_def)

lemma standby_ratio_le_iff:
  "standby_ratio c \<le> 3 / 2 \<longleftrightarrow>
     2 * cc_renderer_slots_per_node c \<le> 3 * resolved_render_permits_per_node c"
proof -
  let ?s = "cc_renderer_slots_per_node c" and ?p = "resolved_render_permits_per_node c"
  have "0 < ?p" by (rule resolved_render_permits_bounds)
  then have "standby_ratio c \<le> 3 / 2 \<longleftrightarrow> (2 * of_nat ?s :: rat) \<le> 3 * of_nat ?p"
    by (simp add: standby_ratio_def divide_le_eq field_simps)
  also have "\<dots> \<longleftrightarrow> of_nat (2 * ?s) \<le> (of_nat (3 * ?p) :: rat)" by simp
  also have "\<dots> \<longleftrightarrow> 2 * ?s \<le> 3 * ?p" by (rule of_nat_le_iff)
  finally show ?thesis .
qed

lemma resolved_queue_limits_order:
  "resolved_queue_limits c costs = Some q \<Longrightarrow> ql_soft q \<le> ql_hard q"
  by (auto simp: resolved_queue_limits_def split: option.splits)

lemma resolved_queue_limits_hard:
  assumes "resolved_queue_limits c costs = Some q" and "ql_soft q \<le> usize_max"
  shows "ql_hard q = min usize_max (ql_soft q * max (cc_queue_capacity_multiplier c) 1)"
proof -
  have "ql_hard q = max (usize_saturating_mul (ql_soft q) (max (cc_queue_capacity_multiplier c) 1)) (ql_soft q)"
    using assms(1) by (auto simp: resolved_queue_limits_def split: option.splits)
  moreover have "ql_soft q * 1 \<le> ql_soft q * max (cc_queue_capacity_multiplier c) 1"
    by (rule mult_le_mono2) simp
  ultimately show ?thesis using assms(2) by (simp only: usize_saturating_mul_def)
qed

lemma resolve_node_config_Inr:
  assumes "resolve_node_config c routing costs gossip = Some (Inr r)"
  shows "standby_ratio c \<le> 3 / 2"
    and "resolved_queue_limits c costs = Some (rn_queue_limits r)"
    and "rn_render_permits r = resolved_render_permits_per_node c"
    and "rn_native_render_permits r = resolved_native_render_permits_per_node c"
    and "rn_routing r = routing" and "rn_costs r = costs"
  using assms
  by (auto simp: resolve_node_config_def validate_standby_ratio_def split: if_splits option.splits)

section \<open>Style catalog\<close>

record style_definition =
  sd_style_url :: string
  sd_version :: u64

definition initial_style_version :: u64 where
  "initial_style_version = 1"

record style_catalog =
  sc_by_id :: "style_id \<rightharpoonup> style_definition"
  sc_namespace_templates :: "string \<rightharpoonup> string"
  sc_default_template :: "string option"

definition catalog_new :: style_catalog where
  "catalog_new = \<lparr>sc_by_id = Map.empty, sc_namespace_templates = Map.empty, sc_default_template = None\<rparr>"

definition template_for :: "style_catalog \<Rightarrow> style_id \<Rightarrow> (string \<times> string) option" where
  "template_for c i =
     (let fallback = map_option (\<lambda>t. (t, i)) (sc_default_template c)
      in case split_once CHR ''/'' i of
           None \<Rightarrow> fallback
         | Some (namespace, rest) \<Rightarrow>
             (case sc_namespace_templates c namespace of
                Some t \<Rightarrow> Some (t, rest)
              | None \<Rightarrow> fallback))"

definition upsert_definition :: "style_id \<Rightarrow> style_definition \<Rightarrow> style_catalog \<Rightarrow> style_catalog" where
  "upsert_definition i d c = c\<lparr>sc_by_id := (sc_by_id c)(i \<mapsto> d)\<rparr>"

definition set_url_template :: "string \<Rightarrow> style_catalog \<Rightarrow> style_catalog" where
  "set_url_template t c = c\<lparr>sc_default_template := Some t\<rparr>"

definition add_namespace_template :: "string \<Rightarrow> string \<Rightarrow> style_catalog \<Rightarrow> style_catalog" where
  "add_namespace_template n t c =
     c\<lparr>sc_namespace_templates := (sc_namespace_templates c)(n \<mapsto> t)\<rparr>"

definition resolve_latest :: "style_catalog \<Rightarrow> style_id \<Rightarrow> u64 option" where
  "resolve_latest c i =
     (case sc_by_id c i of
        Some d \<Rightarrow> Some (sd_version d)
      | None \<Rightarrow> map_option (\<lambda>_. initial_style_version) (template_for c i))"

definition accepts_revision :: "style_catalog \<Rightarrow> style_revision \<Rightarrow> bool" where
  "accepts_revision c r \<longleftrightarrow> resolve_latest c (rev_id r) = Some (rev_version r)"

text \<open>\<open>str::replace\<close> with a non-empty pattern: left to right, non-overlapping, the replacement is
  not scanned again.\<close>

function replace_str :: "string \<Rightarrow> string \<Rightarrow> string \<Rightarrow> string" where
  "replace_str pat to s =
     (case s of
        [] \<Rightarrow> []
      | c # cs \<Rightarrow>
          (case strip_prefix pat s of
             Some rest \<Rightarrow> if pat = [] then s else to @ replace_str pat to rest
           | None \<Rightarrow> c # replace_str pat to cs))"
  by pat_completeness auto
termination
  by (relation "measure (\<lambda>(pat, to, s). length s)") (auto simp: strip_prefix_Some)

declare replace_str.simps [simp del]

definition definition_for_revision :: "style_catalog \<Rightarrow> style_revision \<Rightarrow> style_definition option" where
  "definition_for_revision c r =
     (let from_template =
            (if rev_version r = initial_style_version
             then map_option
               (\<lambda>(template, subst). \<lparr>sd_style_url = replace_str ''{style_id}'' subst template,
                  sd_version = initial_style_version\<rparr>)
               (template_for c (rev_id r))
             else None)
      in case sc_by_id c (rev_id r) of
           Some d \<Rightarrow> if sd_version d = rev_version r then Some d else from_template
         | None \<Rightarrow> from_template)"

lemma definition_for_revision_version:
  "definition_for_revision c r = Some d \<Longrightarrow> sd_version d = rev_version r"
  by (auto simp: definition_for_revision_def Let_def split: option.splits if_splits)

lemma accepts_revision_definition:
  "accepts_revision c r \<Longrightarrow> \<exists>d. definition_for_revision c r = Some d"
  by (auto simp: accepts_revision_def resolve_latest_def definition_for_revision_def Let_def
      split: option.splits)

lemma resolve_latest_upsert:
  "resolve_latest (upsert_definition i d c) j = (if j = i then Some (sd_version d) else resolve_latest c j)"
  by (auto simp: resolve_latest_def upsert_definition_def template_for_def Let_def split: option.splits)

lemma accepts_one_version:
  "accepts_revision c r \<Longrightarrow> accepts_revision c r' \<Longrightarrow> rev_id r = rev_id r' \<Longrightarrow>
     rev_version r = rev_version r'"
  by (simp add: accepts_revision_def)

lemma upsert_keeps_templates:
  "sc_namespace_templates (upsert_definition i d c) = sc_namespace_templates c"
  "sc_default_template (upsert_definition i d c) = sc_default_template c"
  by (simp_all add: upsert_definition_def)

section \<open>Properties\<close>

text \<open>A resolved configuration is consistent: at least one native permit, no more of them than
  render permits, no more render permits than slots, at most half as many standby slots again, a soft
  limit no higher than the hard one, and, when the soft limit is computed, a full queue that still
  drains within the SLA at the warm render cost.\<close>

theorem resolved_config_bounds:
  assumes "resolve_node_config c routing costs gossip = Some (Inr r)"
  shows "0 < rn_native_render_permits r \<and> rn_native_render_permits r \<le> rn_render_permits r
    \<and> rn_render_permits r \<le> max (cc_renderer_slots_per_node c) 1
    \<and> 2 * cc_renderer_slots_per_node c \<le> 3 * rn_render_permits r
    \<and> ql_soft (rn_queue_limits r) \<le> ql_hard (rn_queue_limits r)
    \<and> (\<forall>p. cc_bl_capacity c = AutoBl \<and> cost_mid (warm_render_cost costs) = Some p
          \<and> as_micros (co_sla costs) < 2 ^ 64 \<and> 2 * max (as_micros p) 1 \<le> as_micros (co_sla costs) \<longrightarrow>
         (ql_soft (rn_queue_limits r) + 1) * max (as_micros p) 1 \<le> as_micros (co_sla costs))"
proof -
  note r = resolve_node_config_Inr [OF assms]
  have "resolved_bl_capacity c costs = Some (ql_soft (rn_queue_limits r))"
    using r(2) by (auto simp: resolved_queue_limits_def dest: arg_cong [where f = ql_soft] split: option.splits)
  then have "compute_bl_capacity s p (co_sla costs) = Some (ql_soft (rn_queue_limits r))"
    if "cc_bl_capacity c = AutoBl" "cost_mid (warm_render_cost costs) = Some p"
      "cost_mid (co_style_setup_cost costs) = Some s" for s p
    using that by (simp add: resolved_bl_capacity_def)
  moreover have "\<exists>s. cost_mid (co_style_setup_cost costs) = Some s" if "cc_bl_capacity c = AutoBl"
    using r(2) that by (auto simp: resolved_queue_limits_def resolved_bl_capacity_def split: option.splits)
  ultimately have "\<forall>p. cc_bl_capacity c = AutoBl \<and> cost_mid (warm_render_cost costs) = Some p
          \<and> as_micros (co_sla costs) < 2 ^ 64 \<and> 2 * max (as_micros p) 1 \<le> as_micros (co_sla costs) \<longrightarrow>
         (ql_soft (rn_queue_limits r) + 1) * max (as_micros p) 1 \<le> as_micros (co_sla costs)"
    using compute_bl_capacity_sla by blast
  moreover note resolved_native_permits_bounds [of c] resolved_render_permits_bounds [of c]
    resolved_queue_limits_order [OF r(2)] r(1) [unfolded standby_ratio_le_iff]
  ultimately show ?thesis unfolding r(3,4) by blast
qed

definition demo_cluster_config :: cluster_config where
  "demo_cluster_config =
     \<lparr>cc_renderer_slots_per_node = 6, cc_render_permits_per_node = Some 4, cc_native_render_permits_per_node = Some 9,
      cc_bl_capacity = AutoBl, cc_queue_capacity_multiplier = 3, cc_source_cache_capacity = 8,
      cc_render_output_cache_capacity_bytes = 0\<rparr>"

definition demo_config_costs :: cost_config where
  "demo_config_costs =
     \<lparr>co_style_setup_cost = cost_fixed (millis 200), co_source_load_cost = cost_fixed (millis 10),
      co_render_cpu_cost = cost_fixed (millis 30), co_render_resource_cost = cost_fixed (millis 20),
      co_first_render_resource_cost = cost_fixed (millis 70), co_hop_latency = millis 1, co_sla = millis 2000\<rparr>"

text \<open>The catalog pins a style to one revision: an accepted revision has a definition of exactly its
  version, two accepted revisions of one style are equal, and publishing a definition replaces what is
  accepted for that style and for no other.\<close>

theorem catalog_pins_one_revision:
  assumes "accepts_revision c r"
  shows "(\<exists>d. definition_for_revision c r = Some d \<and> sd_version d = rev_version r)
    \<and> (\<forall>r'. accepts_revision c r' \<and> rev_id r' = rev_id r \<longrightarrow> rev_version r' = rev_version r)
    \<and> (\<forall>i d. accepts_revision (upsert_definition i d c) r \<longleftrightarrow> rev_id r \<noteq> i \<or> sd_version d = rev_version r)"
  using accepts_revision_definition [OF assms] definition_for_revision_version accepts_one_version [OF _ assms]
    assms
  by (auto simp: accepts_revision_def resolve_latest_upsert)

end
