(* ===== verification/Dispatcher.thy ===== *)
theory Dispatcher
  imports Hrw Biei_Config
begin

text \<open>
  \<^verbatim>\<open>crates/biei-core/src/dispatcher.rs\<close>: the routing decision. Tier 1 tracks nodes that are
  already warm for the profile, tier 2 ranks nodes with soft capacity by rendezvous weight, tier 3
  picks a worker to drain and swap when its drain estimate meets the SLA, tier 4 overflows to nodes
  below the hard limit. The clock read of tier 3 is the argument \<open>now\<close>. The generator of tier 1 is
  a pair of parameters: \<open>seed\<close> builds its state from the routing seed, \<open>draw n g\<close> draws from
  \<open>0..n\<close>. A panic (an overflowing \<open>Duration\<close> sum, \<open>unreachable!\<close>, \<open>expect\<close>) is \<open>None\<close>.
\<close>

section \<open>Dispatch view\<close>

definition default_forward_candidates :: nat where
  "default_forward_candidates = 2"

record dispatch_view =
  dv_cluster :: cluster_view
  dv_local :: "node_state_view option"

definition dv_new :: "cluster_view \<Rightarrow> node_state_view option \<Rightarrow> dispatch_view" where
  "dv_new cluster local =
     \<lparr>dv_cluster = cluster,
      dv_local = (case local of Some s \<Rightarrow> if nsv_id s \<in> set (cv_members cluster) then Some s else None
                  | None \<Rightarrow> None)\<rparr>"

definition dv_members :: "dispatch_view \<Rightarrow> node_id list" where
  "dv_members v = cv_members (dv_cluster v)"

definition dv_state :: "dispatch_view \<Rightarrow> node_id \<Rightarrow> node_state_view option" where
  "dv_state v i =
     (case dv_local v of
        Some l \<Rightarrow> if nsv_id l = i then Some l else map_of (cv_states (dv_cluster v)) i
      | None \<Rightarrow> map_of (cv_states (dv_cluster v)) i)"

definition dv_remote :: "dispatch_view \<Rightarrow> (node_id \<times> node_state_view) list" where
  "dv_remote v =
     filter (\<lambda>(i, _). case dv_local v of None \<Rightarrow> True | Some l \<Rightarrow> nsv_id l \<noteq> i)
       (cv_states (dv_cluster v))"

definition dv_states :: "dispatch_view \<Rightarrow> node_state_view list" where
  "dv_states v = map snd (dv_remote v) @ (case dv_local v of None \<Rightarrow> [] | Some l \<Rightarrow> [l])"

definition dv_state_entries :: "dispatch_view \<Rightarrow> (node_id \<times> node_state_view) list" where
  "dv_state_entries v =
     dv_remote v @ (case dv_local v of None \<Rightarrow> [] | Some l \<Rightarrow> [(nsv_id l, l)])"

section \<open>Dispatcher\<close>

record dispatcher =
  dp_node_id :: node_id
  dp_config :: routing_config
  dp_costs :: cost_config
  dp_bl_capacity :: usize
  dp_queue_capacity :: usize
  dp_seed :: u64

definition dispatcher_new ::
  "node_id \<Rightarrow> routing_config \<Rightarrow> cost_config \<Rightarrow> usize \<Rightarrow> usize \<Rightarrow> u64 \<Rightarrow> dispatcher" where
  "dispatcher_new node config costs bl queue resolved_seed =
     \<lparr>dp_node_id = node, dp_config = config, dp_costs = costs, dp_bl_capacity = bl,
      dp_queue_capacity = max queue bl, dp_seed = resolved_seed\<rparr>"

text \<open>\<open>queue_depth as u32\<close> truncates; the two sums are plain \<open>+\<close>.\<close>

definition estimate_drain_eta ::
  "dispatcher \<Rightarrow> worker_view \<Rightarrow> worker_profile \<Rightarrow> duration option" where
  "estimate_drain_eta d w task_profile =
     (case (cost_mid (warm_render_cost (dp_costs d)), cost_mid (first_render_cost (dp_costs d)),
            cost_mid (co_style_setup_cost (dp_costs d))) of
        (Some warm_p, Some first_p, Some s) \<Rightarrow>
          (case duration_checked_add first_p s of
             None \<Rightarrow> None
           | Some per_ahead \<Rightarrow>
               let queue_wait =
                     (case duration_checked_mul per_ahead (wv_queue_depth w mod 2 ^ 32) of
                        None \<Rightarrow> duration_max | Some q \<Rightarrow> q);
                   own = (if wv_loaded_profile w = Some task_profile then Some warm_p
                          else duration_checked_add s first_p)
               in map_option (duration_saturating_add queue_wait) own)
      | _ \<Rightarrow> None)"

subsection \<open>Tier 1\<close>

record warm_cand =
  wc_node :: node_state_view
  wc_warm_count :: nat
  wc_style_spare_bl :: usize

definition warm_visit ::
  "worker_profile \<Rightarrow> usize \<Rightarrow> worker_view \<Rightarrow> nat \<times> usize \<times> bool \<Rightarrow> nat \<times> usize \<times> bool" where
  "warm_visit p bl w = (\<lambda>(warm_count, spare, usable).
     if wv_loaded_profile w = Some p
     then (warm_count + 1, (spare + (bl - wv_queue_depth w)) mod 2 ^ 64, usable \<or> wv_queue_depth w < bl)
     else if wv_loaded_profile w = None then (warm_count, spare, True)
     else (warm_count, spare, usable))"

definition warm_candidate :: "worker_profile \<Rightarrow> usize \<Rightarrow> node_state_view \<Rightarrow> warm_cand option" where
  "warm_candidate p bl node =
     (if \<not> nsv_accepts_new_renders node then None
      else case fold (warm_visit p bl) (nsv_workers node) (0, 0, False) of
        (warm_count, spare, usable) \<Rightarrow>
          if 0 < warm_count \<and> usable
          then Some \<lparr>wc_node = node, wc_warm_count = warm_count, wc_style_spare_bl = spare\<rparr>
          else None)"

definition warm_candidates :: "dispatcher \<Rightarrow> dispatch_view \<Rightarrow> worker_profile \<Rightarrow> warm_cand list" where
  "warm_candidates d v p = List.map_filter (warm_candidate p (dp_bl_capacity d)) (dv_states v)"

text \<open>The ticket loop of the weighted choice; running off the end is \<open>unreachable!\<close>.\<close>

fun pick_ticket :: "warm_cand list \<Rightarrow> nat \<Rightarrow> warm_cand option" where
  "pick_ticket [] ticket = None"
| "pick_ticket (c # cs) ticket =
     (if ticket < wc_warm_count c then Some c else pick_ticket cs (ticket - wc_warm_count c))"

text \<open>The two samples of the power-of-two choice; a sampled index without a candidate fails
  \<open>expect\<close>.\<close>

definition pick_two :: "(nat \<Rightarrow> 'g \<Rightarrow> nat \<times> 'g) \<Rightarrow> warm_cand list \<Rightarrow> 'g \<Rightarrow> warm_cand option" where
  "pick_two draw cs rng =
     (let (first_idx, rng) = draw (length cs) rng;
          (second_idx, rng) = draw (length cs - 1) rng;
          second_idx = (if first_idx \<le> second_idx then second_idx + 1 else second_idx)
      in if first_idx < length cs \<and> second_idx < length cs
         then let first = cs ! first_idx; second = cs ! second_idx
              in Some (if wc_style_spare_bl second \<le> wc_style_spare_bl first then first else second)
         else None)"

text \<open>\<open>None\<close> is a panic, \<open>Some None\<close> no warm target.\<close>

definition select_warm_target ::
  "(u64 \<Rightarrow> 'g) \<Rightarrow> (nat \<Rightarrow> 'g \<Rightarrow> nat \<times> 'g) \<Rightarrow> dispatcher \<Rightarrow> internal_task \<Rightarrow> dispatch_view
     \<Rightarrow> worker_profile \<Rightarrow> node_id option option" where
  "select_warm_target seed draw d task v p =
     (let rng = seed (routing_seed (dp_seed d) (it_id task));
          cs = warm_candidates d v p
      in case rc_tier1_strategy (dp_config d) of
           WeightedRandom \<Rightarrow>
             (let total = sum_list (map wc_warm_count cs)
              in if total = 0 then Some None
                 else map_option (\<lambda>c. Some (nsv_id (wc_node c))) (pick_ticket cs (fst (draw total rng))))
         | PowerOfTwo \<Rightarrow>
             (case cs of
                [] \<Rightarrow> Some None
              | [c] \<Rightarrow> Some (Some (nsv_id (wc_node c)))
              | _ \<Rightarrow> map_option (\<lambda>c. Some (nsv_id (wc_node c))) (pick_two draw cs rng)))"

subsection \<open>Tier 3\<close>

type_synonym tier3_key = "bool \<times> bool \<times> usize reverse"

definition tier3_sort_key ::
  "worker_profile option \<Rightarrow> worker_profile \<Rightarrow> (worker_profile \<rightharpoonup> nat) \<Rightarrow> tier3_key" where
  "tier3_sort_key loaded task_profile counts =
     (case loaded of
        None \<Rightarrow> (False, True, Reverse usize_max)
      | Some p \<Rightarrow>
          (let count = (case counts p of None \<Rightarrow> 0 | Some n \<Rightarrow> n);
               shape_mismatch = (wp_render_mode p \<noteq> wp_render_mode task_profile
                 \<or> wp_scale p \<noteq> wp_scale task_profile)
           in (count \<le> 1, shape_mismatch, Reverse count)))"

definition count_profile ::
  "worker_view \<Rightarrow> (worker_profile \<rightharpoonup> nat) \<Rightarrow> (worker_profile \<rightharpoonup> nat)" where
  "count_profile w counts =
     (case wv_loaded_profile w of
        None \<Rightarrow> counts
      | Some p \<Rightarrow> counts(p \<mapsto> (case counts p of None \<Rightarrow> 0 | Some n \<Rightarrow> n) + 1))"

definition is_drain_candidate :: "usize \<Rightarrow> worker_profile \<Rightarrow> worker_view \<Rightarrow> bool" where
  "is_drain_candidate drain_max task_profile w \<longleftrightarrow>
     wv_queue_depth w < drain_max
     \<and> (case wv_loaded_profile w of None \<Rightarrow> True | Some p \<Rightarrow> p \<noteq> task_profile)"

type_synonym tier3_acc = "(worker_profile \<rightharpoonup> nat) \<times> (node_id \<times> worker_view) list"

definition tier3_visit ::
  "usize \<Rightarrow> worker_profile \<Rightarrow> node_id \<Rightarrow> worker_view \<Rightarrow> tier3_acc \<Rightarrow> tier3_acc" where
  "tier3_visit drain_max task_profile nid w = (\<lambda>(counts, cands).
     (count_profile w counts,
      if is_drain_candidate drain_max task_profile w then cands @ [(nid, w)] else cands))"

definition tier3_collect ::
  "usize \<Rightarrow> worker_profile \<Rightarrow> (node_id \<times> node_state_view) list \<Rightarrow> tier3_acc" where
  "tier3_collect drain_max task_profile entries =
     fold (\<lambda>(nid, node) acc.
         if nsv_accepts_new_renders node
         then fold (tier3_visit drain_max task_profile nid) (nsv_workers node) acc
         else acc)
       entries (Map.empty, [])"

definition tier3_order ::
  "worker_profile \<Rightarrow> (worker_profile \<rightharpoonup> nat) \<Rightarrow> node_id \<times> worker_view
     \<Rightarrow> tier3_key \<times> usize \<times> node_id \<times> worker_id" where
  "tier3_order task_profile counts = (\<lambda>(nid, w).
     (tier3_sort_key (wv_loaded_profile w) task_profile counts, wv_queue_depth w, nid, wv_id w))"

definition meets_sla :: "instant \<Rightarrow> instant option \<Rightarrow> duration \<Rightarrow> bool" where
  "meets_sla now sla_deadline eta \<longleftrightarrow>
     (case sla_deadline of
        None \<Rightarrow> True
      | Some deadline \<Rightarrow> (case instant_checked_add now eta of None \<Rightarrow> False | Some t \<Rightarrow> t \<le> deadline))"

fun tier3_select ::
  "(worker_view \<Rightarrow> duration option) \<Rightarrow> (duration \<Rightarrow> bool) \<Rightarrow> nat \<Rightarrow> (node_id \<times> worker_view) list
     \<Rightarrow> forward_candidate list \<Rightarrow> forward_candidate list option" where
  "tier3_select eta ok limit [] selected = Some selected"
| "tier3_select eta ok limit ((nid, w) # rest) selected =
     (case eta w of
        None \<Rightarrow> None
      | Some e \<Rightarrow>
          if ok e
          then let selected' = selected @ [\<lparr>fc_node_id = nid, fc_drain_worker = Some (wv_id w)\<rparr>]
               in if limit \<le> length selected' then Some selected'
                  else tier3_select eta ok limit rest selected'
          else tier3_select eta ok limit rest selected)"

definition tier3_candidates_view ::
  "instant \<Rightarrow> dispatcher \<Rightarrow> dispatch_view \<Rightarrow> internal_task \<Rightarrow> nat \<Rightarrow> forward_candidate list option" where
  "tier3_candidates_view now d v task limit =
     (let sla_deadline = instant_checked_add (it_arrived_at task) (co_sla (dp_costs d));
          task_profile = task_worker_profile task;
          (counts, cands) = tier3_collect (rc_drain_max_queue (dp_config d)) task_profile (dv_state_entries v)
      in if cands = [] then Some []
         else tier3_select (\<lambda>w. estimate_drain_eta d w task_profile) (meets_sla now sla_deadline) limit
                (sort_key (tier3_order task_profile counts) cands) [])"

subsection \<open>The decision\<close>

definition materialize_candidates ::
  "dispatcher \<Rightarrow> internal_task \<Rightarrow> route_tier \<Rightarrow> forward_candidate list \<Rightarrow> decision" where
  "materialize_candidates d task tier cands =
     (case cands of
        [] \<Rightarrow> Reject NoCapacity
      | first # rest \<Rightarrow>
          if fc_node_id first = dp_node_id d
          then Local tier (fc_drain_worker first)
                 (if 1 \<le> it_forwarding_hops task then []
                  else filter (\<lambda>c. fc_node_id c \<noteq> dp_node_id d) rest)
          else if 1 \<le> it_forwarding_hops task then Local tier None []
          else Forward tier (filter (\<lambda>c. fc_node_id c \<noteq> dp_node_id d) cands))"

definition state_satisfies :: "dispatch_view \<Rightarrow> (node_state_view \<Rightarrow> bool) \<Rightarrow> node_id \<Rightarrow> bool" where
  "state_satisfies v P i = (case dv_state v i of None \<Rightarrow> False | Some n \<Rightarrow> P n)"

definition decide_view ::
  "(u64 \<Rightarrow> 'g) \<Rightarrow> (nat \<Rightarrow> 'g \<Rightarrow> nat \<times> 'g) \<Rightarrow> instant \<Rightarrow> dispatcher \<Rightarrow> internal_task \<Rightarrow> dispatch_view
     \<Rightarrow> decision option" where
  "decide_view seed draw now d task v =
     (let p = task_worker_profile task;
          top_cands = (\<lambda>eligible. top_hrw_candidates (dv_members v) p default_forward_candidates eligible);
          soft = state_satisfies v (\<lambda>n. has_capacity n (dp_bl_capacity d));
          overflow = (\<lambda>_ :: unit.
            let tier4 = top_cands (state_satisfies v (\<lambda>n. has_admission_capacity n (dp_queue_capacity d)))
            in if tier4 \<noteq> [] then materialize_candidates d task Tier4Overflow tier4
               else Reject NoCapacity)
      in case select_warm_target seed draw d task v p of
           None \<Rightarrow> None
         | Some (Some target) \<Rightarrow>
             Some (materialize_candidates d task Tier1WarmTracking
               (\<lparr>fc_node_id = target, fc_drain_worker = None\<rparr>
                # take (default_forward_candidates - 1) (top_cands (\<lambda>i. i \<noteq> target \<and> soft i))))
         | Some None \<Rightarrow>
             (let tier2 = top_cands soft
              in if tier2 \<noteq> [] then Some (materialize_candidates d task Tier2HrwBl tier2)
                 else if rc_tier3_enabled (dp_config d)
                 then (case tier3_candidates_view now d v task default_forward_candidates of
                         None \<Rightarrow> None
                       | Some tier3 \<Rightarrow>
                           if tier3 \<noteq> [] then Some (materialize_candidates d task Tier3DrainSwap tier3)
                           else Some (overflow ()))
                 else Some (overflow ())))"

definition decide_with_local_state ::
  "(u64 \<Rightarrow> 'g) \<Rightarrow> (nat \<Rightarrow> 'g \<Rightarrow> nat \<times> 'g) \<Rightarrow> instant \<Rightarrow> dispatcher \<Rightarrow> internal_task
     \<Rightarrow> cluster_view \<Rightarrow> node_state_view \<Rightarrow> decision option" where
  "decide_with_local_state seed draw now d task cluster local =
     decide_view seed draw now d task (dv_new cluster (Some local))"

section \<open>Lemmas on the view\<close>

definition dispatch_view_wf :: "dispatch_view \<Rightarrow> bool" where
  "dispatch_view_wf v \<longleftrightarrow>
     distinct (map fst (cv_states (dv_cluster v)))
     \<and> list_all (\<lambda>(i, n). nsv_id n = i) (cv_states (dv_cluster v))"

lemma dispatch_view_wfD:
  assumes "dispatch_view_wf v"
  shows "distinct (map fst (cv_states (dv_cluster v)))"
    and "(i, n) \<in> set (cv_states (dv_cluster v)) \<Longrightarrow> nsv_id n = i"
  using assms by (auto simp: dispatch_view_wf_def list_all_iff)

lemma dv_state_entries_iff:
  "dispatch_view_wf v \<Longrightarrow> (i, n) \<in> set (dv_state_entries v) \<longleftrightarrow> dv_state v i = Some n"
  by (auto simp: dv_state_entries_def dv_remote_def dv_state_def dispatch_view_wfD
      split: option.splits if_splits)

lemma dv_states_entries: "dv_states v = map snd (dv_state_entries v)"
  by (simp add: dv_states_def dv_state_entries_def split: option.splits)

lemma dv_state_id: "dispatch_view_wf v \<Longrightarrow> dv_state v i = Some n \<Longrightarrow> nsv_id n = i"
  by (auto simp: dv_state_def dest: dispatch_view_wfD(2) map_of_SomeD split: option.splits if_splits)

lemma dv_states_state: "dispatch_view_wf v \<Longrightarrow> n \<in> set (dv_states v) \<Longrightarrow> dv_state v (nsv_id n) = Some n"
  by (auto simp: dv_states_entries dv_state_entries_iff dv_state_id)

lemma dv_state_states: "dispatch_view_wf v \<Longrightarrow> dv_state v i = Some n \<Longrightarrow> n \<in> set (dv_states v)"
  by (force simp: dv_states_entries dv_state_entries_iff [symmetric])

section \<open>Lemmas on tier 1\<close>

definition rng_in_range :: "(nat \<Rightarrow> 'g \<Rightarrow> nat \<times> 'g) \<Rightarrow> bool" where
  "rng_in_range draw \<longleftrightarrow> (\<forall>n g. 0 < n \<longrightarrow> fst (draw n g) < n)"

definition usable_warm :: "worker_profile \<Rightarrow> usize \<Rightarrow> node_state_view \<Rightarrow> bool" where
  "usable_warm p bl n \<longleftrightarrow>
     nsv_accepts_new_renders n
     \<and> list_ex (\<lambda>w. wv_loaded_profile w = Some p) (nsv_workers n)
     \<and> list_ex (\<lambda>w. wv_loaded_profile w = None
           \<or> wv_loaded_profile w = Some p \<and> wv_queue_depth w < bl) (nsv_workers n)"

lemma warm_visit_fold:
  "fold (warm_visit p bl) ws (k, s, u) = (k', s', u') \<Longrightarrow>
     k' = k + length (filter (\<lambda>w. wv_loaded_profile w = Some p) ws)
     \<and> (u' \<longleftrightarrow> u \<or> list_ex (\<lambda>w. wv_loaded_profile w = None
           \<or> wv_loaded_profile w = Some p \<and> wv_queue_depth w < bl) ws)"
proof (induction ws arbitrary: k s u)
  case (Cons w ws)
  obtain k1 s1 u1 where 1: "warm_visit p bl w (k, s, u) = (k1, s1, u1)" by (cases "warm_visit p bl w (k, s, u)")
  with Cons.prems have "fold (warm_visit p bl) ws (k1, s1, u1) = (k', s', u')" by simp
  from Cons.IH [OF this] 1 show ?case
    by (cases "wv_loaded_profile w") (auto simp: warm_visit_def split: if_splits)
qed simp

lemma warm_candidate_Some_iff: "(\<exists>c. warm_candidate p bl n = Some c) \<longleftrightarrow> usable_warm p bl n"
proof -
  obtain k s u where f: "fold (warm_visit p bl) (nsv_workers n) (0, 0, False) = (k, s, u)"
    by (cases "fold (warm_visit p bl) (nsv_workers n) (0, 0, False)")
  from warm_visit_fold [OF f] show ?thesis
    by (auto simp: warm_candidate_def f usable_warm_def list_ex_iff filter_empty_conv
        simp flip: length_greater_0_conv)
qed

lemma warm_candidateD:
  assumes "warm_candidate p bl n = Some c"
  shows "wc_node c = n" and "0 < wc_warm_count c"
    and "wc_warm_count c = length (filter (\<lambda>w. wv_loaded_profile w = Some p) (nsv_workers n))"
proof -
  obtain k s u where f: "fold (warm_visit p bl) (nsv_workers n) (0, 0, False) = (k, s, u)"
    by (cases "fold (warm_visit p bl) (nsv_workers n) (0, 0, False)")
  from warm_visit_fold [OF f] assms f
  show "wc_node c = n" and "0 < wc_warm_count c"
    and "wc_warm_count c = length (filter (\<lambda>w. wv_loaded_profile w = Some p) (nsv_workers n))"
    by (auto simp: warm_candidate_def split: if_splits)
qed

lemma set_map_filter: "set (List.map_filter f xs) = {y. \<exists>x\<in>set xs. f x = Some y}"
  by (force simp: map_filter_def)

lemma warm_candidates_usable:
  assumes "c \<in> set (warm_candidates d v p)"
  shows "wc_node c \<in> set (dv_states v)" and "usable_warm p (dp_bl_capacity d) (wc_node c)"
    and "0 < wc_warm_count c"
proof -
  from assms obtain n where n: "n \<in> set (dv_states v)" "warm_candidate p (dp_bl_capacity d) n = Some c"
    by (auto simp: warm_candidates_def set_map_filter)
  with warm_candidateD [OF n(2)] warm_candidate_Some_iff [of p "dp_bl_capacity d" n]
  show "wc_node c \<in> set (dv_states v)" "usable_warm p (dp_bl_capacity d) (wc_node c)" "0 < wc_warm_count c"
    by auto
qed

lemma warm_candidates_empty_iff:
  "warm_candidates d v p = [] \<longleftrightarrow> (\<forall>n\<in>set (dv_states v). \<not> usable_warm p (dp_bl_capacity d) n)"
proof -
  have "warm_candidates d v p = [] \<longleftrightarrow>
      (\<forall>n\<in>set (dv_states v). \<nexists>c. warm_candidate p (dp_bl_capacity d) n = Some c)"
    unfolding warm_candidates_def set_empty [symmetric] set_map_filter by blast
  then show ?thesis by (simp only: warm_candidate_Some_iff)
qed

lemma pick_ticket_total:
  "t < sum_list (map wc_warm_count cs) \<Longrightarrow> \<exists>c\<in>set cs. pick_ticket cs t = Some c"
  by (induction cs t rule: pick_ticket.induct) (auto split: if_splits)

lemma pick_two_total:
  assumes "rng_in_range draw" and "1 < length cs"
  shows "\<exists>c\<in>set cs. pick_two draw cs g = Some c"
proof -
  obtain i g' where i: "draw (length cs) g = (i, g')" by fastforce
  obtain j g'' where j: "draw (length cs - 1) g' = (j, g'')" by fastforce
  have "i < length cs" "j < length cs - 1"
    using assms i j unfolding rng_in_range_def by (metis fst_conv less_trans zero_less_one zero_less_diff)+
  then show ?thesis by (auto simp: pick_two_def i j [unfolded One_nat_def] Let_def)
qed

lemma select_warm_target_cases:
  assumes "rng_in_range draw"
  obtains (none) "warm_candidates d v p = []" "select_warm_target seed draw d task v p = Some None"
  | (target) c where "c \<in> set (warm_candidates d v p)"
      "select_warm_target seed draw d task v p = Some (Some (nsv_id (wc_node c)))"
proof (cases "warm_candidates d v p")
  case Nil
  then have "select_warm_target seed draw d task v p = Some None"
    by (cases "rc_tier1_strategy (dp_config d)") (simp_all add: select_warm_target_def Let_def)
  with Nil show ?thesis by (rule none)
next
  case cs: (Cons a as)
  define g where "g = seed (routing_seed (dp_seed d) (it_id task))"
  show ?thesis
  proof (cases "rc_tier1_strategy (dp_config d)")
    case WeightedRandom
    define total where "total = sum_list (map wc_warm_count (warm_candidates d v p))"
    have "0 < total"
      using warm_candidates_usable(3) [of a d v p] by (simp add: total_def cs)
    then have "fst (draw total g) < total" using assms by (simp add: rng_in_range_def)
    then obtain c where c: "c \<in> set (warm_candidates d v p)"
      "pick_ticket (warm_candidates d v p) (fst (draw total g)) = Some c"
      unfolding total_def using pick_ticket_total by blast
    have "select_warm_target seed draw d task v p = Some (Some (nsv_id (wc_node c)))"
      using \<open>0 < total\<close> c(2)
      by (simp add: select_warm_target_def WeightedRandom Let_def total_def [symmetric] g_def [symmetric]
          del: sum_list_eq_0_iff)
    with c(1) show ?thesis by (rule target)
  next
    case PowerOfTwo
    show ?thesis
    proof (cases as)
      case Nil
      with cs PowerOfTwo have "select_warm_target seed draw d task v p = Some (Some (nsv_id (wc_node a)))"
        by (simp add: select_warm_target_def)
      moreover have "a \<in> set (warm_candidates d v p)" by (simp add: cs)
      ultimately show ?thesis by (blast intro: target)
    next
      case (Cons b bs)
      have "1 < length (warm_candidates d v p)" by (simp add: cs Cons)
      from pick_two_total [OF assms this, of g] obtain c
        where c: "c \<in> set (warm_candidates d v p)" "pick_two draw (warm_candidates d v p) g = Some c" by blast
      have "select_warm_target seed draw d task v p = Some (Some (nsv_id (wc_node c)))"
        using c(2) PowerOfTwo by (simp add: select_warm_target_def Let_def g_def [symmetric] cs Cons)
      with c(1) show ?thesis by (rule target)
    qed
  qed
qed

section \<open>Lemmas on tier 3\<close>

definition profile_load :: "(node_id \<times> node_state_view) list \<Rightarrow> worker_profile \<Rightarrow> nat" where
  "profile_load entries p =
     sum_list (map (\<lambda>(_, n). if nsv_accepts_new_renders n
        then length (filter (\<lambda>w. wv_loaded_profile w = Some p) (nsv_workers n)) else 0) entries)"

definition drain_pool ::
  "usize \<Rightarrow> worker_profile \<Rightarrow> (node_id \<times> node_state_view) list \<Rightarrow> (node_id \<times> worker_view) list" where
  "drain_pool drain_max p entries =
     concat (map (\<lambda>(i, n). if nsv_accepts_new_renders n
        then map (Pair i) (filter (is_drain_candidate drain_max p) (nsv_workers n)) else []) entries)"

definition map_count :: "(worker_profile \<rightharpoonup> nat) \<Rightarrow> worker_profile \<Rightarrow> nat" where
  "map_count m p = (case m p of None \<Rightarrow> 0 | Some n \<Rightarrow> n)"

lemma map_count_Some: "map_count (\<lambda>p. Some (f p)) = f"
  by (rule ext) (simp add: map_count_def)

lemma map_count_count_profile:
  "map_count (count_profile w m) p = map_count m p + (if wv_loaded_profile w = Some p then 1 else 0)"
  by (auto simp: map_count_def count_profile_def split: option.splits)

lemma tier3_visit_fold:
  "fold (tier3_visit dm tp nid) ws (m, cs) = (m', cs') \<Longrightarrow>
     cs' = cs @ map (Pair nid) (filter (is_drain_candidate dm tp) ws)
     \<and> (\<forall>p. map_count m' p = map_count m p + length (filter (\<lambda>w. wv_loaded_profile w = Some p) ws))"
proof (induction ws arbitrary: m cs)
  case (Cons w ws)
  have "tier3_visit dm tp nid w (m, cs) =
      (count_profile w m, if is_drain_candidate dm tp w then cs @ [(nid, w)] else cs)"
    by (simp add: tier3_visit_def)
  with Cons.prems have "fold (tier3_visit dm tp nid) ws
      (count_profile w m, if is_drain_candidate dm tp w then cs @ [(nid, w)] else cs) = (m', cs')"
    by simp
  from Cons.IH [OF this] show ?case by (auto simp: map_count_count_profile)
qed simp

lemma tier3_collect_eq:
  assumes "tier3_collect dm tp es = (m, cs)"
  shows "cs = drain_pool dm tp es" and "map_count m p = profile_load es p"
proof -
  have gen: "fold (\<lambda>(nid, node) acc. if nsv_accepts_new_renders node
        then fold (tier3_visit dm tp nid) (nsv_workers node) acc else acc) es (m0, c0) = (m, cs)
      \<Longrightarrow> cs = c0 @ drain_pool dm tp es \<and> map_count m p = map_count m0 p + profile_load es p" for m0 c0
  proof (induction es arbitrary: m0 c0)
    case Nil
    then show ?case by (simp add: drain_pool_def profile_load_def)
  next
    case (Cons e es)
    obtain i n where e: "e = (i, n)" by (cases e)
    obtain m1 c1 where 1: "fold (tier3_visit dm tp i) (nsv_workers n) (m0, c0) = (m1, c1)"
      by (cases "fold (tier3_visit dm tp i) (nsv_workers n) (m0, c0)")
    show ?case
    proof (cases "nsv_accepts_new_renders n")
      case True
      with Cons.prems e 1 have "fold (\<lambda>(nid, node) acc. if nsv_accepts_new_renders node
        then fold (tier3_visit dm tp nid) (nsv_workers node) acc else acc) es (m1, c1) = (m, cs)" by simp
      from Cons.IH [OF this] tier3_visit_fold [OF 1] True e show ?thesis
        by (simp add: drain_pool_def profile_load_def)
    next
      case False
      with Cons.prems e have "fold (\<lambda>(nid, node) acc. if nsv_accepts_new_renders node
        then fold (tier3_visit dm tp nid) (nsv_workers node) acc else acc) es (m0, c0) = (m, cs)" by simp
      from Cons.IH [OF this] False e show ?thesis by (simp add: drain_pool_def profile_load_def)
    qed
  qed
  show "cs = drain_pool dm tp es" "map_count m p = profile_load es p"
    using gen [of Map.empty "[]"] assms by (auto simp: tier3_collect_def map_count_def)
qed

lemma tier3_order_counts:
  "(\<And>p. map_count m p = map_count m' p) \<Longrightarrow> tier3_order tp m = tier3_order tp m'"
  by (intro ext) (auto simp: tier3_order_def tier3_sort_key_def map_count_def [symmetric] split: option.splits)

text \<open>The ranking of the pool with the counts as a total function.\<close>

definition drain_rank ::
  "worker_profile \<Rightarrow> (node_id \<times> node_state_view) list \<Rightarrow> node_id \<times> worker_view
     \<Rightarrow> tier3_key \<times> usize \<times> node_id \<times> worker_id" where
  "drain_rank tp es = tier3_order tp (\<lambda>p. Some (profile_load es p))"

lemma tier3_candidates_view_eq:
  "tier3_candidates_view now d v task limit =
     (let pool = drain_pool (rc_drain_max_queue (dp_config d)) (task_worker_profile task) (dv_state_entries v)
      in if pool = [] then Some []
         else tier3_select (\<lambda>w. estimate_drain_eta d w (task_worker_profile task))
                (meets_sla now (instant_checked_add (it_arrived_at task) (co_sla (dp_costs d)))) limit
                (sort_key (drain_rank (task_worker_profile task) (dv_state_entries v)) pool) [])"
proof -
  obtain m cs where c: "tier3_collect (rc_drain_max_queue (dp_config d)) (task_worker_profile task)
      (dv_state_entries v) = (m, cs)" by fastforce
  have "tier3_order (task_worker_profile task) m = drain_rank (task_worker_profile task) (dv_state_entries v)"
    unfolding drain_rank_def
    by (rule tier3_order_counts) (simp add: tier3_collect_eq(2) [OF c] map_count_Some)
  with tier3_collect_eq(1) [OF c] show ?thesis
    by (simp add: tier3_candidates_view_def c Let_def)
qed

lemma tier3_select_prefix:
  "tier3_select eta ok limit cs sel = Some out \<Longrightarrow> length sel < limit \<Longrightarrow>
     out = sel @ take (limit - length sel)
       (map (\<lambda>(i, w). \<lparr>fc_node_id = i, fc_drain_worker = Some (wv_id w)\<rparr>)
         (filter (\<lambda>(i, w). \<exists>e. eta w = Some e \<and> ok e) cs))"
proof (induction eta ok limit cs sel rule: tier3_select.induct)
  case (2 eta ok limit nid w rest sel)
  then show ?case
    by (auto simp: Let_def take_Cons' split: option.splits if_splits)
qed simp

lemma tier3_select_total:
  "(\<And>w. \<exists>e. eta w = Some e) \<Longrightarrow> \<exists>out. tier3_select eta ok limit cs sel = Some out"
proof (induction eta ok limit cs sel rule: tier3_select.induct)
  case (2 eta ok limit nid w rest sel)
  obtain e where "eta w = Some e" using 2(3) by blast
  with 2 show ?case by (auto simp: Let_def)
qed simp

section \<open>Lemmas on the decision\<close>

lemma sane_cost_mid: "cr_min c + cr_max c \<le> duration_max \<Longrightarrow> cost_mid c = Some ((cr_min c + cr_max c) div 2)"
  by (simp add: cost_mid_def duration_checked_add_def)

text \<open>The costs a deployment can configure without a panic: every sum the estimate forms stays
  within a \<open>Duration\<close>.\<close>

definition sane_costs :: "cost_config \<Rightarrow> bool" where
  "sane_costs c \<longleftrightarrow>
     (case (cost_mid (warm_render_cost c), cost_mid (first_render_cost c), cost_mid (co_style_setup_cost c)) of
        (Some _, Some f, Some s) \<Rightarrow> f + s \<le> duration_max
      | _ \<Rightarrow> False)"

lemma estimate_drain_eta_total: "sane_costs (dp_costs d) \<Longrightarrow> \<exists>e. estimate_drain_eta d w p = Some e"
  by (auto simp: sane_costs_def estimate_drain_eta_def duration_checked_add_def add.commute Let_def
      split: option.splits)

lemma materialize_cases:
  assumes "cands \<noteq> []"
  obtains
    (here) rest where "cands = hd cands # rest" "fc_node_id (hd cands) = dp_node_id d"
      "materialize_candidates d task tier cands =
         Local tier (fc_drain_worker (hd cands))
           (if 1 \<le> it_forwarding_hops task then [] else filter (\<lambda>c. fc_node_id c \<noteq> dp_node_id d) rest)"
  | (hop) "fc_node_id (hd cands) \<noteq> dp_node_id d" "1 \<le> it_forwarding_hops task"
      "materialize_candidates d task tier cands = Local tier None []"
  | (fwd) "fc_node_id (hd cands) \<noteq> dp_node_id d" "\<not> 1 \<le> it_forwarding_hops task"
      "materialize_candidates d task tier cands =
         Forward tier (filter (\<lambda>c. fc_node_id c \<noteq> dp_node_id d) cands)"
  using assms by (cases cands) (auto simp: materialize_candidates_def split: if_splits)

definition routed :: "decision \<Rightarrow> route_tier option" where
  "routed dec = (case dec of Local t _ _ \<Rightarrow> Some t | Forward t _ \<Rightarrow> Some t | Reject _ \<Rightarrow> None)"

lemma routed_materialize: "cands \<noteq> [] \<Longrightarrow> routed (materialize_candidates d task tier cands) = Some tier"
  by (cases cands) (auto simp: materialize_candidates_def routed_def)

lemma state_satisfies_iff: "state_satisfies v P i \<longleftrightarrow> (\<exists>n. dv_state v i = Some n \<and> P n)"
  by (auto simp: state_satisfies_def split: option.splits)

text \<open>The candidate list a tier hands to \<^const>\<open>materialize_candidates\<close>.\<close>

definition tier_candidates ::
  "(u64 \<Rightarrow> 'g) \<Rightarrow> (nat \<Rightarrow> 'g \<Rightarrow> nat \<times> 'g) \<Rightarrow> instant \<Rightarrow> dispatcher \<Rightarrow> internal_task \<Rightarrow> dispatch_view
     \<Rightarrow> route_tier \<Rightarrow> forward_candidate list" where
  "tier_candidates seed draw now d task v tier =
     (let p = task_worker_profile task;
          soft = state_satisfies v (\<lambda>n. has_capacity n (dp_bl_capacity d))
      in case tier of
           RenderCacheHit \<Rightarrow> []
         | Tier1WarmTracking \<Rightarrow>
             (case select_warm_target seed draw d task v p of
                Some (Some target) \<Rightarrow>
                  \<lparr>fc_node_id = target, fc_drain_worker = None\<rparr>
                  # take 1 (top_hrw_candidates (dv_members v) p 2 (\<lambda>i. i \<noteq> target \<and> soft i))
              | _ \<Rightarrow> [])
         | Tier2HrwBl \<Rightarrow> top_hrw_candidates (dv_members v) p 2 soft
         | Tier3DrainSwap \<Rightarrow>
             (if rc_tier3_enabled (dp_config d)
              then (case tier3_candidates_view now d v task 2 of None \<Rightarrow> [] | Some cs \<Rightarrow> cs) else [])
         | Tier4Overflow \<Rightarrow>
             top_hrw_candidates (dv_members v) p 2
               (state_satisfies v (\<lambda>n. has_admission_capacity n (dp_queue_capacity d))))"

definition first_tier :: "(route_tier \<Rightarrow> forward_candidate list) \<Rightarrow> route_tier option" where
  "first_tier cs =
     List.find (\<lambda>t. cs t \<noteq> []) [Tier1WarmTracking, Tier2HrwBl, Tier3DrainSwap, Tier4Overflow]"

lemma tier3_total: "sane_costs (dp_costs d) \<Longrightarrow> \<exists>cs. tier3_candidates_view now d v task limit = Some cs"
  using tier3_select_total [OF estimate_drain_eta_total] by (simp add: tier3_candidates_view_eq Let_def)

lemma decide_view_refines:
  assumes "rng_in_range draw" and "sane_costs (dp_costs d)"
  shows "decide_view seed draw now d task v =
    Some (case first_tier (tier_candidates seed draw now d task v) of
       None \<Rightarrow> Reject NoCapacity
     | Some t \<Rightarrow> materialize_candidates d task t (tier_candidates seed draw now d task v t))"
proof -
  obtain t3 where t3: "tier3_candidates_view now d v task 2 = Some t3"
    using tier3_total [OF assms(2)] by blast
  show ?thesis
  proof (rule select_warm_target_cases [OF assms(1), of d v "task_worker_profile task" seed task])
    assume "select_warm_target seed draw d task v (task_worker_profile task) = Some None"
    then show ?thesis
      by (simp add: decide_view_def first_tier_def tier_candidates_def t3 Let_def default_forward_candidates_def)
  next
    fix c assume "select_warm_target seed draw d task v (task_worker_profile task) = Some (Some (nsv_id (wc_node c)))"
    then show ?thesis
      by (simp add: decide_view_def first_tier_def tier_candidates_def Let_def default_forward_candidates_def)
  qed
qed

text \<open>The abstract tier 3: the first workers of the pool, in rank order, whose drain estimate
  meets the SLA deadline.\<close>

definition drain_choice ::
  "instant \<Rightarrow> dispatcher \<Rightarrow> dispatch_view \<Rightarrow> internal_task \<Rightarrow> nat \<Rightarrow> (node_id \<times> worker_view) list" where
  "drain_choice now d v task limit =
     (let tp = task_worker_profile task;
          deadline = instant_checked_add (it_arrived_at task) (co_sla (dp_costs d))
      in take limit (filter (\<lambda>(i, w). \<exists>e. estimate_drain_eta d w tp = Some e \<and> meets_sla now deadline e)
           (sort_key (drain_rank tp (dv_state_entries v))
             (drain_pool (rc_drain_max_queue (dp_config d)) tp (dv_state_entries v)))))"

lemma tier3_candidates_choice:
  assumes "tier3_candidates_view now d v task limit = Some cs" and "0 < limit"
  shows "cs = map (\<lambda>(i, w). \<lparr>fc_node_id = i, fc_drain_worker = Some (wv_id w)\<rparr>)
    (drain_choice now d v task limit)"
proof (cases "drain_pool (rc_drain_max_queue (dp_config d)) (task_worker_profile task) (dv_state_entries v) = []")
  case True
  with assms(1) show ?thesis
    unfolding tier3_candidates_view_eq Let_def drain_choice_def by (simp only: if_True option.inject) simp
next
  case False
  from assms(1) [unfolded tier3_candidates_view_eq Let_def if_not_P [OF False]] assms(2)
  show ?thesis unfolding drain_choice_def Let_def take_map [symmetric]
    by (drule_tac tier3_select_prefix) simp_all
qed

lemma drain_choice_elem:
  assumes "(i, w) \<in> set (drain_choice now d v task limit)"
  obtains n e where "(i, n) \<in> set (dv_state_entries v)" "nsv_accepts_new_renders n" "w \<in> set (nsv_workers n)"
    "is_drain_candidate (rc_drain_max_queue (dp_config d)) (task_worker_profile task) w"
    "estimate_drain_eta d w (task_worker_profile task) = Some e"
    "meets_sla now (instant_checked_add (it_arrived_at task) (co_sla (dp_costs d))) e"
proof -
  from assms obtain e where w: "(i, w) \<in> set (drain_pool (rc_drain_max_queue (dp_config d))
      (task_worker_profile task) (dv_state_entries v))"
    "estimate_drain_eta d w (task_worker_profile task) = Some e"
    "meets_sla now (instant_checked_add (it_arrived_at task) (co_sla (dp_costs d))) e"
    unfolding drain_choice_def Let_def by (auto dest!: in_set_takeD)
  from w(1) obtain n where "(i, n) \<in> set (dv_state_entries v)" "nsv_accepts_new_renders n"
    "w \<in> set (nsv_workers n)" "is_drain_candidate (rc_drain_max_queue (dp_config d)) (task_worker_profile task) w"
    by (auto simp: drain_pool_def split: if_splits)
  with w(2,3) show ?thesis by (blast intro: that)
qed

lemma usable_warm_accepts: "usable_warm p bl n \<Longrightarrow> nsv_accepts_new_renders n"
  by (simp add: usable_warm_def)

lemma select_warm_target_usable:
  assumes "rng_in_range draw" and "dispatch_view_wf v"
    and "select_warm_target seed draw d task v p = Some (Some i)"
  obtains n where "dv_state v i = Some n" "usable_warm p (dp_bl_capacity d) n"
  using select_warm_target_cases [OF assms(1), of d v p seed task]
  by (metis assms(2,3) dv_states_state option.inject option.distinct(1) warm_candidates_usable(1,2))

text \<open>A candidate names a node whose state in the view accepts new renders; a worker hint comes
  from tier 3 only and names a drainable worker of that node whose estimate meets the SLA.\<close>

definition sound_candidate ::
  "instant \<Rightarrow> dispatcher \<Rightarrow> internal_task \<Rightarrow> dispatch_view \<Rightarrow> route_tier \<Rightarrow> forward_candidate \<Rightarrow> bool" where
  "sound_candidate now d task v tier c \<longleftrightarrow>
     (\<exists>n. dv_state v (fc_node_id c) = Some n \<and> nsv_accepts_new_renders n
        \<and> (case fc_drain_worker c of
              None \<Rightarrow> tier \<noteq> Tier3DrainSwap
            | Some wid \<Rightarrow> tier = Tier3DrainSwap
                \<and> (\<exists>w\<in>set (nsv_workers n). wv_id w = wid
                     \<and> is_drain_candidate (rc_drain_max_queue (dp_config d)) (task_worker_profile task) w
                     \<and> (\<exists>e. estimate_drain_eta d w (task_worker_profile task) = Some e
                          \<and> meets_sla now (instant_checked_add (it_arrived_at task) (co_sla (dp_costs d))) e))))"

lemma sound_hrw:
  assumes "c \<in> set (top_hrw_candidates ns p k elig)" and "tier \<noteq> Tier3DrainSwap"
    and "\<And>i. elig i \<Longrightarrow> \<exists>n. dv_state v i = Some n \<and> nsv_accepts_new_renders n"
  shows "sound_candidate now d task v tier c"
  using top_hrw_candidates_elem [OF assms(1)] assms(2,3) by (auto simp: sound_candidate_def)

lemma tier_candidates_sound:
  assumes "rng_in_range draw" and "dispatch_view_wf v"
    and "c \<in> set (tier_candidates seed draw now d task v tier)"
  shows "sound_candidate now d task v tier c"
proof (cases tier)
  case RenderCacheHit
  with assms(3) show ?thesis by (simp add: tier_candidates_def)
next
  case Tier1WarmTracking
  with assms(3) obtain i where i: "select_warm_target seed draw d task v (task_worker_profile task) = Some (Some i)"
    by (cases "select_warm_target seed draw d task v (task_worker_profile task)")
      (auto simp: tier_candidates_def Let_def split: option.splits)
  from select_warm_target_usable [OF assms(1,2) i] obtain n where n: "dv_state v i = Some n"
    "usable_warm (task_worker_profile task) (dp_bl_capacity d) n" by blast
  from assms(3) Tier1WarmTracking i consider "c = \<lparr>fc_node_id = i, fc_drain_worker = None\<rparr>"
    | "c \<in> set (top_hrw_candidates (dv_members v) (task_worker_profile task) 2
        (\<lambda>j. j \<noteq> i \<and> state_satisfies v (\<lambda>n. has_capacity n (dp_bl_capacity d)) j))"
    by (auto simp: tier_candidates_def Let_def dest: in_set_takeD)
  then show ?thesis
  proof cases
    case 1
    with n Tier1WarmTracking show ?thesis by (simp add: sound_candidate_def usable_warm_accepts)
  next
    case 2
    then show ?thesis
      by (rule sound_hrw) (auto simp: Tier1WarmTracking state_satisfies_iff has_capacity_def)
  qed
next
  case Tier2HrwBl
  with assms(3) have "c \<in> set (top_hrw_candidates (dv_members v) (task_worker_profile task) 2
      (state_satisfies v (\<lambda>n. has_capacity n (dp_bl_capacity d))))"
    by (simp add: tier_candidates_def Let_def)
  then show ?thesis
    by (rule sound_hrw) (auto simp: Tier2HrwBl state_satisfies_iff has_capacity_def)
next
  case Tier3DrainSwap
  with assms(3) obtain cs where "tier3_candidates_view now d v task 2 = Some cs" "c \<in> set cs"
    by (cases "tier3_candidates_view now d v task 2"; cases "rc_tier3_enabled (dp_config d)")
      (simp_all add: tier_candidates_def)
  then obtain i w where c: "(i, w) \<in> set (drain_choice now d v task 2)"
    "c = \<lparr>fc_node_id = i, fc_drain_worker = Some (wv_id w)\<rparr>"
    using tier3_candidates_choice [of now d v task 2 cs] by auto
  from drain_choice_elem [OF c(1)] obtain n e where n: "(i, n) \<in> set (dv_state_entries v)"
    "nsv_accepts_new_renders n" "w \<in> set (nsv_workers n)"
    "is_drain_candidate (rc_drain_max_queue (dp_config d)) (task_worker_profile task) w"
    "estimate_drain_eta d w (task_worker_profile task) = Some e"
    "meets_sla now (instant_checked_add (it_arrived_at task) (co_sla (dp_costs d))) e" by blast
  with c(2) Tier3DrainSwap show ?thesis
    unfolding sound_candidate_def dv_state_entries_iff [OF assms(2), symmetric] by auto
next
  case Tier4Overflow
  with assms(3) have "c \<in> set (top_hrw_candidates (dv_members v) (task_worker_profile task) 2
      (state_satisfies v (\<lambda>n. has_admission_capacity n (dp_queue_capacity d))))"
    by (simp add: tier_candidates_def Let_def)
  then show ?thesis
    by (rule sound_hrw) (auto simp: Tier4Overflow state_satisfies_iff has_admission_capacity_def)
qed

lemma tier_candidates_length: "length (tier_candidates seed draw now d task v tier) \<le> 2"
proof (cases tier)
  case Tier3DrainSwap
  show ?thesis
  proof (cases "tier3_candidates_view now d v task 2")
    case (Some cs)
    from tier3_candidates_choice [OF this] have "length cs \<le> 2"
      by (simp add: drain_choice_def Let_def)
    with Some Tier3DrainSwap show ?thesis by (simp add: tier_candidates_def Let_def)
  qed (simp add: tier_candidates_def Tier3DrainSwap Let_def)
qed (auto simp: tier_candidates_def Let_def length_top_hrw_candidates split: option.splits)

lemma decide_view_cases:
  assumes "rng_in_range draw" and "sane_costs (dp_costs d)"
    and "decide_view seed draw now d task v = Some dec"
  obtains (reject) "first_tier (tier_candidates seed draw now d task v) = None" "dec = Reject NoCapacity"
  | (route) t where "first_tier (tier_candidates seed draw now d task v) = Some t"
      "tier_candidates seed draw now d task v t \<noteq> []"
      "dec = materialize_candidates d task t (tier_candidates seed draw now d task v t)"
proof (cases "first_tier (tier_candidates seed draw now d task v)")
  case None
  with assms show ?thesis using decide_view_refines [OF assms(1,2)] by (intro reject) auto
next
  case (Some t)
  moreover from this have "tier_candidates seed draw now d task v t \<noteq> []"
    unfolding first_tier_def by (metis (mono_tags, lifting) find_Some_iff)
  ultimately show ?thesis using assms(3) decide_view_refines [OF assms(1,2)] by (intro route) auto
qed

lemma first_tier_None_iff:
  "first_tier cs = None \<longleftrightarrow>
     cs Tier1WarmTracking = [] \<and> cs Tier2HrwBl = [] \<and> cs Tier3DrainSwap = [] \<and> cs Tier4Overflow = []"
  by (simp add: first_tier_def)

lemma tier1_empty_iff:
  assumes "rng_in_range draw"
  shows "tier_candidates seed draw now d task v Tier1WarmTracking = [] \<longleftrightarrow>
    (\<forall>n\<in>set (dv_states v). \<not> usable_warm (task_worker_profile task) (dp_bl_capacity d) n)"
  unfolding warm_candidates_empty_iff [symmetric]
  by (rule select_warm_target_cases [OF assms, of d v "task_worker_profile task" seed task])
    (auto simp: tier_candidates_def)

lemma tier3_empty_iff:
  assumes "sane_costs (dp_costs d)"
  shows "tier_candidates seed draw now d task v Tier3DrainSwap = [] \<longleftrightarrow>
    (rc_tier3_enabled (dp_config d) \<longrightarrow> drain_choice now d v task 2 = [])"
proof -
  obtain cs where cs: "tier3_candidates_view now d v task 2 = Some cs" using tier3_total [OF assms] by blast
  from tier3_candidates_choice [OF this] show ?thesis by (simp add: tier_candidates_def cs)
qed

lemma worker_of_rank:
  assumes "dispatch_view_wf v" and "list_all (\<lambda>n. distinct (map wv_id (nsv_workers n))) (dv_states v)"
  shows "inj_on (drain_rank tp es) (set (drain_pool dm tp (dv_state_entries v)))"
proof (rule inj_onI)
  fix a b assume a: "a \<in> set (drain_pool dm tp (dv_state_entries v))"
    and b: "b \<in> set (drain_pool dm tp (dv_state_entries v))"
    and eq: "drain_rank tp es a = drain_rank tp es b"
  from a obtain i n w where a': "a = (i, w)" "(i, n) \<in> set (dv_state_entries v)" "w \<in> set (nsv_workers n)"
    by (auto simp: drain_pool_def split: if_splits)
  from b obtain j m u where b': "b = (j, u)" "(j, m) \<in> set (dv_state_entries v)" "u \<in> set (nsv_workers m)"
    by (auto simp: drain_pool_def split: if_splits)
  from eq a' b' have ij: "i = j" "wv_id w = wv_id u" by (auto simp: drain_rank_def tier3_order_def)
  with a' b' have mn: "m = n" using dv_state_entries_iff [OF assms(1)] by auto
  from a'(2) have "n \<in> set (dv_states v)" by (force simp: dv_states_entries)
  with assms(2) have "distinct (map wv_id (nsv_workers n))" by (auto simp: list_all_iff)
  with ij(2) a'(3) b'(3) mn have "w = u" by (auto simp: distinct_map inj_on_def)
  with a' b' ij show "a = b" by simp
qed

lemma mset_concat_map: "mset xs = mset ys \<Longrightarrow> mset (concat (map f xs)) = mset (concat (map f ys))"
  by (simp add: mset_concat) (metis mset_map sum_mset_sum_list)

lemma mset_dv_remote:
  "dv_local v = dv_local v' \<Longrightarrow>
     mset (cv_states (dv_cluster v)) = mset (cv_states (dv_cluster v')) \<Longrightarrow>
     mset (dv_state_entries v) = mset (dv_state_entries v')"
  by (simp add: dv_state_entries_def dv_remote_def mset_filter)

lemma profile_load_mset: "mset xs = mset ys \<Longrightarrow> profile_load xs = profile_load ys"
  unfolding profile_load_def by (simp only: sum_mset_sum_list [symmetric] mset_map)

section \<open>A concrete cluster\<close>

text \<open>Two nodes: \<open>a\<close> decides and has one fresh worker whose queue is full, \<open>b\<close> is warm for the
  task's profile. The witnesses below evaluate on it.\<close>

definition demo_costs :: cost_config where
  "demo_costs =
     \<lparr>co_style_setup_cost = cost_fixed (millis 200), co_source_load_cost = cost_fixed (millis 10),
      co_render_cpu_cost = cost_fixed (millis 30), co_render_resource_cost = cost_fixed (millis 20),
      co_first_render_resource_cost = cost_fixed (millis 70), co_hop_latency = millis 1,
      co_sla = millis 2000\<rparr>"

definition demo_dispatcher :: dispatcher where
  "demo_dispatcher = dispatcher_new ''a''
     \<lparr>rc_tier1_strategy = PowerOfTwo, rc_tier3_enabled = True, rc_drain_max_queue = 4\<rparr> demo_costs 2 8 7"

definition demo_task :: internal_task where
  "demo_task =
     \<lparr>it_id = 1, it_request_id = ''r'', it_authorization = None,
      it_style = \<lparr>rev_id = ''s'', rev_version = 1\<rparr>, it_source = None, it_request = TileRequest 0 0 0 256,
      it_pixel_ratio = PixelRatio 1, it_output_format = Png, it_arrived_at = 0,
      it_deadline = millis 5000, it_forwarding_hops = 0\<rparr>"

definition demo_node_a :: node_state_view where
  "demo_node_a = \<lparr>nsv_id = ''a'', nsv_accepts_new_renders = True,
     nsv_workers = [\<lparr>wv_id = 0, wv_loaded_profile = None, wv_queue_depth = 3\<rparr>]\<rparr>"

definition demo_node_b :: node_state_view where
  "demo_node_b = \<lparr>nsv_id = ''b'', nsv_accepts_new_renders = True,
     nsv_workers = [\<lparr>wv_id = 0, wv_loaded_profile = Some (task_worker_profile demo_task), wv_queue_depth = 0\<rparr>]\<rparr>"

definition demo_view :: dispatch_view where
  "demo_view = dv_new \<lparr>cv_members = [''a'', ''b''],
     cv_states = [(''a'', demo_node_a), (''b'', demo_node_b)], cv_generated_at = 0\<rparr> (Some demo_node_a)"

definition demo_view_swapped :: dispatch_view where
  "demo_view_swapped = dv_new \<lparr>cv_members = [''a'', ''b''],
     cv_states = [(''b'', demo_node_b), (''a'', demo_node_a)], cv_generated_at = 0\<rparr> (Some demo_node_a)"

definition demo_draw :: "nat \<Rightarrow> unit \<Rightarrow> nat \<times> unit" where
  "demo_draw n g = (0, g)"

lemma demo_rng: "rng_in_range demo_draw"
  by (simp add: rng_in_range_def demo_draw_def)

lemma demo_sane: "sane_costs (dp_costs demo_dispatcher)"
  by (simp add: sane_costs_def demo_dispatcher_def dispatcher_new_def demo_costs_def cost_mid_def
      warm_render_cost_def first_render_cost_def cost_saturating_add_def cost_fixed_def millis_def
      duration_checked_add_def duration_saturating_add_def duration_max_def)

lemmas demo_view_defs = demo_view_def demo_view_swapped_def dv_new_def demo_node_a_def demo_node_b_def

lemma demo_wf: "dispatch_view_wf demo_view"
  by (simp add: dispatch_view_wf_def demo_view_defs)

lemma demo_states: "dv_states demo_view = [demo_node_b, demo_node_a]"
  by (simp add: dv_states_def dv_remote_def demo_view_defs)

lemma demo_warm: "warm_candidates demo_dispatcher demo_view (task_worker_profile demo_task) =
    [\<lparr>wc_node = demo_node_b, wc_warm_count = 1, wc_style_spare_bl = 2\<rparr>]"
  by (simp add: warm_candidates_def demo_states List.map_filter_def warm_candidate_def demo_node_a_def
      demo_node_b_def warm_visit_def demo_dispatcher_def dispatcher_new_def)

lemma demo_decide:
  "decide_view (\<lambda>_. ()) demo_draw now demo_dispatcher demo_task demo_view =
     Some (Forward Tier1WarmTracking [\<lparr>fc_node_id = ''b'', fc_drain_worker = None\<rparr>])"
proof -
  have "select_warm_target (\<lambda>_. ()) demo_draw demo_dispatcher demo_task demo_view (task_worker_profile demo_task)
      = Some (Some ''b'')"
    using demo_warm by (simp add: select_warm_target_def demo_dispatcher_def dispatcher_new_def demo_node_b_def)
  moreover have "filter (\<lambda>i. i \<noteq> ''b'' \<and> state_satisfies demo_view (\<lambda>n. has_capacity n 2) i) [''a'', ''b''] = []"
    by (simp add: state_satisfies_def dv_state_def demo_view_defs has_capacity_def)
  ultimately show ?thesis
    by (simp add: decide_view_def top_hrw_candidates_eq default_forward_candidates_def materialize_candidates_def
        demo_dispatcher_def dispatcher_new_def demo_task_def dv_members_def demo_view_defs)
qed

section \<open>Properties\<close>

text \<open>C1: whatever the view, a routing decision only forwards a task that was not forwarded before,
  to at most two candidates, none of them the deciding node, each of them a node whose state in the
  view accepts new renders; a worker hint is given by tier 3 only and names a drainable worker of
  that node whose drain estimate meets the SLA. A task already forwarded once is decided locally with
  no further fallback, or rejected.\<close>

theorem decide_view_forward_safe:
  assumes "rng_in_range draw" and "sane_costs (dp_costs d)" and "dispatch_view_wf v"
    and "decide_view seed draw now d task v = Some dec"
  shows "(\<forall>tier cs. dec = Forward tier cs \<longrightarrow>
            it_forwarding_hops task = 0 \<and> cs \<noteq> [] \<and> length cs \<le> 2
            \<and> (\<forall>c\<in>set cs. fc_node_id c \<noteq> dp_node_id d \<and> sound_candidate now d task v tier c))
       \<and> (\<forall>tier hint cs. dec = Local tier hint cs \<longrightarrow>
            length cs \<le> 1 \<and> (it_forwarding_hops task \<noteq> 0 \<longrightarrow> cs = [])
            \<and> (\<forall>c\<in>set cs. fc_node_id c \<noteq> dp_node_id d \<and> sound_candidate now d task v tier c))"
  using assms(1,2,4)
proof (cases rule: decide_view_cases)
  case (route t)
  let ?cs = "tier_candidates seed draw now d task v t"
  have sound: "\<And>c. c \<in> set ?cs \<Longrightarrow> sound_candidate now d task v t c"
    by (rule tier_candidates_sound [OF assms(1,3)])
  have len: "length ?cs \<le> 2" by (rule tier_candidates_length)
  have hops: "1 \<le> it_forwarding_hops task \<longleftrightarrow> it_forwarding_hops task \<noteq> 0"
    by (simp add: word_le_nat_alt unat_gt_0 Suc_le_eq)
  show ?thesis
  proof (rule materialize_cases [OF route(2), of d task t])
    fix rest assume m: "?cs = hd ?cs # rest" "materialize_candidates d task t ?cs =
         Local t (fc_drain_worker (hd ?cs))
           (if 1 \<le> it_forwarding_hops task then [] else filter (\<lambda>c. fc_node_id c \<noteq> dp_node_id d) rest)"
    have "rest = tl ?cs" by (subst m(1)) simp
    then have "set rest \<subseteq> set ?cs" "length rest \<le> 1"
      using len list.set_sel(2) [of ?cs] route(2) by auto
    with m(2) sound hops route(3) show ?thesis
      by (auto intro: le_trans [OF length_filter_le])
  next
    assume "materialize_candidates d task t ?cs = Local t None []"
    with route(3) show ?thesis by simp
  next
    assume h: "fc_node_id (hd ?cs) \<noteq> dp_node_id d" "\<not> 1 \<le> it_forwarding_hops task"
      "materialize_candidates d task t ?cs = Forward t (filter (\<lambda>c. fc_node_id c \<noteq> dp_node_id d) ?cs)"
    have "filter (\<lambda>c. fc_node_id c \<noteq> dp_node_id d) ?cs \<noteq> []"
      using h(1) route(2) by (cases ?cs) auto
    with h hops len sound route(3) show ?thesis
      by (auto intro: le_trans [OF length_filter_le])
  qed
qed simp

theorem decide_view_forward_safe_witness:
  "decide_view (\<lambda>_. ()) demo_draw 0 demo_dispatcher demo_task demo_view =
     Some (Forward Tier1WarmTracking [\<lparr>fc_node_id = ''b'', fc_drain_worker = None\<rparr>])
   \<and> it_forwarding_hops demo_task = 0
   \<and> sound_candidate 0 demo_dispatcher demo_task demo_view Tier1WarmTracking
       \<lparr>fc_node_id = ''b'', fc_drain_worker = None\<rparr>"
  using decide_view_forward_safe [OF demo_rng demo_sane demo_wf demo_decide [of 0]] demo_decide [of 0] by simp

text \<open>C2: with costs whose sums fit a \<open>Duration\<close> the decision never panics, and it rejects exactly
  when every tier is out: no accepting node is usably warm, no member is below the soft limit, no
  drainable worker meets the SLA (when tier 3 is on) and no member is below the hard limit.\<close>

theorem decide_view_reject_iff:
  assumes "rng_in_range draw" and "sane_costs (dp_costs d)"
  shows "\<exists>dec. decide_view seed draw now d task v = Some dec
    \<and> ((\<exists>r. dec = Reject r) \<longleftrightarrow>
         (\<forall>n\<in>set (dv_states v). \<not> usable_warm (task_worker_profile task) (dp_bl_capacity d) n)
         \<and> (\<forall>i\<in>set (dv_members v). \<not> state_satisfies v (\<lambda>n. has_capacity n (dp_bl_capacity d)) i)
         \<and> (rc_tier3_enabled (dp_config d) \<longrightarrow> drain_choice now d v task 2 = [])
         \<and> (\<forall>i\<in>set (dv_members v). \<not> state_satisfies v (\<lambda>n. has_admission_capacity n (dp_queue_capacity d)) i))"
proof -
  let ?cs = "tier_candidates seed draw now d task v"
  obtain dec where dec: "decide_view seed draw now d task v = Some dec"
    using decide_view_refines [OF assms] by blast
  have "(\<exists>r. dec = Reject r) \<longleftrightarrow> first_tier ?cs = None"
    using assms dec
  proof (cases rule: decide_view_cases)
    case (route t)
    with routed_materialize [OF route(2), of d task t] show ?thesis by (auto simp: routed_def)
  qed simp
  moreover have "?cs Tier2HrwBl = [] \<longleftrightarrow>
      (\<forall>i\<in>set (dv_members v). \<not> state_satisfies v (\<lambda>n. has_capacity n (dp_bl_capacity d)) i)"
    "?cs Tier4Overflow = [] \<longleftrightarrow>
      (\<forall>i\<in>set (dv_members v). \<not> state_satisfies v (\<lambda>n. has_admission_capacity n (dp_queue_capacity d)) i)"
    by (simp_all add: tier_candidates_def top_hrw_candidates_empty_iff)
  ultimately show ?thesis
    using dec by (simp only: first_tier_None_iff tier1_empty_iff [OF assms(1)] tier3_empty_iff [OF assms(2)]) blast
qed

theorem decide_view_reject_iff_witness:
  "\<exists>dec. decide_view (\<lambda>_. ()) demo_draw 0 demo_dispatcher demo_task demo_view = Some dec \<and> \<not> (\<exists>r. dec = Reject r)"
proof -
  have "usable_warm (task_worker_profile demo_task) (dp_bl_capacity demo_dispatcher) demo_node_b"
    by (simp add: usable_warm_def demo_node_b_def demo_dispatcher_def dispatcher_new_def)
  with decide_view_reject_iff [OF demo_rng demo_sane, of "\<lambda>_. ()" 0 demo_task demo_view]
  show ?thesis by (fastforce simp: demo_states)
qed

text \<open>Tier 3 does not depend on the iteration order of the hash map of node states: two views
  that hold the same states in any two orders select the same workers in the same order, because the
  ranking key ends in the stable identity of node and worker.\<close>

theorem tier3_order_independent:
  assumes "dispatch_view_wf v"
    and "list_all (\<lambda>n. distinct (map wv_id (nsv_workers n))) (dv_states v)"
    and "dv_local v = dv_local v'"
    and "mset (cv_states (dv_cluster v)) = mset (cv_states (dv_cluster v'))"
  shows "tier3_candidates_view now d v task limit = tier3_candidates_view now d v' task limit"
proof -
  have es: "mset (dv_state_entries v) = mset (dv_state_entries v')"
    by (rule mset_dv_remote [OF assms(3,4)])
  define pool where
    "pool v = drain_pool (rc_drain_max_queue (dp_config d)) (task_worker_profile task) (dv_state_entries v)" for v
  define rank where "rank v = drain_rank (task_worker_profile task) (dv_state_entries v)" for v
  have p: "mset (pool v) = mset (pool v')" unfolding pool_def drain_pool_def by (rule mset_concat_map [OF es])
  have "rank v = rank v'" unfolding rank_def drain_rank_def profile_load_mset [OF es] ..
  moreover have "sort_key (rank v) (pool v) = sort_key (rank v) (pool v')"
    by (rule sort_key_eq_sort_key [OF p]) (unfold rank_def pool_def, rule worker_of_rank [OF assms(1,2)])
  moreover have "pool v = [] \<longleftrightarrow> pool v' = []" using p by (metis mset_zero_iff)
  ultimately show ?thesis
    unfolding tier3_candidates_view_eq Let_def pool_def [symmetric] rank_def [symmetric] by simp
qed

text \<open>C3: tier 3 is the specification: the first two workers, in rank order, among the drainable
  workers of accepting nodes (below the drain limit, not already holding the task's profile) whose
  pessimistic drain estimate ends no later than the SLA deadline.\<close>

theorem tier3_refines_drain_choice:
  assumes "sane_costs (dp_costs d)" and "0 < limit"
  shows "tier3_candidates_view now d v task limit =
    Some (map (\<lambda>(i, w). \<lparr>fc_node_id = i, fc_drain_worker = Some (wv_id w)\<rparr>) (drain_choice now d v task limit))"
  using tier3_total [OF assms(1), of now v task limit] tier3_candidates_choice [OF _ assms(2)] by blast

theorem tier3_refines_drain_choice_witness:
  "tier3_candidates_view 0 demo_dispatcher demo_view demo_task 2 =
     Some [\<lparr>fc_node_id = ''a'', fc_drain_worker = Some 0\<rparr>]"
proof -
  have "drain_choice 0 demo_dispatcher demo_view demo_task 2 = [(''a'', hd (nsv_workers demo_node_a))]"
    by (simp add: drain_choice_def drain_pool_def dv_state_entries_def dv_remote_def demo_view_defs
        is_drain_candidate_def demo_dispatcher_def dispatcher_new_def estimate_drain_eta_def demo_costs_def cost_mid_def
        warm_render_cost_def first_render_cost_def cost_saturating_add_def cost_fixed_def meets_sla_def
        demo_task_def duration_max_def instant_max_def std_defs)
  with tier3_refines_drain_choice [OF demo_sane, of 2 0 demo_view demo_task] show ?thesis
    by (simp add: demo_node_a_def)
qed

end
