(* ===== verification/Worker_Pool.thy ===== *)
theory Worker_Pool
  imports Biei_Config Interfaces
begin

text \<open>
  \<^verbatim>\<open>crates/biei-core/src/worker_pool.rs\<close>: the pool's predicted warm state (which profile each
  renderer slot is committed to), the ranking that picks a local worker, the lock-free reservation
  of a queue slot, the completion guard that travels with an accepted command, and the snapshots
  the node gossips. The contended protocol is the step relation \<open>pool_step\<close>: any number of callers
  interleave at the granularity of the atomic operations and of the mutex sections.
\<close>

section \<open>Predicted warm state\<close>

record pool_state =
  ps_loaded :: "worker_profile option list"
  ps_dispatch_generations :: "u64 list"
  ps_profile_counts :: "worker_profile \<rightharpoonup> nat"
  ps_last_used :: "instant option list"
  ps_addlayer_source_ids :: "string set list"
  ps_addlayer_source_lru :: "string list list"

definition pool_state_new :: "nat \<Rightarrow> pool_state" where
  "pool_state_new n =
     \<lparr>ps_loaded = replicate n None, ps_dispatch_generations = replicate n 0,
      ps_profile_counts = Map.empty, ps_last_used = replicate n None,
      ps_addlayer_source_ids = replicate n {}, ps_addlayer_source_lru = replicate n []\<rparr>"

definition decrement_profile_count :: "worker_profile \<Rightarrow> pool_state \<Rightarrow> pool_state" where
  "decrement_profile_count p s =
     (case ps_profile_counts s p of
        None \<Rightarrow> s
      | Some c \<Rightarrow>
          if c - 1 = 0 then s\<lparr>ps_profile_counts := (ps_profile_counts s)(p := None)\<rparr>
          else s\<lparr>ps_profile_counts := (ps_profile_counts s)(p \<mapsto> c - 1)\<rparr>)"

definition clear_addlayer_sources :: "nat \<Rightarrow> pool_state \<Rightarrow> pool_state" where
  "clear_addlayer_sources idx s =
     s\<lparr>ps_addlayer_source_ids := (ps_addlayer_source_ids s)[idx := {}],
       ps_addlayer_source_lru := (ps_addlayer_source_lru s)[idx := []]\<rparr>"

text \<open>\<open>loaded[idx].take()\<close> and the count of what was there.\<close>

definition take_loaded :: "nat \<Rightarrow> pool_state \<Rightarrow> pool_state" where
  "take_loaded idx s =
     (case ps_loaded s ! idx of
        None \<Rightarrow> s
      | Some previous \<Rightarrow>
          decrement_profile_count previous (s\<lparr>ps_loaded := (ps_loaded s)[idx := None]\<rparr>))"

definition increment_profile_count :: "worker_profile \<Rightarrow> pool_state \<Rightarrow> pool_state" where
  "increment_profile_count p s =
     s\<lparr>ps_profile_counts := (ps_profile_counts s)
         (p \<mapsto> (case ps_profile_counts s p of None \<Rightarrow> 0 | Some c \<Rightarrow> c) + 1)\<rparr>"

definition mark_loaded :: "instant \<Rightarrow> nat \<Rightarrow> worker_profile \<Rightarrow> pool_state \<Rightarrow> pool_state \<times> u64" where
  "mark_loaded now idx p s =
     (let generation = ps_dispatch_generations s ! idx + 1;
          s1 = s\<lparr>ps_dispatch_generations := (ps_dispatch_generations s)[idx := generation],
                 ps_last_used := (ps_last_used s)[idx := Some now]\<rparr>
      in if ps_loaded s1 ! idx = Some p then (s1, generation)
         else let s2 = increment_profile_count p (clear_addlayer_sources idx (take_loaded idx s1))
              in (s2\<lparr>ps_loaded := (ps_loaded s2)[idx := Some p]\<rparr>, generation))"

definition addlayer_source_affinity_capacity :: nat where
  "addlayer_source_affinity_capacity = 64"

text \<open>One slot's affinity set with its recency list.\<close>

type_synonym affinity = "string set \<times> string list"

fun affinity_evict :: "string set \<Rightarrow> string list \<Rightarrow> affinity" where
  "affinity_evict ids [] = (ids, [])"
| "affinity_evict ids (evicted # lru) =
     (if addlayer_source_affinity_capacity \<le> card ids
      then affinity_evict (ids - {evicted}) lru
      else (ids, evicted # lru))"

definition affinity_touch :: "string \<Rightarrow> affinity \<Rightarrow> affinity" where
  "affinity_touch source_id a =
     (case a of (ids, lru) \<Rightarrow>
        if source_id \<in> ids
        then (ids, filter (\<lambda>cached. cached \<noteq> source_id) lru @ [source_id])
        else case affinity_evict ids lru of
          (ids', lru') \<Rightarrow> (insert source_id ids', lru' @ [source_id]))"

definition mark_addlayer_source :: "nat \<Rightarrow> string \<Rightarrow> pool_state \<Rightarrow> pool_state" where
  "mark_addlayer_source idx source_id s =
     (case affinity_touch source_id (ps_addlayer_source_ids s ! idx, ps_addlayer_source_lru s ! idx) of
        (ids, lru) \<Rightarrow>
          s\<lparr>ps_addlayer_source_ids := (ps_addlayer_source_ids s)[idx := ids],
            ps_addlayer_source_lru := (ps_addlayer_source_lru s)[idx := lru]\<rparr>)"

definition clear_loaded :: "nat \<Rightarrow> pool_state \<Rightarrow> pool_state" where
  "clear_loaded idx s =
     (let s1 = take_loaded idx s
      in clear_addlayer_sources idx (s1\<lparr>ps_last_used := (ps_last_used s1)[idx := None]\<rparr>))"

definition clear_loaded_if_latest :: "nat \<Rightarrow> u64 \<Rightarrow> pool_state \<Rightarrow> pool_state" where
  "clear_loaded_if_latest idx generation s =
     (if ps_dispatch_generations s ! idx = generation then clear_loaded idx s else s)"

section \<open>Picking a worker\<close>

datatype pick_tier =
  WarmComfort | Fresh | WarmFull | AllocSwapIdle | WarmOverflow | WarmSaturated | ShortestQueue

fun pick_tier_rank :: "pick_tier \<Rightarrow> nat" where
  "pick_tier_rank WarmComfort = 0"
| "pick_tier_rank Fresh = 1"
| "pick_tier_rank WarmFull = 2"
| "pick_tier_rank AllocSwapIdle = 3"
| "pick_tier_rank WarmOverflow = 4"
| "pick_tier_rank WarmSaturated = 5"
| "pick_tier_rank ShortestQueue = 6"

lemma pick_tier_rank_inj [simp]: "pick_tier_rank a = pick_tier_rank b \<longleftrightarrow> a = b"
  by (cases a; cases b) simp_all

instantiation pick_tier :: linorder
begin

definition less_eq_pick_tier :: "pick_tier \<Rightarrow> pick_tier \<Rightarrow> bool" where
  "less_eq_pick_tier a b \<longleftrightarrow> pick_tier_rank a \<le> pick_tier_rank b"

definition less_pick_tier :: "pick_tier \<Rightarrow> pick_tier \<Rightarrow> bool" where
  "less_pick_tier a b \<longleftrightarrow> pick_tier_rank a < pick_tier_rank b"

instance
  by standard (auto simp: less_eq_pick_tier_def less_pick_tier_def simp flip: pick_tier_rank_inj)

end

text \<open>The derived order of the struct is lexicographic in the order of its fields.\<close>

datatype pick_score =
  PickScore (pk_tier: pick_tier) (pk_source_miss: bool) (pk_queue_depth: usize)
    (pk_protected_singleton: bool) (pk_shape_mismatch: bool) (pk_profile_count: "usize reverse")
    (pk_last_seen: "instant option")

definition pick_score_key ::
  "pick_score \<Rightarrow> pick_tier \<times> bool \<times> usize \<times> bool \<times> bool \<times> usize reverse \<times> instant option" where
  "pick_score_key s =
     (pk_tier s, pk_source_miss s, pk_queue_depth s, pk_protected_singleton s, pk_shape_mismatch s,
      pk_profile_count s, pk_last_seen s)"

lemma pick_score_key_inj [simp]: "pick_score_key a = pick_score_key b \<longleftrightarrow> a = b"
  by (cases a; cases b) (simp add: pick_score_key_def)

instantiation pick_score :: linorder
begin

definition less_eq_pick_score :: "pick_score \<Rightarrow> pick_score \<Rightarrow> bool" where
  "less_eq_pick_score a b \<longleftrightarrow> pick_score_key a \<le> pick_score_key b"

definition less_pick_score :: "pick_score \<Rightarrow> pick_score \<Rightarrow> bool" where
  "less_pick_score a b \<longleftrightarrow> pick_score_key a < pick_score_key b"

instance
  by standard (auto simp: less_eq_pick_score_def less_pick_score_def simp flip: pick_score_key_inj)

end

record pick_context =
  pc_state :: pool_state
  pc_incoming_addlayer_source_id :: "string option"
  pc_incoming_profile :: worker_profile
  pc_bl_capacity :: usize
  pc_queue_capacity :: usize

text \<open>\<open>bl_capacity * 2\<close> wraps in a release build.\<close>

definition expand_threshold :: "usize \<Rightarrow> usize" where
  "expand_threshold bl = max (bl * 2 mod 2 ^ 64 div 3) 1"

definition pick_tier_of :: "pick_context \<Rightarrow> worker_profile option \<Rightarrow> usize \<Rightarrow> pick_tier" where
  "pick_tier_of ctx loaded queue_depth =
     (case loaded of
        None \<Rightarrow> Fresh
      | Some p \<Rightarrow>
          let warm = (p = pc_incoming_profile ctx)
          in if warm \<and> queue_depth < expand_threshold (pc_bl_capacity ctx) then WarmComfort
             else if warm \<and> queue_depth < pc_bl_capacity ctx then WarmFull
             else if \<not> warm \<and> queue_depth = 0 then AllocSwapIdle
             else if warm \<and> queue_depth < pc_queue_capacity ctx then WarmOverflow
             else if warm then WarmSaturated
             else ShortestQueue)"

definition pick_score_of :: "pick_context \<Rightarrow> nat \<Rightarrow> usize \<Rightarrow> pick_score" where
  "pick_score_of ctx idx queue_depth =
     (let s = pc_state ctx;
          loaded = ps_loaded s ! idx;
          tier = pick_tier_of ctx loaded queue_depth;
          incoming = pc_incoming_profile ctx;
          source_miss = (case pc_incoming_addlayer_source_id ctx of
             None \<Rightarrow> False | Some i \<Rightarrow> i \<notin> ps_addlayer_source_ids s ! idx)
      in case (tier, loaded) of
           (AllocSwapIdle, Some p) \<Rightarrow>
             (let count = (case ps_profile_counts s p of None \<Rightarrow> 0 | Some c \<Rightarrow> c)
              in PickScore tier source_miss queue_depth (count \<le> 1)
                   (wp_render_mode p \<noteq> wp_render_mode incoming \<or> wp_scale p \<noteq> wp_scale incoming)
                   (Reverse count) (ps_last_used s ! idx))
         | _ \<Rightarrow> PickScore tier source_miss queue_depth False False (Reverse usize_max) None)"

section \<open>The pool\<close>

text \<open>The shared part of a pool: its limits, the queue-depth counters and the state behind the
  mutex. Channels and join handles carry no data the decisions read.\<close>

record pool =
  pl_bl_capacity :: usize
  pl_queue_capacity :: usize
  pl_render_permits :: usize
  pl_native_render_permits :: usize
  pl_depths :: "nat list"
  pl_state :: pool_state

definition pool_spawn :: "nat \<Rightarrow> usize \<Rightarrow> usize \<Rightarrow> usize \<Rightarrow> usize \<Rightarrow> pool" where
  "pool_spawn n bl queue permits native =
     (let render_permits = min (max permits 1) (max n 1);
          native_render_permits = min (max native 1) render_permits
      in \<lparr>pl_bl_capacity = bl, pl_queue_capacity = max queue bl, pl_render_permits = render_permits,
          pl_native_render_permits = native_render_permits, pl_depths = replicate n 0,
          pl_state = pool_state_new n\<rparr>)"

definition permits_inuse :: "usize \<Rightarrow> usize \<Rightarrow> usize" where
  "permits_inuse permits available = permits - available"

definition best_available_worker :: "pool \<Rightarrow> internal_task \<Rightarrow> string option \<Rightarrow> nat option" where
  "best_available_worker pl task addlayer_source_id =
     (let ctx = \<lparr>pc_state = pl_state pl, pc_incoming_addlayer_source_id = addlayer_source_id,
                 pc_incoming_profile = task_worker_profile task, pc_bl_capacity = pl_bl_capacity pl,
                 pc_queue_capacity = pl_queue_capacity pl\<rparr>;
          scored = map (\<lambda>idx. (idx, pick_score_of ctx idx (pl_depths pl ! idx)))
            (filter (\<lambda>idx. pl_depths pl ! idx < pl_queue_capacity pl) [0..<length (pl_depths pl)])
      in map_option fst (min_by_key snd scored))"

text \<open>The uncontended reservation: the pre-admission depth and the pool with the slot taken.\<close>

definition try_reserve :: "pool \<Rightarrow> nat \<Rightarrow> (nat \<times> pool) option" where
  "try_reserve pl idx =
     (let current = pl_depths pl ! idx
      in if pl_queue_capacity pl \<le> current then None
         else Some (current, pl\<lparr>pl_depths := (pl_depths pl)[idx := current + 1]\<rparr>))"

text \<open>The loop of the source rescans after a lost race; without one the first scan decides.\<close>

definition reserve_best_available ::
  "pool \<Rightarrow> internal_task \<Rightarrow> string option \<Rightarrow> (nat \<times> nat \<times> pool) option" where
  "reserve_best_available pl task addlayer_source_id =
     (case best_available_worker pl task addlayer_source_id of
        None \<Rightarrow> None
      | Some idx \<Rightarrow> map_option (\<lambda>(depth, pl'). (idx, depth, pl')) (try_reserve pl idx))"

record completion =
  cp_worker_idx :: nat
  cp_dispatch_generation :: u64

record admission =
  ad_completion :: completion
  ad_admitted_at_overflow :: bool

definition process_commit ::
  "instant \<Rightarrow> pool_state \<Rightarrow> nat \<Rightarrow> worker_profile \<Rightarrow> string option \<Rightarrow> pool_state \<times> completion" where
  "process_commit now s idx task_profile addlayer_source_id =
     (case mark_loaded now idx task_profile s of
        (s1, generation) \<Rightarrow>
          ((case addlayer_source_id of None \<Rightarrow> s1 | Some i \<Rightarrow> mark_addlayer_source idx i s1),
           \<lparr>cp_worker_idx = idx, cp_dispatch_generation = generation\<rparr>))"

definition process_admit ::
  "instant \<Rightarrow> pool \<Rightarrow> internal_task \<Rightarrow> string option \<Rightarrow> worker_id option
     \<Rightarrow> process_error + (admission \<times> pool)" where
  "process_admit now pl task addlayer_source_id worker_hint =
     (let reserved = (case worker_hint of
            Some wid \<Rightarrow>
              if unat wid < length (pl_depths pl)
              then map_option (\<lambda>(depth, pl'). (unat wid, depth, pl')) (try_reserve pl (unat wid))
              else reserve_best_available pl task addlayer_source_id
          | None \<Rightarrow> reserve_best_available pl task addlayer_source_id)
      in case reserved of
           None \<Rightarrow> Inl (PQueueFull task)
         | Some (idx, depth, pl') \<Rightarrow>
             (case process_commit now (pl_state pl') idx (task_worker_profile task) addlayer_source_id of
                (s, guard) \<Rightarrow>
                  Inr (\<lparr>ad_completion = guard, ad_admitted_at_overflow = pl_bl_capacity pl \<le> depth\<rparr>,
                       pl'\<lparr>pl_state := s\<rparr>)))"

definition outcome_invalidates :: "task_outcome \<Rightarrow> bool" where
  "outcome_invalidates o' =
     (case oc_result o' of Completed _ _ \<Rightarrow> False | Rejected _ \<Rightarrow> True | Failed _ _ \<Rightarrow> True)"

text \<open>\<open>finish\<close> followed by the drop of the guard, and the drop alone (the command was never
  answered): release the slot, and forget the predicted profile unless the render completed.\<close>

definition completion_release :: "completion \<Rightarrow> task_outcome option \<Rightarrow> pool \<Rightarrow> pool" where
  "completion_release g outcome pl =
     (let idx = cp_worker_idx g;
          clear = (case outcome of None \<Rightarrow> True | Some o' \<Rightarrow> outcome_invalidates o');
          s = (if clear then clear_loaded_if_latest idx (cp_dispatch_generation g) (pl_state pl)
               else pl_state pl)
      in pl\<lparr>pl_state := s, pl_depths := (pl_depths pl)[idx := pl_depths pl ! idx - 1]\<rparr>)"

text \<open>What the worker's channel answers: the send failed, the worker died before answering, or an
  outcome.\<close>

datatype worker_reply = SendFailed | ReplyDropped | Replied task_outcome

definition process ::
  "instant \<Rightarrow> pool \<Rightarrow> internal_task \<Rightarrow> string option \<Rightarrow> worker_id option
     \<Rightarrow> (admission \<Rightarrow> worker_reply) \<Rightarrow> (process_error + task_outcome) \<times> pool" where
  "process now pl task addlayer_source_id worker_hint worker =
     (case process_admit now pl task addlayer_source_id worker_hint of
        Inl e \<Rightarrow> (Inl e, pl)
      | Inr (ad, pl') \<Rightarrow>
          (case worker ad of
             SendFailed \<Rightarrow> (Inl (PQueueFull task), completion_release (ad_completion ad) None pl')
           | ReplyDropped \<Rightarrow> (Inl QueueDisconnected, completion_release (ad_completion ad) None pl')
           | Replied outcome \<Rightarrow> (Inr outcome, completion_release (ad_completion ad) (Some outcome) pl')))"

definition snapshot_workers :: "pool \<Rightarrow> worker_view list" where
  "snapshot_workers pl =
     map (\<lambda>i. \<lparr>wv_id = of_nat i, wv_loaded_profile = ps_loaded (pl_state pl) ! i,
              wv_queue_depth = pl_depths pl ! i\<rparr>) [0..<length (pl_depths pl)]"

definition snapshot_kvs :: "pool \<Rightarrow> node_kvs" where
  "snapshot_kvs pl =
     fold (\<lambda>i out. encode_worker_kvs out (of_nat i) (ps_loaded (pl_state pl) ! i) (pl_depths pl ! i))
       [0..<length (pl_depths pl)] []"

subsection \<open>Shutdown\<close>

record worker_shutdown =
  ws_joined :: usize
  ws_timed_out :: usize

definition is_complete :: "worker_shutdown \<Rightarrow> bool" where
  "is_complete w \<longleftrightarrow> ws_timed_out w = 0"

text \<open>\<open>joins\<close> says of each worker whether its join handle is still there and, if so, whether its
  task ends before the deadline. Returns the report and the handles left.\<close>

definition shutdown_join :: "bool option list \<Rightarrow> worker_shutdown \<times> bool option list" where
  "shutdown_join joins =
     fold (\<lambda>j (w, rest).
         (case j of
            None \<Rightarrow> w
          | Some True \<Rightarrow> w\<lparr>ws_joined := ws_joined w + 1\<rparr>
          | Some False \<Rightarrow> w\<lparr>ws_timed_out := ws_timed_out w + 1\<rparr>, rest @ [None]))
       joins (\<lparr>ws_joined = 0, ws_timed_out = 0\<rparr>, [])"

text \<open>\<open>sends\<close>: whether the retire message to each worker is sent before the deadline; the loop
  stops at the first that is not. The result is how many workers were told.\<close>

definition shutdown_retire :: "bool list \<Rightarrow> nat" where
  "shutdown_retire sends = length (takeWhile id sends)"

section \<open>The affinity list is a recency cache\<close>

fun affinity_inv :: "affinity \<Rightarrow> bool" where
  "affinity_inv (ids, lru) \<longleftrightarrow>
     ids = set lru \<and> distinct lru \<and> length lru \<le> addlayer_source_affinity_capacity"

lemma affinity_evict_inv:
  assumes "distinct lru" and "length lru \<le> addlayer_source_affinity_capacity"
  shows "affinity_evict (set lru) lru =
    (let l = drop (Suc (length lru) - addlayer_source_affinity_capacity) lru in (set l, l))"
proof (cases "length lru < addlayer_source_affinity_capacity")
  case True
  then show ?thesis using assms(1) by (cases lru) (auto simp: distinct_card Let_def card_insert_if)
next
  case False
  with assms(2) have len: "length lru = 64" by (simp add: addlayer_source_affinity_capacity_def)
  then obtain a l where lru: "lru = a # l" by (cases lru) auto
  with assms(1) len have "set lru - {a} = set l" "card (set lru) = 64" "card (set l) = 63"
    by (auto simp: distinct_card)
  then have "affinity_evict (set lru) lru = (set l, l)"
    unfolding lru by (cases l) (simp_all add: addlayer_source_affinity_capacity_def)
  then show ?thesis using len lru by (simp add: addlayer_source_affinity_capacity_def)
qed

lemma affinity_touch_contents:
  assumes "affinity_inv a"
  shows "affinity_touch x a =
    (let l = lru_touch addlayer_source_affinity_capacity x (snd a) in (set l, l))"
proof -
  obtain lru where a: "a = (set lru, lru)" "distinct lru" "length lru \<le> addlayer_source_affinity_capacity"
    using assms by (cases a) auto
  show ?thesis
  proof (cases "x \<in> set lru")
    case True
    then have "Suc (length (removeAll x lru)) \<le> length lru" by (simp add: Suc_le_eq length_removeAll_less)
    with a True show ?thesis
      by (auto simp: affinity_touch_def lru_touch_def Let_def removeAll_filter_not_eq eq_commute [of x])
  next
    case False
    with a show ?thesis
      by (simp add: affinity_touch_def affinity_evict_inv lru_touch_def Let_def
          addlayer_source_affinity_capacity_def)
  qed
qed

lemma affinity_touch_inv: "affinity_inv a \<Longrightarrow> affinity_inv (affinity_touch x a)"
  by (cases a) (simp add: affinity_touch_contents Let_def distinct_lru_touch length_lru_touch)

interpretation affinity: recency_cache snd affinity_touch "\<lambda>_. addlayer_source_affinity_capacity" affinity_inv
proof unfold_locales
  show "affinity_inv c \<Longrightarrow> snd (affinity_touch x c) = lru_touch addlayer_source_affinity_capacity x (snd c)"
    for x and c :: affinity by (simp add: affinity_touch_contents Let_def)
qed (auto simp: addlayer_source_affinity_capacity_def affinity_touch_inv)

section \<open>The warm-state invariant\<close>

definition counts_agree :: "pool_state \<Rightarrow> bool" where
  "counts_agree s \<longleftrightarrow>
     (\<forall>p. ps_profile_counts s p =
        (if Some p \<in> set (ps_loaded s) then Some (count (mset (ps_loaded s)) (Some p)) else None))"

definition pool_state_inv :: "nat \<Rightarrow> pool_state \<Rightarrow> bool" where
  "pool_state_inv n s \<longleftrightarrow>
     length (ps_loaded s) = n \<and> length (ps_dispatch_generations s) = n \<and> length (ps_last_used s) = n
     \<and> length (ps_addlayer_source_ids s) = n \<and> length (ps_addlayer_source_lru s) = n
     \<and> counts_agree s
     \<and> (\<forall>i<n. affinity_inv (ps_addlayer_source_ids s ! i, ps_addlayer_source_lru s ! i))
     \<and> (\<forall>i<n. ps_loaded s ! i = None \<longrightarrow>
          ps_addlayer_source_ids s ! i = {} \<and> ps_last_used s ! i = None)"

lemma pool_state_new_inv: "pool_state_inv n (pool_state_new n)"
  by (auto simp: pool_state_inv_def pool_state_new_def counts_agree_def
      addlayer_source_affinity_capacity_def)

definition load_count :: "worker_profile option list \<Rightarrow> worker_profile \<Rightarrow> nat" where
  "load_count l q = count (mset l) (Some q)"

lemma load_count_update:
  "i < length l \<Longrightarrow> load_count (l[i := x]) q =
     load_count l q - (if l ! i = Some q then 1 else 0) + (if x = Some q then 1 else 0)"
  by (auto simp: load_count_def mset_update)

lemma load_count_pos: "i < length l \<Longrightarrow> l ! i = Some q \<Longrightarrow> 0 < load_count l q"
  unfolding load_count_def by (metis count_greater_zero_iff nth_mem set_mset_mset)

lemma counts_agree_alt:
  "counts_agree s \<longleftrightarrow>
     (\<forall>p. ps_profile_counts s p =
        (if load_count (ps_loaded s) p = 0 then None else Some (load_count (ps_loaded s) p)))"
  by (auto simp: counts_agree_def load_count_def)

lemma counts_agree_take_loaded:
  assumes "counts_agree s" and "i < length (ps_loaded s)"
  shows "counts_agree (take_loaded i s)"
proof (cases "ps_loaded s ! i")
  case None
  with assms(1) show ?thesis by (simp add: take_loaded_def)
next
  case (Some p)
  from load_count_pos [OF assms(2) this] have pos: "0 < load_count (ps_loaded s) p" .
  with assms(1) have c: "ps_profile_counts s p = Some (load_count (ps_loaded s) p)"
    by (simp add: counts_agree_alt)
  show ?thesis
    using assms pos unfolding counts_agree_alt
    by (auto simp: take_loaded_def Some decrement_profile_count_def c load_count_update)
qed

lemma take_loaded_simps [simp]:
  "length (ps_loaded (take_loaded i s)) = length (ps_loaded s)"
  "ps_dispatch_generations (take_loaded i s) = ps_dispatch_generations s"
  "ps_last_used (take_loaded i s) = ps_last_used s"
  "ps_addlayer_source_ids (take_loaded i s) = ps_addlayer_source_ids s"
  "ps_addlayer_source_lru (take_loaded i s) = ps_addlayer_source_lru s"
  "j \<noteq> i \<Longrightarrow> ps_loaded (take_loaded i s) ! j = ps_loaded s ! j"
  "i < length (ps_loaded s) \<Longrightarrow> ps_loaded (take_loaded i s) ! i = None"
  by (auto simp: take_loaded_def decrement_profile_count_def split: option.splits)

lemma counts_agree_load:
  assumes "counts_agree s" and "i < length (ps_loaded s)" and "ps_loaded s ! i = None"
  shows "counts_agree ((increment_profile_count p s)\<lparr>ps_loaded := (ps_loaded s)[i := Some p]\<rparr>)"
  using assms unfolding counts_agree_alt
  by (simp add: increment_profile_count_def load_count_update)

lemma counts_agree_cong:
  "ps_loaded s = ps_loaded t \<Longrightarrow> ps_profile_counts s = ps_profile_counts t \<Longrightarrow>
     counts_agree s = counts_agree t"
  by (simp add: counts_agree_def)

lemma clear_addlayer_counts [simp]:
  "counts_agree (clear_addlayer_sources i s) = counts_agree s"
  "ps_loaded (clear_addlayer_sources i s) = ps_loaded s"
  "ps_last_used (clear_addlayer_sources i s) = ps_last_used s"
  "ps_profile_counts (clear_addlayer_sources i s) = ps_profile_counts s"
  "ps_dispatch_generations (clear_addlayer_sources i s) = ps_dispatch_generations s"
  by (simp_all add: clear_addlayer_sources_def counts_agree_def)

lemma clear_loaded_inv:
  assumes "pool_state_inv n s" and "i < n"
  shows "pool_state_inv n (clear_loaded i s)"
proof -
  define t where "t = take_loaded i s"
  have "counts_agree t"
    using assms by (simp add: t_def counts_agree_take_loaded pool_state_inv_def)
  then have "counts_agree (clear_loaded i s)"
    by (simp add: clear_loaded_def Let_def counts_agree_def flip: t_def)
  with assms show ?thesis
    by (auto simp: pool_state_inv_def clear_loaded_def Let_def clear_addlayer_sources_def nth_list_update
        addlayer_source_affinity_capacity_def)
qed

lemma clear_loaded_if_latest_inv:
  "pool_state_inv n s \<Longrightarrow> i < n \<Longrightarrow> pool_state_inv n (clear_loaded_if_latest i g s)"
  by (simp add: clear_loaded_if_latest_def clear_loaded_inv)

lemma mark_loaded_inv:
  assumes "pool_state_inv n s" and "i < n"
  shows "pool_state_inv n (fst (mark_loaded now i p s))"
    and "ps_loaded (fst (mark_loaded now i p s)) = (ps_loaded s)[i := Some p]"
proof -
  define s1 where "s1 = s\<lparr>ps_dispatch_generations := (ps_dispatch_generations s)[i := ps_dispatch_generations s ! i + 1],
                 ps_last_used := (ps_last_used s)[i := Some now]\<rparr>"
  define t where "t = clear_addlayer_sources i (take_loaded i s1)"
  define u where "u = (increment_profile_count p t)\<lparr>ps_loaded := (ps_loaded t)[i := Some p]\<rparr>"
  have s1: "ps_loaded s1 = ps_loaded s" "counts_agree s1" "i < length (ps_loaded s1)"
    using assms by (auto simp: s1_def pool_state_inv_def counts_agree_def)
  have "ps_loaded (take_loaded i s1) = (ps_loaded s)[i := None]"
    by (rule nth_equalityI) (use s1 in \<open>auto simp: nth_list_update\<close>)
  then have ld: "(ps_loaded t)[i := Some p] = (ps_loaded s)[i := Some p]" by (simp add: t_def)
  have cu: "counts_agree u" unfolding u_def
    by (rule counts_agree_load) (use s1 in \<open>simp_all add: t_def counts_agree_take_loaded\<close>)
  have ml: "fst (mark_loaded now i p s) = (if ps_loaded s1 ! i = Some p then s1 else u)"
    by (simp add: mark_loaded_def Let_def s1_def t_def u_def increment_profile_count_def)
  have "ps_loaded s1 ! i = Some p \<Longrightarrow> pool_state_inv n s1" using assms s1(1,2) by (auto simp: pool_state_inv_def s1_def nth_list_update)
  moreover have "pool_state_inv n u"
    using assms cu ld by (auto simp: pool_state_inv_def u_def t_def s1_def increment_profile_count_def
        clear_addlayer_sources_def nth_list_update addlayer_source_affinity_capacity_def)
  ultimately show "pool_state_inv n (fst (mark_loaded now i p s))" by (simp add: ml)
  show "ps_loaded (fst (mark_loaded now i p s)) = (ps_loaded s)[i := Some p]"
  proof (cases "ps_loaded s1 ! i = Some p")
    case True
    then show ?thesis using s1(1) list_update_id [of "ps_loaded s" i] by (simp add: ml)
  next
    case False
    then show ?thesis using ld by (simp add: ml u_def)
  qed
qed

lemma mark_addlayer_source_inv:
  assumes "pool_state_inv n s" and "i < n" and "ps_loaded s ! i \<noteq> None"
  shows "pool_state_inv n (mark_addlayer_source i x s)"
proof -
  have "affinity_inv (affinity_touch x (ps_addlayer_source_ids s ! i, ps_addlayer_source_lru s ! i))"
    using assms(1,2) by (intro affinity_touch_inv) (simp add: pool_state_inv_def)
  with assms show ?thesis
    by (auto simp: pool_state_inv_def mark_addlayer_source_def counts_agree_def nth_list_update
        split: prod.splits)
qed

lemma process_commit_inv:
  assumes "pool_state_inv n s" and "i < n"
  shows "pool_state_inv n (fst (process_commit now s i p src))"
    and "cp_worker_idx (snd (process_commit now s i p src)) = i"
proof -
  obtain s1 g where m: "mark_loaded now i p s = (s1, g)" by fastforce
  with mark_loaded_inv [OF assms, of now p] assms have "pool_state_inv n s1" "ps_loaded s1 ! i \<noteq> None"
    by (auto simp: pool_state_inv_def)
  with m assms(2) show "pool_state_inv n (fst (process_commit now s i p src))"
    by (auto simp: process_commit_def mark_addlayer_source_inv split: option.splits)
  show "cp_worker_idx (snd (process_commit now s i p src)) = i"
    by (simp add: process_commit_def m)
qed

section \<open>The contended protocol\<close>

text \<open>\<open>sy_cas\<close> holds the callers inside the compare-and-exchange loop of \<open>try_reserve\<close> with the value
  each read last, \<open>sy_reserved\<close> the callers that own a slot and have not built its guard yet,
  \<open>sy_guards\<close> the guards alive in queued or running commands. A weak exchange may also fail with
  the expected value in place.\<close>

record pool_sys =
  sy_pool :: pool
  sy_cas :: "(nat \<times> nat) multiset"
  sy_reserved :: "nat multiset"
  sy_guards :: "completion multiset"

definition pool_init :: "nat \<Rightarrow> usize \<Rightarrow> usize \<Rightarrow> usize \<Rightarrow> usize \<Rightarrow> pool_sys \<Rightarrow> bool" where
  "pool_init n bl queue permits native s \<longleftrightarrow>
     s = \<lparr>sy_pool = pool_spawn n bl queue permits native, sy_cas = {#}, sy_reserved = {#}, sy_guards = {#}\<rparr>"

inductive pool_step :: "pool_sys \<Rightarrow> pool_sys \<Rightarrow> bool" where
  reserve_load:
    "i < length (pl_depths (sy_pool s)) \<Longrightarrow>
     pool_step s (s\<lparr>sy_cas := add_mset (i, pl_depths (sy_pool s) ! i) (sy_cas s)\<rparr>)"
| reserve_cas:
    "(i, current) \<in># sy_cas s \<Longrightarrow> current < pl_queue_capacity (sy_pool s) \<Longrightarrow>
     pl_depths (sy_pool s) ! i = current \<Longrightarrow>
     pool_step s (s\<lparr>sy_pool := (sy_pool s)\<lparr>pl_depths := (pl_depths (sy_pool s))[i := current + 1]\<rparr>,
       sy_cas := sy_cas s - {#(i, current)#}, sy_reserved := add_mset i (sy_reserved s)\<rparr>)"
| reserve_retry:
    "(i, current) \<in># sy_cas s \<Longrightarrow> current < pl_queue_capacity (sy_pool s) \<Longrightarrow>
     pool_step s (s\<lparr>sy_cas := add_mset (i, pl_depths (sy_pool s) ! i) (sy_cas s - {#(i, current)#})\<rparr>)"
| reserve_full:
    "(i, current) \<in># sy_cas s \<Longrightarrow> pl_queue_capacity (sy_pool s) \<le> current \<Longrightarrow>
     pool_step s (s\<lparr>sy_cas := sy_cas s - {#(i, current)#}\<rparr>)"
| dispatch_commit:
    "i \<in># sy_reserved s \<Longrightarrow> process_commit now (pl_state (sy_pool s)) i p src = (st, g) \<Longrightarrow>
     pool_step s (s\<lparr>sy_pool := (sy_pool s)\<lparr>pl_state := st\<rparr>,
       sy_reserved := sy_reserved s - {#i#}, sy_guards := add_mset g (sy_guards s)\<rparr>)"
| guard_release:
    "g \<in># sy_guards s \<Longrightarrow>
     pool_step s (s\<lparr>sy_pool := completion_release g outcome (sy_pool s), sy_guards := sy_guards s - {#g#}\<rparr>)"

inductive_cases pool_stepE: "pool_step s t"

definition guards_at :: "nat \<Rightarrow> completion multiset \<Rightarrow> nat" where
  "guards_at i gs = size (filter_mset (\<lambda>g. cp_worker_idx g = i) gs)"

definition pool_sys_inv :: "nat \<Rightarrow> usize \<Rightarrow> pool_sys \<Rightarrow> bool" where
  "pool_sys_inv n cap s \<longleftrightarrow>
     length (pl_depths (sy_pool s)) = n \<and> pl_queue_capacity (sy_pool s) = cap
     \<and> pool_state_inv n (pl_state (sy_pool s))
     \<and> (\<forall>i<n. pl_depths (sy_pool s) ! i = count (sy_reserved s) i + guards_at i (sy_guards s)
              \<and> pl_depths (sy_pool s) ! i \<le> cap)
     \<and> (\<forall>x\<in>#sy_cas s. fst x < n) \<and> (\<forall>i\<in>#sy_reserved s. i < n) \<and> (\<forall>g\<in>#sy_guards s. cp_worker_idx g < n)"

lemma guards_at_add [simp]:
  "guards_at i (add_mset g gs) = guards_at i gs + (if cp_worker_idx g = i then 1 else 0)"
  by (simp add: guards_at_def)

lemma guards_at_remove:
  "g \<in># gs \<Longrightarrow> guards_at i (gs - {#g#}) = guards_at i gs - (if cp_worker_idx g = i then 1 else 0)"
  by (auto simp: guards_at_def size_Diff_singleton)

lemma guards_at_pos: "g \<in># gs \<Longrightarrow> 0 < guards_at (cp_worker_idx g) gs"
  by (auto simp: guards_at_def nonempty_has_size [symmetric] filter_mset_eq_conv)

lemma pool_init_inv: "pool_init n bl queue permits native s \<Longrightarrow> pool_sys_inv n (max queue bl) s"
  by (auto simp: pool_init_def pool_sys_inv_def pool_spawn_def Let_def pool_state_new_inv guards_at_def)

lemma completion_release_simps [simp]:
  "pl_queue_capacity (completion_release g oc pl) = pl_queue_capacity pl"
  "pl_depths (completion_release g oc pl) =
     (pl_depths pl)[cp_worker_idx g := pl_depths pl ! cp_worker_idx g - 1]"
  by (simp_all add: completion_release_def Let_def)

lemma completion_release_inv:
  "pool_state_inv n (pl_state pl) \<Longrightarrow> cp_worker_idx g < n \<Longrightarrow>
     pool_state_inv n (pl_state (completion_release g oc pl))"
  by (simp add: completion_release_def Let_def clear_loaded_if_latest_inv)

lemma pool_step_inv:
  assumes "pool_sys_inv n cap s" and "pool_step s t"
  shows "pool_sys_inv n cap t"
  using assms(2)
proof (cases rule: pool_step.cases)
  case (dispatch_commit i now p src st g)
  from assms(1) dispatch_commit(2) have "i < n" "pool_state_inv n (pl_state (sy_pool s))"
    by (auto simp: pool_sys_inv_def)
  with process_commit_inv [of n _ i now p src] dispatch_commit(3)
  have "pool_state_inv n st" "cp_worker_idx g = i" by (metis fst_conv, metis snd_conv)
  moreover have "0 < count (sy_reserved s) i" using dispatch_commit(2) by simp
  ultimately show ?thesis
    using assms(1) dispatch_commit(1) by (auto simp: pool_sys_inv_def dest: in_diffD)
next
  case (guard_release g outcome)
  from assms(1) guard_release(2) have i: "cp_worker_idx g < n" by (auto simp: pool_sys_inv_def)
  with assms(1) have "pool_state_inv n (pl_state (completion_release g outcome (sy_pool s)))"
    by (intro completion_release_inv) (auto simp: pool_sys_inv_def)
  with assms(1) guard_release i guards_at_pos [OF guard_release(2)] show ?thesis
    by (auto simp: pool_sys_inv_def nth_list_update guards_at_remove dest: in_diffD)
qed (use assms(1) in \<open>auto simp: pool_sys_inv_def nth_list_update dest: in_diffD\<close>)

interpretation pool_ts: transition_system "pool_init n bl queue permits native" pool_step
  "pool_sys_inv n (max queue bl)" for n bl queue permits native
  by unfold_locales (auto intro: pool_init_inv pool_step_inv)

text \<open>An uncontended reservation is a run of the protocol.\<close>

lemma try_reserve_run:
  assumes "try_reserve (sy_pool s) i = Some (d, pl)" and "i < length (pl_depths (sy_pool s))"
  shows "pool_step\<^sup>*\<^sup>* s (s\<lparr>sy_pool := pl, sy_reserved := add_mset i (sy_reserved s)\<rparr>)"
proof -
  let ?d = "pl_depths (sy_pool s) ! i"
  let ?m = "s\<lparr>sy_cas := add_mset (i, ?d) (sy_cas s)\<rparr>"
  from assms(1) have d: "?d < pl_queue_capacity (sy_pool s)"
    "pl = (sy_pool s)\<lparr>pl_depths := (pl_depths (sy_pool s))[i := ?d + 1]\<rparr>"
    by (auto simp: try_reserve_def Let_def split: if_splits)
  have "pool_step s ?m" using assms(2) by (rule reserve_load)
  moreover have "pool_step ?m (s\<lparr>sy_pool := pl, sy_reserved := add_mset i (sy_reserved s)\<rparr>)"
    using reserve_cas [of i ?d ?m] d by simp
  ultimately show ?thesis by (meson r_into_rtranclp rtranclp_trans)
qed

section \<open>Sequential behaviour of the pool\<close>

definition pool_ok :: "pool \<Rightarrow> bool" where
  "pool_ok pl \<longleftrightarrow> pool_state_inv (length (pl_depths pl)) (pl_state pl)"

lemma try_reserve_Some:
  assumes "try_reserve pl i = Some (d, pl')"
  shows "d = pl_depths pl ! i" and "d < pl_queue_capacity pl"
    and "pl' = pl\<lparr>pl_depths := (pl_depths pl)[i := d + 1]\<rparr>"
  using assms by (auto simp: try_reserve_def Let_def split: if_splits)

lemma best_available_worker_Some:
  assumes "best_available_worker pl task src = Some i"
  shows "i < length (pl_depths pl)" and "pl_depths pl ! i < pl_queue_capacity pl"
  using assms by (auto simp: best_available_worker_def Let_def dest!: min_by_key_Some)

lemma reserve_best_available_Some:
  "reserve_best_available pl task src = Some (i, d, pl') \<Longrightarrow>
     best_available_worker pl task src = Some i \<and> try_reserve pl i = Some (d, pl')"
  by (auto simp: reserve_best_available_def split: option.splits)

lemma process_admit_cases:
  assumes "process_admit now pl task src hint = Inr (ad, pl')"
  obtains i d s g where "i < length (pl_depths pl)" "d = pl_depths pl ! i" "d < pl_queue_capacity pl"
    "process_commit now (pl_state pl) i (task_worker_profile task) src = (s, g)"
    "ad = \<lparr>ad_completion = g, ad_admitted_at_overflow = pl_bl_capacity pl \<le> d\<rparr>"
    "pl' = pl\<lparr>pl_depths := (pl_depths pl)[i := d + 1], pl_state := s\<rparr>"
proof -
  have "\<exists>i d plr. i < length (pl_depths pl) \<and> try_reserve pl i = Some (d, plr) \<and>
      (case process_commit now (pl_state plr) i (task_worker_profile task) src of
         (s, g) \<Rightarrow> (\<lparr>ad_completion = g, ad_admitted_at_overflow = pl_bl_capacity pl \<le> d\<rparr>,
                    plr\<lparr>pl_state := s\<rparr>)) = (ad, pl')"
    using assms reserve_best_available_Some best_available_worker_Some(1)
    by (fastforce simp: process_admit_def Let_def split: option.splits if_splits prod.splits)
  then obtain i d plr where *: "i < length (pl_depths pl)" "try_reserve pl i = Some (d, plr)"
    "(case process_commit now (pl_state plr) i (task_worker_profile task) src of
         (s, g) \<Rightarrow> (\<lparr>ad_completion = g, ad_admitted_at_overflow = pl_bl_capacity pl \<le> d\<rparr>,
                    plr\<lparr>pl_state := s\<rparr>)) = (ad, pl')" by blast
  obtain s g where c: "process_commit now (pl_state pl) i (task_worker_profile task) src = (s, g)" by fastforce
  from *(3) try_reserve_Some [OF *(2)] c show ?thesis
    by (intro that [OF *(1) _ _ c]) auto
qed

lemma mark_loaded_generation:
  assumes "i < length (ps_dispatch_generations s)"
  shows "ps_dispatch_generations (fst (mark_loaded now i p s)) ! i = snd (mark_loaded now i p s)"
  using assms by (simp add: mark_loaded_def Let_def increment_profile_count_def)

lemma mark_addlayer_source_keeps [simp]:
  "ps_loaded (mark_addlayer_source i x s) = ps_loaded s"
  "ps_dispatch_generations (mark_addlayer_source i x s) = ps_dispatch_generations s"
  by (simp_all add: mark_addlayer_source_def split: prod.splits)

lemma process_commit_effect:
  assumes "pool_state_inv n s" and "i < n" and "process_commit now s i p src = (t, g)"
  shows "pool_state_inv n t" and "ps_loaded t = (ps_loaded s)[i := Some p]"
    and "cp_worker_idx g = i" and "ps_dispatch_generations t ! i = cp_dispatch_generation g"
proof -
  obtain s1 gen where m: "mark_loaded now i p s = (s1, gen)" by fastforce
  have "i < length (ps_dispatch_generations s)" using assms by (simp add: pool_state_inv_def)
  from mark_loaded_generation [OF this, of now p] mark_loaded_inv(2) [OF assms(1,2), of now p] m
  have "ps_dispatch_generations s1 ! i = gen" "ps_loaded s1 = (ps_loaded s)[i := Some p]" by simp_all
  with process_commit_inv [OF assms(1,2), of now p src] assms(3) m
  show "pool_state_inv n t" "ps_loaded t = (ps_loaded s)[i := Some p]"
    "cp_worker_idx g = i" "ps_dispatch_generations t ! i = cp_dispatch_generation g"
    by (auto simp: process_commit_def split: option.splits)
qed

lemma clear_loaded_effect:
  "i < length (ps_loaded s) \<Longrightarrow> ps_loaded (clear_loaded i s) = (ps_loaded s)[i := None]"
  by (rule nth_equalityI) (auto simp: clear_loaded_def Let_def nth_list_update)

definition reply_warm :: "worker_reply \<Rightarrow> bool" where
  "reply_warm r = (case r of Replied o' \<Rightarrow> \<not> outcome_invalidates o' | _ \<Rightarrow> False)"

lemma process_eq:
  "process now pl task src hint worker =
     (case process_admit now pl task src hint of
        Inl e \<Rightarrow> (Inl e, pl)
      | Inr (ad, pl') \<Rightarrow>
          ((case worker ad of SendFailed \<Rightarrow> Inl (PQueueFull task) | ReplyDropped \<Rightarrow> Inl QueueDisconnected
            | Replied o' \<Rightarrow> Inr o'),
           completion_release (ad_completion ad)
             (case worker ad of Replied o' \<Rightarrow> Some o' | _ \<Rightarrow> None) pl'))"
  by (auto simp: process_def split: sum.splits worker_reply.splits)

lemma process_effect:
  assumes "pool_ok pl" and "process_admit now pl task src hint = Inr (ad, pl1)"
    and "process now pl task src hint worker = (r, pl2)"
  defines "i \<equiv> cp_worker_idx (ad_completion ad)"
  shows "pl_depths pl2 = pl_depths pl" and "pool_ok pl2" and "i < length (pl_depths pl)"
    and "ps_loaded (pl_state pl2) =
      (ps_loaded (pl_state pl))[i := if reply_warm (worker ad) then Some (task_worker_profile task) else None]"
proof -
  obtain j d s g where a: "j < length (pl_depths pl)" "d = pl_depths pl ! j" "d < pl_queue_capacity pl"
    "process_commit now (pl_state pl) j (task_worker_profile task) src = (s, g)"
    "ad = \<lparr>ad_completion = g, ad_admitted_at_overflow = pl_bl_capacity pl \<le> d\<rparr>"
    "pl1 = pl\<lparr>pl_depths := (pl_depths pl)[j := d + 1], pl_state := s\<rparr>"
    by (rule process_admit_cases [OF assms(2)])
  let ?n = "length (pl_depths pl)" and ?oc = "case worker ad of Replied o' \<Rightarrow> Some o' | _ \<Rightarrow> None"
  note e = process_commit_effect [OF assms(1) [unfolded pool_ok_def] a(1) a(4)]
  have ij: "i = j" using e(3) a(5) by (simp add: i_def)
  have pl2: "pl2 = completion_release g ?oc pl1"
    using assms(2,3) a(5) by (simp add: process_eq)
  show "pl_depths pl2 = pl_depths pl" using a(2) e(3) by (simp add: pl2 a(1,6))
  have st: "pl_state pl2 = (if reply_warm (worker ad) then s else clear_loaded j s)"
    using e(3,4) by (auto simp: pl2 completion_release_def Let_def a(6) clear_loaded_if_latest_def
        reply_warm_def split: worker_reply.splits)
  show "pool_ok pl2"
    using e(1) a(1) clear_loaded_inv [OF e(1) a(1)] by (simp add: pool_ok_def st \<open>pl_depths pl2 = pl_depths pl\<close>)
  show "i < ?n" using a(1) ij by simp
  have "j < length (ps_loaded s)" using e(1) a(1) by (simp add: pool_state_inv_def)
  with clear_loaded_effect [OF this] show "ps_loaded (pl_state pl2) =
      (ps_loaded (pl_state pl))[i := if reply_warm (worker ad) then Some (task_worker_profile task) else None]"
    by (simp add: st ij e(2))
qed

section \<open>Snapshots\<close>

lemma snapshot_kvs_views: "snapshot_kvs pl = encode_worker_views (snapshot_workers pl) []"
  by (simp add: snapshot_kvs_def encode_worker_views_def snapshot_workers_def fold_map comp_def)

lemma of_nat_u32_less: "i < j \<Longrightarrow> j < 2 ^ 32 \<Longrightarrow> (of_nat i :: u32) < of_nat j"
  by (simp add: word_less_nat_alt unat_of_nat take_bit_eq_mod)

lemma snapshot_workers_sorted:
  assumes "length (pl_depths pl) \<le> 2 ^ 32"
  shows "sorted_wrt (<) (map wv_id (snapshot_workers pl))"
  unfolding sorted_wrt_map snapshot_workers_def sorted_wrt_iff_nth_less
  using assms by (auto intro!: of_nat_u32_less)

section \<open>Properties\<close>

text \<open>C4: under every interleaving of reservations, commits, completions and drops, the depth of a
  slot is the number of callers and commands that own a place in it, it never exceeds the hard
  limit, a live guard finds a positive depth to release, and the predicted warm state stays
  consistent.\<close>

theorem pool_depth_accounting:
  assumes "reach (pool_init n bl queue permits native) pool_step s"
  shows "pool_state_inv n (pl_state (sy_pool s))
    \<and> (\<forall>i<n. pl_depths (sy_pool s) ! i = count (sy_reserved s) i + guards_at i (sy_guards s)
           \<and> pl_depths (sy_pool s) ! i \<le> max queue bl)
    \<and> (\<forall>g. g \<in># sy_guards s \<longrightarrow> 0 < pl_depths (sy_pool s) ! cp_worker_idx g)"
proof -
  from pool_ts.reachable_inv [OF assms] have inv: "pool_sys_inv n (max queue bl) s" .
  have "0 < pl_depths (sy_pool s) ! cp_worker_idx g" if "g \<in># sy_guards s" for g
    using inv that guards_at_pos [OF that] by (auto simp: pool_sys_inv_def)
  with inv show ?thesis by (auto simp: pool_sys_inv_def)
qed

theorem pool_depth_accounting_witness:
  "\<exists>s. reach (pool_init 2 1 3 1 1) pool_step s \<and> sy_reserved s = {#0#}
     \<and> pl_depths (sy_pool s) = [1, 0] \<and> pl_depths (sy_pool s) ! 0 \<le> max 3 1"
proof -
  define s0 where "s0 = \<lparr>sy_pool = pool_spawn 2 1 3 1 1, sy_cas = {#}, sy_reserved = {#}, sy_guards = {#}\<rparr>"
  define pl where "pl = (pool_spawn 2 1 3 1 1)\<lparr>pl_depths := [1, 0]\<rparr>"
  define s where "s = s0\<lparr>sy_pool := pl, sy_reserved := add_mset 0 (sy_reserved s0)\<rparr>"
  have "try_reserve (sy_pool s0) 0 = Some (0, pl)"
    by (simp add: s0_def pl_def try_reserve_def pool_spawn_def numeral_2_eq_2)
  then have "pool_step\<^sup>*\<^sup>* s0 s" unfolding s_def by (rule try_reserve_run) (simp add: s0_def pool_spawn_def Let_def)
  moreover have "reach (pool_init 2 1 3 1 1) pool_step t" if "pool_step\<^sup>*\<^sup>* s0 t" for t
    using that by (induction rule: rtranclp_induct)
      (auto intro: reach.intros simp: pool_init_def s0_def)
  ultimately have r: "reach (pool_init 2 1 3 1 1) pool_step s" by blast
  with pool_depth_accounting [OF r] show ?thesis
    by (intro exI [of _ s]) (simp add: s_def s0_def pl_def)
qed

text \<open>A call of \<open>process\<close> leaves every queue depth as it found it, whatever the worker answers,
  keeps the warm-state invariant, and leaves the chosen slot predicted warm for the task's profile
  exactly when the render completed; every other slot keeps its prediction. A rejected call changes
  nothing.\<close>

theorem process_balanced:
  assumes "pool_ok pl"
  shows "case process_admit now pl task src hint of
      Inl e \<Rightarrow> process now pl task src hint worker = (Inl e, pl)
    | Inr (ad, pl1) \<Rightarrow>
        (let pl2 = snd (process now pl task src hint worker); i = cp_worker_idx (ad_completion ad)
         in pl_depths pl2 = pl_depths pl \<and> pool_ok pl2 \<and> i < length (pl_depths pl)
            \<and> pl_depths pl ! i < pl_queue_capacity pl \<and> pl_depths pl1 ! i = pl_depths pl ! i + 1
            \<and> (ad_admitted_at_overflow ad \<longleftrightarrow> pl_bl_capacity pl \<le> pl_depths pl ! i)
            \<and> ps_loaded (pl_state pl2) = (ps_loaded (pl_state pl))
                [i := if reply_warm (worker ad) then Some (task_worker_profile task) else None])"
proof (cases "process_admit now pl task src hint")
  case (Inl e)
  then show ?thesis by (simp add: process_def)
next
  case (Inr a)
  obtain ad pl1 where a: "a = (ad, pl1)" by fastforce
  obtain r pl2 where p: "process now pl task src hint worker = (r, pl2)" by fastforce
  note eff = process_effect [OF assms Inr [unfolded a] p]
  obtain j d s g where c: "j < length (pl_depths pl)" "d = pl_depths pl ! j"
    "d < pl_queue_capacity pl" "process_commit now (pl_state pl) j (task_worker_profile task) src = (s, g)"
    "ad = \<lparr>ad_completion = g, ad_admitted_at_overflow = pl_bl_capacity pl \<le> d\<rparr>"
    "pl1 = pl\<lparr>pl_depths := (pl_depths pl)[j := d + 1], pl_state := s\<rparr>"
    by (rule process_admit_cases [OF Inr [unfolded a]])
  from process_commit_effect(3) [OF assms [unfolded pool_ok_def] c(1,4)] c(5)
  have "cp_worker_idx (ad_completion ad) = j" by simp
  with eff c show ?thesis by (simp add: Inr a p Let_def)
qed

definition demo_pool :: pool where
  "demo_pool = pool_spawn 2 1 3 1 1"

lemma demo_pool_ok: "pool_ok demo_pool"
  by (simp add: demo_pool_def pool_ok_def pool_spawn_def Let_def pool_state_new_inv)

text \<open>The worker scan returns nothing exactly when every slot is at the hard limit; otherwise it
  returns a slot below it whose score (warm tier first, then source affinity, queue depth, and for
  an eviction the allocation-aware keys) is least, the lowest index among equals.\<close>

theorem best_available_worker_spec:
  "case best_available_worker pl task src of
     None \<Rightarrow> (\<forall>i<length (pl_depths pl). pl_queue_capacity pl \<le> pl_depths pl ! i)
   | Some i \<Rightarrow>
       (let score = (\<lambda>j. pick_score_of \<lparr>pc_state = pl_state pl, pc_incoming_addlayer_source_id = src,
              pc_incoming_profile = task_worker_profile task, pc_bl_capacity = pl_bl_capacity pl,
              pc_queue_capacity = pl_queue_capacity pl\<rparr> j (pl_depths pl ! j))
        in i < length (pl_depths pl) \<and> pl_depths pl ! i < pl_queue_capacity pl
           \<and> (\<forall>j. j < length (pl_depths pl) \<and> pl_depths pl ! j < pl_queue_capacity pl \<longrightarrow>
                score i \<le> score j \<and> (j < i \<longrightarrow> score i < score j)))"
proof -
  define score where "score = (\<lambda>j. pick_score_of \<lparr>pc_state = pl_state pl, pc_incoming_addlayer_source_id = src,
              pc_incoming_profile = task_worker_profile task, pc_bl_capacity = pl_bl_capacity pl,
              pc_queue_capacity = pl_queue_capacity pl\<rparr> j (pl_depths pl ! j))"
  define avail where "avail = filter (\<lambda>i. pl_depths pl ! i < pl_queue_capacity pl) [0..<length (pl_depths pl)]"
  have b: "best_available_worker pl task src = min_by_key score avail"
    by (simp only: best_available_worker_def Let_def score_def avail_def min_by_key_pairs)
  have mem: "j \<in> set avail \<longleftrightarrow> j < length (pl_depths pl) \<and> pl_depths pl ! j < pl_queue_capacity pl" for j
    by (auto simp: avail_def)
  show ?thesis
  proof (cases "min_by_key score avail")
    case None
    then have "avail = []" by simp
    then have "\<forall>i<length (pl_depths pl). pl_queue_capacity pl \<le> pl_depths pl ! i"
      by (metis mem not_less length_greater_0_conv less_irrefl list.size(3) length_pos_if_in_set)
    with None b show ?thesis by simp
  next
    case (Some i)
    note least = min_by_key_Some [OF Some]
    from min_by_key_first [OF Some] obtain us vs where u: "avail = us @ i # vs" "\<forall>x\<in>set us. score i < score x" by blast
    have "sorted_wrt (<) avail" by (simp add: avail_def sorted_wrt_filter)
    with u(1) have "j \<in> set us" if "j \<in> set avail" "j < i" for j
      using that by (auto simp: sorted_wrt_append)
    with u(2) least mem show ?thesis
      unfolding b Some by (simp add: Let_def flip: score_def)
  qed
qed

text \<open>C5: what a node gossips about its pool decodes at a peer to exactly the pool's snapshot, and
  the admission flag with it.\<close>

theorem snapshot_gossip_roundtrip:
  assumes "length (pl_depths pl) \<le> 2 ^ 32"
    and "\<forall>w\<in>set (snapshot_workers pl). valid_worker_view w"
  shows "from_kvs node (bt_insert render_admission_gossip_key v (snapshot_kvs pl)) =
    \<lparr>nsv_id = node, nsv_accepts_new_renders = (v = ''true''), nsv_workers = snapshot_workers pl\<rparr>"
  unfolding snapshot_kvs_views
  by (rule from_kvs_encode [OF snapshot_workers_sorted [OF assms(1)] assms(2)])

theorem snapshot_gossip_roundtrip_witness:
  "from_kvs ''n'' (bt_insert render_admission_gossip_key ''true'' (snapshot_kvs demo_pool)) =
    \<lparr>nsv_id = ''n'', nsv_accepts_new_renders = True,
     nsv_workers = [\<lparr>wv_id = 0, wv_loaded_profile = None, wv_queue_depth = 0\<rparr>,
                    \<lparr>wv_id = 1, wv_loaded_profile = None, wv_queue_depth = 0\<rparr>]\<rparr>"
proof -
  have w: "snapshot_workers demo_pool = [\<lparr>wv_id = 0, wv_loaded_profile = None, wv_queue_depth = 0\<rparr>,
      \<lparr>wv_id = 1, wv_loaded_profile = None, wv_queue_depth = 0\<rparr>]"
    by (simp add: snapshot_workers_def demo_pool_def pool_spawn_def pool_state_new_def Let_def numeral_2_eq_2)
  have "length (pl_depths demo_pool) \<le> 2 ^ 32" by (simp add: demo_pool_def pool_spawn_def Let_def)
  moreover have "\<forall>w\<in>set (snapshot_workers demo_pool). valid_worker_view w"
    by (simp add: w valid_worker_view_def)
  ultimately show ?thesis
    using snapshot_gossip_roundtrip [of demo_pool "''n''" "''true''"] w by simp
qed

end
