(* ===== verification/Worker.thy ===== *)
theory Worker
  imports Biei_Types Interfaces
begin

text \<open>
  \<^verbatim>\<open>crates/biei-core/src/worker.rs\<close>: the loop that owns one renderer slot, its stages (permit,
  style setup, source, native permit, render) and its source cache. The renderer (the trait of
  \<^verbatim>\<open>renderer/mod.rs\<close>) is a record of state-passing operations, an argument of the stages; clock
  reads and permit answers are the record \<open>stage_env\<close>, one field per read of the source.
\<close>

section \<open>Source cache\<close>

record source_cache =
  sk_capacity :: usize
  sk_entries :: "source_hash list"

definition source_cache_new :: "usize \<Rightarrow> source_cache" where
  "source_cache_new capacity = \<lparr>sk_capacity = max capacity 1, sk_entries = []\<rparr>"

definition source_cache_contains :: "source_hash \<Rightarrow> source_cache \<Rightarrow> bool" where
  "source_cache_contains h c \<longleftrightarrow> list_ex (\<lambda>x. x = h) (sk_entries c)"

text \<open>\<open>position\<close> and \<open>remove\<close> take out the first occurrence; the loop pops from the front.\<close>

function pop_front_while :: "usize \<Rightarrow> source_hash list \<Rightarrow> source_hash list" where
  "pop_front_while capacity l =
     (if capacity < length l then pop_front_while capacity (tl l) else l)"
  by pat_completeness auto
termination
  by (relation "measure (\<lambda>(c, l). length l)") auto

declare pop_front_while.simps [simp del]

definition source_cache_touch :: "source_hash \<Rightarrow> source_cache \<Rightarrow> source_cache" where
  "source_cache_touch h c =
     c\<lparr>sk_entries := pop_front_while (sk_capacity c) (remove1 h (sk_entries c) @ [h])\<rparr>"

definition source_cache_clear :: "source_cache \<Rightarrow> source_cache" where
  "source_cache_clear c = c\<lparr>sk_entries := []\<rparr>"

section \<open>Renderer interface\<close>

record prepared_profile =
  pp_revision :: style_revision
  pp_authorization_partition :: "cache_partition option"
  pp_style_json :: string
  pp_addlayer_source :: "add_layer_source option"

record renderer_output =
  ro_output :: render_output
  ro_source_setup_duration :: "duration option"

definition renderer_output_from :: "render_output \<Rightarrow> renderer_output" where
  "renderer_output_from out = \<lparr>ro_output = out, ro_source_setup_duration = None\<rparr>"

record 'r renderer =
  rd_setup_profile :: "internal_task \<Rightarrow> prepared_profile option \<Rightarrow> 'r \<Rightarrow> (renderer_error + unit) \<times> 'r"
  rd_ensure_source :: "source_hash \<Rightarrow> 'r \<Rightarrow> (renderer_error + unit) \<times> 'r"
  rd_render :: "internal_task \<Rightarrow> 'r \<Rightarrow> (renderer_error + renderer_output) \<times> 'r"
  rd_retire_after_current :: "'r \<Rightarrow> 'r"
  rd_repair_if_needed :: "'r \<Rightarrow> (renderer_error + bool) \<times> 'r"

section \<open>Stages\<close>

datatype stage_failure =
    StageDeadlineExceeded deadline_stage
  | StageRendererError deadline_stage renderer_error
  | StagePermitClosed deadline_stage

record stage_success =
  ss_output :: render_output
  ss_started_at :: instant
  ss_native_render_started_at :: instant
  ss_native_render_completed_at :: instant
  ss_style_swap :: bool
  ss_cold_start :: bool
  ss_source_loaded :: bool
  ss_style_setup_duration :: "duration option"
  ss_source_setup_duration :: "duration option"

text \<open>What \<open>select!\<close> over the semaphore and the deadline timer yields.\<close>

datatype permit_answer = PermitAcquired | PermitSemaphoreClosed | PermitDeadlinePassed

record stage_env =
  se_permit_now :: instant
  se_permit :: permit_answer
  se_started_at :: instant
  se_swap_now :: instant
  se_setup_started_at :: instant
  se_setup_done_at :: instant
  se_source_now :: instant
  se_source_started_at :: instant
  se_source_done_at :: instant
  se_native_now :: instant
  se_native_permit :: permit_answer
  se_native_started_at :: instant
  se_render_now :: instant
  se_render_done_at :: instant

record 'r worker =
  wk_current_profile :: "(worker_profile \<times> cache_partition option) option"
  wk_cache :: source_cache
  wk_renderer :: 'r

definition check_deadline_at :: "instant \<Rightarrow> internal_task \<Rightarrow> deadline_stage \<Rightarrow> stage_failure option" where
  "check_deadline_at now task stage =
     (if it_deadline task \<le> now then Some (StageDeadlineExceeded stage) else None)"

definition acquire_permit ::
  "instant \<Rightarrow> permit_answer \<Rightarrow> internal_task \<Rightarrow> deadline_stage \<Rightarrow> stage_failure option" where
  "acquire_permit now answer task stage =
     (case check_deadline_at now task stage of
        Some f \<Rightarrow> Some f
      | None \<Rightarrow>
          (case answer of
             PermitAcquired \<Rightarrow> None
           | PermitSemaphoreClosed \<Rightarrow> Some (StagePermitClosed stage)
           | PermitDeadlinePassed \<Rightarrow> Some (StageDeadlineExceeded stage)))"

definition task_partition :: "internal_task \<Rightarrow> cache_partition option" where
  "task_partition task = map_option auth_partition (it_authorization task)"

definition needs_style_swap :: "'r worker \<Rightarrow> internal_task \<Rightarrow> bool" where
  "needs_style_swap w task =
     (case wk_current_profile w of
        None \<Rightarrow> True
      | Some (profile, part) \<Rightarrow>
          profile \<noteq> task_worker_profile task \<or> part \<noteq> task_partition task)"

definition stage_style ::
  "'r renderer \<Rightarrow> stage_env \<Rightarrow> internal_task \<Rightarrow> prepared_profile option \<Rightarrow> 'r worker
     \<Rightarrow> (stage_failure + duration option) \<times> 'r worker" where
  "stage_style ops env task prepared w =
     (if \<not> needs_style_swap w task then (Inr None, w)
      else case check_deadline_at (se_swap_now env) task StyleSwap of
        Some f \<Rightarrow> (Inl f, w)
      | None \<Rightarrow>
          (case rd_setup_profile ops task prepared (wk_renderer w) of
             (Inl err, r) \<Rightarrow> (Inl (StageRendererError StyleSwap err), w\<lparr>wk_renderer := r\<rparr>)
           | (Inr _, r) \<Rightarrow>
               (Inr (Some (saturating_duration_since (se_setup_done_at env) (se_setup_started_at env))),
                w\<lparr>wk_current_profile := Some (task_worker_profile task, task_partition task),
                  wk_cache := source_cache_clear (wk_cache w), wk_renderer := r\<rparr>)))"

definition stage_source ::
  "'r renderer \<Rightarrow> stage_env \<Rightarrow> internal_task \<Rightarrow> 'r worker
     \<Rightarrow> (stage_failure + bool \<times> duration option) \<times> 'r worker" where
  "stage_source ops env task w =
     (case check_deadline_at (se_source_now env) task EnsureSource of
        Some f \<Rightarrow> (Inl f, w)
      | None \<Rightarrow>
          (case it_source task of
             None \<Rightarrow> (Inr (False, None), w)
           | Some src \<Rightarrow>
               (let touched = (\<lambda>w. if src_policy src = Cacheable
                       then w\<lparr>wk_cache := source_cache_touch (src_hash src) (wk_cache w)\<rparr> else w)
                in if source_cache_contains (src_hash src) (wk_cache w)
                   then (Inr (False, None), touched w)
                   else case rd_ensure_source ops (src_hash src) (wk_renderer w) of
                     (Inl err, r) \<Rightarrow> (Inl (StageRendererError EnsureSource err), w\<lparr>wk_renderer := r\<rparr>)
                   | (Inr _, r) \<Rightarrow>
                       (Inr (True, Some (saturating_duration_since (se_source_done_at env) (se_source_started_at env))),
                        touched (w\<lparr>wk_renderer := r\<rparr>)))))"

definition install_addlayer_source :: "add_layer_source option \<Rightarrow> internal_task \<Rightarrow> internal_task" where
  "install_addlayer_source prepared_source task =
     (case (prepared_source, it_request task) of
        (Some source, StaticImage si) \<Rightarrow>
          (case si_addlayer si of
             Some al \<Rightarrow>
               task\<lparr>it_request := StaticImage (si\<lparr>si_addlayer := Some (al\<lparr>al_source := Some source\<rparr>)\<rparr>)\<rparr>
           | None \<Rightarrow> task)
      | _ \<Rightarrow> task)"

text \<open>The sum of two elapsed times stays far below \<open>Duration::MAX\<close>.\<close>

definition join_durations :: "duration option \<Rightarrow> duration option \<Rightarrow> duration option" where
  "join_durations before during =
     (case (before, during) of
        (Some a, Some b) \<Rightarrow> Some (a + b) | (Some a, None) \<Rightarrow> Some a | (None, b) \<Rightarrow> b)"

definition stage_render ::
  "'r renderer \<Rightarrow> stage_env \<Rightarrow> internal_task \<Rightarrow> 'r worker
     \<Rightarrow> (stage_failure + renderer_output) \<times> 'r worker" where
  "stage_render ops env task w =
     (case acquire_permit (se_native_now env) (se_native_permit env) task AcquireNativeRenderPermit of
        Some f \<Rightarrow> (Inl f, w)
      | None \<Rightarrow>
          (case check_deadline_at (se_render_now env) task RenderStage of
             Some f \<Rightarrow> (Inl f, w)
           | None \<Rightarrow>
               (case rd_render ops task (wk_renderer w) of
                  (Inl err, r) \<Rightarrow> (Inl (StageRendererError RenderStage err), w\<lparr>wk_renderer := r\<rparr>)
                | (Inr out, r) \<Rightarrow>
                    (if it_deadline task < se_render_done_at env
                     then Inl (StageRendererError RenderStage Timeout) else Inr out,
                     w\<lparr>wk_renderer := r\<rparr>))))"

definition run_stages ::
  "'r renderer \<Rightarrow> stage_env \<Rightarrow> internal_task \<Rightarrow> prepared_profile option \<Rightarrow> 'r worker
     \<Rightarrow> (stage_failure + stage_success) \<times> 'r worker" where
  "run_stages ops env task prepared w =
     (let style_swap = needs_style_swap w task;
          cold_start = (wk_current_profile w = None \<and> style_swap);
          addlayer = (case prepared of None \<Rightarrow> None | Some pp \<Rightarrow> pp_addlayer_source pp)
      in case acquire_permit (se_permit_now env) (se_permit env) task AcquireRenderPermit of
           Some f \<Rightarrow> (Inl f, w)
         | None \<Rightarrow>
             (case stage_style ops env task prepared w of
                (Inl f, w1) \<Rightarrow> (Inl f, w1)
              | (Inr style_d, w1) \<Rightarrow>
                  (case stage_source ops env task w1 of
                     (Inl f, w2) \<Rightarrow> (Inl f, w2)
                   | (Inr (loaded, source_d), w2) \<Rightarrow>
                       (case stage_render ops env (install_addlayer_source addlayer task) w2 of
                          (Inl f, w3) \<Rightarrow> (Inl f, w3)
                        | (Inr out, w3) \<Rightarrow>
                            (Inr \<lparr>ss_output = ro_output out, ss_started_at = se_started_at env,
                                  ss_native_render_started_at = se_native_started_at env,
                                  ss_native_render_completed_at = se_render_done_at env,
                                  ss_style_swap = style_swap, ss_cold_start = cold_start,
                                  ss_source_loaded = (loaded \<or> ro_source_setup_duration out \<noteq> None),
                                  ss_style_setup_duration = style_d,
                                  ss_source_setup_duration =
                                    join_durations source_d (ro_source_setup_duration out)\<rparr>, w3)))))"

section \<open>Outcomes\<close>

definition outcome_for :: "internal_task \<Rightarrow> bool \<Rightarrow> task_result \<Rightarrow> task_outcome" where
  "outcome_for task had_source result =
     \<lparr>oc_task_id = it_id task, oc_request_id = it_request_id task, oc_arrived_at = it_arrived_at task,
      oc_had_source = had_source, oc_deadline_stage = None, oc_result = result\<rparr>"

definition completed_outcome ::
  "instant \<Rightarrow> internal_task \<Rightarrow> bool \<Rightarrow> node_id \<Rightarrow> worker_id \<Rightarrow> route_tier \<Rightarrow> bool \<Rightarrow> stage_success
     \<Rightarrow> task_outcome" where
  "completed_outcome now task had_source node wid tier overflow s =
     outcome_for task had_source
       (Completed
          \<lparr>ci_node_id = node, ci_worker_id = Some wid, ci_route_tier = tier,
           ci_started_at = ss_started_at s,
           ci_native_render_started_at = ss_native_render_started_at s,
           ci_native_render_completed_at = ss_native_render_completed_at s, ci_completed_at = now,
           ci_style_swap = ss_style_swap s, ci_cold_start = ss_cold_start s,
           ci_source_loaded = ss_source_loaded s, ci_admitted_at_overflow = overflow,
           ci_render_observation = Some (observation_from_task task (ss_style_setup_duration s)
             (ss_source_setup_duration s))\<rparr>
          (ss_output s))"

definition failed_outcome :: "internal_task \<Rightarrow> bool \<Rightarrow> renderer_error \<Rightarrow> task_outcome" where
  "failed_outcome task had_source err =
     outcome_for task had_source (Failed (renderer_error_text err) (failure_kind_of err))"

definition rejected_outcome :: "internal_task \<Rightarrow> bool \<Rightarrow> rejection_reason \<Rightarrow> task_outcome" where
  "rejected_outcome task had_source reason = outcome_for task had_source (Rejected reason)"

definition deadline_rejected_outcome :: "internal_task \<Rightarrow> bool \<Rightarrow> deadline_stage \<Rightarrow> task_outcome" where
  "deadline_rejected_outcome task had_source stage =
     (rejected_outcome task had_source DeadlineExceeded)\<lparr>oc_deadline_stage := Some stage\<rparr>"

fun renderer_error_invalidates_warm_state :: "renderer_error \<Rightarrow> bool" where
  "renderer_error_invalidates_warm_state err =
     (case err of StyleLoadFailed _ _ \<Rightarrow> True | SetupFailed _ _ \<Rightarrow> True | StyleNotReady _ _ \<Rightarrow> True
      | Timeout \<Rightarrow> True | ActorDead \<Rightarrow> True | _ \<Rightarrow> False)"

section \<open>The loop\<close>

record process_cmd =
  cm_task :: internal_task
  cm_prepared :: "prepared_profile option"
  cm_route_tier :: route_tier
  cm_admitted_at_overflow :: bool

datatype worker_event =
  EvProcess process_cmd stage_env instant | EvRepairTick | EvRetire | EvChannelClosed

definition worker_process ::
  "'r renderer \<Rightarrow> node_id \<Rightarrow> worker_id \<Rightarrow> process_cmd \<Rightarrow> stage_env \<Rightarrow> instant \<Rightarrow> 'r worker
     \<Rightarrow> task_outcome \<times> 'r worker" where
  "worker_process ops node wid cmd env now w =
     (let task = cm_task cmd; had_source = task_has_source task
      in case run_stages ops env task (cm_prepared cmd) w of
           (Inr success, w') \<Rightarrow>
             (completed_outcome now task had_source node wid (cm_route_tier cmd)
                (cm_admitted_at_overflow cmd) success, w')
         | (Inl (StageDeadlineExceeded stage), w') \<Rightarrow> (deadline_rejected_outcome task had_source stage, w')
         | (Inl (StageRendererError _ err), w') \<Rightarrow>
             (let w1 = (if err = Timeout then w'\<lparr>wk_renderer := rd_retire_after_current ops (wk_renderer w')\<rparr> else w');
                  w2 = (if renderer_error_invalidates_warm_state err
                        then w1\<lparr>wk_current_profile := None, wk_cache := source_cache_clear (wk_cache w1)\<rparr> else w1)
              in (failed_outcome task had_source err, w2))
         | (Inl (StagePermitClosed _), w') \<Rightarrow> (failed_outcome task had_source ActorDead, w'))"

text \<open>One turn of the loop: the outcome it answers, if any, and the worker unless it stopped.\<close>

fun worker_turn ::
  "'r renderer \<Rightarrow> node_id \<Rightarrow> worker_id \<Rightarrow> worker_event \<Rightarrow> 'r worker \<Rightarrow> task_outcome option \<times> 'r worker option" where
  "worker_turn ops node wid (EvProcess cmd env now) w =
     (case worker_process ops node wid cmd env now w of (oc, w') \<Rightarrow> (Some oc, Some w'))"
| "worker_turn ops node wid EvRepairTick w =
     (None, Some (w\<lparr>wk_renderer := snd (rd_repair_if_needed ops (wk_renderer w))\<rparr>))"
| "worker_turn ops node wid EvRetire w = (None, None)"
| "worker_turn ops node wid EvChannelClosed w = (None, None)"

fun worker_loop ::
  "'r renderer \<Rightarrow> node_id \<Rightarrow> worker_id \<Rightarrow> worker_event list \<Rightarrow> 'r worker \<Rightarrow> task_outcome list" where
  "worker_loop ops node wid [] w = []"
| "worker_loop ops node wid (e # es) w =
     (case worker_turn ops node wid e w of
        (oc, None) \<Rightarrow> (case oc of None \<Rightarrow> [] | Some x \<Rightarrow> [x])
      | (oc, Some w') \<Rightarrow> (case oc of None \<Rightarrow> [] | Some x \<Rightarrow> [x]) @ worker_loop ops node wid es w')"

section \<open>The source cache is a recency cache\<close>

lemma pop_front_while_drop: "pop_front_while cap l = drop (length l - cap) l"
proof (induction cap l rule: pop_front_while.induct)
  case (1 cap l)
  show ?case
  proof (cases "cap < length l")
    case True
    then obtain x xs where l: "l = x # xs" by (cases l) auto
    with True have "length l - cap = Suc (length xs - cap)" by simp
    with 1 [OF True] True show ?thesis by (subst pop_front_while.simps) (simp add: l)
  next
    case False
    then show ?thesis by (subst pop_front_while.simps) simp
  qed
qed

definition source_cache_inv :: "source_cache \<Rightarrow> bool" where
  "source_cache_inv c \<longleftrightarrow>
     0 < sk_capacity c \<and> distinct (sk_entries c) \<and> length (sk_entries c) \<le> sk_capacity c"

lemma source_cache_touch_entries:
  "distinct (sk_entries c) \<Longrightarrow>
     sk_entries (source_cache_touch h c) = lru_touch (sk_capacity c) h (sk_entries c)"
  by (simp add: source_cache_touch_def pop_front_while_drop lru_touch_def Let_def distinct_remove1_removeAll)

lemma source_cache_touch_capacity [simp]: "sk_capacity (source_cache_touch h c) = sk_capacity c"
  by (simp add: source_cache_touch_def)

interpretation source_lru: recency_cache sk_entries source_cache_touch sk_capacity source_cache_inv
  by unfold_locales
    (auto simp: source_cache_inv_def source_cache_touch_entries distinct_lru_touch length_lru_touch)

lemma source_cache_new_inv: "source_cache_inv (source_cache_new n)"
  by (simp add: source_cache_inv_def source_cache_new_def)

lemma set_source_cache_touch:
  "source_cache_inv c \<Longrightarrow> set (sk_entries (source_cache_touch h c)) \<subseteq> insert h (set (sk_entries c))"
  using set_lru_touch_subset by (fastforce simp: source_cache_inv_def source_cache_touch_entries)

lemma source_cache_contains_iff: "source_cache_contains h c \<longleftrightarrow> h \<in> set (sk_entries c)"
  by (auto simp: source_cache_contains_def list_ex_iff)

section \<open>The worker knows what its renderer holds\<close>

text \<open>What the loop relies on, with two observers of the renderer's state: the profile and
  credential partition it has installed, and the sources it holds for it. A successful setup
  installs the task's; a failure that is not one of the invalidating errors, a source load and a
  render lose nothing; a repair replaces an actor only when nothing is installed.\<close>

definition keeps :: "('r \<Rightarrow> 'p option) \<Rightarrow> ('r \<Rightarrow> source_hash set) \<Rightarrow> 'r \<Rightarrow> 'r \<Rightarrow> bool" where
  "keeps installed sources r r' \<longleftrightarrow>
     (installed r \<noteq> None \<longrightarrow> installed r' = installed r \<and> sources r \<subseteq> sources r')"

definition renderer_lawful ::
  "'r renderer \<Rightarrow> ('r \<Rightarrow> (worker_profile \<times> cache_partition option) option) \<Rightarrow> ('r \<Rightarrow> source_hash set) \<Rightarrow> bool" where
  "renderer_lawful ops installed sources \<longleftrightarrow>
     (\<forall>task pp r r'. rd_setup_profile ops task pp r = (Inr (), r') \<longrightarrow>
        installed r' = Some (task_worker_profile task, task_partition task))
     \<and> (\<forall>task pp r e r'. rd_setup_profile ops task pp r = (Inl e, r') \<longrightarrow>
        \<not> renderer_error_invalidates_warm_state e \<longrightarrow> keeps installed sources r r')
     \<and> (\<forall>h r r'. rd_ensure_source ops h r = (Inr (), r') \<longrightarrow> keeps installed sources r r' \<and> h \<in> sources r')
     \<and> (\<forall>h r e r'. rd_ensure_source ops h r = (Inl e, r') \<longrightarrow>
        \<not> renderer_error_invalidates_warm_state e \<longrightarrow> keeps installed sources r r')
     \<and> (\<forall>task r out r'. rd_render ops task r = (Inr out, r') \<longrightarrow> keeps installed sources r r')
     \<and> (\<forall>task r e r'. rd_render ops task r = (Inl e, r') \<longrightarrow>
        \<not> renderer_error_invalidates_warm_state e \<longrightarrow> keeps installed sources r r')
     \<and> (\<forall>r. keeps installed sources r (snd (rd_repair_if_needed ops r)))"

lemma renderer_lawfulD:
  assumes "renderer_lawful ops installed sources"
  shows "rd_setup_profile ops task pp r = (Inr u, r') \<Longrightarrow>
      installed r' = Some (task_worker_profile task, task_partition task)"
    and "rd_setup_profile ops task pp r = (Inl e, r') \<Longrightarrow>
      \<not> renderer_error_invalidates_warm_state e \<Longrightarrow> keeps installed sources r r'"
    and "rd_ensure_source ops h r = (Inr u, r') \<Longrightarrow> keeps installed sources r r' \<and> h \<in> sources r'"
    and "rd_ensure_source ops h r = (Inl e, r') \<Longrightarrow>
      \<not> renderer_error_invalidates_warm_state e \<Longrightarrow> keeps installed sources r r'"
    and "rd_render ops task r = (Inr out, r') \<Longrightarrow> keeps installed sources r r'"
    and "rd_render ops task r = (Inl e, r') \<Longrightarrow>
      \<not> renderer_error_invalidates_warm_state e \<Longrightarrow> keeps installed sources r r'"
    and "keeps installed sources r (snd (rd_repair_if_needed ops r))"
  using assms unfolding renderer_lawful_def by simp_all

definition worker_coherent ::
  "('r \<Rightarrow> (worker_profile \<times> cache_partition option) option) \<Rightarrow> ('r \<Rightarrow> source_hash set) \<Rightarrow> 'r worker \<Rightarrow> bool" where
  "worker_coherent installed sources w \<longleftrightarrow>
     source_cache_inv (wk_cache w)
     \<and> (case wk_current_profile w of
          None \<Rightarrow> sk_entries (wk_cache w) = []
        | Some x \<Rightarrow> installed (wk_renderer w) = Some x \<and> set (sk_entries (wk_cache w)) \<subseteq> sources (wk_renderer w))"

lemma source_cache_clear_simps [simp]:
  "sk_entries (source_cache_clear c) = []" "source_cache_inv (source_cache_clear c) \<longleftrightarrow> 0 < sk_capacity c"
  by (auto simp: source_cache_clear_def source_cache_inv_def)

lemma coherent_keeps:
  assumes "worker_coherent installed sources w" and "keeps installed sources (wk_renderer w) r"
  shows "worker_coherent installed sources (w\<lparr>wk_renderer := r\<rparr>)"
  using assms by (auto simp: worker_coherent_def keeps_def split: option.splits)

lemma coherent_reset:
  "source_cache_inv (wk_cache w) \<Longrightarrow>
     worker_coherent installed sources (w\<lparr>wk_current_profile := None, wk_cache := source_cache_clear (wk_cache w)\<rparr>)"
  by (auto simp: worker_coherent_def source_cache_inv_def source_cache_clear_def)

text \<open>The failures after which the warm state is dropped.\<close>

fun drops_warm :: "stage_failure \<Rightarrow> bool" where
  "drops_warm (StageRendererError st e) = renderer_error_invalidates_warm_state e"
| "drops_warm _ = False"

definition stage_good ::
  "('r \<Rightarrow> (worker_profile \<times> cache_partition option) option) \<Rightarrow> ('r \<Rightarrow> source_hash set)
     \<Rightarrow> (stage_failure + 'a) \<times> 'r worker \<Rightarrow> bool" where
  "stage_good installed sources res \<longleftrightarrow>
     source_cache_inv (wk_cache (snd res))
     \<and> (case fst res of Inl f \<Rightarrow> \<not> drops_warm f \<longrightarrow> worker_coherent installed sources (snd res)
        | Inr _ \<Rightarrow> worker_coherent installed sources (snd res))"

lemma coherent_cache_inv: "worker_coherent installed sources w \<Longrightarrow> source_cache_inv (wk_cache w)"
  by (simp add: worker_coherent_def)

lemma not_drops_check: "check_deadline_at now task st = Some f \<Longrightarrow> \<not> drops_warm f"
  by (auto simp: check_deadline_at_def split: if_splits)

lemma not_drops_permit: "acquire_permit now a task st = Some f \<Longrightarrow> \<not> drops_warm f"
  by (auto simp: acquire_permit_def dest: not_drops_check split: option.splits permit_answer.splits)

lemma stage_style_good:
  assumes "renderer_lawful ops installed sources" and "worker_coherent installed sources w"
  shows "stage_good installed sources (stage_style ops env task pp w)"
    and "stage_style ops env task pp w = (Inr d, w') \<Longrightarrow>
      wk_current_profile w' = Some (task_worker_profile task, task_partition task)"
proof -
  obtain res r where s: "rd_setup_profile ops task pp (wk_renderer w) = (res, r)" by fastforce
  note inv = coherent_cache_inv [OF assms(2)]
  show "stage_good installed sources (stage_style ops env task pp w)"
  proof (cases res)
    case (Inl e)
    with s have "\<not> renderer_error_invalidates_warm_state e \<Longrightarrow> keeps installed sources (wk_renderer w) r"
      using renderer_lawfulD(2) [OF assms(1)] by blast
    with s Inl inv assms(2) show ?thesis
      by (auto simp: stage_good_def stage_style_def not_drops_check coherent_keeps
          simp del: renderer_error_invalidates_warm_state.simps split: option.splits)
  next
    case (Inr u)
    with s have "installed r = Some (task_worker_profile task, task_partition task)"
      using renderer_lawfulD(1) [OF assms(1)] by blast
    with s Inr inv assms(2) show ?thesis
      by (auto simp: stage_good_def stage_style_def not_drops_check worker_coherent_def source_cache_inv_def
          source_cache_clear_def split: option.splits)
  qed
  show "stage_style ops env task pp w = (Inr d, w') \<Longrightarrow>
      wk_current_profile w' = Some (task_worker_profile task, task_partition task)"
    using s by (auto simp: stage_style_def needs_style_swap_def split: if_splits option.splits sum.splits)
qed

lemma coherent_touch:
  assumes "worker_coherent installed sources w" and "h \<in> sources (wk_renderer w)"
    and "wk_current_profile w \<noteq> None"
  shows "worker_coherent installed sources (w\<lparr>wk_cache := source_cache_touch h (wk_cache w)\<rparr>)"
  using assms set_source_cache_touch [OF coherent_cache_inv [OF assms(1)], of h] source_lru.touch_invar
  by (fastforce simp: worker_coherent_def split: option.splits)

lemma stage_source_good:
  assumes "renderer_lawful ops installed sources" and "worker_coherent installed sources w"
    and "wk_current_profile w \<noteq> None"
  shows "stage_good installed sources (stage_source ops env task w)"
    and "stage_source ops env task w = (Inr x, w') \<Longrightarrow>
      wk_current_profile w' = wk_current_profile w
      \<and> (\<forall>src. it_source task = Some src \<longrightarrow> src_hash src \<in> sources (wk_renderer w'))"
proof -
  obtain p where p: "wk_current_profile w = Some p" using assms(3) by blast
  have cached: "h \<in> sources (wk_renderer w)" if "source_cache_contains h (wk_cache w)" for h
    using that assms(2) p by (auto simp: worker_coherent_def source_cache_contains_iff)
  show "stage_good installed sources (stage_source ops env task w)"
  proof (cases "it_source task")
    case None
    with assms(2) coherent_cache_inv [OF assms(2)] show ?thesis
      by (auto simp: stage_source_def stage_good_def dest: not_drops_check split: option.splits)
  next
    case (Some src)
    obtain res r where e: "rd_ensure_source ops (src_hash src) (wk_renderer w) = (res, r)" by fastforce
    have ok: "worker_coherent installed sources (w\<lparr>wk_renderer := r\<rparr>)
        \<and> worker_coherent installed sources (w\<lparr>wk_renderer := r, wk_cache := source_cache_touch (src_hash src) (wk_cache w)\<rparr>)"
      if "res = Inr u" for u
      using renderer_lawfulD(3) [OF assms(1) e [unfolded that]] coherent_keeps [OF assms(2)]
        coherent_touch [of installed sources "w\<lparr>wk_renderer := r\<rparr>" "src_hash src"] assms(3) by simp
    have bad: "worker_coherent installed sources (w\<lparr>wk_renderer := r\<rparr>)"
      if "res = Inl err" "\<not> renderer_error_invalidates_warm_state err" for err
      using renderer_lawfulD(4) [OF assms(1) e [unfolded that(1)] that(2)] coherent_keeps [OF assms(2)] by blast
    from ok bad e Some assms(2,3) coherent_touch [OF assms(2) cached]
      coherent_cache_inv [OF assms(2)] source_lru.touch_invar [OF coherent_cache_inv [OF assms(2)]]
    show ?thesis
      unfolding stage_source_def stage_good_def
      by (auto simp: Let_def not_drops_check simp del: renderer_error_invalidates_warm_state.simps
          split: option.splits sum.splits)
  qed
  show "stage_source ops env task w = (Inr x, w') \<Longrightarrow>
      wk_current_profile w' = wk_current_profile w
      \<and> (\<forall>src. it_source task = Some src \<longrightarrow> src_hash src \<in> sources (wk_renderer w'))"
    using cached renderer_lawfulD(3) [OF assms(1)]
    by (auto simp: stage_source_def Let_def split: option.splits if_splits sum.splits prod.splits)
qed

lemma stage_render_good:
  assumes "renderer_lawful ops installed sources" and "worker_coherent installed sources w"
  shows "stage_good installed sources (stage_render ops env task w)"
proof -
  obtain res r where e: "rd_render ops task (wk_renderer w) = (res, r)" by fastforce
  have ok: "worker_coherent installed sources (w\<lparr>wk_renderer := r\<rparr>)" if "res = Inr out" for out
    using renderer_lawfulD(5) [OF assms(1) e [unfolded that]] coherent_keeps [OF assms(2)] by blast
  have bad: "worker_coherent installed sources (w\<lparr>wk_renderer := r\<rparr>)"
    if "res = Inl err" "\<not> renderer_error_invalidates_warm_state err" for err
    using renderer_lawfulD(6) [OF assms(1) e [unfolded that(1)] that(2)] coherent_keeps [OF assms(2)] by blast
  from ok bad e assms(2) coherent_cache_inv [OF assms(2)] show ?thesis
    unfolding stage_render_def stage_good_def
    by (auto simp: not_drops_check not_drops_permit simp del: renderer_error_invalidates_warm_state.simps
        split: option.splits sum.splits)
qed

lemma install_addlayer_source_keeps [simp]:
  "it_deadline (install_addlayer_source a task) = it_deadline task"
  "it_source (install_addlayer_source a task) = it_source task"
  "it_style (install_addlayer_source a task) = it_style task"
  "it_pixel_ratio (install_addlayer_source a task) = it_pixel_ratio task"
  "it_authorization (install_addlayer_source a task) = it_authorization task"
  "task_worker_profile (install_addlayer_source a task) = task_worker_profile task"
  by (auto simp: install_addlayer_source_def task_worker_profile_def split: option.splits render_request.splits)

text \<open>A successful run, stage by stage.\<close>

lemma run_stages_Inr:
  assumes "run_stages ops env task pp w = (Inr s, w3)"
  obtains d w1 x w2 out a where
    "acquire_permit (se_permit_now env) (se_permit env) task AcquireRenderPermit = None"
    "stage_style ops env task pp w = (Inr d, w1)"
    "stage_source ops env task w1 = (Inr x, w2)"
    "stage_render ops env (install_addlayer_source a task) w2 = (Inr out, w3)"
    "ss_output s = ro_output out" "ss_native_render_completed_at s = se_render_done_at env"
    "ss_style_swap s = needs_style_swap w task"
  using assms
  by (auto simp: run_stages_def Let_def split: option.splits prod.splits sum.splits)

lemma run_stages_good:
  assumes "renderer_lawful ops installed sources" and "worker_coherent installed sources w"
  shows "stage_good installed sources (run_stages ops env task pp w)"
proof (cases "acquire_permit (se_permit_now env) (se_permit env) task AcquireRenderPermit")
  case (Some f)
  with assms(2) show ?thesis
    by (simp add: run_stages_def stage_good_def not_drops_permit coherent_cache_inv)
next
  case permit: None
  obtain r1 w1 where 1: "stage_style ops env task pp w = (r1, w1)" by fastforce
  note g1 = stage_style_good(1) [OF assms, of env task pp, unfolded 1]
  show ?thesis
  proof (cases r1)
    case (Inl f)
    with g1 show ?thesis by (simp add: run_stages_def permit 1 stage_good_def)
  next
    case s1: (Inr d)
    have c1: "worker_coherent installed sources w1" "wk_current_profile w1 \<noteq> None"
      using g1 s1 stage_style_good(2) [OF assms 1 [unfolded s1]] by (auto simp: stage_good_def)
    obtain r2 w2 where 2: "stage_source ops env task w1 = (r2, w2)" by fastforce
    note g2 = stage_source_good(1) [OF assms(1) c1, of env task, unfolded 2]
    show ?thesis
    proof (cases r2)
      case (Inl f)
      with g2 show ?thesis by (simp add: run_stages_def permit 1 s1 2 stage_good_def)
    next
      case s2: (Inr x)
      obtain l sd where x: "x = (l, sd)" by fastforce
      define task' where "task' = install_addlayer_source (case pp of None \<Rightarrow> None | Some pp \<Rightarrow> pp_addlayer_source pp) task"
      obtain r3 w3 where 3: "stage_render ops env task' w2 = (r3, w3)" by fastforce
      have "worker_coherent installed sources w2" using g2 s2 by (simp add: stage_good_def)
      from stage_render_good [OF assms(1) this, of env task'] 3
      have "stage_good installed sources (r3, w3)" by simp
      then show ?thesis
        by (cases r3) (simp_all add: run_stages_def permit 1 s1 2 s2 x 3 stage_good_def Let_def flip: task'_def)
    qed
  qed
qed

lemma worker_process_coherent:
  assumes "renderer_lawful ops installed sources" and "worker_coherent installed sources w"
  shows "worker_coherent installed sources (snd (worker_process ops node wid cmd env now w))"
proof -
  obtain res w' where r: "run_stages ops env (cm_task cmd) (cm_prepared cmd) w = (res, w')" by fastforce
  note g = run_stages_good [OF assms, of env "cm_task cmd" "cm_prepared cmd", unfolded r]
  show ?thesis
  proof (cases res)
    case (Inr s)
    with g r show ?thesis by (simp add: worker_process_def Let_def stage_good_def)
  next
    case (Inl f)
    show ?thesis
    proof (cases f)
      case (StageRendererError st e)
      show ?thesis
      proof (cases "renderer_error_invalidates_warm_state e")
        case True
        have "source_cache_inv (wk_cache w')" using g by (simp add: stage_good_def)
        with coherent_reset [of w'] coherent_reset [of "w'\<lparr>wk_renderer := rd_retire_after_current ops (wk_renderer w')\<rparr>"]
        show ?thesis using True r Inl StageRendererError
          by (simp add: worker_process_def Let_def del: renderer_error_invalidates_warm_state.simps)
      next
        case False
        then have "e \<noteq> Timeout" by auto
        with False g r Inl StageRendererError show ?thesis
          by (simp add: worker_process_def Let_def stage_good_def del: renderer_error_invalidates_warm_state.simps)
      qed
    qed (use g r Inl in \<open>simp_all add: worker_process_def Let_def stage_good_def\<close>)
  qed
qed

lemma worker_turn_coherent:
  assumes "renderer_lawful ops installed sources" and "worker_coherent installed sources w"
    and "worker_turn ops node wid e w = (oc, Some w')"
  shows "worker_coherent installed sources w'"
proof (cases e)
  case (EvProcess cmd env now)
  with worker_process_coherent [OF assms(1,2), of node wid cmd env now] assms(3) show ?thesis
    by (auto split: prod.splits)
next
  case EvRepairTick
  with assms coherent_keeps [OF assms(2) renderer_lawfulD(7) [OF assms(1)]] show ?thesis by auto
qed (use assms(3) in auto)

section \<open>Reachable workers\<close>

definition worker_init :: "usize \<Rightarrow> 'r worker \<Rightarrow> bool" where
  "worker_init cap w \<longleftrightarrow> wk_current_profile w = None \<and> wk_cache w = source_cache_new cap"

definition worker_step :: "'r renderer \<Rightarrow> 'r worker \<Rightarrow> 'r worker \<Rightarrow> bool" where
  "worker_step ops w w' \<longleftrightarrow> (\<exists>node wid e oc. worker_turn ops node wid e w = (oc, Some w'))"

interpretation worker_ts: transition_system "worker_init cap" "worker_step ops"
  "\<lambda>w. renderer_lawful ops installed sources \<longrightarrow> worker_coherent installed sources w"
  for cap ops installed sources
proof unfold_locales
  fix w :: "'a worker" assume "worker_init cap w"
  then show "renderer_lawful ops installed sources \<longrightarrow> worker_coherent installed sources w"
    by (simp add: worker_init_def worker_coherent_def source_cache_new_inv) (simp add: source_cache_new_def)
next
  fix w w' :: "'a worker"
  assume "renderer_lawful ops installed sources \<longrightarrow> worker_coherent installed sources w"
    and "worker_step ops w w'"
  then show "renderer_lawful ops installed sources \<longrightarrow> worker_coherent installed sources w'"
    unfolding worker_step_def using worker_turn_coherent by blast
qed

section \<open>Properties\<close>

lemma acquire_permit_None: "acquire_permit now a task st = None \<Longrightarrow> now < it_deadline task"
  by (auto simp: acquire_permit_def check_deadline_at_def split: if_splits)

lemma stage_render_Inr:
  assumes "stage_render ops env task w = (Inr out, w')"
  shows "rd_render ops task (wk_renderer w) = (Inr out, wk_renderer w')"
    and "se_native_now env < it_deadline task" and "se_render_now env < it_deadline task"
    and "se_render_done_at env \<le> it_deadline task"
  using assms
  by (auto simp: stage_render_def check_deadline_at_def dest: acquire_permit_None
      split: option.splits prod.splits sum.splits if_splits)



text \<open>The per-slot source cache is a bounded LRU: after a source is touched, it is still there
  as long as fewer than the capacity's number of other sources were touched since.\<close>

lemma source_cache_survives:
  assumes "source_cache_inv c" and "card (set ys - {x}) < sk_capacity c"
  shows "source_cache_contains x (fold source_cache_touch ys (source_cache_touch x c))
    \<and> length (sk_entries (fold source_cache_touch ys (source_cache_touch x c))) \<le> sk_capacity c"
proof
  show "source_cache_contains x (fold source_cache_touch ys (source_cache_touch x c))"
    unfolding source_cache_contains_iff by (rule source_lru.survives [OF assms])
  have "source_cache_inv (fold source_cache_touch zs d) \<and> sk_capacity (fold source_cache_touch zs d) = sk_capacity d"
    if "source_cache_inv d" for zs d
    using that by (induction zs arbitrary: d) (auto simp: source_lru.touch_invar)
  from this [OF source_lru.touch_invar [OF assms(1)], of ys x]
  show "length (sk_entries (fold source_cache_touch ys (source_cache_touch x c))) \<le> sk_capacity c"
    by (simp add: source_cache_inv_def)
qed

section \<open>A concrete renderer\<close>

text \<open>The renderer state is what it has installed and the sources it holds.\<close>

type_synonym demo_renderer = "(worker_profile \<times> cache_partition option) option \<times> source_hash set"

definition demo_ops :: "demo_renderer renderer" where
  "demo_ops =
     \<lparr>rd_setup_profile = (\<lambda>task pp r. (Inr (), (Some (task_worker_profile task, task_partition task), {}))),
      rd_ensure_source = (\<lambda>h r. (Inr (), (fst r, insert h (snd r)))),
      rd_render = (\<lambda>task r. (Inr (renderer_output_from \<lparr>out_bytes = [], out_format = it_output_format task\<rparr>), r)),
      rd_retire_after_current = (\<lambda>r. (None, {})), rd_repair_if_needed = (\<lambda>r. (Inr False, r))\<rparr>"

lemma demo_ops_lawful: "renderer_lawful demo_ops fst snd"
  by (auto simp: renderer_lawful_def demo_ops_def keeps_def)

definition demo_env :: stage_env where
  "demo_env =
     \<lparr>se_permit_now = 1, se_permit = PermitAcquired, se_started_at = 1, se_swap_now = 2,
      se_setup_started_at = 2, se_setup_done_at = 3, se_source_now = 3, se_source_started_at = 3,
      se_source_done_at = 4, se_native_now = 4, se_native_permit = PermitAcquired,
      se_native_started_at = 5, se_render_now = 5, se_render_done_at = 6\<rparr>"

definition demo_render_task :: internal_task where
  "demo_render_task =
     \<lparr>it_id = 1, it_request_id = ''r'', it_authorization = None,
      it_style = \<lparr>rev_id = ''s'', rev_version = 1\<rparr>,
      it_source = Some \<lparr>src_hash = 5, src_policy = Cacheable\<rparr>, it_request = TileRequest 0 0 0 256,
      it_pixel_ratio = PixelRatio 1, it_output_format = Png, it_arrived_at = 0,
      it_deadline = 10, it_forwarding_hops = 0\<rparr>"

definition demo_worker :: "demo_renderer worker" where
  "demo_worker = \<lparr>wk_current_profile = None, wk_cache = source_cache_new 4, wk_renderer = (None, {})\<rparr>"

lemmas demo_run_defs = run_stages_def acquire_permit_def check_deadline_at_def stage_style_def
  needs_style_swap_def stage_source_def stage_render_def install_addlayer_source_def demo_ops_def
  demo_env_def demo_render_task_def demo_worker_def renderer_output_from_def source_cache_contains_iff
  source_cache_new_def source_cache_clear_def join_durations_def Let_def std_defs



end
