(* ===== verification/Render_Cache.thy ===== *)
theory Render_Cache
  imports Biei_Types Interfaces
begin

text \<open>
  \<^verbatim>\<open>crates/biei-core/src/render_cache.rs\<close>: the node-local cache of rendered images, its key, the
  authorization check on a hit, and the render flights that let concurrent requests for one key
  share a render. The backing cache is a map from which entries may vanish at any time (capacity and
  time to live are the cache library's). A key always falls into the same flight shard, so the shards
  together are one map. The text of a JSON value is the argument \<open>to_json\<close>; the in-memory sizes of
  two structs are arguments of the size estimates.
\<close>

section \<open>Keys\<close>

record lng_lat_key =
  lk_lon :: u64
  lk_lat :: u64

datatype positioning_key =
    CenterKey u64 u64 u64 u32 u32
  | BboxKey u64 u64 u64 u64
  | AutoKey

record path_overlay_key =
  pk_stroke_width :: "u32 option"
  pk_stroke_color :: "string option"
  pk_stroke_opacity :: "u32 option"
  pk_fill_color :: "string option"
  pk_fill_opacity :: "u32 option"
  pk_coordinates :: "lng_lat_key list"

record geojson_overlay_key =
  gk_feature_collection :: string

record pin_overlay_key =
  nk_size :: pin_size
  nk_label :: "string option"
  nk_color :: string
  nk_coordinate :: lng_lat_key

datatype static_overlay_key =
  PathKey path_overlay_key | GeoJsonKey geojson_overlay_key | PinKey pin_overlay_key

record static_image_key =
  sik_positioning :: positioning_key
  sik_width :: u16
  sik_height :: u16
  sik_overlays :: "static_overlay_key list"
  sik_before_layer :: "string option"
  sik_padding :: padding
  sik_addlayer :: "string option"

datatype render_request_key = TileKey u8 u32 u32 u16 | StaticImageKey static_image_key

record render_cache_key =
  rk_style_id :: string
  rk_style_version :: u64
  rk_request :: render_request_key
  rk_scale :: scale
  rk_output_format :: image_format
  rk_source_hash :: "source_hash option"

definition lng_lat_key_of :: "lng_lat \<Rightarrow> lng_lat_key" where
  "lng_lat_key_of p = \<lparr>lk_lon = ll_lon p, lk_lat = ll_lat p\<rparr>"

fun positioning_key_of :: "positioning \<Rightarrow> positioning_key" where
  "positioning_key_of (Center lon lat zoom bearing pitch) = CenterKey lon lat zoom bearing pitch"
| "positioning_key_of (Bbox a b c d) = BboxKey a b c d"
| "positioning_key_of Auto = AutoKey"

definition path_overlay_key_of :: "path_overlay \<Rightarrow> path_overlay_key" where
  "path_overlay_key_of p =
     \<lparr>pk_stroke_width = po_stroke_width p, pk_stroke_color = po_stroke_color p,
      pk_stroke_opacity = po_stroke_opacity p, pk_fill_color = po_fill_color p,
      pk_fill_opacity = po_fill_opacity p, pk_coordinates = map lng_lat_key_of (po_coordinates p)\<rparr>"

definition geojson_overlay_key_of :: "(json_value \<Rightarrow> string) \<Rightarrow> geojson_overlay \<Rightarrow> geojson_overlay_key" where
  "geojson_overlay_key_of to_json g = \<lparr>gk_feature_collection = to_json (go_feature_collection g)\<rparr>"

definition pin_overlay_key_of :: "pin_overlay \<Rightarrow> pin_overlay_key" where
  "pin_overlay_key_of p =
     \<lparr>nk_size = pin_size p, nk_label = pin_label p, nk_color = pin_color p,
      nk_coordinate = lng_lat_key_of (pin_coordinate p)\<rparr>"

fun static_overlay_key_of :: "(json_value \<Rightarrow> string) \<Rightarrow> static_overlay \<Rightarrow> static_overlay_key" where
  "static_overlay_key_of to_json (OPath p) = PathKey (path_overlay_key_of p)"
| "static_overlay_key_of to_json (OGeoJson g) = GeoJsonKey (geojson_overlay_key_of to_json g)"
| "static_overlay_key_of to_json (OPin p) = PinKey (pin_overlay_key_of p)"

text \<open>One length-framed component: the byte length in decimal, a colon, the bytes.\<close>

definition frame_component :: "string \<Rightarrow> string" where
  "frame_component c = decimal (length c) @ CHR '':'' # c"

definition addlayer_components :: "add_layer \<Rightarrow> string list" where
  "addlayer_components a =
     al_json a # (case al_source a of None \<Rightarrow> [] | Some s \<Rightarrow> [als_tileset_id s, als_json s])"

definition addlayer_identity :: "add_layer \<Rightarrow> string" where
  "addlayer_identity a = concat (map frame_component (addlayer_components a))"

fun render_request_key_of :: "(json_value \<Rightarrow> string) \<Rightarrow> render_request \<Rightarrow> render_request_key" where
  "render_request_key_of to_json (TileRequest z x y ts) = TileKey z x y ts"
| "render_request_key_of to_json (StaticImage si) =
     StaticImageKey
       \<lparr>sik_positioning = positioning_key_of (si_positioning si), sik_width = si_width si,
        sik_height = si_height si, sik_overlays = map (static_overlay_key_of to_json) (si_overlays si),
        sik_before_layer = si_before_layer si, sik_padding = si_padding si,
        sik_addlayer = map_option addlayer_identity (si_addlayer si)\<rparr>"

definition cache_key_from_task :: "(json_value \<Rightarrow> string) \<Rightarrow> internal_task \<Rightarrow> render_cache_key" where
  "cache_key_from_task to_json task =
     \<lparr>rk_style_id = rev_id (it_style task), rk_style_version = rev_version (it_style task),
      rk_request = render_request_key_of to_json (it_request task),
      rk_scale = to_scale (it_pixel_ratio task), rk_output_format = it_output_format task,
      rk_source_hash = map_option src_hash (it_source task)\<rparr>"

subsection \<open>Size estimates\<close>

definition opt_len :: "string option \<Rightarrow> usize" where
  "opt_len s = (case s of None \<Rightarrow> 0 | Some x \<Rightarrow> length x)"

fun overlay_heap_size :: "static_overlay_key \<Rightarrow> usize" where
  "overlay_heap_size (PathKey p) =
     usize_saturating_add
       (usize_saturating_add (usize_saturating_mul (length (pk_coordinates p)) 16) (opt_len (pk_stroke_color p)))
       (opt_len (pk_fill_color p))"
| "overlay_heap_size (GeoJsonKey g) = length (gk_feature_collection g)"
| "overlay_heap_size (PinKey p) = usize_saturating_add (opt_len (nk_label p)) (length (nk_color p))"

fun request_heap_size :: "usize \<Rightarrow> render_request_key \<Rightarrow> usize" where
  "request_heap_size overlay_size (TileKey z x y ts) = 0"
| "request_heap_size overlay_size (StaticImageKey si) =
     usize_saturating_add
       (usize_saturating_add
          (usize_saturating_add (usize_saturating_mul (length (sik_overlays si)) overlay_size)
             (sum_list (map overlay_heap_size (sik_overlays si))))
          (opt_len (sik_before_layer si)))
       (opt_len (sik_addlayer si))"

definition key_estimated_size :: "usize \<Rightarrow> usize \<Rightarrow> render_cache_key \<Rightarrow> usize" where
  "key_estimated_size key_size overlay_size k =
     usize_saturating_add (usize_saturating_add key_size (length (rk_style_id k)))
       (request_heap_size overlay_size (rk_request k))"

section \<open>Cached outputs\<close>

record cached_render_output =
  cr_output :: render_output
  cr_required_namespaces :: "namespace_set option"

definition is_authorized_for :: "cached_render_output \<Rightarrow> namespace_set option \<Rightarrow> bool" where
  "is_authorized_for c readable =
     (case (cr_required_namespaces c, readable) of
        (None, None) \<Rightarrow> True
      | (Some required, Some r) \<Rightarrow> namespaces_allows r required
      | _ \<Rightarrow> False)"

definition cached_estimated_size :: "cached_render_output \<Rightarrow> usize" where
  "cached_estimated_size c =
     length (out_bytes (cr_output c))
     + (case cr_required_namespaces c of None \<Rightarrow> 0 | Some n \<Rightarrow> namespaces_size_bytes n)"

definition entry_weight :: "usize \<Rightarrow> usize \<Rightarrow> render_cache_key \<Rightarrow> cached_render_output \<Rightarrow> u32" where
  "entry_weight key_size overlay_size k c =
     of_nat (max 1 (min u32_max
       (usize_saturating_add (key_estimated_size key_size overlay_size k) (cached_estimated_size c))))"

section \<open>Lookups and flights\<close>

text \<open>A cache that is off has no inner part.\<close>

definition cache_is_enabled_for :: "bool \<Rightarrow> internal_task \<Rightarrow> bool" where
  "cache_is_enabled_for has_inner task \<longleftrightarrow>
     has_inner \<and> (case it_source task of None \<Rightarrow> True | Some s \<Rightarrow> src_policy s = Cacheable)"

datatype render_cache_lookup = Disabled | Hit render_output | Leader | Wait

definition cache_get ::
  "(render_cache_key \<rightharpoonup> cached_render_output) \<Rightarrow> render_cache_key \<Rightarrow> namespace_set option \<Rightarrow> render_output option" where
  "cache_get cache key readable =
     (case cache key of
        None \<Rightarrow> None
      | Some c \<Rightarrow> if is_authorized_for c readable then Some (cr_output c) else None)"

text \<open>\<open>before\<close> and \<open>locked\<close> are the cache as the first read and the read under the flight lock see
  it. The result carries the flight map with the new flight of a leader.\<close>

definition lookup_or_join_key ::
  "(render_cache_key \<rightharpoonup> cached_render_output) \<Rightarrow> (render_cache_key \<rightharpoonup> cached_render_output)
     \<Rightarrow> render_cache_key set \<Rightarrow> render_cache_key \<Rightarrow> namespace_set option
     \<Rightarrow> render_cache_lookup \<times> render_cache_key set" where
  "lookup_or_join_key before locked in_flight key readable =
     (case cache_get before key readable of
        Some out \<Rightarrow> (Hit out, in_flight)
      | None \<Rightarrow>
          (case cache_get locked key readable of
             Some out \<Rightarrow> (Hit out, in_flight)
           | None \<Rightarrow>
               if key \<in> in_flight then (Wait, in_flight)
               else (Leader, insert key in_flight)))"

definition lookup_or_join ::
  "(json_value \<Rightarrow> string) \<Rightarrow> bool \<Rightarrow> (render_cache_key \<rightharpoonup> cached_render_output)
     \<Rightarrow> (render_cache_key \<rightharpoonup> cached_render_output) \<Rightarrow> render_cache_key set \<Rightarrow> internal_task
     \<Rightarrow> render_cache_lookup \<times> render_cache_key set" where
  "lookup_or_join to_json has_inner before locked in_flight task =
     (if \<not> cache_is_enabled_for has_inner task then (Disabled, in_flight)
      else lookup_or_join_key before locked in_flight (cache_key_from_task to_json task)
        (map_option readable_namespaces (it_authorization task)))"

text \<open>A leader guard: its key and the grants its render runs under.\<close>

type_synonym flight_leader = "render_cache_key \<times> namespace_set option"

definition insert_from_outcome ::
  "flight_leader \<Rightarrow> task_outcome \<Rightarrow> (render_cache_key \<rightharpoonup> cached_render_output)
     \<Rightarrow> bool \<times> (render_cache_key \<rightharpoonup> cached_render_output)" where
  "insert_from_outcome leader outcome cache =
     (case oc_result outcome of
        Completed info out \<Rightarrow>
          if (case cache (fst leader) of
                Some existing \<Rightarrow> cr_required_namespaces existing \<noteq> snd leader | None \<Rightarrow> False)
          then (False, cache)
          else (True, cache(fst leader \<mapsto> \<lparr>cr_output = out, cr_required_namespaces = snd leader\<rparr>))
      | _ \<Rightarrow> (False, cache))"

definition cache_hit_outcome :: "instant \<Rightarrow> node_id \<Rightarrow> internal_task \<Rightarrow> render_output \<Rightarrow> task_outcome" where
  "cache_hit_outcome now node task out =
     \<lparr>oc_task_id = it_id task, oc_request_id = it_request_id task, oc_arrived_at = it_arrived_at task,
      oc_had_source = task_has_source task, oc_deadline_stage = None,
      oc_result = Completed
        \<lparr>ci_node_id = node, ci_worker_id = None, ci_route_tier = RenderCacheHit,
         ci_started_at = it_arrived_at task, ci_native_render_started_at = now,
         ci_native_render_completed_at = now, ci_completed_at = now, ci_style_swap = False,
         ci_cold_start = False, ci_source_loaded = False, ci_admitted_at_overflow = False,
         ci_render_observation = None\<rparr> out\<rparr>"

section \<open>Length framing is a prefix code\<close>

definition frame_decode :: "string \<Rightarrow> (string \<times> string) option" where
  "frame_decode s =
     (case split_once CHR '':'' s of
        None \<Rightarrow> None
      | Some (d, rest) \<Rightarrow> Some (take (digits_value d) rest, drop (digits_value d) rest))"

lemma frame_decode_frame: "frame_decode (frame_component c @ r) = Some (c, r)"
proof -
  have "CHR '':'' \<notin> set (decimal (length c))" by (rule not_digit_not_in_decimal) (simp add: is_digit_def)
  from split_once_append [OF this, of "c @ r"] show ?thesis
    by (simp add: frame_decode_def frame_component_def)
qed

interpretation framing: prefix_code frame_component frame_decode "\<lambda>_. True"
  by unfold_locales (simp_all add: frame_decode_frame, simp add: frame_component_def)

lemma addlayer_identity_eq_iff:
  "addlayer_identity a = addlayer_identity b \<longleftrightarrow> al_json a = al_json b \<and> al_source a = al_source b"
proof
  assume "addlayer_identity a = addlayer_identity b"
  then have "addlayer_components a = addlayer_components b"
    unfolding addlayer_identity_def by (intro framing.concat_enc_inj) (simp_all add: list_all_iff)
  then show "al_json a = al_json b \<and> al_source a = al_source b"
    by (auto simp: addlayer_components_def intro!: add_layer_source.equality split: option.splits)
qed (simp add: addlayer_identity_def addlayer_components_def)

section \<open>Keys identify what is rendered\<close>

text \<open>A request as the renderer's input: without the affinity hash of its addlayer, which nothing
  rendered depends on, and with each GeoJSON overlay as the text it serializes to.\<close>

fun lexical_overlay :: "(json_value \<Rightarrow> string) \<Rightarrow> static_overlay \<Rightarrow> static_overlay" where
  "lexical_overlay to_json (OGeoJson g) =
     OGeoJson \<lparr>go_feature_collection = JString (to_json (go_feature_collection g))\<rparr>"
| "lexical_overlay to_json (OPath p) = OPath p"
| "lexical_overlay to_json (OPin p) = OPin p"

fun rendered_request :: "(json_value \<Rightarrow> string) \<Rightarrow> render_request \<Rightarrow> render_request" where
  "rendered_request to_json (TileRequest z x y ts) = TileRequest z x y ts"
| "rendered_request to_json (StaticImage si) =
     StaticImage (si\<lparr>si_overlays := map (lexical_overlay to_json) (si_overlays si),
       si_addlayer := map_option (\<lambda>a. a\<lparr>al_hash := 0\<rparr>) (si_addlayer si)\<rparr>)"

lemma lng_lat_key_inj [simp]: "lng_lat_key_of a = lng_lat_key_of b \<longleftrightarrow> a = b"
  by (cases a; cases b) (simp add: lng_lat_key_of_def)

lemma positioning_key_inj [simp]: "positioning_key_of a = positioning_key_of b \<longleftrightarrow> a = b"
  by (cases a; cases b) simp_all

lemma map_lng_lat_key_inj: "map lng_lat_key_of xs = map lng_lat_key_of ys \<longleftrightarrow> xs = ys"
  by (rule inj_map_eq_map) (simp add: inj_def)

lemma path_overlay_key_inj: "path_overlay_key_of a = path_overlay_key_of b \<longleftrightarrow> a = b"
  by (cases a; cases b) (simp add: path_overlay_key_of_def map_lng_lat_key_inj)

lemma pin_overlay_key_inj: "pin_overlay_key_of a = pin_overlay_key_of b \<longleftrightarrow> a = b"
  by (cases a; cases b) (simp add: pin_overlay_key_of_def)

lemma static_overlay_key_eq:
  "static_overlay_key_of to_json a = static_overlay_key_of to_json b \<longleftrightarrow>
     lexical_overlay to_json a = lexical_overlay to_json b"
  by (cases a; cases b) (simp_all add: path_overlay_key_inj pin_overlay_key_inj geojson_overlay_key_of_def)

lemma map_eq_map_iff:
  assumes "\<And>a b. f a = f b \<longleftrightarrow> g a = g b"
  shows "map f xs = map f ys \<longleftrightarrow> map g xs = map g ys"
proof (induction xs arbitrary: ys)
  case (Cons x xs)
  then show ?case by (cases ys) (simp_all add: assms)
qed simp

lemma addlayer_key_eq:
  "map_option addlayer_identity x = map_option addlayer_identity y \<longleftrightarrow>
     map_option (\<lambda>a. a\<lparr>al_hash := 0\<rparr>) x = map_option (\<lambda>a. a\<lparr>al_hash := 0\<rparr>) y"
  by (cases x; cases y) (auto simp: addlayer_identity_eq_iff intro!: add_layer.equality
      dest: arg_cong [where f = al_json] arg_cong [where f = al_source])

lemma render_request_key_eq:
  "render_request_key_of to_json a = render_request_key_of to_json b \<longleftrightarrow>
    rendered_request to_json a = rendered_request to_json b"
proof (cases a; cases b)
  fix s t assume st: "a = StaticImage s" "b = StaticImage t"
  then show ?thesis
    using map_eq_map_iff [where f = "static_overlay_key_of to_json" and g = "lexical_overlay to_json"
        and xs = "si_overlays s" and ys = "si_overlays t", OF static_overlay_key_eq]
    by (cases s; cases t) (simp add: addlayer_key_eq)
qed simp_all

section \<open>The flight protocol\<close>

text \<open>\<open>fl_leaders\<close> are the leader guards alive, \<open>fl_rendered\<close> the renders leaders completed: key,
  grants and output. The first cache read of a lookup may be older than the locked one; a leader's
  insertion is one step because no other leader can hold its key; eviction may strike anywhere.\<close>

record flight_sys =
  fl_cache :: "render_cache_key \<rightharpoonup> cached_render_output"
  fl_in_flight :: "render_cache_key set"
  fl_leaders :: "flight_leader multiset"
  fl_rendered :: "(render_cache_key \<times> namespace_set option \<times> render_output) set"

definition flight_init :: "flight_sys \<Rightarrow> bool" where
  "flight_init s \<longleftrightarrow>
     s = \<lparr>fl_cache = Map.empty, fl_in_flight = {}, fl_leaders = {#}, fl_rendered = {}\<rparr>"

inductive flight_step :: "flight_sys \<Rightarrow> flight_sys \<Rightarrow> bool" where
  lookup_leads:
    "lookup_or_join_key before (fl_cache s) (fl_in_flight s) key readable = (Leader, fl) \<Longrightarrow>
     flight_step s (s\<lparr>fl_in_flight := fl, fl_leaders := add_mset (key, readable) (fl_leaders s)\<rparr>)"
| lookup_other:
    "lookup_or_join_key before (fl_cache s) (fl_in_flight s) key readable = (l, fl) \<Longrightarrow> l \<noteq> Leader \<Longrightarrow>
     flight_step s (s\<lparr>fl_in_flight := fl\<rparr>)"
| leader_completes:
    "leader \<in># fl_leaders s \<Longrightarrow> oc_result outcome = Completed info out \<Longrightarrow>
     flight_step s (s\<lparr>fl_cache := snd (insert_from_outcome leader outcome (fl_cache s)),
       fl_rendered := insert (fst leader, snd leader, out) (fl_rendered s)\<rparr>)"
| leader_dropped:
    "leader \<in># fl_leaders s \<Longrightarrow>
     flight_step s (s\<lparr>fl_in_flight := fl_in_flight s - {fst leader}, fl_leaders := fl_leaders s - {#leader#}\<rparr>)"
| evict:
    "flight_step s (s\<lparr>fl_cache := (fl_cache s)(key := None)\<rparr>)"

definition leaders_of :: "render_cache_key \<Rightarrow> flight_leader multiset \<Rightarrow> nat" where
  "leaders_of k ls = size (filter_mset (\<lambda>l. fst l = k) ls)"

lemma leaders_of_add [simp]: "leaders_of k (add_mset l ls) = leaders_of k ls + (if fst l = k then 1 else 0)"
  by (simp add: leaders_of_def)

lemma leaders_of_remove:
  "l \<in># ls \<Longrightarrow> leaders_of k (ls - {#l#}) = leaders_of k ls - (if fst l = k then 1 else 0)"
  by (auto simp: leaders_of_def size_Diff_singleton)

lemma leaders_of_pos: "0 < leaders_of k ls \<longleftrightarrow> (\<exists>g. (k, g) \<in># ls)"
  by (force simp: leaders_of_def nonempty_has_size [symmetric] filter_mset_eq_conv)

definition flight_inv :: "flight_sys \<Rightarrow> bool" where
  "flight_inv s \<longleftrightarrow>
     (\<forall>k. leaders_of k (fl_leaders s) = (if k \<in> fl_in_flight s then 1 else 0))
     \<and> (\<forall>k c. fl_cache s k = Some c \<longrightarrow> (k, cr_required_namespaces c, cr_output c) \<in> fl_rendered s)"

lemma lookup_Leader:
  "lookup_or_join_key before locked fl key readable = (Leader, fl') \<Longrightarrow>
     key \<notin> fl \<and> fl' = insert key fl \<and> cache_get locked key readable = None"
  by (auto simp: lookup_or_join_key_def split: option.splits if_splits)

lemma lookup_not_Leader:
  "lookup_or_join_key before locked fl key readable = (l, fl') \<Longrightarrow> l \<noteq> Leader \<Longrightarrow> fl' = fl"
  by (auto simp: lookup_or_join_key_def split: option.splits if_splits)

lemma insert_from_outcome_get:
  "snd (insert_from_outcome leader outcome cache) k = Some c \<Longrightarrow>
     cache k = Some c \<or>
     k = fst leader \<and> (\<exists>info. oc_result outcome = Completed info (cr_output c)) \<and> cr_required_namespaces c = snd leader"
  by (auto simp: insert_from_outcome_def split: task_result.splits option.splits if_splits)

lemma flight_step_inv:
  assumes "flight_inv s" and "flight_step s t"
  shows "flight_inv t"
  using assms(2)
proof (cases rule: flight_step.cases)
  case (lookup_leads before key readable fl)
  from lookup_Leader [OF lookup_leads(2)] have "key \<notin> fl_in_flight s" "fl = insert key (fl_in_flight s)" by auto
  with assms(1) lookup_leads(1) show ?thesis by (auto simp: flight_inv_def)
next
  case (lookup_other before key readable l fl)
  with lookup_not_Leader [OF lookup_other(2,3)] assms(1) show ?thesis by (simp add: flight_inv_def)
next
  case (leader_completes leader outcome info out)
  with assms(1) show ?thesis
    by (auto simp: flight_inv_def dest!: insert_from_outcome_get)
next
  case (leader_dropped leader)
  have "0 < leaders_of (fst leader) (fl_leaders s)"
    using leader_dropped(2) leaders_of_pos by (metis prod.collapse)
  with assms(1) leader_dropped show ?thesis by (auto simp: flight_inv_def leaders_of_remove split: if_splits)
next
  case (evict key)
  with assms(1) show ?thesis by (auto simp: flight_inv_def)
qed

interpretation flights: transition_system flight_init flight_step flight_inv
  by unfold_locales (simp add: flight_init_def flight_inv_def leaders_of_def, rule flight_step_inv)

lemma cache_get_Some:
  "cache_get cache key readable = Some out \<longleftrightarrow>
     (\<exists>c. cache key = Some c \<and> is_authorized_for c readable \<and> cr_output c = out)"
  by (auto simp: cache_get_def split: option.splits if_splits)

text \<open>Who may read bytes rendered under the grants \<open>required\<close>: the public from a public render, a
  caller whose grants cover all of those the render ran under.\<close>

definition covers :: "namespace_set option \<Rightarrow> namespace_set option \<Rightarrow> bool" where
  "covers readable required \<longleftrightarrow>
     (case (readable, required) of
        (None, None) \<Rightarrow> True
      | (Some r, Some q) \<Rightarrow> wildcard \<in> set (ns_list r) \<or> set (ns_list q) \<subseteq> set (ns_list r)
      | _ \<Rightarrow> False)"

lemma authorized_covers:
  assumes "\<forall>r. readable = Some r \<longrightarrow> canonical_namespaces (ns_list r)"
    and "is_authorized_for c readable"
  shows "covers readable (cr_required_namespaces c)"
  using assms by (auto simp: is_authorized_for_def covers_def allows_iff split: option.splits)

section \<open>Properties\<close>

text \<open>C8: the cache key determines what is rendered: two tasks with one key agree on the style
  revision, the output format, the scale, the source and the whole request, but for the affinity hash
  of its addlayer and with GeoJSON compared by its text. In particular the length-framed addlayer identity is collision-free.\<close>

theorem cache_key_determines_render:
  "cache_key_from_task to_json t = cache_key_from_task to_json u \<longleftrightarrow>
    it_style t = it_style u \<and> rendered_request to_json (it_request t) = rendered_request to_json (it_request u)
    \<and> to_scale (it_pixel_ratio t) = to_scale (it_pixel_ratio u) \<and> it_output_format t = it_output_format u
    \<and> map_option src_hash (it_source t) = map_option src_hash (it_source u)"
proof -
  have "rev_id (it_style t) = rev_id (it_style u) \<and> rev_version (it_style t) = rev_version (it_style u) \<longleftrightarrow>
      it_style t = it_style u" by (cases "it_style t"; cases "it_style u") simp
  then show ?thesis
    by (auto simp: cache_key_from_task_def render_request_key_eq)
qed

text \<open>C9: in every reachable state a hit returns bytes that some leader rendered for exactly that
  key, under grants the reader covers: protected bytes never reach a caller without the grants they
  were rendered with, and never a public caller.\<close>

theorem cache_hit_authorized:
  assumes "reach flight_init flight_step s"
    and "\<forall>r. readable = Some r \<longrightarrow> canonical_namespaces (ns_list r)"
    and "lookup_or_join_key (fl_cache s) (fl_cache s) (fl_in_flight s) key readable = (Hit out, fl)"
  shows "\<exists>required. (key, required, out) \<in> fl_rendered s \<and> covers readable required"
proof -
  from assms(3) obtain c where c: "fl_cache s key = Some c" "is_authorized_for c readable" "cr_output c = out"
    by (auto simp: lookup_or_join_key_def cache_get_Some split: option.splits if_splits)
  from flights.reachable_inv [OF assms(1)] c have "(key, cr_required_namespaces c, out) \<in> fl_rendered s"
    by (auto simp: flight_inv_def)
  with authorized_covers [OF assms(2) c(2)] show ?thesis by blast
qed

text \<open>C10: at most one leader renders a key at a time, a caller waits exactly while some leader holds
  the key, and a leader's insertion never replaces a resident entry that demands other grants.\<close>

theorem single_flight:
  assumes "reach flight_init flight_step s"
  shows "leaders_of key (fl_leaders s) \<le> 1
    \<and> (fst (lookup_or_join_key before (fl_cache s) (fl_in_flight s) key readable) = Wait \<longrightarrow>
         (\<exists>grants. (key, grants) \<in># fl_leaders s))
    \<and> (\<forall>leader outcome existing. leader \<in># fl_leaders s \<and> fl_cache s (fst leader) = Some existing
         \<and> cr_required_namespaces existing \<noteq> snd leader \<longrightarrow>
         snd (insert_from_outcome leader outcome (fl_cache s)) = fl_cache s)"
proof (intro conjI allI impI)
  have inv: "leaders_of key (fl_leaders s) = (if key \<in> fl_in_flight s then 1 else 0)"
    using flights.reachable_inv [OF assms] by (simp add: flight_inv_def)
  then show "leaders_of key (fl_leaders s) \<le> 1" by simp
  assume "fst (lookup_or_join_key before (fl_cache s) (fl_in_flight s) key readable) = Wait"
  then have "key \<in> fl_in_flight s"
    by (auto simp: lookup_or_join_key_def split: option.splits if_splits)
  with inv show "\<exists>grants. (key, grants) \<in># fl_leaders s"
    by (simp flip: leaders_of_pos)
next
  fix leader outcome existing
  assume "leader \<in># fl_leaders s \<and> fl_cache s (fst leader) = Some existing
    \<and> cr_required_namespaces existing \<noteq> snd leader"
  then show "snd (insert_from_outcome leader outcome (fl_cache s)) = fl_cache s"
    by (auto simp: insert_from_outcome_def split: task_result.splits)
qed

section \<open>A concrete run\<close>

definition demo_key :: render_cache_key where
  "demo_key = \<lparr>rk_style_id = ''s'', rk_style_version = 1, rk_request = TileKey 0 0 0 256, rk_scale = X1,
     rk_output_format = Png, rk_source_hash = None\<rparr>"

definition demo_grants :: namespace_set where
  "demo_grants = NamespaceSet [''a'', ''b'']"

definition demo_output :: render_output where
  "demo_output = \<lparr>out_bytes = [1, 2], out_format = Png\<rparr>"

definition demo_outcome :: task_outcome where
  "demo_outcome = cache_hit_outcome 0 ''n''
     \<lparr>it_id = 1, it_request_id = ''r'', it_authorization = None, it_style = \<lparr>rev_id = ''s'', rev_version = 1\<rparr>,
      it_source = None, it_request = TileRequest 0 0 0 256, it_pixel_ratio = PixelRatio 1,
      it_output_format = Png, it_arrived_at = 0, it_deadline = 10, it_forwarding_hops = 0\<rparr> demo_output"

definition demo_flight :: flight_sys where
  "demo_flight =
     \<lparr>fl_cache = [demo_key \<mapsto> \<lparr>cr_output = demo_output, cr_required_namespaces = Some demo_grants\<rparr>],
      fl_in_flight = {demo_key}, fl_leaders = {#(demo_key, Some demo_grants)#},
      fl_rendered = {(demo_key, Some demo_grants, demo_output)}\<rparr>"

lemma demo_flight_reach: "reach flight_init flight_step demo_flight"
proof -
  define s0 where "s0 = \<lparr>fl_cache = Map.empty, fl_in_flight = {}, fl_leaders = {#}, fl_rendered = {}\<rparr>"
  define s1 where "s1 = s0\<lparr>fl_in_flight := {demo_key}, fl_leaders := {#(demo_key, Some demo_grants)#}\<rparr>"
  have "reach flight_init flight_step s0" by (rule reach_init) (simp add: flight_init_def s0_def)
  moreover have "flight_step s0 s1"
    using lookup_leads [of Map.empty s0 demo_key "Some demo_grants" "{demo_key}"]
    by (simp add: s0_def s1_def lookup_or_join_key_def cache_get_def)
  ultimately have "reach flight_init flight_step s1" by (rule reach_step)
  moreover have "flight_step s1 demo_flight"
    using leader_completes [of "(demo_key, Some demo_grants)" s1 demo_outcome _ demo_output]
    by (simp add: s0_def s1_def insert_from_outcome_def demo_outcome_def cache_hit_outcome_def demo_flight_def)
  ultimately show ?thesis by (rule reach_step)
qed

theorem cache_hit_authorized_witness:
  "fst (lookup_or_join_key (fl_cache demo_flight) (fl_cache demo_flight) (fl_in_flight demo_flight) demo_key
       (Some (NamespaceSet [''a'', ''b'', ''c'']))) = Hit demo_output
   \<and> (\<exists>required. (demo_key, required, demo_output) \<in> fl_rendered demo_flight
        \<and> covers (Some (NamespaceSet [''a'', ''b'', ''c''])) required)"
proof -
  let ?r = "NamespaceSet [''a'', ''b'', ''c'']"
  have can: "canonical_namespaces (ns_list ?r)" by code_simp
  have "is_authorized_for \<lparr>cr_output = demo_output, cr_required_namespaces = Some demo_grants\<rparr> (Some ?r)"
    using can by (simp add: is_authorized_for_def allows_iff demo_grants_def) code_simp
  then have l: "lookup_or_join_key (fl_cache demo_flight) (fl_cache demo_flight) (fl_in_flight demo_flight) demo_key
      (Some ?r) = (Hit demo_output, fl_in_flight demo_flight)"
    by (simp add: lookup_or_join_key_def cache_get_def demo_flight_def)
  from cache_hit_authorized [OF demo_flight_reach _ l] can l show ?thesis by simp
qed

theorem single_flight_witness:
  "leaders_of demo_key (fl_leaders demo_flight) \<le> 1
   \<and> demo_key \<in> fl_in_flight demo_flight"
  using single_flight [OF demo_flight_reach, of demo_key Map.empty None] by (simp add: demo_flight_def)

end
