(* ===== verification/Wire.thy ===== *)
theory Wire
  imports Biei_Types Interfaces
begin

text \<open>
  \<^verbatim>\<open>crates/biei-core/src/wire.rs\<close>: what crosses nodes. A task leaves its process-local clock behind
  and travels with a millisecond budget; an outcome travels as a header with peer-local offsets,
  framed by a four-byte length in front of the image bytes. The JSON encoder and decoder are the
  arguments \<open>to_vec\<close> and \<open>from_slice\<close>.
\<close>

section \<open>Tasks\<close>

record wire_task =
  wt_id :: task_id
  wt_request_id :: request_id
  wt_authorization :: "render_authorization option"
  wt_style :: style_revision
  wt_source :: "source_ref option"
  wt_request :: render_request
  wt_scale :: scale
  wt_output_format :: image_format
  wt_remaining_budget_ms :: nat
  wt_forwarding_hops :: u8

record forward_request =
  fr_task :: wire_task
  fr_route_tier :: route_tier
  fr_drain_worker :: "worker_id option"
  fr_origin_response_budget_ms :: nat

definition to_wire_with_hop_latency :: "internal_task \<Rightarrow> instant \<Rightarrow> duration \<Rightarrow> wire_task" where
  "to_wire_with_hop_latency task now hop_latency =
     (let budget = saturating_duration_since (it_deadline task) now - hop_latency
      in \<lparr>wt_id = it_id task, wt_request_id = it_request_id task,
          wt_authorization = it_authorization task, wt_style = it_style task,
          wt_source = it_source task, wt_request = it_request task,
          wt_scale = to_scale (it_pixel_ratio task), wt_output_format = it_output_format task,
          wt_remaining_budget_ms = min (as_millis budget) u32_max,
          wt_forwarding_hops = it_forwarding_hops task\<rparr>)"

definition u8_saturating_add :: "u8 \<Rightarrow> u8 \<Rightarrow> u8" where
  "u8_saturating_add a b = of_nat (min 255 (unat a + unat b))"

definition to_forward_wire :: "internal_task \<Rightarrow> instant \<Rightarrow> duration \<Rightarrow> wire_task" where
  "to_forward_wire task now hop_latency =
     (let round_trip = duration_saturating_mul hop_latency 2
      in (to_wire_with_hop_latency task now round_trip)
           \<lparr>wt_forwarding_hops := u8_saturating_add (it_forwarding_hops task) 1\<rparr>)"

text \<open>\<open>None\<close>: the sum passes the clock's range and panics.\<close>

definition into_internal :: "wire_task \<Rightarrow> instant \<Rightarrow> internal_task option" where
  "into_internal w now =
     map_option (\<lambda>deadline.
       \<lparr>it_id = wt_id w, it_request_id = wt_request_id w, it_authorization = wt_authorization w,
        it_style = wt_style w, it_source = wt_source w, it_request = wt_request w,
        it_pixel_ratio = pixel_ratio_of (wt_scale w), it_output_format = wt_output_format w,
        it_arrived_at = now, it_deadline = deadline, it_forwarding_hops = wt_forwarding_hops w\<rparr>)
       (instant_checked_add now (millis (wt_remaining_budget_ms w)))"

section \<open>Outcomes\<close>

record wire_render_observation =
  wo_render_mode :: render_mode
  wo_scale :: scale
  wo_output_format :: image_format
  wo_width :: u16
  wo_height :: u16
  wo_style_setup_ms :: "nat option"
  wo_source_setup_ms :: "nat option"

definition duration_millis :: "duration \<Rightarrow> nat" where
  "duration_millis d = min (as_millis d) u64_max"

definition millis_since :: "instant \<Rightarrow> instant \<Rightarrow> nat" where
  "millis_since i base = duration_millis (saturating_duration_since i base)"

definition observation_to_wire :: "render_observation \<Rightarrow> wire_render_observation" where
  "observation_to_wire ob =
     \<lparr>wo_render_mode = ob_render_mode ob, wo_scale = ob_scale ob, wo_output_format = ob_output_format ob,
      wo_width = ob_width ob, wo_height = ob_height ob,
      wo_style_setup_ms = map_option duration_millis (ob_style_setup_duration ob),
      wo_source_setup_ms = map_option duration_millis (ob_source_setup_duration ob)\<rparr>"

definition observation_from_wire :: "wire_render_observation \<Rightarrow> render_observation" where
  "observation_from_wire wo =
     \<lparr>ob_render_mode = wo_render_mode wo, ob_scale = wo_scale wo, ob_output_format = wo_output_format wo,
      ob_width = wo_width wo, ob_height = wo_height wo,
      ob_style_setup_duration = map_option millis (wo_style_setup_ms wo),
      ob_source_setup_duration = map_option millis (wo_source_setup_ms wo)\<rparr>"

record wire_completed =
  wc_node_id :: node_id
  wc_worker_id :: "worker_id option"
  wc_route_tier :: route_tier
  wc_render_started_ms :: nat
  wc_native_render_started_ms :: nat
  wc_native_render_completed_ms :: nat
  wc_completed_ms :: nat
  wc_style_swap :: bool
  wc_cold_start :: bool
  wc_source_loaded :: bool
  wc_admitted_at_overflow :: bool
  wc_render_observation :: "wire_render_observation option"

datatype outcome_result =
    WCompleted wire_completed
  | WRejected rejection_reason "deadline_stage option"
  | WFailed string failure_kind

record outcome_header =
  oh_task_id :: task_id
  oh_request_id :: request_id
  oh_style_id :: style_id
  oh_had_source :: bool
  oh_image_format :: "image_format option"
  oh_result :: outcome_result

record forward_response =
  fp_outcome :: outcome_header
  fp_output :: "render_output option"

fun outcome_result_from :: "task_outcome \<Rightarrow> outcome_result \<times> image_format option \<times> render_output option" where
  "outcome_result_from oc =
     (case oc_result oc of
        Completed info out \<Rightarrow>
          (WCompleted
             \<lparr>wc_node_id = ci_node_id info, wc_worker_id = ci_worker_id info,
              wc_route_tier = ci_route_tier info,
              wc_render_started_ms = millis_since (ci_started_at info) (oc_arrived_at oc),
              wc_native_render_started_ms = millis_since (ci_native_render_started_at info) (oc_arrived_at oc),
              wc_native_render_completed_ms = millis_since (ci_native_render_completed_at info) (oc_arrived_at oc),
              wc_completed_ms = millis_since (ci_completed_at info) (oc_arrived_at oc),
              wc_style_swap = ci_style_swap info, wc_cold_start = ci_cold_start info,
              wc_source_loaded = ci_source_loaded info,
              wc_admitted_at_overflow = ci_admitted_at_overflow info,
              wc_render_observation = map_option observation_to_wire (ci_render_observation info)\<rparr>,
           Some (out_format out), Some out)
      | Rejected reason \<Rightarrow> (WRejected reason (oc_deadline_stage oc), None, None)
      | Failed err kind \<Rightarrow> (WFailed err kind, None, None))"

definition header_from_task_outcome :: "task_outcome \<Rightarrow> style_id \<Rightarrow> outcome_header \<times> render_output option" where
  "header_from_task_outcome oc style_id =
     (case outcome_result_from oc of
        (result, image_format, out) \<Rightarrow>
          (\<lparr>oh_task_id = oc_task_id oc, oh_request_id = oc_request_id oc, oh_style_id = style_id,
            oh_had_source = oc_had_source oc, oh_image_format = image_format, oh_result = result\<rparr>, out))"

definition response_from_task_outcome :: "task_outcome \<Rightarrow> style_id \<Rightarrow> forward_response" where
  "response_from_task_outcome oc style_id =
     (case header_from_task_outcome oc style_id of (h, out) \<Rightarrow> \<lparr>fp_outcome = h, fp_output = out\<rparr>)"

text \<open>The peer's timeline is shifted to end at the receipt, clipped to start no earlier than the
  local arrival.\<close>

definition peer_arrived_at :: "instant \<Rightarrow> instant \<Rightarrow> nat \<Rightarrow> instant" where
  "peer_arrived_at arrived_at completed_at completed_ms =
     max (if millis completed_ms \<le> completed_at then completed_at - millis completed_ms else arrived_at)
       arrived_at"

definition peer_offset :: "instant \<Rightarrow> instant \<Rightarrow> nat \<Rightarrow> instant" where
  "peer_offset peer_arrived completed_at offset_ms =
     peer_arrived + min (millis offset_ms) (completed_at - peer_arrived)"

definition header_into_task_outcome ::
  "outcome_header \<Rightarrow> instant \<Rightarrow> instant \<Rightarrow> render_output option \<Rightarrow> task_outcome" where
  "header_into_task_outcome h arrived_at received_at output =
     (let (result, stage) =
        (case oh_result h of
           WCompleted w \<Rightarrow>
             (let completed_at = max received_at arrived_at;
                  peer = peer_arrived_at arrived_at completed_at (wc_completed_ms w)
              in case output of
                   Some out \<Rightarrow>
                     (Completed
                        \<lparr>ci_node_id = wc_node_id w, ci_worker_id = wc_worker_id w,
                         ci_route_tier = wc_route_tier w,
                         ci_started_at = peer_offset peer completed_at (wc_render_started_ms w),
                         ci_native_render_started_at =
                           peer_offset peer completed_at (wc_native_render_started_ms w),
                         ci_native_render_completed_at =
                           peer_offset peer completed_at (wc_native_render_completed_ms w),
                         ci_completed_at = completed_at, ci_style_swap = wc_style_swap w,
                         ci_cold_start = wc_cold_start w, ci_source_loaded = wc_source_loaded w,
                         ci_admitted_at_overflow = wc_admitted_at_overflow w,
                         ci_render_observation = map_option observation_from_wire (wc_render_observation w)\<rparr>
                        out, None)
                 | None \<Rightarrow> (Failed ''completed response missing render output'' OtherFailure, None))
         | WRejected reason stage \<Rightarrow> (Rejected reason, stage)
         | WFailed err kind \<Rightarrow> (Failed err kind, None))
      in \<lparr>oc_task_id = oh_task_id h, oc_request_id = oh_request_id h, oc_arrived_at = arrived_at,
          oc_had_source = oh_had_source h, oc_deadline_stage = stage, oc_result = result\<rparr>)"

definition response_into_task_outcome :: "forward_response \<Rightarrow> instant \<Rightarrow> instant \<Rightarrow> task_outcome" where
  "response_into_task_outcome r arrived_at received_at =
     header_into_task_outcome (fp_outcome r) arrived_at received_at (fp_output r)"

definition header_rejected_reason :: "outcome_header \<Rightarrow> rejection_reason option" where
  "header_rejected_reason h = (case oh_result h of WRejected reason _ \<Rightarrow> Some reason | _ \<Rightarrow> None)"

definition completed_format :: "outcome_header \<Rightarrow> image_format option" where
  "completed_format h = (case oh_result h of WCompleted _ \<Rightarrow> oh_image_format h | _ \<Rightarrow> None)"

section \<open>Framing\<close>

datatype wire_error = WEncode | WDecode | InvalidCompletedTimeline | Truncated | TooLarge

definition to_be_bytes :: "nat \<Rightarrow> bytes" where
  "to_be_bytes n = [of_nat (n div 2 ^ 24), of_nat (n div 2 ^ 16), of_nat (n div 2 ^ 8), of_nat n]"

definition from_be_bytes :: "bytes \<Rightarrow> nat" where
  "from_be_bytes bs = foldl (\<lambda>acc b. acc * 256 + unat b) 0 bs"

definition encode_response_header ::
  "(outcome_header \<Rightarrow> bytes option) \<Rightarrow> outcome_header \<Rightarrow> wire_error + bytes" where
  "encode_response_header to_vec h =
     (case to_vec h of
        None \<Rightarrow> Inl WEncode
      | Some json \<Rightarrow>
          if u32_max < length json then Inl TooLarge
          else Inr (to_be_bytes (length json) @ json))"

definition timeline_ordered :: "outcome_header \<Rightarrow> bool" where
  "timeline_ordered h =
     (case oh_result h of
        WCompleted w \<Rightarrow>
          wc_render_started_ms w \<le> wc_native_render_started_ms w
          \<and> wc_native_render_started_ms w \<le> wc_native_render_completed_ms w
          \<and> wc_native_render_completed_ms w \<le> wc_completed_ms w
      | _ \<Rightarrow> True)"

definition decode_response_prefix ::
  "(bytes \<Rightarrow> outcome_header option) \<Rightarrow> bytes \<Rightarrow> wire_error + outcome_header \<times> nat" where
  "decode_response_prefix from_slice body =
     (if length body < 4 then Inl Truncated
      else case usize_checked_add 4 (from_be_bytes (take 4 body)) of
        None \<Rightarrow> Inl Truncated
      | Some payload_end \<Rightarrow>
          if length body < payload_end then Inl Truncated
          else case from_slice (drop 4 (take payload_end body)) of
            None \<Rightarrow> Inl WDecode
          | Some h \<Rightarrow> if timeline_ordered h then Inr (h, payload_end) else Inl InvalidCompletedTimeline)"

definition decode_response_bytes ::
  "(bytes \<Rightarrow> outcome_header option) \<Rightarrow> bytes \<Rightarrow> wire_error + outcome_header \<times> bytes" where
  "decode_response_bytes from_slice body =
     (case decode_response_prefix from_slice body of
        Inl e \<Rightarrow> Inl e
      | Inr (h, payload_end) \<Rightarrow> Inr (h, drop payload_end body))"

section \<open>Lemmas\<close>

lemma unat_u8_of_nat: "unat (of_nat n :: u8) = n mod 256"
  by (simp add: unat_of_nat)

lemma length_to_be_bytes [simp]: "length (to_be_bytes n) = 4"
  by (simp add: to_be_bytes_def)

lemma from_to_be_bytes:
  assumes "n \<le> u32_max"
  shows "from_be_bytes (to_be_bytes n) = n"
proof -
  have n: "n < 2 ^ 32" using assms by (simp add: u32_max_def)
  define a b c where "a = n div 256" and "b = a div 256" and "c = b div 256"
  have "n = a * 256 + n mod 256" "a = b * 256 + a mod 256" "b = c * 256 + b mod 256"
    by (simp_all add: a_def b_def c_def)
  moreover have "n div 2 ^ 8 = a" "n div 2 ^ 16 = b" "n div 2 ^ 24 = c"
    by (simp_all add: a_def b_def c_def div_mult2_eq [symmetric])
  moreover have "c < 256" using n by (simp add: \<open>n div 2 ^ 24 = c\<close> [symmetric] less_mult_imp_div_less)
  ultimately show ?thesis
    by (simp add: from_be_bytes_def to_be_bytes_def unat_u8_of_nat)
qed

text \<open>A header the codec carries: its JSON decodes back, fits the length field, and its timeline
  is ordered.\<close>

definition carried ::
  "(outcome_header \<Rightarrow> bytes option) \<Rightarrow> (bytes \<Rightarrow> outcome_header option) \<Rightarrow> outcome_header \<Rightarrow> bool" where
  "carried to_vec from_slice h \<longleftrightarrow>
     (case to_vec h of None \<Rightarrow> False
      | Some json \<Rightarrow> length json \<le> u32_max \<and> from_slice json = Some h \<and> timeline_ordered h)"

definition frame_bytes :: "(outcome_header \<Rightarrow> bytes option) \<Rightarrow> outcome_header \<Rightarrow> bytes" where
  "frame_bytes to_vec h = (case encode_response_header to_vec h of Inl _ \<Rightarrow> [] | Inr b \<Rightarrow> b)"

definition unframe_bytes ::
  "(bytes \<Rightarrow> outcome_header option) \<Rightarrow> bytes \<Rightarrow> (outcome_header \<times> bytes) option" where
  "unframe_bytes from_slice body =
     (case decode_response_bytes from_slice body of Inl _ \<Rightarrow> None | Inr r \<Rightarrow> Some r)"

lemma carried_encode:
  assumes "carried to_vec from_slice h"
  obtains json where "to_vec h = Some json" "from_slice json = Some h" "length json \<le> u32_max"
    "timeline_ordered h" "encode_response_header to_vec h = Inr (to_be_bytes (length json) @ json)"
  using assms by (auto simp: carried_def encode_response_header_def split: option.splits)

lemma decode_framed:
  assumes "from_slice json = Some h" and "length json \<le> u32_max" and "timeline_ordered h"
  shows "decode_response_bytes from_slice (to_be_bytes (length json) @ json @ img) = Inr (h, img)"
proof -
  have "4 + length json \<le> usize_max" using assms(2) by (simp add: u32_max_def usize_max_def)
  then show ?thesis
    using assms by (simp add: decode_response_bytes_def decode_response_prefix_def from_to_be_bytes
        usize_checked_add_def)
qed

interpretation response_frame: prefix_code "frame_bytes to_vec" "unframe_bytes from_slice" "carried to_vec from_slice"
  for to_vec from_slice
proof unfold_locales
  fix h r assume "carried to_vec from_slice h"
  then obtain json where j: "from_slice json = Some h" "length json \<le> u32_max" "timeline_ordered h"
    "encode_response_header to_vec h = Inr (to_be_bytes (length json) @ json)"
    by (rule carried_encode)
  show "unframe_bytes from_slice (frame_bytes to_vec h @ r) = Some (h, r)"
    using decode_framed [of from_slice json h r, OF j(1-3)] by (simp add: unframe_bytes_def frame_bytes_def j(4))
  show "frame_bytes to_vec h \<noteq> []" by (simp add: frame_bytes_def j(4) to_be_bytes_def)
qed

lemma millis_since_mono: "a \<le> b \<Longrightarrow> millis_since a base \<le> millis_since b base"
  using as_millis_mono [of "a - base" "b - base"]
  by (simp add: millis_since_def duration_millis_def saturating_duration_since_def min.coboundedI1 diff_le_mono)

lemma peer_offset_mono: "a \<le> b \<Longrightarrow> peer_offset p c a \<le> peer_offset p c b"
  using millis_mono [of a b] by (simp add: peer_offset_def min.coboundedI1)

lemma peer_offset_bounds:
  "p \<le> c \<Longrightarrow> p \<le> peer_offset p c a \<and> peer_offset p c a \<le> c"
  by (auto simp: peer_offset_def)

lemma peer_arrived_at_bounds:
  "a \<le> c \<Longrightarrow> a \<le> peer_arrived_at a c m \<and> peer_arrived_at a c m \<le> c"
  by (auto simp: peer_arrived_at_def)

section \<open>Properties\<close>

text \<open>C11: a forwarded task arrives as the same render on the same worker profile, one hop older,
  and the receiver, on its own clock, grants it no more time than the sender had left minus the round
  trip it reserved: forwarding never extends a deadline.\<close>

theorem forward_task_roundtrip:
  assumes "it_deadline task \<le> instant_max"
    and "into_internal (to_forward_wire task sent hop) received = Some task'"
  shows "it_id task' = it_id task \<and> it_request_id task' = it_request_id task
    \<and> it_authorization task' = it_authorization task \<and> it_source task' = it_source task
    \<and> it_request task' = it_request task \<and> it_output_format task' = it_output_format task
    \<and> task_worker_profile task' = task_worker_profile task
    \<and> unat (it_forwarding_hops task') = min 255 (unat (it_forwarding_hops task) + 1)
    \<and> it_arrived_at task' = received
    \<and> received \<le> it_deadline task'
    \<and> it_deadline task' - received \<le> (it_deadline task - sent) - 2 * hop"
proof -
  define budget where "budget = (it_deadline task - sent) - min duration_max (hop * 2)"
  define ms where "ms = min (as_millis budget) u32_max"
  have "it_deadline task - sent \<le> duration_max"
    using assms(1) by (simp add: instant_max_def duration_max_def)
  then have b: "budget \<le> (it_deadline task - sent) - 2 * hop"
    unfolding budget_def by (cases "hop * 2 \<le> duration_max") (simp_all add: min_def mult.commute)
  have "millis ms \<le> budget"
    using millis_mono [of ms "as_millis budget"] millis_as_millis_le [of budget] by (simp add: ms_def)
  with b have "millis ms \<le> (it_deadline task - sent) - 2 * hop" by (rule order_trans [rotated])
  moreover have "unat (u8_saturating_add (it_forwarding_hops task) 1) = min 255 (unat (it_forwarding_hops task) + 1)"
    by (auto simp: u8_saturating_add_def unat_of_nat min_def)
  moreover have "wt_remaining_budget_ms (to_forward_wire task sent hop) = ms"
    by (simp only: to_forward_wire_def to_wire_with_hop_latency_def Let_def saturating_duration_since_def
        duration_saturating_mul_def ms_def budget_def wire_task.simps)
  moreover have "it_deadline task' = received + millis (wt_remaining_budget_ms (to_forward_wire task sent hop))"
    "it_arrived_at task' = received"
    "it_forwarding_hops task' = u8_saturating_add (it_forwarding_hops task) 1"
    "task_worker_profile task' = task_worker_profile task"
    using assms(2) by (auto simp: into_internal_def instant_checked_add_def task_worker_profile_def
        to_forward_wire_def to_wire_with_hop_latency_def Let_def split: if_splits)
  moreover have "it_id task' = it_id task" "it_request_id task' = it_request_id task"
    "it_authorization task' = it_authorization task" "it_source task' = it_source task"
    "it_request task' = it_request task" "it_output_format task' = it_output_format task"
    using assms(2) by (auto simp: into_internal_def to_forward_wire_def to_wire_with_hop_latency_def Let_def)
  ultimately show ?thesis by simp
qed

definition demo_wire_task :: internal_task where
  "demo_wire_task =
     \<lparr>it_id = 1, it_request_id = ''r'', it_authorization = None,
      it_style = \<lparr>rev_id = ''s'', rev_version = 1\<rparr>, it_source = None, it_request = TileRequest 0 0 0 256,
      it_pixel_ratio = PixelRatio 2, it_output_format = Png, it_arrived_at = 0,
      it_deadline = millis 5000, it_forwarding_hops = 0\<rparr>"

theorem forward_task_roundtrip_witness:
  "\<exists>task'. into_internal (to_forward_wire demo_wire_task (millis 1000) (millis 5)) (millis 70) = Some task'
    \<and> task_worker_profile task' = task_worker_profile demo_wire_task
    \<and> it_deadline task' - millis 70 \<le> millis 3990"
proof -
  have d: "it_deadline demo_wire_task \<le> instant_max"
    by (simp add: demo_wire_task_def millis_def instant_max_def)
  obtain task' where t: "into_internal (to_forward_wire demo_wire_task (millis 1000) (millis 5)) (millis 70) = Some task'"
    by (simp add: into_internal_def to_forward_wire_def to_wire_with_hop_latency_def demo_wire_task_def
        instant_checked_add_def Let_def u32_max_def instant_max_def duration_max_def std_defs)
  from forward_task_roundtrip [OF d t] t show ?thesis
    by (auto simp: demo_wire_task_def millis_def)
qed

text \<open>An outcome that crosses nodes keeps its verdict: a rejection its reason and deadline stage, a
  failure its text and kind, a completed render its bytes and its flags; and the rebuilt timeline is
  ordered, starts no earlier than the local arrival and ends at the receipt, whatever the two clocks
  show.\<close>

theorem outcome_wire_roundtrip:
  assumes "case oc_result oc of
      Completed info out \<Rightarrow> ci_started_at info \<le> ci_native_render_started_at info
        \<and> ci_native_render_started_at info \<le> ci_native_render_completed_at info
        \<and> ci_native_render_completed_at info \<le> ci_completed_at info
    | Rejected _ \<Rightarrow> True
    | Failed _ _ \<Rightarrow> oc_deadline_stage oc = None"
    and "oc' = response_into_task_outcome (response_from_task_outcome oc style_id) arrived received"
  shows "oc_task_id oc' = oc_task_id oc \<and> oc_request_id oc' = oc_request_id oc
    \<and> oc_had_source oc' = oc_had_source oc \<and> oc_arrived_at oc' = arrived
    \<and> timeline_ordered (fst (header_from_task_outcome oc style_id))
    \<and> (case oc_result oc of
         Rejected reason \<Rightarrow> oc_result oc' = Rejected reason \<and> oc_deadline_stage oc' = oc_deadline_stage oc
       | Failed err kind \<Rightarrow> oc_result oc' = Failed err kind \<and> oc_deadline_stage oc' = oc_deadline_stage oc
       | Completed info out \<Rightarrow>
           (\<exists>info'. oc_result oc' = Completed info' out
              \<and> ci_node_id info' = ci_node_id info \<and> ci_worker_id info' = ci_worker_id info
              \<and> ci_route_tier info' = ci_route_tier info \<and> ci_style_swap info' = ci_style_swap info
              \<and> ci_cold_start info' = ci_cold_start info \<and> ci_source_loaded info' = ci_source_loaded info
              \<and> ci_admitted_at_overflow info' = ci_admitted_at_overflow info
              \<and> arrived \<le> ci_started_at info'
              \<and> ci_started_at info' \<le> ci_native_render_started_at info'
              \<and> ci_native_render_started_at info' \<le> ci_native_render_completed_at info'
              \<and> ci_native_render_completed_at info' \<le> ci_completed_at info'
              \<and> ci_completed_at info' = max received arrived))"
proof (cases "oc_result oc")
  case (Completed info out)
  let ?c = "max received arrived"
  let ?p = "peer_arrived_at arrived ?c (millis_since (ci_completed_at info) (oc_arrived_at oc))"
  have p: "arrived \<le> ?p" "?p \<le> ?c" using peer_arrived_at_bounds [of arrived ?c] by auto
  have "arrived \<le> peer_offset ?p ?c m" "peer_offset ?p ?c m \<le> ?c" for m
    using p peer_offset_bounds [OF p(2), of m] by auto
  moreover from assms(1) Completed have
    "peer_offset ?p ?c (millis_since (ci_started_at info) b) \<le> peer_offset ?p ?c (millis_since (ci_native_render_started_at info) b)"
    "peer_offset ?p ?c (millis_since (ci_native_render_started_at info) b)
      \<le> peer_offset ?p ?c (millis_since (ci_native_render_completed_at info) b)" for b
    by (auto intro!: peer_offset_mono millis_since_mono)
  ultimately show ?thesis
    using assms(1) Completed
    by (simp add: assms(2) response_into_task_outcome_def response_from_task_outcome_def
        header_from_task_outcome_def header_into_task_outcome_def timeline_ordered_def millis_since_mono Let_def)
qed (use assms(1) in \<open>simp_all add: assms(2) response_into_task_outcome_def response_from_task_outcome_def
    header_from_task_outcome_def header_into_task_outcome_def timeline_ordered_def Let_def\<close>)

text \<open>C12: the response frame round trips: a body made of an encoded header followed by image bytes
  decodes to exactly that header and those bytes, for every header the JSON codec carries; and bodies
  of different headers or images never coincide.\<close>

theorem response_frame_roundtrip:
  assumes "carried to_vec from_slice h" and "encode_response_header to_vec h = Inr frame"
  shows "decode_response_bytes from_slice (frame @ img) = Inr (h, img)
    \<and> (\<forall>h' frame' img'. carried to_vec from_slice h' \<and> encode_response_header to_vec h' = Inr frame'
         \<and> frame @ img = frame' @ img' \<longrightarrow> h = h' \<and> img = img')"
proof -
  have "frame_bytes to_vec h = frame" using assms(2) by (simp add: frame_bytes_def)
  with response_frame.dec_enc [OF assms(1), of img]
  have "decode_response_bytes from_slice (frame @ img) = Inr (h, img)"
    by (auto simp: unframe_bytes_def split: sum.splits)
  moreover have "h = h' \<and> img = img'"
    if "carried to_vec from_slice h'" "encode_response_header to_vec h' = Inr frame'" "frame @ img = frame' @ img'"
    for h' frame' img'
    using response_frame.enc_prefix_inj [OF assms(1) that(1), of img img'] that assms(2)
    by (simp add: frame_bytes_def)
  ultimately show ?thesis by blast
qed

definition demo_header :: outcome_header where
  "demo_header = \<lparr>oh_task_id = 1, oh_request_id = ''r'', oh_style_id = ''s'', oh_had_source = False,
     oh_image_format = None, oh_result = WRejected QueueFull None\<rparr>"

theorem response_frame_roundtrip_witness:
  "decode_response_bytes (\<lambda>b. if b = [7, 7] then Some demo_header else None) ([0, 0, 0, 2, 7, 7] @ [1, 2, 3])
     = Inr (demo_header, [1, 2, 3])"
proof -
  let ?to = "\<lambda>h. if h = demo_header then Some [7, 7 :: 8 word] else None"
  let ?from = "\<lambda>b :: bytes. if b = [7, 7] then Some demo_header else None"
  have "carried ?to ?from demo_header"
    by (simp add: carried_def u32_max_def timeline_ordered_def) (simp add: demo_header_def)
  moreover have "encode_response_header ?to demo_header = Inr [0, 0, 0, 2, 7, 7]"
    by (simp add: encode_response_header_def u32_max_def to_be_bytes_def)
  ultimately show ?thesis using response_frame_roundtrip by blast
qed

end
