(* ===== verification/View_Cache.thy ===== *)
theory View_Cache
  imports Biei_Types Interfaces
begin

text \<open>
  \<^verbatim>\<open>crates/biei-core/src/node/view_cache.rs\<close>: the node's cache of the gossip-derived cluster view.
  One caller loads at a time, others use a bounded stale snapshot or wait, and a view of an older
  membership epoch is never served. Clock reads, the gossip answers and the state other callers
  leave behind are the record \<open>view_iter\<close> of one turn of the loop.
\<close>

section \<open>State and operations\<close>

definition view_max_ttl :: duration where
  "view_max_ttl = millis 100"

definition view_min_ttl :: duration where
  "view_min_ttl = millis 1"

definition cluster_view_cache_ttl :: "duration \<Rightarrow> duration" where
  "cluster_view_cache_ttl publish_interval = max (min publish_interval view_max_ttl) view_min_ttl"

record cached_cluster_view =
  cw_expires_at :: instant
  cw_gossip_epoch :: u64
  cw_view :: cluster_view

record view_cache_state =
  vs_cached :: "cached_cluster_view option"
  vs_loading :: bool

definition view_cache_new :: view_cache_state where
  "view_cache_new = \<lparr>vs_cached = None, vs_loading = False\<rparr>"

definition usable_cached_view :: "view_cache_state \<Rightarrow> duration \<Rightarrow> u64 \<Rightarrow> instant \<Rightarrow> cluster_view option" where
  "usable_cached_view st stale_grace gossip_epoch now =
     (case vs_cached st of
        None \<Rightarrow> None
      | Some c \<Rightarrow>
          if cw_gossip_epoch c \<noteq> gossip_epoch then None
          else let bounded_stale = vs_loading st \<and>
                     (case instant_checked_add (cw_expires_at c) stale_grace of
                        None \<Rightarrow> False | Some stale_until \<Rightarrow> now < stale_until)
               in if now < cw_expires_at c \<or> bounded_stale then Some (cw_view c) else None)"

text \<open>\<open>ClusterViewLoad::complete\<close> and the drop of an incomplete load; \<open>Instant + ttl\<close> stays in the
  clock's range for a ttl of at most 100 ms.\<close>

definition load_complete :: "duration \<Rightarrow> instant \<Rightarrow> u64 \<Rightarrow> cluster_view \<Rightarrow> view_cache_state" where
  "load_complete ttl now gossip_epoch view =
     \<lparr>vs_cached = Some \<lparr>cw_expires_at = now + ttl, cw_gossip_epoch = gossip_epoch, cw_view = view\<rparr>,
      vs_loading = False\<rparr>"

definition load_drop :: "view_cache_state \<Rightarrow> view_cache_state" where
  "load_drop st = st\<lparr>vs_loading := False\<rparr>"

text \<open>What one turn of \<open>get_or_load\<close> meets: the clock and the epoch at each check, the state at the
  two locked sections, the gossip view unless the deadline passes first, the epoch after the load, and
  whether a waiter is woken before the deadline.\<close>

record view_iter =
  vi_now :: instant
  vi_state :: view_cache_state
  vi_epoch :: u64
  vi_check_now :: instant
  vi_locked_state :: view_cache_state
  vi_locked_epoch :: u64
  vi_locked_now :: instant
  vi_load_epoch :: u64
  vi_view :: "cluster_view option"
  vi_after_epoch :: u64
  vi_done_now :: instant
  vi_woken :: bool

text \<open>The outcome of one turn: return, or go around again, with the state it leaves if it wrote.\<close>

datatype view_turn =
  ViewReturn "cluster_view option" "view_cache_state option" | ViewAgain "view_cache_state option"

definition get_or_load_turn :: "duration \<Rightarrow> instant \<Rightarrow> view_iter \<Rightarrow> view_turn" where
  "get_or_load_turn ttl deadline it =
     (if deadline \<le> vi_now it then ViewReturn None None
      else case usable_cached_view (vi_state it) ttl (vi_epoch it) (vi_check_now it) of
        Some view \<Rightarrow> ViewReturn (Some view) None
      | None \<Rightarrow>
          (case usable_cached_view (vi_locked_state it) ttl (vi_locked_epoch it) (vi_locked_now it) of
             Some view \<Rightarrow> ViewReturn (Some view) None
           | None \<Rightarrow>
               if vs_loading (vi_locked_state it)
               then (if vi_woken it then ViewAgain None else ViewReturn None None)
               else let loading = (vi_locked_state it)\<lparr>vs_loading := True\<rparr>
                    in case vi_view it of
                         None \<Rightarrow> ViewReturn None (Some (load_drop loading))
                       | Some view \<Rightarrow>
                           if vi_after_epoch it \<noteq> vi_load_epoch it then ViewAgain (Some (load_drop loading))
                           else ViewReturn (Some view)
                             (Some (load_complete ttl (vi_done_now it) (vi_load_epoch it) view))))"

text \<open>The loop over what its turns meet: \<open>None\<close> when the list ends before the loop returns.\<close>

fun get_or_load :: "duration \<Rightarrow> instant \<Rightarrow> view_iter list \<Rightarrow> cluster_view option option" where
  "get_or_load ttl deadline [] = None"
| "get_or_load ttl deadline (it # its) =
     (case get_or_load_turn ttl deadline it of
        ViewReturn r _ \<Rightarrow> Some r
      | ViewAgain _ \<Rightarrow> get_or_load ttl deadline its)"

section \<open>The protocol of several callers\<close>

text \<open>\<open>vy_loads\<close> are the load guards alive, with the epoch each read once it did.\<close>

record view_sys =
  vy_state :: view_cache_state
  vy_epoch :: u64
  vy_loads :: "u64 option multiset"

definition view_init :: "view_sys \<Rightarrow> bool" where
  "view_init s \<longleftrightarrow> vy_state s = view_cache_new \<and> vy_loads s = {#}"

inductive view_step :: "duration \<Rightarrow> view_sys \<Rightarrow> view_sys \<Rightarrow> bool" for ttl :: duration where
  begin_load:
    "usable_cached_view (vy_state s) ttl (vy_epoch s) now = None \<Longrightarrow> \<not> vs_loading (vy_state s) \<Longrightarrow>
     view_step ttl s (s\<lparr>vy_state := (vy_state s)\<lparr>vs_loading := True\<rparr>, vy_loads := add_mset None (vy_loads s)\<rparr>)"
| read_epoch:
    "None \<in># vy_loads s \<Longrightarrow>
     view_step ttl s (s\<lparr>vy_loads := add_mset (Some (vy_epoch s)) (vy_loads s - {#None#})\<rparr>)"
| complete_load:
    "Some e \<in># vy_loads s \<Longrightarrow>
     view_step ttl s (s\<lparr>vy_state := load_complete ttl now e view, vy_loads := vy_loads s - {#Some e#}\<rparr>)"
| drop_load:
    "l \<in># vy_loads s \<Longrightarrow>
     view_step ttl s (s\<lparr>vy_state := load_drop (vy_state s), vy_loads := vy_loads s - {#l#}\<rparr>)"
| epoch_change:
    "vy_epoch s < e \<Longrightarrow> view_step ttl s (s\<lparr>vy_epoch := e\<rparr>)"

definition view_inv :: "view_sys \<Rightarrow> bool" where
  "view_inv s \<longleftrightarrow>
     size (vy_loads s) = (if vs_loading (vy_state s) then 1 else 0)
     \<and> (\<forall>e. Some e \<in># vy_loads s \<longrightarrow> e \<le> vy_epoch s)
     \<and> (\<forall>c. vs_cached (vy_state s) = Some c \<longrightarrow> cw_gossip_epoch c \<le> vy_epoch s)"

lemma view_step_inv: "view_inv s \<Longrightarrow> view_step ttl s t \<Longrightarrow> view_inv t"
proof (erule view_step.cases)
  fix s' e now view
  assume "view_inv s" "s = s'" "Some e \<in># vy_loads s'"
    "t = s'\<lparr>vy_state := load_complete ttl now e view, vy_loads := vy_loads s' - {#Some e#}\<rparr>"
  then show "view_inv t"
    by (auto simp: view_inv_def load_complete_def size_Diff_singleton dest: in_diffD split: if_splits)
qed (auto simp: view_inv_def load_drop_def size_Diff_singleton dest: in_diffD order.strict_trans1
    less_imp_le split: if_splits)

interpretation views: transition_system view_init "view_step ttl" view_inv for ttl
  by unfold_locales (simp add: view_init_def view_inv_def view_cache_new_def, rule view_step_inv)

section \<open>Properties\<close>

text \<open>C19: a view that the cache hands out was read before the caller's deadline and is current: either
  cached under the very membership epoch the caller reads and no older than one ttl past its expiry,
  or loaded by the caller with the epoch unchanged across the load.\<close>

theorem get_or_load_fresh:
  assumes "get_or_load ttl deadline its = Some (Some view)"
  shows "\<exists>it\<in>set its. vi_now it < deadline \<and>
    ((\<exists>st ep now c. (st = vi_state it \<and> ep = vi_epoch it \<and> now = vi_check_now it
            \<or> st = vi_locked_state it \<and> ep = vi_locked_epoch it \<and> now = vi_locked_now it)
        \<and> vs_cached st = Some c \<and> cw_view c = view \<and> cw_gossip_epoch c = ep \<and> now < cw_expires_at c + ttl)
     \<or> (vi_view it = Some view \<and> vi_after_epoch it = vi_load_epoch it))"
  using assms
proof (induction its)
  case (Cons it its)
  have usable: "\<exists>c. vs_cached st = Some c \<and> cw_view c = view \<and> cw_gossip_epoch c = ep \<and> now < cw_expires_at c + ttl"
    if "usable_cached_view st ttl ep now = Some view" for st ep now
    using that by (auto simp: usable_cached_view_def instant_checked_add_def Let_def split: option.splits if_splits)
  from Cons.prems Cons.IH usable show ?case
    by (fastforce simp: get_or_load_turn_def Let_def split: option.splits if_splits)
qed simp

definition demo_turn :: "bool \<Rightarrow> view_iter" where
  "demo_turn woken =
     \<lparr>vi_now = 0, vi_state = view_cache_new, vi_epoch = 1, vi_check_now = 0,
      vi_locked_state = view_cache_new\<lparr>vs_loading := woken\<rparr>, vi_locked_epoch = 1, vi_locked_now = 0, vi_load_epoch = 1,
      vi_view = Some \<lparr>cv_members = [''a''], cv_states = [], cv_generated_at = 0\<rparr>, vi_after_epoch = 1,
      vi_done_now = 1, vi_woken = woken\<rparr>"

theorem get_or_load_fresh_witness:
  "get_or_load (millis 100) 10 [demo_turn True, demo_turn False] =
     Some (Some \<lparr>cv_members = [''a''], cv_states = [], cv_generated_at = 0\<rparr>)
   \<and> (\<exists>it\<in>{demo_turn True, demo_turn False}. vi_now it < 10)"
proof -
  have g: "get_or_load (millis 100) 10 [demo_turn True, demo_turn False] =
     Some (Some \<lparr>cv_members = [''a''], cv_states = [], cv_generated_at = 0\<rparr>)"
    by (simp add: demo_turn_def get_or_load_turn_def usable_cached_view_def view_cache_new_def load_complete_def Let_def)
  from get_or_load_fresh [OF g] have "\<exists>it\<in>{demo_turn True, demo_turn False}. vi_now it < 10" by fastforce
  with g show ?thesis by simp
qed

text \<open>Under every interleaving at most one caller loads the view, the loading flag is set exactly
  while that caller's guard lives, so nobody waits for a load that is gone, and a usable cached view
  always belongs to the current membership epoch.\<close>

theorem view_single_loader:
  assumes "reach view_init (view_step ttl) s"
  shows "size (vy_loads s) \<le> 1 \<and> (vs_loading (vy_state s) \<longleftrightarrow> vy_loads s \<noteq> {#})
    \<and> (\<forall>now view. usable_cached_view (vy_state s) ttl (vy_epoch s) now = Some view \<longrightarrow>
         (\<exists>c. vs_cached (vy_state s) = Some c \<and> cw_view c = view \<and> cw_gossip_epoch c = vy_epoch s))
    \<and> (\<forall>c. vs_cached (vy_state s) = Some c \<longrightarrow> cw_gossip_epoch c \<le> vy_epoch s)"
proof -
  from views.reachable_inv [OF assms] have "view_inv s" .
  then show ?thesis
    by (auto simp: view_inv_def usable_cached_view_def Let_def split: option.splits if_splits)
qed

end
