(* ===== verification/Node.thy ===== *)
theory Node
  imports Dispatcher Worker_Pool Worker Render_Cache Wire View_Cache "HOL-Library.State_Monad"
begin

text \<open>
  \<^verbatim>\<open>crates/biei-core/src/node.rs\<close>: the request handlers that compose the dispatcher, the worker
  pool, the render output cache, the cluster view cache, the style catalog and the wire format.

  A handler runs in a state monad over a \<open>world\<close>: the state the handlers of a node share, the trace
  of what this handler did (clock reads, admission checks, sends, native work, metrics), and an
  environment. What the source awaits or reads from outside is a field of the record \<open>node_env\<close>: the
  clock, the render-admission callback, the profile preparer, the transport, the worker's reply, the
  cluster view turns. The field \<open>en_interfere\<close> is applied before every access of the shared state:
  it stands for whatever the other handlers did since, so a theorem about every environment is one
  about every interleaving.
\<close>

section \<open>The node and its world\<close>

record 'g node_config =
  nc_id :: node_id
  nc_dispatcher :: dispatcher
  nc_hop_latency :: duration
  nc_cache_on :: bool
  nc_view_ttl :: duration
  nc_to_json :: "json_value \<Rightarrow> string"
  nc_seed :: "u64 \<Rightarrow> 'g"
  nc_draw :: "nat \<Rightarrow> 'g \<Rightarrow> nat \<times> 'g"
  nc_hasher :: "string list \<Rightarrow> u64"

record node_shared =
  ns_pool :: pool
  ns_cache :: "render_cache_key \<rightharpoonup> cached_render_output"
  ns_in_flight :: "render_cache_key set"
  ns_catalog :: style_catalog
  ns_draining :: bool

text \<open>What \<open>timeout_at(deadline, transport.send(..))\<close> gives.\<close>

datatype sent = SentTimedOut | SentOk forward_response | SentRetryable string | SentFatal string

datatype node_metric =
    AdmissionShed | OutputCacheHit | OutputCacheMiss | OutputCacheCoalesced | OutputCacheInsert
  | ProfilePrepare bool | ForwardRetryable | ForwardSuccess | ForwardFatal
  | IngressOutcome task_outcome | ForwardedOutcome task_outcome

datatype node_event =
    EvNow instant
  | EvCanStart bool
  | EvPrepare internal_task
  | EvSend node_id forward_request
  | EvWorker internal_task route_tier worker_reply
  | EvMarkStyleLoadFailed style_revision "render_authorization option"
  | EvLead flight_leader
  | EvDropLeader flight_leader
  | EvMetric node_metric

record 'e node_env =
  en_interfere :: "node_shared \<Rightarrow> 'e \<Rightarrow> node_shared \<times> 'e"
  en_now :: "'e \<Rightarrow> instant \<times> 'e"
  en_admission :: "'e \<Rightarrow> bool \<times> 'e"
  en_view :: "'e \<Rightarrow> view_iter list \<times> 'e"
  en_follow :: "instant \<Rightarrow> 'e \<Rightarrow> bool \<times> 'e"
  en_prepare :: "internal_task \<Rightarrow> 'e \<Rightarrow> (preparation_error + prepared_profile option) \<times> 'e"
  en_send :: "node_id \<Rightarrow> forward_request \<Rightarrow> instant \<Rightarrow> 'e \<Rightarrow> sent \<times> 'e"
  en_worker :: "internal_task \<Rightarrow> prepared_profile option \<Rightarrow> route_tier \<Rightarrow> admission \<Rightarrow> 'e \<Rightarrow> worker_reply \<times> 'e"

record 'e world =
  wd_shared :: node_shared
  wd_trace :: "node_event list"
  wd_env :: 'e

type_synonym ('e, 'a) node_m = "('e world, 'a) state"

text \<open>How a handler ends: with a value, by a panic of the code it calls, or still waiting for another
  leader when the turns it was given run out.\<close>

datatype 'a run = Returned 'a | Panicked | Waiting

definition emit :: "node_event \<Rightarrow> ('e, unit) node_m" where
  "emit ev = State (\<lambda>w. ((), w\<lparr>wd_trace := wd_trace w @ [ev]\<rparr>))"

definition ask :: "('e \<Rightarrow> 'a \<times> 'e) \<Rightarrow> ('e, 'a) node_m" where
  "ask f = State (\<lambda>w. case f (wd_env w) of (a, e) \<Rightarrow> (a, w\<lparr>wd_env := e\<rparr>))"

text \<open>The shared state at this moment, after whatever the other handlers did.\<close>

definition observe :: "'e node_env \<Rightarrow> ('e, node_shared) node_m" where
  "observe E = State (\<lambda>w. case en_interfere E (wd_shared w) (wd_env w) of
     (s, e) \<Rightarrow> (s, w\<lparr>wd_shared := s, wd_env := e\<rparr>))"

definition put_shared :: "node_shared \<Rightarrow> ('e, unit) node_m" where
  "put_shared s = State (\<lambda>w. ((), w\<lparr>wd_shared := s\<rparr>))"

definition clock_now :: "'e node_env \<Rightarrow> ('e, instant) node_m" where
  "clock_now E = do { t \<leftarrow> ask (en_now E); emit (EvNow t); State_Monad.return t }"

definition record_metric :: "node_metric \<Rightarrow> ('e, unit) node_m" where
  "record_metric m = emit (EvMetric m)"

section \<open>Outcomes\<close>

record task_meta =
  tm_task_id :: task_id
  tm_request_id :: request_id
  tm_arrived_at :: instant
  tm_had_source :: bool

definition meta_of :: "internal_task \<Rightarrow> task_meta" where
  "meta_of task =
     \<lparr>tm_task_id = it_id task, tm_request_id = it_request_id task, tm_arrived_at = it_arrived_at task,
      tm_had_source = task_has_source task\<rparr>"

definition meta_outcome :: "task_meta \<Rightarrow> task_result \<Rightarrow> task_outcome" where
  "meta_outcome m r =
     \<lparr>oc_task_id = tm_task_id m, oc_request_id = tm_request_id m, oc_arrived_at = tm_arrived_at m,
      oc_had_source = tm_had_source m, oc_deadline_stage = None, oc_result = r\<rparr>"

definition meta_reject :: "task_meta \<Rightarrow> rejection_reason \<Rightarrow> task_outcome" where
  "meta_reject m reason = meta_outcome m (Rejected reason)"

definition meta_fail :: "task_meta \<Rightarrow> string \<Rightarrow> failure_kind \<Rightarrow> task_outcome" where
  "meta_fail m err kind = meta_outcome m (Failed err kind)"

definition preparation_error_outcome :: "task_meta \<Rightarrow> preparation_error \<Rightarrow> task_outcome" where
  "preparation_error_outcome m err = meta_fail m (prep_error_text err) (prep_failure_kind err)"

fun process_error_outcome :: "task_meta \<Rightarrow> process_error \<Rightarrow> task_outcome" where
  "process_error_outcome m (PQueueFull _) = meta_reject m QueueFull"
| "process_error_outcome m (RenderAdmissionClosed _) = meta_reject m RendererDegraded"
| "process_error_outcome m QueueDisconnected = meta_fail m ''worker queue disconnected'' OtherFailure"

section \<open>Admission\<close>

definition can_start_render :: "'e node_env \<Rightarrow> ('e, bool) node_m" where
  "can_start_render E = do {
     s \<leftarrow> observe E;
     ok \<leftarrow> (if ns_draining s then State_Monad.return False else ask (en_admission E));
     emit (EvCanStart ok);
     State_Monad.return ok }"

definition local_dispatch_state :: "'e node_env \<Rightarrow> 'g node_config \<Rightarrow> ('e, node_state_view) node_m" where
  "local_dispatch_state E cfg = do {
     accepts \<leftarrow> can_start_render E;
     s \<leftarrow> observe E;
     State_Monad.return \<lparr>nsv_id = nc_id cfg, nsv_accepts_new_renders = accepts,
       nsv_workers = snapshot_workers (ns_pool s)\<rparr> }"

definition renderer_degraded_reason :: "('e, rejection_reason) node_m" where
  "renderer_degraded_reason = do { record_metric AdmissionShed; State_Monad.return RendererDegraded }"

definition renderer_degraded_reject :: "internal_task \<Rightarrow> ('e, task_outcome) node_m" where
  "renderer_degraded_reject task = do {
     reason \<leftarrow> renderer_degraded_reason;
     State_Monad.return (meta_reject (meta_of task) reason) }"

definition min_forward_budget_ms :: nat where
  "min_forward_budget_ms = 200"

definition max_forwarding_hops :: u8 where
  "max_forwarding_hops = 1"

definition forward_budget_too_small :: "'e node_env \<Rightarrow> internal_task \<Rightarrow> ('e, bool) node_m" where
  "forward_budget_too_small E task = do {
     now \<leftarrow> clock_now E;
     State_Monad.return (saturating_duration_since (it_deadline task) now < millis min_forward_budget_ms) }"

section \<open>The render output cache\<close>

datatype cache_miss_admission = MayForward | RequiresLocalRenderer

fun requires_local_renderer :: "cache_miss_admission \<Rightarrow> bool" where
  "requires_local_renderer MayForward = False"
| "requires_local_renderer RequiresLocalRenderer = True"

definition task_leader :: "'g node_config \<Rightarrow> internal_task \<Rightarrow> flight_leader" where
  "task_leader cfg task =
     (cache_key_from_task (nc_to_json cfg) task, map_option readable_namespaces (it_authorization task))"

text \<open>The cache is read once before and once under the lock of the flight table, with anything in
  between; a lookup that leads leaves its flight in the table.\<close>

definition note_lookup :: "flight_leader \<Rightarrow> render_cache_lookup \<Rightarrow> ('e, unit) node_m" where
  "note_lookup leader l = (case l of Leader \<Rightarrow> emit (EvLead leader) | _ \<Rightarrow> State_Monad.return ())"

definition cache_lookup :: "'e node_env \<Rightarrow> 'g node_config \<Rightarrow> internal_task \<Rightarrow> ('e, render_cache_lookup) node_m" where
  "cache_lookup E cfg task = do {
     before \<leftarrow> observe E;
     locked \<leftarrow> observe E;
     let (l, flights) = lookup_or_join (nc_to_json cfg) (nc_cache_on cfg) (ns_cache before)
           (ns_cache locked) (ns_in_flight locked) task;
     put_shared (locked\<lparr>ns_in_flight := flights\<rparr>);
     note_lookup (task_leader cfg task) l;
     State_Monad.return l }"

definition follower_recheck :: "'e node_env \<Rightarrow> 'g node_config \<Rightarrow> internal_task \<Rightarrow> ('e, render_cache_lookup) node_m" where
  "follower_recheck E cfg task = do {
     before \<leftarrow> observe E;
     locked \<leftarrow> observe E;
     let (l, flights) = lookup_or_join_key (ns_cache before) (ns_cache locked) (ns_in_flight locked)
           (fst (task_leader cfg task)) (snd (task_leader cfg task));
     put_shared (locked\<lparr>ns_in_flight := flights\<rparr>);
     note_lookup (task_leader cfg task) l;
     State_Monad.return l }"

definition drop_leader :: "'e node_env \<Rightarrow> flight_leader \<Rightarrow> ('e, unit) node_m" where
  "drop_leader E leader = do {
     s \<leftarrow> observe E;
     put_shared (s\<lparr>ns_in_flight := ns_in_flight s - {fst leader}\<rparr>);
     emit (EvDropLeader leader) }"

definition must_shed :: "'e node_env \<Rightarrow> cache_miss_admission \<Rightarrow> ('e, bool) node_m" where
  "must_shed E miss =
     (if requires_local_renderer miss
      then do { ok \<leftarrow> can_start_render E; State_Monad.return (\<not> ok) }
      else State_Monad.return False)"

text \<open>A lookup that does not wait is settled at once.\<close>

definition acquire_settled ::
  "'e node_env \<Rightarrow> 'g node_config \<Rightarrow> internal_task \<Rightarrow> cache_miss_admission \<Rightarrow> render_cache_lookup
     \<Rightarrow> ('e, (task_outcome + flight_leader option) run) node_m" where
  "acquire_settled E cfg task miss l =
     (case l of
        Disabled \<Rightarrow> do {
          shed \<leftarrow> must_shed E miss;
          if shed then do { oc \<leftarrow> renderer_degraded_reject task; State_Monad.return (Returned (Inl oc)) }
          else State_Monad.return (Returned (Inr None)) }
      | Hit out \<Rightarrow> do {
          record_metric OutputCacheHit;
          now \<leftarrow> clock_now E;
          State_Monad.return (Returned (Inl (cache_hit_outcome now (nc_id cfg) task out))) }
      | Leader \<Rightarrow> do {
          shed \<leftarrow> must_shed E miss;
          if shed then do {
            drop_leader E (task_leader cfg task);
            oc \<leftarrow> renderer_degraded_reject task;
            State_Monad.return (Returned (Inl oc)) }
          else do {
            record_metric OutputCacheMiss;
            State_Monad.return (Returned (Inr (Some (task_leader cfg task)))) } }
      | Wait \<Rightarrow> State_Monad.return Waiting)"

text \<open>The loop, for a number of wake-ups: the follower rechecks after each.\<close>

primrec acquire_loop ::
  "nat \<Rightarrow> 'e node_env \<Rightarrow> 'g node_config \<Rightarrow> internal_task \<Rightarrow> cache_miss_admission \<Rightarrow> bool
     \<Rightarrow> render_cache_lookup \<Rightarrow> ('e, (task_outcome + flight_leader option) run) node_m" where
  "acquire_loop 0 E cfg task miss joined l = acquire_settled E cfg task miss l"
| "acquire_loop (Suc turns) E cfg task miss joined l =
     (if l \<noteq> Wait then acquire_settled E cfg task miss l
      else do {
        (if joined then State_Monad.return () else record_metric OutputCacheCoalesced);
        changed \<leftarrow> ask (en_follow E (it_deadline task));
        if changed then do {
          l' \<leftarrow> follower_recheck E cfg task;
          acquire_loop turns E cfg task miss True l' }
        else State_Monad.return (Returned (Inl (meta_reject (meta_of task) DeadlineExceeded))) })"

definition acquire_render_output_cache ::
  "nat \<Rightarrow> 'e node_env \<Rightarrow> 'g node_config \<Rightarrow> internal_task \<Rightarrow> cache_miss_admission
     \<Rightarrow> ('e, (task_outcome + flight_leader option) run) node_m" where
  "acquire_render_output_cache turns E cfg task miss = do {
     l \<leftarrow> cache_lookup E cfg task;
     acquire_loop turns E cfg task miss False l }"

definition maybe_insert_render_output_cache ::
  "'e node_env \<Rightarrow> flight_leader option \<Rightarrow> task_outcome \<Rightarrow> ('e, unit) node_m" where
  "maybe_insert_render_output_cache E flight outcome =
     (case flight of
        None \<Rightarrow> State_Monad.return ()
      | Some leader \<Rightarrow> do {
          s \<leftarrow> observe E;
          let (inserted, cache) = insert_from_outcome leader outcome (ns_cache s);
          put_shared (s\<lparr>ns_cache := cache\<rparr>);
          if inserted then record_metric OutputCacheInsert else State_Monad.return () })"

text \<open>The guard leaves its scope.\<close>

definition drop_flight :: "'e node_env \<Rightarrow> flight_leader option \<Rightarrow> ('e, unit) node_m" where
  "drop_flight E flight = (case flight of None \<Rightarrow> State_Monad.return () | Some l \<Rightarrow> drop_leader E l)"

section \<open>Local work\<close>

definition prepare_local_profile ::
  "'e node_env \<Rightarrow> internal_task \<Rightarrow> ('e, preparation_error + prepared_profile option) node_m" where
  "prepare_local_profile E task = do {
     emit (EvPrepare task);
     r \<leftarrow> ask (en_prepare E task);
     record_metric (ProfilePrepare (is_ok r));
     State_Monad.return r }"

text \<open>\<open>AddLayerSource::stable_source_id\<close>: the standard library's hasher is the argument.\<close>

definition hex_digit :: "nat \<Rightarrow> char" where
  "hex_digit d = ''0123456789abcdef'' ! d"

definition hex16 :: "u64 \<Rightarrow> string" where
  "hex16 h = map (\<lambda>i. hex_digit (unat h div 16 ^ (15 - i) mod 16)) [0..<16]"

definition stable_source_id :: "(string list \<Rightarrow> u64) \<Rightarrow> add_layer_source \<Rightarrow> string" where
  "stable_source_id hasher src =
     ''__biei_addlayer_source_'' @ hex16 (hasher [als_tileset_id src, als_json src])"

definition prepared_source_id :: "(string list \<Rightarrow> u64) \<Rightarrow> prepared_profile option \<Rightarrow> string option" where
  "prepared_source_id hasher prepared =
     (case prepared of
        None \<Rightarrow> None
      | Some p \<Rightarrow> map_option (stable_source_id hasher) (pp_addlayer_source p))"

fun reply_outcome :: "worker_reply \<Rightarrow> task_outcome option" where
  "reply_outcome (Replied oc) = Some oc"
| "reply_outcome SendFailed = None"
| "reply_outcome ReplyDropped = None"

fun reply_result :: "internal_task \<Rightarrow> worker_reply \<Rightarrow> process_error + task_outcome" where
  "reply_result task (Replied oc) = Inr oc"
| "reply_result task SendFailed = Inl (PQueueFull task)"
| "reply_result task ReplyDropped = Inl QueueDisconnected"

text \<open>\<open>WorkerPool::process\<close> with the other handlers running while the worker does.\<close>

definition pool_process ::
  "'e node_env \<Rightarrow> 'g node_config \<Rightarrow> internal_task \<Rightarrow> prepared_profile option \<Rightarrow> route_tier
     \<Rightarrow> worker_id option \<Rightarrow> ('e, process_error + task_outcome) node_m" where
  "pool_process E cfg task prepared tier hint = do {
     now \<leftarrow> clock_now E;
     s \<leftarrow> observe E;
     case process_admit now (ns_pool s) task (prepared_source_id (nc_hasher cfg) prepared) hint of
       Inl err \<Rightarrow> State_Monad.return (Inl err)
     | Inr (ad, pl) \<Rightarrow> do {
         put_shared (s\<lparr>ns_pool := pl\<rparr>);
         reply \<leftarrow> ask (en_worker E task prepared tier ad);
         emit (EvWorker task tier reply);
         s' \<leftarrow> observe E;
         put_shared (s'\<lparr>ns_pool := completion_release (ad_completion ad) (reply_outcome reply) (ns_pool s')\<rparr>);
         State_Monad.return (reply_result task reply) } }"

definition is_style_unavailable :: "task_outcome \<Rightarrow> bool" where
  "is_style_unavailable oc = (case oc_result oc of Failed _ kind \<Rightarrow> kind = StyleUnavailable | _ \<Rightarrow> False)"

definition process_local_task ::
  "'e node_env \<Rightarrow> 'g node_config \<Rightarrow> internal_task \<Rightarrow> prepared_profile option \<Rightarrow> route_tier
     \<Rightarrow> worker_id option \<Rightarrow> ('e, process_error + task_outcome) node_m" where
  "process_local_task E cfg task prepared tier hint = do {
     ok \<leftarrow> can_start_render E;
     if \<not> ok then State_Monad.return (Inl (RenderAdmissionClosed task))
     else do {
       r \<leftarrow> pool_process E cfg task prepared tier hint;
       case r of
         Inl err \<Rightarrow> State_Monad.return (Inl err)
       | Inr oc \<Rightarrow> do {
           (if is_style_unavailable oc
            then emit (EvMarkStyleLoadFailed (it_style task) (it_authorization task))
            else State_Monad.return ());
           State_Monad.return (Inr oc) } } }"

section \<open>Forwarding\<close>

definition forward_request_of ::
  "'g node_config \<Rightarrow> internal_task \<Rightarrow> route_tier \<Rightarrow> forward_candidate \<Rightarrow> instant \<Rightarrow> forward_request" where
  "forward_request_of cfg task tier c send_started_at =
     \<lparr>fr_task = to_forward_wire task send_started_at (nc_hop_latency cfg), fr_route_tier = tier,
      fr_drain_worker = fc_drain_worker c,
      fr_origin_response_budget_ms =
        min (as_millis (saturating_duration_since (it_deadline task) send_started_at)) u32_max\<rparr>"

text \<open>What the answer of a send means: a final outcome, or the loop goes on with what it recorded.\<close>

definition forward_answer ::
  "'e node_env \<Rightarrow> internal_task \<Rightarrow> sent \<Rightarrow> rejection_reason option \<Rightarrow> bool
     \<Rightarrow> ('e, task_outcome + (rejection_reason option \<times> bool)) node_m" where
  "forward_answer E task sent last_retryable saw_failure =
     (case sent of
        SentTimedOut \<Rightarrow> State_Monad.return (Inl (meta_reject (meta_of task) DeadlineExceeded))
      | SentOk resp \<Rightarrow>
          (case header_rejected_reason (fp_outcome resp) of
             Some reason \<Rightarrow>
               if is_retryable_at_forward reason then do {
                 record_metric ForwardRetryable;
                 State_Monad.return (Inr (Some reason, saw_failure)) }
               else do {
                 record_metric ForwardSuccess;
                 received \<leftarrow> clock_now E;
                 State_Monad.return (Inl (response_into_task_outcome resp (it_arrived_at task) received)) }
           | None \<Rightarrow> do {
               record_metric ForwardSuccess;
               received \<leftarrow> clock_now E;
               State_Monad.return (Inl (response_into_task_outcome resp (it_arrived_at task) received)) })
      | SentRetryable err \<Rightarrow> do {
          record_metric ForwardRetryable;
          State_Monad.return (Inr (last_retryable, True)) }
      | SentFatal err \<Rightarrow> do {
          record_metric ForwardFatal;
          State_Monad.return (Inr (last_retryable, True)) })"

text \<open>The loop over the candidates: an outcome, or what its failures left for the fallback.\<close>

primrec forward_candidates ::
  "'e node_env \<Rightarrow> 'g node_config \<Rightarrow> internal_task \<Rightarrow> route_tier \<Rightarrow> forward_candidate list
     \<Rightarrow> rejection_reason option \<Rightarrow> bool
     \<Rightarrow> ('e, task_outcome + (rejection_reason option \<times> bool)) node_m" where
  "forward_candidates E cfg task tier [] last_retryable saw_failure =
     State_Monad.return (Inr (last_retryable, saw_failure))"
| "forward_candidates E cfg task tier (c # cs) last_retryable saw_failure = do {
     small \<leftarrow> forward_budget_too_small E task;
     if small then State_Monad.return (Inl (meta_reject (meta_of task) DeadlineTooClose))
     else do {
       send_started_at \<leftarrow> clock_now E;
       emit (EvSend (fc_node_id c) (forward_request_of cfg task tier c send_started_at));
       sent \<leftarrow> ask (en_send E (fc_node_id c) (forward_request_of cfg task tier c send_started_at)
                    (it_deadline task));
       r \<leftarrow> forward_answer E task sent last_retryable saw_failure;
       case r of
         Inl oc \<Rightarrow> State_Monad.return (Inl oc)
       | Inr (last_retryable', saw_failure') \<Rightarrow>
           forward_candidates E cfg task tier cs last_retryable' saw_failure' } }"

definition exhaustion_reason :: "rejection_reason option \<Rightarrow> bool \<Rightarrow> rejection_reason" where
  "exhaustion_reason last_retryable saw_failure =
     (case last_retryable of
        Some reason \<Rightarrow> reason
      | None \<Rightarrow> if saw_failure then ForwardFailed else NoCapacity)"

text \<open>The local overflow after the remotes are exhausted.\<close>

definition overflow_fallback ::
  "'e node_env \<Rightarrow> 'g node_config \<Rightarrow> internal_task \<Rightarrow> rejection_reason \<Rightarrow> ('e, task_outcome) node_m" where
  "overflow_fallback E cfg task reason = do {
     ok \<leftarrow> can_start_render E;
     if \<not> ok then State_Monad.return (meta_reject (meta_of task) reason)
     else do {
       now \<leftarrow> clock_now E;
       if it_deadline task \<le> now then State_Monad.return (meta_reject (meta_of task) DeadlineExceeded)
       else do {
         prepared \<leftarrow> prepare_local_profile E task;
         case prepared of
           Inl err \<Rightarrow> State_Monad.return (preparation_error_outcome (meta_of task) err)
         | Inr pp \<Rightarrow> do {
             r \<leftarrow> process_local_task E cfg task pp Tier4Overflow None;
             case r of
               Inr oc \<Rightarrow> State_Monad.return oc
             | Inl (RenderAdmissionClosed t) \<Rightarrow> renderer_degraded_reject t
             | Inl QueueDisconnected \<Rightarrow>
                 State_Monad.return (process_error_outcome (meta_of task) QueueDisconnected)
             | Inl (PQueueFull _) \<Rightarrow> State_Monad.return (meta_reject (meta_of task) reason) } } } }"

definition forward_with_failover ::
  "'e node_env \<Rightarrow> 'g node_config \<Rightarrow> internal_task \<Rightarrow> route_tier \<Rightarrow> forward_candidate list
     \<Rightarrow> ('e, task_outcome) node_m" where
  "forward_with_failover E cfg task tier cs =
     (if max_forwarding_hops \<le> it_forwarding_hops task
      then State_Monad.return (meta_reject (meta_of task) HopLimitExceeded)
      else do {
        small \<leftarrow> forward_budget_too_small E task;
        if small then State_Monad.return (meta_reject (meta_of task) DeadlineTooClose)
        else do {
          r \<leftarrow> forward_candidates E cfg task tier cs None False;
          case r of
            Inl oc \<Rightarrow> State_Monad.return oc
          | Inr (last_retryable, saw_failure) \<Rightarrow>
              overflow_fallback E cfg task (exhaustion_reason last_retryable saw_failure) } })"

section \<open>Routes and handlers\<close>

definition process_local_route ::
  "'e node_env \<Rightarrow> 'g node_config \<Rightarrow> internal_task \<Rightarrow> route_tier \<Rightarrow> worker_id option
     \<Rightarrow> forward_candidate list \<Rightarrow> ('e, task_outcome) node_m" where
  "process_local_route E cfg task tier hint fallback = do {
     ok \<leftarrow> can_start_render E;
     if \<not> ok then
       (if fallback = [] then renderer_degraded_reject task
        else forward_with_failover E cfg task tier fallback)
     else do {
       prepared \<leftarrow> prepare_local_profile E task;
       case prepared of
         Inl err \<Rightarrow> State_Monad.return (preparation_error_outcome (meta_of task) err)
       | Inr pp \<Rightarrow> do {
           r \<leftarrow> process_local_task E cfg task pp tier hint;
           case r of
             Inr oc \<Rightarrow> State_Monad.return oc
           | Inl (RenderAdmissionClosed t) \<Rightarrow>
               if fallback \<noteq> [] then forward_with_failover E cfg t tier fallback
               else renderer_degraded_reject t
           | Inl (PQueueFull t) \<Rightarrow>
               if fallback \<noteq> [] then forward_with_failover E cfg t tier fallback
               else State_Monad.return (process_error_outcome (meta_of task) (PQueueFull t))
           | Inl QueueDisconnected \<Rightarrow>
               State_Monad.return (process_error_outcome (meta_of task) QueueDisconnected) } } }"

definition record_ingress_outcome :: "task_outcome \<Rightarrow> ('e, task_outcome) node_m" where
  "record_ingress_outcome oc = do { record_metric (IngressOutcome oc); State_Monad.return oc }"

definition record_forwarded_outcome :: "task_outcome \<Rightarrow> ('e, task_outcome) node_m" where
  "record_forwarded_outcome oc = do { record_metric (ForwardedOutcome oc); State_Monad.return oc }"

definition returned :: "('e, 'a) node_m \<Rightarrow> ('e, 'a run) node_m" where
  "returned m = do { a \<leftarrow> m; State_Monad.return (Returned a) }"

text \<open>The match on the decision; \<open>None\<close> is a decision that panicked.\<close>

definition dispatch_decision ::
  "'e node_env \<Rightarrow> 'g node_config \<Rightarrow> internal_task \<Rightarrow> bool \<Rightarrow> decision \<Rightarrow> ('e, task_outcome) node_m" where
  "dispatch_decision E cfg task local_renderer_available dec =
     (case dec of
        Local tier hint fallback \<Rightarrow> process_local_route E cfg task tier hint fallback
      | Forward tier cs \<Rightarrow> forward_with_failover E cfg task tier cs
      | Reject reason \<Rightarrow> do {
          reason' \<leftarrow> (if reason = NoCapacity \<and> \<not> local_renderer_available
                     then renderer_degraded_reason else State_Monad.return reason);
          State_Monad.return (meta_reject (meta_of task) reason') })"

text \<open>What follows the cache miss, and the end of the scope of the flight guard.\<close>

definition incoming_miss ::
  "'e node_env \<Rightarrow> 'g node_config \<Rightarrow> internal_task \<Rightarrow> flight_leader option \<Rightarrow> ('e, task_outcome run) node_m" where
  "incoming_miss E cfg task flight = do {
     turns \<leftarrow> ask (en_view E);
     case get_or_load (nc_view_ttl cfg) (it_deadline task) turns of
       None \<Rightarrow> State_Monad.return Waiting
     | Some None \<Rightarrow> returned (record_ingress_outcome (meta_reject (meta_of task) DeadlineExceeded))
     | Some (Some view) \<Rightarrow> do {
         now \<leftarrow> clock_now E;
         if it_deadline task \<le> now
         then returned (record_ingress_outcome (meta_reject (meta_of task) DeadlineExceeded))
         else do {
           local \<leftarrow> local_dispatch_state E cfg;
           decided_at \<leftarrow> clock_now E;
           case decide_with_local_state (nc_seed cfg) (nc_draw cfg) decided_at (nc_dispatcher cfg) task view local of
             None \<Rightarrow> State_Monad.return Panicked
           | Some dec \<Rightarrow> do {
               oc \<leftarrow> dispatch_decision E cfg task (nsv_accepts_new_renders local) dec;
               maybe_insert_render_output_cache E flight oc;
               returned (record_ingress_outcome oc) } } } }"

definition handle_incoming ::
  "nat \<Rightarrow> 'e node_env \<Rightarrow> 'g node_config \<Rightarrow> internal_task \<Rightarrow> ('e, task_outcome run) node_m" where
  "handle_incoming turns E cfg task = do {
     now \<leftarrow> clock_now E;
     if it_deadline task \<le> now
     then returned (record_ingress_outcome (meta_reject (meta_of task) DeadlineExceeded))
     else do {
       acquired \<leftarrow> acquire_render_output_cache turns E cfg task MayForward;
       case acquired of
         Waiting \<Rightarrow> State_Monad.return Waiting
       | Panicked \<Rightarrow> State_Monad.return Panicked
       | Returned (Inl oc) \<Rightarrow> returned (record_ingress_outcome oc)
       | Returned (Inr flight) \<Rightarrow> do {
           r \<leftarrow> incoming_miss E cfg task flight;
           drop_flight E flight;
           State_Monad.return r } } }"

definition forwarded_miss ::
  "'e node_env \<Rightarrow> 'g node_config \<Rightarrow> task_meta \<Rightarrow> internal_task \<Rightarrow> route_tier \<Rightarrow> worker_id option
     \<Rightarrow> flight_leader option \<Rightarrow> ('e, task_outcome) node_m" where
  "forwarded_miss E cfg meta task tier hint flight = do {
     prepared \<leftarrow> prepare_local_profile E task;
     case prepared of
       Inl err \<Rightarrow> record_forwarded_outcome (preparation_error_outcome meta err)
     | Inr pp \<Rightarrow> do {
         r \<leftarrow> process_local_task E cfg task pp tier hint;
         oc \<leftarrow> (case r of
             Inr oc \<Rightarrow> State_Monad.return oc
           | Inl (RenderAdmissionClosed t) \<Rightarrow> renderer_degraded_reject t
           | Inl err \<Rightarrow> State_Monad.return (process_error_outcome meta err));
         maybe_insert_render_output_cache E flight oc;
         record_forwarded_outcome oc } }"

definition handle_forwarded ::
  "nat \<Rightarrow> 'e node_env \<Rightarrow> 'g node_config \<Rightarrow> forward_request \<Rightarrow> ('e, task_outcome run) node_m" where
  "handle_forwarded turns E cfg fwd = do {
     now \<leftarrow> clock_now E;
     let wire = fr_task fwd;
     let meta = \<lparr>tm_task_id = wt_id wire, tm_request_id = wt_request_id wire, tm_arrived_at = now,
       tm_had_source = wt_source wire \<noteq> None \<or> has_addlayer_source (wt_request wire)\<rparr>;
     s \<leftarrow> observe E;
     if \<not> accepts_revision (ns_catalog s) (wt_style wire)
     then returned (record_forwarded_outcome (meta_reject meta UnknownStyle))
     else case into_internal wire now of
       None \<Rightarrow> State_Monad.return Panicked
     | Some task \<Rightarrow>
         if it_deadline task \<le> now
         then returned (record_forwarded_outcome (meta_reject meta DeadlineExceeded))
         else do {
           acquired \<leftarrow> acquire_render_output_cache turns E cfg task RequiresLocalRenderer;
           case acquired of
             Waiting \<Rightarrow> State_Monad.return Waiting
           | Panicked \<Rightarrow> State_Monad.return Panicked
           | Returned (Inl oc) \<Rightarrow> returned (record_forwarded_outcome oc)
           | Returned (Inr flight) \<Rightarrow> do {
               oc \<leftarrow> forwarded_miss E cfg meta task (fr_route_tier fwd) (fr_drain_worker fwd) flight;
               drop_flight E flight;
               State_Monad.return (Returned oc) } } }"

section \<open>Spawn, publisher and shutdown\<close>

text \<open>\<open>renderers\<close> is the number of renderer slots; the cache is off when it has no capacity.\<close>

definition node_spawn ::
  "node_id \<Rightarrow> nat \<Rightarrow> style_catalog \<Rightarrow> resolved_node_config \<Rightarrow> dispatcher_entropy
     \<Rightarrow> (json_value \<Rightarrow> string) \<Rightarrow> (u64 \<Rightarrow> 'g) \<Rightarrow> (nat \<Rightarrow> 'g \<Rightarrow> nat \<times> 'g) \<Rightarrow> (string list \<Rightarrow> u64)
     \<Rightarrow> 'g node_config \<times> node_shared" where
  "node_spawn node renderers catalog config entropy to_json seed draw hasher =
     (let limits = rn_queue_limits config
      in (\<lparr>nc_id = node,
           nc_dispatcher = dispatcher_new node (rn_routing config) (rn_costs config) (ql_soft limits)
             (ql_hard limits) (entropy_resolve entropy node),
           nc_hop_latency = co_hop_latency (rn_costs config),
           nc_cache_on = (rn_render_output_cache_capacity_bytes config \<noteq> 0),
           nc_view_ttl = cluster_view_cache_ttl (gc_publish_interval (rn_gossip config)),
           nc_to_json = to_json, nc_seed = seed, nc_draw = draw, nc_hasher = hasher\<rparr>,
          \<lparr>ns_pool = pool_spawn renderers (ql_soft limits) (ql_hard limits) (rn_render_permits config)
             (rn_native_render_permits config),
           ns_cache = Map.empty, ns_in_flight = {}, ns_catalog = catalog, ns_draining = False\<rparr>))"

text \<open>One turn of the publisher: the batch to gossip, if anything changed, and the new \<open>last_sent\<close>.\<close>

definition publisher_kvs :: "pool \<Rightarrow> bool \<Rightarrow> node_kvs" where
  "publisher_kvs pl accepts =
     bt_insert render_admission_gossip_key (if accepts then ''true'' else ''false'') (snapshot_kvs pl)"

definition publisher_turn :: "pool \<Rightarrow> bool \<Rightarrow> node_kvs \<Rightarrow> node_kvs option \<times> node_kvs" where
  "publisher_turn pl accepts last_sent =
     (let kvs = publisher_kvs pl accepts;
          changed = filter (\<lambda>(k, v). map_of last_sent k \<noteq> Some v) kvs
      in (if changed = [] then None else Some changed, kvs))"

text \<open>\<open>joins\<close>: what the join handles of the pool's workers give before the deadline.\<close>

definition node_shutdown :: "'e node_env \<Rightarrow> bool option list \<Rightarrow> ('e, worker_shutdown) node_m" where
  "node_shutdown E joins = do {
     s \<leftarrow> observe E;
     put_shared (s\<lparr>ns_draining := True\<rparr>);
     State_Monad.return (fst (shutdown_join joins)) }"

end
