(* ===== verification/Node_Traces.thy ===== *)
theory Node_Traces
  imports Node Interfaces
begin

text \<open>
  What the handlers of \<open>Node\<close> do under every interleaving, as properties of their traces: a small
  program logic over traces, the contract of an admission gate as a locale, and the safety of
  forwarding and of native work.
\<close>

section \<open>The trace logic\<close>

text \<open>\<open>emits I m \<Phi>\<close>: started where \<open>I\<close> holds, \<open>m\<close> keeps \<open>I\<close> and appends to the trace events that
  stand in \<open>\<Phi>\<close> with its result.\<close>

definition emits :: "('e world \<Rightarrow> bool) \<Rightarrow> ('e, 'a) node_m \<Rightarrow> ('a \<Rightarrow> node_event list \<Rightarrow> bool) \<Rightarrow> bool" where
  "emits I m \<Phi> \<longleftrightarrow>
     (\<forall>w. I w \<longrightarrow> (case run_state m w of (a, w') \<Rightarrow>
        I w' \<and> (\<exists>es. wd_trace w' = wd_trace w @ es \<and> \<Phi> a es)))"

named_theorems trace_rules \<open>rules of the trace logic\<close>

lemma emits_mono: "emits I m \<Phi> \<Longrightarrow> (\<And>a es. \<Phi> a es \<Longrightarrow> \<Psi> a es) \<Longrightarrow> emits I m \<Psi>"
  by (fastforce simp: emits_def split: prod.splits)

lemma emits_conj: "emits I m \<Phi> \<Longrightarrow> emits I m \<Psi> \<Longrightarrow> emits I m (\<lambda>a es. \<Phi> a es \<and> \<Psi> a es)"
  by (fastforce simp: emits_def split: prod.splits)

lemma emits_return: "\<Phi> a [] \<Longrightarrow> emits I (State_Monad.return a) \<Phi>"
  by (simp add: emits_def)

lemma emits_bind:
  assumes "emits I m \<Phi>" and "\<And>a es. \<Phi> a es \<Longrightarrow> emits I (f a) (\<lambda>b es'. \<Psi> b (es @ es'))"
  shows "emits I (State_Monad.bind m f) \<Psi>"
  unfolding emits_def
proof (intro allI impI)
  fix w assume w: "I w"
  obtain a w1 where m: "run_state m w = (a, w1)" by fastforce
  with assms(1) w obtain es where es: "I w1" "wd_trace w1 = wd_trace w @ es" "\<Phi> a es"
    by (fastforce simp: emits_def)
  from assms(2) [OF es(3)] es(1)
  have "case run_state (f a) w1 of (b, w2) \<Rightarrow> I w2 \<and> (\<exists>es'. wd_trace w2 = wd_trace w1 @ es' \<and> \<Psi> b (es @ es'))"
    by (simp add: emits_def)
  with m es(2) show "case run_state (State_Monad.bind m f) w of
      (b, w2) \<Rightarrow> I w2 \<and> (\<exists>es'. wd_trace w2 = wd_trace w @ es' \<and> \<Psi> b es')"
    by (force split: prod.splits)
qed

lemma emitsD:
  assumes "emits I m \<Phi>" and "I w" and "run_state m w = (a, w')"
  obtains es where "wd_trace w' = wd_trace w @ es" "\<Phi> a es" "I w'"
  using assms by (auto simp: emits_def)

lemma emits_run:
  "emits I m \<Phi> \<Longrightarrow> I w \<Longrightarrow> run_state m w = (a, w') \<Longrightarrow> I w' \<and> (\<exists>es. wd_trace w' = wd_trace w @ es \<and> \<Phi> a es)"
  by (auto simp: emits_def)

section \<open>Orderly traces\<close>

text \<open>A worker took the command: what follows cannot know whether native work started.\<close>

definition accepted :: "node_event \<Rightarrow> bool" where
  "accepted e = (case e of EvWorker _ _ reply \<Rightarrow> reply \<noteq> SendFailed | _ \<Rightarrow> False)"

definition unaccepted :: "node_event list \<Rightarrow> bool" where
  "unaccepted es \<longleftrightarrow> (\<forall>e\<in>set es. \<not> accepted e)"

definition quiet :: "node_event list \<Rightarrow> bool" where
  "quiet es \<longleftrightarrow> (\<forall>e\<in>set es. case e of EvWorker _ _ _ \<Rightarrow> False | EvSend _ _ \<Rightarrow> False | _ \<Rightarrow> True)"

definition sendless :: "node_event list \<Rightarrow> bool" where
  "sendless es \<longleftrightarrow> (\<forall>n fr. EvSend n fr \<notin> set es)"

lemma sendless_simps [simp]:
  "sendless []" "sendless (es @ es') \<longleftrightarrow> sendless es \<and> sendless es'"
  "sendless (e # es) \<longleftrightarrow> (\<forall>n fr. e \<noteq> EvSend n fr) \<and> sendless es"
  by (auto simp: sendless_def)

lemma quiet_sendless: "quiet es \<Longrightarrow> sendless es"
  by (auto simp: quiet_def sendless_def)

text \<open>The sends and the native work a trace may hold, judged by what came before: a send follows a
  clock read that left the minimum budget, carries the task as of a later clock read, and is the
  task's first hop; native work follows an open admission gate; and neither follows native work.\<close>

definition send_ok :: "'g node_config \<Rightarrow> internal_task \<Rightarrow> node_event list \<Rightarrow> node_id \<Rightarrow> forward_request \<Rightarrow> bool" where
  "send_ok cfg task past target fr \<longleftrightarrow>
     (\<exists>past' t0 t1 tier c. past = past' @ [EvNow t0, EvNow t1]
        \<and> millis min_forward_budget_ms \<le> saturating_duration_since (it_deadline task) t0
        \<and> it_forwarding_hops task < max_forwarding_hops
        \<and> target = fc_node_id c \<and> fr = forward_request_of cfg task tier c t1)"

definition work_ok :: "internal_task \<Rightarrow> node_event list \<Rightarrow> internal_task \<Rightarrow> bool" where
  "work_ok task past t \<longleftrightarrow> t = task \<and> (\<exists>past' t0. past = past' @ [EvCanStart True, EvNow t0])"

definition event_ok :: "(bool \<Rightarrow> bool) \<Rightarrow> 'g node_config \<Rightarrow> internal_task \<Rightarrow> node_event list \<Rightarrow> node_event \<Rightarrow> bool" where
  "event_ok S cfg task past e =
     (case e of
        EvSend target fr \<Rightarrow> unaccepted past \<and> send_ok cfg task past target fr
      | EvWorker t _ _ \<Rightarrow> unaccepted past \<and> work_ok task past t
      | EvCanStart b \<Rightarrow> S b
      | _ \<Rightarrow> True)"

definition orderly :: "(bool \<Rightarrow> bool) \<Rightarrow> 'g node_config \<Rightarrow> internal_task \<Rightarrow> node_event list \<Rightarrow> bool" where
  "orderly S cfg task es \<longleftrightarrow> (\<forall>us e vs. es = us @ e # vs \<longrightarrow> event_ok S cfg task us e)"

lemma unaccepted_simps [simp]:
  "unaccepted []" "unaccepted (e # es) \<longleftrightarrow> \<not> accepted e \<and> unaccepted es"
  "unaccepted (es @ es') \<longleftrightarrow> unaccepted es \<and> unaccepted es'"
  by (auto simp: unaccepted_def)

lemma accepted_simps [simp]:
  "\<not> accepted (EvNow t)" "\<not> accepted (EvCanStart b)" "\<not> accepted (EvPrepare task)"
  "\<not> accepted (EvSend n fr)" "\<not> accepted (EvMarkStyleLoadFailed r a)" "\<not> accepted (EvLead l)"
  "\<not> accepted (EvDropLeader l)" "\<not> accepted (EvMetric m)"
  "accepted (EvWorker task tier reply) \<longleftrightarrow> reply \<noteq> SendFailed"
  by (simp_all add: accepted_def)

lemma quiet_simps [simp]:
  "quiet []" "quiet (es @ es') \<longleftrightarrow> quiet es \<and> quiet es'"
  "quiet (EvNow t # es) \<longleftrightarrow> quiet es" "quiet (EvCanStart b # es) \<longleftrightarrow> quiet es"
  "quiet (EvPrepare task # es) \<longleftrightarrow> quiet es" "quiet (EvMarkStyleLoadFailed r a # es) \<longleftrightarrow> quiet es"
  "quiet (EvLead l # es) \<longleftrightarrow> quiet es" "quiet (EvDropLeader l # es) \<longleftrightarrow> quiet es"
  "quiet (EvMetric m # es) \<longleftrightarrow> quiet es"
  by (auto simp: quiet_def)

lemma quiet_unaccepted: "quiet es \<Longrightarrow> unaccepted es"
  by (auto simp: quiet_def unaccepted_def accepted_def split: node_event.splits)

lemma orderly_Nil [simp]: "orderly S cfg task []"
  by (simp add: orderly_def)

lemma send_past: "send_ok cfg task us n fr \<Longrightarrow> send_ok cfg task (es @ us) n fr"
  unfolding send_ok_def by (elim exE conjE, intro exI conjI) auto

lemma work_past: "work_ok task us t \<Longrightarrow> work_ok task (es @ us) t"
  unfolding work_ok_def by auto

lemma event_ok_past:
  "event_ok S cfg task us e \<Longrightarrow> unaccepted es \<or> (case e of EvWorker _ _ _ \<Rightarrow> False | EvSend _ _ \<Rightarrow> False | _ \<Rightarrow> True)
     \<Longrightarrow> event_ok S cfg task (es @ us) e"
  by (cases e) (auto simp: event_ok_def send_past work_past)

lemma orderly_append:
  assumes "orderly S cfg task es" and "orderly S cfg task es'" and "unaccepted es \<or> quiet es'"
  shows "orderly S cfg task (es @ es')"
  unfolding orderly_def
proof (intro allI impI)
  fix us e vs assume eq: "es @ es' = us @ e # vs"
  show "event_ok S cfg task us e"
  proof (cases "length us < length es")
    case True
    with eq have "es = us @ e # drop (Suc (length us)) es"
      by (metis append_eq_append_conv_if id_take_nth_drop nth_append nth_append_length not_le_imp_less less_imp_le_nat)
    with assms(1) show ?thesis unfolding orderly_def by blast
  next
    case False
    with eq obtain us' where us: "us = es @ us'" "es' = us' @ e # vs"
      by (auto simp: append_eq_append_conv2 Cons_eq_append_conv)
    moreover have "e \<in> set es'" using us(2) by simp
    ultimately show ?thesis
      using assms unfolding orderly_def quiet_def us(1)
      by (intro event_ok_past) (blast, fastforce)
  qed
qed

lemma orderly_single: "event_ok S cfg task [] e \<Longrightarrow> orderly S cfg task [e]"
  by (auto simp: orderly_def Cons_eq_append_conv)

lemma orderly_Cons:
  "event_ok S cfg task [] e \<Longrightarrow> \<not> accepted e \<Longrightarrow> orderly S cfg task es \<Longrightarrow> orderly S cfg task (e # es)"
  using orderly_append [OF orderly_single, of S cfg task e es] by simp

lemma event_ok_simps [simp]:
  "event_ok S cfg task us (EvNow t)" "event_ok S cfg task us (EvCanStart b) \<longleftrightarrow> S b"
  "event_ok S cfg task us (EvPrepare u)" "event_ok S cfg task us (EvMarkStyleLoadFailed r a)"
  "event_ok S cfg task us (EvLead l)" "event_ok S cfg task us (EvDropLeader l)"
  "event_ok S cfg task us (EvMetric m)"
  by (simp_all add: event_ok_def)

text \<open>An orderly trace without an open gate holds no native work.\<close>

lemma orderly_closed_gate:
  assumes "orderly Not cfg task es"
  shows "EvWorker t tier reply \<notin> set es"
proof
  assume "EvWorker t tier reply \<in> set es"
  then obtain us vs where "es = us @ EvWorker t tier reply # vs" by (auto simp: in_set_conv_decomp)
  moreover from this assms have "event_ok Not cfg task us (EvWorker t tier reply)"
    unfolding orderly_def by blast
  ultimately obtain us' t0 where e: "es = us' @ EvCanStart True # EvNow t0 # EvWorker t tier reply # vs"
    by (auto simp: event_ok_def work_ok_def)
  with assms have "event_ok Not cfg task us' (EvCanStart True)" unfolding orderly_def by blast
  then show False by simp
qed

section \<open>The admission gate\<close>

text \<open>What a handler relies on: \<open>I\<close> is a property of the shared state that neither the other handlers
  nor this one's own updates break, and \<open>S\<close> holds of what the gate then answers.\<close>

locale gated_node =
  fixes E :: "'e node_env"
    and I :: "node_shared \<Rightarrow> bool"
    and S :: "bool \<Rightarrow> bool"
  assumes interfere_keeps: "I s \<Longrightarrow> I (fst (en_interfere E s e))"
    and pool_update: "I s \<Longrightarrow> I (s\<lparr>ns_pool := pl\<rparr>)"
    and cache_update: "I s \<Longrightarrow> I (s\<lparr>ns_cache := c\<rparr>)"
    and flight_update: "I s \<Longrightarrow> I (s\<lparr>ns_in_flight := f\<rparr>)"
    and gate_draining: "I s \<Longrightarrow> ns_draining s \<Longrightarrow> S False"
    and gate_admission: "I s \<Longrightarrow> \<not> ns_draining s \<Longrightarrow> S (fst (en_admission E e))"
begin

definition holds :: "'e world \<Rightarrow> bool" where
  "holds w \<longleftrightarrow> I (wd_shared w)"

subsection \<open>Rules for the primitives\<close>

lemma bind_emit:
  "emits holds (f ()) (\<lambda>b es. \<Psi> b (ev # es)) \<Longrightarrow> emits holds (State_Monad.bind (emit ev) f) \<Psi>"
  by (rule emits_bind [where \<Phi> = "\<lambda>_ es. es = [ev]"]) (simp_all add: emits_def emit_def holds_def)

lemma emit_last: "\<Psi> () [ev] \<Longrightarrow> emits holds (emit ev) \<Psi>"
  by (simp add: emits_def emit_def holds_def)

lemma bind_ask: "(\<And>a. emits holds (f a) \<Psi>) \<Longrightarrow> emits holds (State_Monad.bind (ask g) f) \<Psi>"
  by (rule emits_bind [where \<Phi> = "\<lambda>_ es. es = []"])
    (simp_all add: emits_def ask_def holds_def split: prod.splits)

lemma bind_observe:
  assumes "\<And>s. I s \<Longrightarrow> emits holds (f s) \<Psi>"
  shows "emits holds (State_Monad.bind (observe E) f) \<Psi>"
proof (rule emits_bind [where \<Phi> = "\<lambda>s es. I s \<and> es = []"])
  show "emits holds (observe E) (\<lambda>s es. I s \<and> es = [])"
    unfolding emits_def observe_def holds_def
    using interfere_keeps by (auto split: prod.splits) (metis fst_conv)
qed (use assms in auto)

lemma bind_put:
  "I s \<Longrightarrow> emits holds (f ()) \<Psi> \<Longrightarrow> emits holds (State_Monad.bind (put_shared s) f) \<Psi>"
  by (rule emits_bind [where \<Phi> = "\<lambda>_ es. es = []"]) (simp_all add: emits_def put_shared_def holds_def)

lemma put_last: "I s \<Longrightarrow> \<Psi> () [] \<Longrightarrow> emits holds (put_shared s) \<Psi>"
  by (simp add: emits_def put_shared_def holds_def)

lemma bind_metric:
  "emits holds (f ()) (\<lambda>b es. \<Psi> b (EvMetric m # es)) \<Longrightarrow> emits holds (State_Monad.bind (record_metric m) f) \<Psi>"
  unfolding record_metric_def by (rule bind_emit)

lemma metric_last: "\<Psi> () [EvMetric m] \<Longrightarrow> emits holds (record_metric m) \<Psi>"
  unfolding record_metric_def by (rule emit_last)

lemma bind_clock:
  assumes "\<And>t. emits holds (f t) (\<lambda>b es. \<Psi> b (EvNow t # es))"
  shows "emits holds (State_Monad.bind (clock_now E) f) \<Psi>"
  unfolding clock_now_def by (simp add: bind_ask bind_emit assms)

lemma bind_can_start:
  assumes "\<And>b. S b \<Longrightarrow> emits holds (f b) (\<lambda>c es. \<Psi> c (EvCanStart b # es))"
  shows "emits holds (State_Monad.bind (can_start_render E) f) \<Psi>"
proof (rule emits_bind [where \<Phi> = "\<lambda>b es. S b \<and> es = [EvCanStart b]"])
  show "emits holds (can_start_render E) (\<lambda>b es. S b \<and> es = [EvCanStart b])"
    unfolding can_start_render_def
  proof (rule bind_observe)
    fix s assume s: "I s"
    show "emits holds (State_Monad.bind (if ns_draining s then State_Monad.return False else ask (en_admission E))
        (\<lambda>ok. State_Monad.bind (emit (EvCanStart ok)) (\<lambda>_. State_Monad.return ok))) (\<lambda>b es. S b \<and> es = [EvCanStart b])"
    proof (cases "ns_draining s")
      case True
      with s show ?thesis by (auto intro!: bind_emit emits_return gate_draining)
    next
      case False
      have "emits holds (ask (en_admission E)) (\<lambda>b es. S b \<and> es = [])"
        unfolding emits_def ask_def holds_def
        using gate_admission [OF s False] by (auto split: prod.splits) (metis fst_conv)
      then show ?thesis
        using False by (auto intro!: emits_bind [where \<Phi> = "\<lambda>b es. S b \<and> es = []"] bind_emit emits_return)
    qed
  qed
qed (use assms in auto)

lemmas wp = bind_emit emit_last bind_ask bind_observe bind_put put_last bind_metric metric_last bind_clock
  bind_can_start emits_return

subsection \<open>The cache\<close>

text \<open>Events of the cache: nothing but lookups, clock reads, the gate and metrics.\<close>

definition calm :: "node_event list \<Rightarrow> bool" where
  "calm es \<longleftrightarrow> quiet es \<and> (\<forall>b. EvCanStart b \<in> set es \<longrightarrow> S b)"

lemma calm_simps [simp]:
  "calm []" "calm (es @ es') \<longleftrightarrow> calm es \<and> calm es'"
  "calm (EvNow t # es) \<longleftrightarrow> calm es" "calm (EvCanStart b # es) \<longleftrightarrow> S b \<and> calm es"
  "calm (EvPrepare task # es) \<longleftrightarrow> calm es" "calm (EvMarkStyleLoadFailed r a # es) \<longleftrightarrow> calm es"
  "calm (EvLead l # es) \<longleftrightarrow> calm es" "calm (EvDropLeader l # es) \<longleftrightarrow> calm es"
  "calm (EvMetric m # es) \<longleftrightarrow> calm es"
  by (auto simp: calm_def)

lemma calm_orderly: "calm es \<Longrightarrow> orderly S cfg task es \<and> unaccepted es \<and> quiet es"
proof -
  assume c: "calm es"
  then have q: "quiet es" by (simp add: calm_def)
  have "event_ok S cfg task us e" if "es = us @ e # vs" for us e vs
    using c that by (cases e) (auto simp: calm_def quiet_def event_ok_def)
  then show ?thesis using q by (auto simp: orderly_def quiet_unaccepted)
qed

lemma note_lookup_calm: "emits holds (note_lookup leader l) (\<lambda>_. calm)"
  unfolding note_lookup_def by (auto intro!: wp split: render_cache_lookup.splits)

lemma cache_lookup_calm: "emits holds (cache_lookup E cfg task) (\<lambda>_. calm)"
  unfolding cache_lookup_def Let_def
  by (auto intro!: wp flight_update emits_bind [OF note_lookup_calm] split: prod.splits)

lemma follower_recheck_calm: "emits holds (follower_recheck E cfg task) (\<lambda>_. calm)"
  unfolding follower_recheck_def Let_def
  by (auto intro!: wp flight_update emits_bind [OF note_lookup_calm] split: prod.splits)

lemma drop_leader_calm: "emits holds (drop_leader E l) (\<lambda>_. calm)"
  unfolding drop_leader_def by (auto intro!: wp flight_update)

lemma drop_flight_calm: "emits holds (drop_flight E f) (\<lambda>_. calm)"
  unfolding drop_flight_def by (auto intro!: wp drop_leader_calm split: option.splits)

lemma degraded_reject_calm: "emits holds (renderer_degraded_reject task) (\<lambda>_. calm)"
  unfolding renderer_degraded_reject_def renderer_degraded_reason_def by (auto intro!: wp)

lemma must_shed_calm: "emits holds (must_shed E miss) (\<lambda>_. calm)"
  unfolding must_shed_def by (auto intro!: wp)

lemma acquire_settled_calm: "emits holds (acquire_settled E cfg task miss l) (\<lambda>_. calm)"
  unfolding acquire_settled_def
  by (auto intro!: wp emits_bind [OF must_shed_calm] emits_bind [OF degraded_reject_calm]
      emits_bind [OF drop_leader_calm] split: render_cache_lookup.splits)

lemma acquire_loop_calm: "emits holds (acquire_loop turns E cfg task miss joined l) (\<lambda>_. calm)"
proof (induction turns arbitrary: joined l)
  case 0
  then show ?case by (simp add: acquire_settled_calm)
next
  case (Suc turns)
  have "emits holds (acquire_loop turns E cfg task miss True l') (\<lambda>_ es'. calm (es @ es'))" if "calm es" for l' es
    by (rule emits_mono [OF Suc.IH]) (simp add: that)
  then show ?case
    by (auto intro!: wp acquire_settled_calm emits_bind [OF follower_recheck_calm])
qed

lemma acquire_calm: "emits holds (acquire_render_output_cache turns E cfg task miss) (\<lambda>_. calm)"
  unfolding acquire_render_output_cache_def
  by (rule emits_bind [OF cache_lookup_calm], rule emits_mono [OF acquire_loop_calm]) simp

lemma maybe_insert_calm: "emits holds (maybe_insert_render_output_cache E flight oc) (\<lambda>_. calm)"
  unfolding maybe_insert_render_output_cache_def Let_def
  by (auto intro!: wp cache_update split: option.splits prod.splits)

lemma prepare_calm: "emits holds (prepare_local_profile E task) (\<lambda>_. calm)"
  unfolding prepare_local_profile_def by (auto intro!: wp)

lemma record_calm:
  "emits holds (record_ingress_outcome oc) (\<lambda>_. calm)" "emits holds (record_forwarded_outcome oc) (\<lambda>_. calm)"
  unfolding record_ingress_outcome_def record_forwarded_outcome_def by (auto intro!: wp)

subsection \<open>Native work\<close>

text \<open>What a trace of local work is: orderly, and a task it gives back untouched was not accepted.\<close>

definition gives_back :: "internal_task \<Rightarrow> process_error + task_outcome \<Rightarrow> node_event list \<Rightarrow> bool" where
  "gives_back task r es =
     (case r of
        Inl (PQueueFull t) \<Rightarrow> t = task \<and> unaccepted es
      | Inl (RenderAdmissionClosed t) \<Rightarrow> t = task \<and> unaccepted es
      | _ \<Rightarrow> True)"

lemma process_admit_error: "process_admit now pl task src hint = Inl err \<Longrightarrow> err = PQueueFull task"
  by (auto simp: process_admit_def Let_def split: option.splits prod.splits)

lemma pool_process_trace:
  "emits holds (pool_process E cfg task prepared tier hint)
     (\<lambda>r es. (\<exists>t. es = [EvNow t] \<and> r = Inl (PQueueFull task))
        \<or> (\<exists>t reply. es = [EvNow t, EvWorker task tier reply] \<and> r = reply_result task reply))"
  unfolding pool_process_def
  by (auto intro!: wp pool_update split: sum.splits dest: process_admit_error)

lemma orderly_work:
  "S True \<Longrightarrow> orderly S cfg task [EvCanStart True, EvNow t, EvWorker task tier reply]"
  by (auto simp: orderly_def Cons_eq_append_conv event_ok_def work_ok_def)

lemma process_local_task_trace:
  "emits holds (process_local_task E cfg task prepared tier hint)
     (\<lambda>r es. orderly S cfg task es \<and> gives_back task r es)"
  unfolding process_local_task_def
proof (rule bind_can_start)
  fix b assume b: "S b"
  let ?k = "\<lambda>r. case r of Inl err \<Rightarrow> State_Monad.return (Inl err)
       | Inr oc \<Rightarrow> State_Monad.bind (if is_style_unavailable oc
            then emit (EvMarkStyleLoadFailed (it_style task) (it_authorization task))
            else State_Monad.return ()) (\<lambda>_. State_Monad.return (Inr oc))"
  have full: "orderly S cfg task [EvCanStart True, EvNow t]" if "S True" for t
    using that by (intro orderly_Cons) simp_all
  have mark: "orderly S cfg task [EvCanStart True, EvNow t, EvWorker task tier reply, EvMarkStyleLoadFailed r a]"
    if "S True" for t reply r a
    using orderly_append [OF orderly_work [OF that, of cfg task t tier reply] orderly_single, of "EvMarkStyleLoadFailed r a"]
    by simp
  show "emits holds (if \<not> b then State_Monad.return (Inl (RenderAdmissionClosed task))
      else State_Monad.bind (pool_process E cfg task prepared tier hint) ?k)
      (\<lambda>r es. orderly S cfg task (EvCanStart b # es) \<and> gives_back task r (EvCanStart b # es))"
  proof (cases b)
    case False
    with b show ?thesis by (auto intro!: wp orderly_single simp: gives_back_def)
  next
    case True
    have "emits holds (State_Monad.bind (pool_process E cfg task prepared tier hint) ?k)
        (\<lambda>r es. orderly S cfg task (EvCanStart True # es) \<and> gives_back task r (EvCanStart True # es))"
    proof (rule emits_bind [OF pool_process_trace])
      fix r es
      assume "(\<exists>t. es = [EvNow t] \<and> r = Inl (PQueueFull task))
        \<or> (\<exists>t reply. es = [EvNow t, EvWorker task tier reply] \<and> r = reply_result task reply)"
      then show "emits holds (?k r) (\<lambda>r es'. orderly S cfg task (EvCanStart True # es @ es')
          \<and> gives_back task r (EvCanStart True # es @ es'))"
      proof (elim disjE exE conjE)
        fix t reply assume e: "es = [EvNow t, EvWorker task tier reply]" "r = reply_result task reply"
        then show ?thesis
          using b True by (cases reply) (auto intro!: wp orderly_work mark simp: gives_back_def)
      qed (use b True in \<open>auto intro!: wp full simp: gives_back_def\<close>)
    qed
    with True show ?thesis by simp
  qed
qed

subsection \<open>Forwarding\<close>

definition clean :: "'g node_config \<Rightarrow> internal_task \<Rightarrow> node_event list \<Rightarrow> bool" where
  "clean cfg task es \<longleftrightarrow> orderly S cfg task es \<and> unaccepted es"

lemma clean_append: "clean cfg task es \<Longrightarrow> clean cfg task es' \<Longrightarrow> clean cfg task (es @ es')"
  by (simp add: clean_def orderly_append)

lemma calm_clean: "calm es \<Longrightarrow> clean cfg task es"
  unfolding clean_def using calm_orderly by blast

lemma clean_calm_append: "clean cfg task es \<Longrightarrow> calm es' \<Longrightarrow> clean cfg task (es @ es')"
  by (simp add: clean_append calm_clean)

lemma clean_then_orderly: "clean cfg task es \<Longrightarrow> orderly S cfg task es' \<Longrightarrow> orderly S cfg task (es @ es')"
  by (simp add: clean_def orderly_append)

lemma orderly_then_calm: "orderly S cfg task es \<Longrightarrow> calm es' \<Longrightarrow> orderly S cfg task (es @ es')"
  using calm_orderly [of es' cfg task] by (simp add: orderly_append)

lemma budget_trace:
  "emits holds (forward_budget_too_small E task)
     (\<lambda>small es. \<exists>t. es = [EvNow t] \<and>
        (small \<longleftrightarrow> saturating_duration_since (it_deadline task) t < millis min_forward_budget_ms))"
  unfolding forward_budget_too_small_def by (auto intro!: wp)

lemma clean_send:
  assumes "it_forwarding_hops task < max_forwarding_hops"
    and "\<not> saturating_duration_since (it_deadline task) t0 < millis min_forward_budget_ms"
  shows "clean cfg task [EvNow t0, EvNow t1, EvSend (fc_node_id c) (forward_request_of cfg task tier c t1)]"
proof -
  have "send_ok cfg task [EvNow t0, EvNow t1] (fc_node_id c) (forward_request_of cfg task tier c t1)"
    unfolding send_ok_def using assms by (intro exI conjI) (auto simp: not_less)
  then show ?thesis
    by (auto simp: clean_def orderly_def Cons_eq_append_conv event_ok_def)
qed

lemma emits_after_clean:
  assumes "emits holds m (\<lambda>_. clean cfg task)" and "clean cfg task es"
  shows "emits holds m (\<lambda>_ es'. clean cfg task (es @ es'))"
  by (rule emits_mono [OF assms(1)]) (rule clean_append [OF assms(2)])

lemma emits_after_orderly:
  assumes "emits holds m (\<lambda>_. orderly S cfg task)" and "clean cfg task es"
  shows "emits holds m (\<lambda>_ es'. orderly S cfg task (es @ es'))"
  by (rule emits_mono [OF assms(1)]) (rule clean_then_orderly [OF assms(2)])

lemma emits_after_calm:
  assumes "emits holds m (\<lambda>_. calm)" and "orderly S cfg task es"
  shows "emits holds m (\<lambda>_ es'. orderly S cfg task (es @ es'))"
  by (rule emits_mono [OF assms(1)]) (rule orderly_then_calm [OF assms(2)])

lemma forward_answer_calm: "emits holds (forward_answer E task sent prev saw) (\<lambda>_. calm)"
  unfolding forward_answer_def
  by (auto intro!: wp split: sent.splits option.splits simp del: is_retryable_at_forward.simps)

lemma forward_candidates_trace:
  assumes hops: "it_forwarding_hops task < max_forwarding_hops"
  shows "emits holds (forward_candidates E cfg task tier cs prev saw) (\<lambda>_. clean cfg task)"
proof (induction cs arbitrary: prev saw)
  case Nil
  then show ?case by (auto intro!: wp simp: clean_def)
next
  case (Cons c cs)
  show ?case
    unfolding forward_candidates.simps(2)
  proof (rule emits_bind [OF budget_trace], elim exE conjE)
    fix small es t0
    assume es: "es = [EvNow t0]"
      and small: "small \<longleftrightarrow> saturating_duration_since (it_deadline task) t0 < millis min_forward_budget_ms"
    let ?sent = "\<lambda>t1. [EvNow t0, EvNow t1, EvSend (fc_node_id c) (forward_request_of cfg task tier c t1)]"
    have "emits holds (forward_candidates E cfg task tier cs p s) (\<lambda>_ es''. clean cfg task (?sent t1 @ es' @ es''))"
      if "\<not> small" "calm es'" for t1 es' p s
    proof -
      from small that(1) have "\<not> saturating_duration_since (it_deadline task) t0 < millis min_forward_budget_ms" by simp
      from emits_after_clean [OF Cons.IH clean_calm_append [OF clean_send [OF hops this] that(2)]]
      show ?thesis by simp
    qed
    moreover have "clean cfg task (?sent t1 @ es')" if "\<not> small" "calm es'" for t1 es'
      using clean_calm_append [OF clean_send [OF hops] that(2)] small that(1) by blast
    ultimately show "emits holds (if small then State_Monad.return (Inl (meta_reject (meta_of task) DeadlineTooClose))
        else clock_now E \<bind> (\<lambda>t1. emit (EvSend (fc_node_id c) (forward_request_of cfg task tier c t1)) \<bind>
          (\<lambda>_. ask (en_send E (fc_node_id c) (forward_request_of cfg task tier c t1) (it_deadline task)) \<bind>
          (\<lambda>sent. forward_answer E task sent prev saw \<bind>
          (\<lambda>r. case r of Inl oc \<Rightarrow> State_Monad.return (Inl oc)
               | Inr (p, s) \<Rightarrow> forward_candidates E cfg task tier cs p s)))))
        (\<lambda>_ es'. clean cfg task (es @ es'))"
      unfolding es
      using calm_clean [of "[EvNow t0]" cfg task]
      by (auto intro!: wp emits_bind [OF forward_answer_calm] split: sum.splits)
  qed
qed

lemma local_work_then:
  assumes "\<And>t. r = Inl (PQueueFull t) \<Longrightarrow> emits holds (full t) (\<lambda>_. orderly S cfg t)"
    and "\<And>t. r = Inl (RenderAdmissionClosed t) \<Longrightarrow> emits holds (shut t) (\<lambda>_. orderly S cfg t)"
    and es: "orderly S cfg task es" "gives_back task r es"
  shows "emits holds
     (case r of Inr oc \<Rightarrow> State_Monad.return oc | Inl (RenderAdmissionClosed t) \<Rightarrow> shut t
      | Inl QueueDisconnected \<Rightarrow> State_Monad.return oc' | Inl (PQueueFull t) \<Rightarrow> full t)
     (\<lambda>_ es'. orderly S cfg task (es @ es'))"
proof (cases r)
  case (Inl err)
  then show ?thesis
  proof (cases err)
    case (PQueueFull t)
    with es(2) Inl have t: "t = task" "clean cfg task es" using es(1) by (simp_all add: gives_back_def clean_def)
    with assms(1) [of t] Inl PQueueFull show ?thesis by (auto intro: emits_after_orderly)
  next
    case (RenderAdmissionClosed t)
    with es(2) Inl have t: "t = task" "clean cfg task es" using es(1) by (simp_all add: gives_back_def clean_def)
    with assms(2) [of t] Inl RenderAdmissionClosed show ?thesis by (auto intro: emits_after_orderly)
  qed (use Inl es in \<open>auto intro!: wp\<close>)
qed (use es in \<open>auto intro!: wp\<close>)

lemma degraded_reject_orderly: "emits holds (renderer_degraded_reject t) (\<lambda>_. orderly S cfg task)"
  by (rule emits_mono [OF degraded_reject_calm]) (simp add: calm_orderly)

lemma after_calm:
  assumes "emits holds m (\<lambda>_. orderly S cfg task)" and "calm es"
  shows "emits holds m (\<lambda>_ es'. orderly S cfg task (es @ es'))"
  by (rule emits_after_orderly [OF assms(1) calm_clean [OF assms(2)]])

lemma calm_Cons_orderly: "calm es \<Longrightarrow> orderly S cfg task es"
  by (simp add: calm_orderly)

lemma overflow_fallback_trace:
  "emits holds (overflow_fallback E cfg task reason) (\<lambda>_. orderly S cfg task)"
proof -
  have work: "emits holds (process_local_task E cfg task pp Tier4Overflow None \<bind>
      (\<lambda>r. case r of Inr oc \<Rightarrow> State_Monad.return oc | Inl (RenderAdmissionClosed t) \<Rightarrow> renderer_degraded_reject t
         | Inl QueueDisconnected \<Rightarrow> State_Monad.return (process_error_outcome (meta_of task) QueueDisconnected)
         | Inl (PQueueFull _) \<Rightarrow> State_Monad.return (meta_reject (meta_of task) reason)))
      (\<lambda>_. orderly S cfg task)" for pp
    by (rule emits_bind [OF process_local_task_trace], rule local_work_then)
      (auto intro!: wp degraded_reject_orderly)
  have prep: "emits holds (prepare_local_profile E task \<bind> (\<lambda>prepared. case prepared of
      Inl err \<Rightarrow> State_Monad.return (preparation_error_outcome (meta_of task) err)
    | Inr pp \<Rightarrow> process_local_task E cfg task pp Tier4Overflow None \<bind>
      (\<lambda>r. case r of Inr oc \<Rightarrow> State_Monad.return oc | Inl (RenderAdmissionClosed t) \<Rightarrow> renderer_degraded_reject t
         | Inl QueueDisconnected \<Rightarrow> State_Monad.return (process_error_outcome (meta_of task) QueueDisconnected)
         | Inl (PQueueFull _) \<Rightarrow> State_Monad.return (meta_reject (meta_of task) reason))))
      (\<lambda>_. orderly S cfg task)"
    by (rule emits_bind [OF prepare_calm]) (auto intro!: wp after_calm [OF work] calm_Cons_orderly split: sum.splits)
  show ?thesis
    unfolding overflow_fallback_def
    using after_calm [OF prep, of "[EvCanStart True, EvNow t]" for t]
    by (auto intro!: wp calm_Cons_orderly)
qed

lemma forward_with_failover_trace:
  "emits holds (forward_with_failover E cfg task tier cs) (\<lambda>_. orderly S cfg task)"
proof (cases "max_forwarding_hops \<le> it_forwarding_hops task")
  case True
  then show ?thesis by (auto simp: forward_with_failover_def intro!: wp)
next
  case False
  then have hops: "it_forwarding_hops task < max_forwarding_hops" by simp
  have loop: "emits holds (forward_candidates E cfg task tier cs None False \<bind> (\<lambda>r. case r of
      Inl oc \<Rightarrow> State_Monad.return oc
    | Inr (prev, saw) \<Rightarrow> overflow_fallback E cfg task (exhaustion_reason prev saw))) (\<lambda>_. orderly S cfg task)"
    by (rule emits_bind [OF forward_candidates_trace [OF hops]])
      (auto intro!: wp emits_after_orderly [OF overflow_fallback_trace] simp: clean_def split: sum.splits)
  have "emits holds (if small then State_Monad.return (meta_reject (meta_of task) DeadlineTooClose)
      else forward_candidates E cfg task tier cs None False \<bind> (\<lambda>r. case r of
        Inl oc \<Rightarrow> State_Monad.return oc
      | Inr (prev, saw) \<Rightarrow> overflow_fallback E cfg task (exhaustion_reason prev saw)))
      (\<lambda>_ es'. orderly S cfg task ([EvNow t] @ es'))" for small t
    using after_calm [OF loop, of "[EvNow t]"] by (auto intro!: wp calm_Cons_orderly)
  then show ?thesis
    using False unfolding forward_with_failover_def
    by (auto intro!: emits_bind [OF budget_trace])
qed

subsection \<open>Routes and handlers\<close>

lemma process_local_route_trace:
  "emits holds (process_local_route E cfg task tier hint fallback) (\<lambda>_. orderly S cfg task)"
proof -
  let ?work = "\<lambda>pp. process_local_task E cfg task pp tier hint \<bind> (\<lambda>r. case r of
      Inr oc \<Rightarrow> State_Monad.return oc
    | Inl (RenderAdmissionClosed t) \<Rightarrow>
        if fallback \<noteq> [] then forward_with_failover E cfg t tier fallback else renderer_degraded_reject t
    | Inl (PQueueFull t) \<Rightarrow>
        if fallback \<noteq> [] then forward_with_failover E cfg t tier fallback
        else State_Monad.return (process_error_outcome (meta_of task) (PQueueFull t))
    | Inl QueueDisconnected \<Rightarrow> State_Monad.return (process_error_outcome (meta_of task) QueueDisconnected))"
  have work: "emits holds (?work pp) (\<lambda>_. orderly S cfg task)" for pp
    by (rule emits_bind [OF process_local_task_trace], rule local_work_then)
      (auto intro!: wp degraded_reject_orderly forward_with_failover_trace)
  have prep: "emits holds (prepare_local_profile E task \<bind> (\<lambda>prepared. case prepared of
      Inl err \<Rightarrow> State_Monad.return (preparation_error_outcome (meta_of task) err) | Inr pp \<Rightarrow> ?work pp))
      (\<lambda>_. orderly S cfg task)"
    by (rule emits_bind [OF prepare_calm]) (auto intro!: wp after_calm [OF work] calm_Cons_orderly split: sum.splits)
  show ?thesis
    unfolding process_local_route_def
    using after_calm [OF prep, of "[EvCanStart True]"]
      after_calm [OF forward_with_failover_trace, of "[EvCanStart False]"]
      after_calm [OF degraded_reject_orderly, of "[EvCanStart False]"]
    by (auto intro!: wp)
qed

lemma dispatch_decision_trace:
  "emits holds (dispatch_decision E cfg task avail dec) (\<lambda>_. orderly S cfg task)"
  unfolding dispatch_decision_def renderer_degraded_reason_def
  by (auto intro!: wp process_local_route_trace forward_with_failover_trace calm_Cons_orderly split: decision.splits)

lemma returned_ingress_calm: "emits holds (returned (record_ingress_outcome oc)) (\<lambda>_. calm)"
  unfolding returned_def by (rule emits_bind [OF record_calm(1)]) (auto intro!: wp)

lemma incoming_tail_calm:
  "emits holds (maybe_insert_render_output_cache E flight oc \<bind> (\<lambda>_. returned (record_ingress_outcome oc))) (\<lambda>_. calm)"
  by (rule emits_bind [OF maybe_insert_calm], rule emits_mono [OF returned_ingress_calm]) simp

lemma incoming_miss_trace: "emits holds (incoming_miss E cfg task flight) (\<lambda>_. orderly S cfg task)"
proof -
  have dec: "emits holds (dispatch_decision E cfg task avail dec \<bind> (\<lambda>oc. maybe_insert_render_output_cache E flight oc \<bind>
      (\<lambda>_. returned (record_ingress_outcome oc)))) (\<lambda>_. orderly S cfg task)" for avail dec
    by (rule emits_bind [OF dispatch_decision_trace]) (rule emits_after_calm [OF incoming_tail_calm])
  have early: "emits holds (returned (record_ingress_outcome oc)) (\<lambda>_ es'. orderly S cfg task (es @ es'))" if "calm es" for oc es
    by (rule emits_mono [OF returned_ingress_calm]) (simp add: calm_Cons_orderly that)
  show ?thesis
    unfolding incoming_miss_def local_dispatch_state_def
    using after_calm [OF dec, of "[EvNow t, EvCanStart b, EvNow u]" for t b u] early [of "[EvNow t]" for t] early [of "[]"]
    by (auto intro!: wp calm_Cons_orderly split: option.splits)
qed

theorem handle_incoming_orderly:
  "emits holds (handle_incoming turns E cfg task) (\<lambda>_. orderly S cfg task)"
proof -
  have early: "emits holds (returned (record_ingress_outcome oc)) (\<lambda>_ es'. orderly S cfg task (es @ es'))" if "calm es" for oc es
    by (rule emits_mono [OF returned_ingress_calm]) (simp add: calm_Cons_orderly that)
  have drop: "emits holds (drop_flight E flight \<bind> (\<lambda>_. State_Monad.return r)) (\<lambda>_. calm)" for flight and r :: "task_outcome run"
    by (rule emits_bind [OF drop_flight_calm]) (auto intro!: wp)
  have miss: "emits holds (incoming_miss E cfg task flight \<bind> (\<lambda>r. drop_flight E flight \<bind> (\<lambda>_. State_Monad.return r)))
      (\<lambda>_. orderly S cfg task)" for flight
    by (rule emits_bind [OF incoming_miss_trace]) (rule emits_after_calm [OF drop])
  have main: "emits holds (acquire_render_output_cache turns E cfg task MayForward \<bind> (\<lambda>acquired. case acquired of
         Waiting \<Rightarrow> State_Monad.return Waiting
       | Panicked \<Rightarrow> State_Monad.return Panicked
       | Returned (Inl oc) \<Rightarrow> returned (record_ingress_outcome oc)
       | Returned (Inr flight) \<Rightarrow> incoming_miss E cfg task flight \<bind> (\<lambda>r. drop_flight E flight \<bind> (\<lambda>_. State_Monad.return r))))
      (\<lambda>_. orderly S cfg task)"
    by (rule emits_bind [OF acquire_calm])
      (auto intro!: wp early after_calm [OF miss] calm_Cons_orderly split: run.splits sum.splits)
  show ?thesis
    unfolding handle_incoming_def
    using after_calm [OF main, of "[EvNow t]" for t] early [of "[EvNow t]" for t] by (auto intro!: wp)
qed

text \<open>A forwarded task is worked on here or refused: nothing is sent on.\<close>

lemma process_local_task_sendless:
  "emits holds (process_local_task E cfg task prepared tier hint) (\<lambda>_. sendless)"
  unfolding process_local_task_def pool_process_def
  by (auto intro!: wp pool_update split: sum.splits)

lemma calm_local: "calm es \<Longrightarrow> orderly S cfg task es \<and> sendless es"
  using calm_orderly quiet_sendless by blast

lemma forwarded_miss_trace:
  "emits holds (forwarded_miss E cfg meta task tier hint flight) (\<lambda>_ es. orderly S cfg task es \<and> sendless es)"
proof -
  let ?settle = "\<lambda>r. case r of Inr oc \<Rightarrow> State_Monad.return oc
           | Inl (RenderAdmissionClosed t) \<Rightarrow> renderer_degraded_reject t
           | Inl err \<Rightarrow> State_Monad.return (process_error_outcome meta err)"
  have settle: "emits holds (?settle r) (\<lambda>_. calm)" for r
    by (auto intro!: wp degraded_reject_calm split: sum.splits process_error.splits)
  have tail: "emits holds (?settle r \<bind> (\<lambda>oc. maybe_insert_render_output_cache E flight oc \<bind>
      (\<lambda>_. record_forwarded_outcome oc))) (\<lambda>_. calm)" for r
    by (rule emits_bind [OF settle], rule emits_bind [OF maybe_insert_calm], rule emits_mono [OF record_calm(2)]) simp
  have work: "emits holds (process_local_task E cfg task pp tier hint \<bind> (\<lambda>r. ?settle r \<bind> (\<lambda>oc.
      maybe_insert_render_output_cache E flight oc \<bind> (\<lambda>_. record_forwarded_outcome oc))))
      (\<lambda>_ es. orderly S cfg task es \<and> sendless es)" for pp
    by (rule emits_bind [OF emits_conj [OF process_local_task_trace process_local_task_sendless]],
        rule emits_mono [OF tail]) (auto intro: orderly_then_calm dest: calm_local)
  show ?thesis
    unfolding forwarded_miss_def
  proof (rule emits_bind [OF prepare_calm])
    fix prepared :: "preparation_error + prepared_profile option" and es assume es: "calm es"
    show "emits holds (case prepared of
        Inl err \<Rightarrow> record_forwarded_outcome (preparation_error_outcome meta err)
      | Inr pp \<Rightarrow> process_local_task E cfg task pp tier hint \<bind> (\<lambda>r. ?settle r \<bind> (\<lambda>oc.
          maybe_insert_render_output_cache E flight oc \<bind> (\<lambda>_. record_forwarded_outcome oc))))
      (\<lambda>_ es'. orderly S cfg task (es @ es') \<and> sendless (es @ es'))"
    proof (cases prepared)
      case (Inl err)
      have "emits holds (record_forwarded_outcome oc) (\<lambda>_ es'. orderly S cfg task (es @ es') \<and> sendless (es @ es'))" for oc
        by (rule emits_mono [OF record_calm(2)]) (use es in \<open>auto intro!: calm_Cons_orderly dest: calm_local\<close>)
      with Inl show ?thesis by simp
    next
      case (Inr pp)
      have "emits holds (process_local_task E cfg task pp tier hint \<bind> (\<lambda>r. ?settle r \<bind> (\<lambda>oc.
          maybe_insert_render_output_cache E flight oc \<bind> (\<lambda>_. record_forwarded_outcome oc))))
        (\<lambda>_ es'. orderly S cfg task (es @ es') \<and> sendless (es @ es'))"
        by (rule emits_mono [OF work])
          (use es calm_clean [OF es, of cfg task] in \<open>auto intro: clean_then_orderly dest: calm_local\<close>)
      with Inr show ?thesis by simp
    qed
  qed
qed

theorem handle_forwarded_orderly:
  "emits holds (handle_forwarded turns E cfg fwd) (\<lambda>_ es. (\<exists>task. orderly S cfg task es) \<and> sendless es)"
proof -
  let ?ok = "\<lambda>es. (\<exists>task. orderly S cfg task es) \<and> sendless es"
  have ret: "emits holds (returned (record_forwarded_outcome oc)) (\<lambda>_. calm)" for oc
    unfolding returned_def by (rule emits_bind [OF record_calm(2)]) (auto intro!: wp)
  have early: "emits holds (returned (record_forwarded_outcome oc)) (\<lambda>_ es'. ?ok (es @ es'))" if "calm es" for oc es
    by (rule emits_mono [OF ret]) (use that calm_local in \<open>meson calm_simps(2)\<close>)
  have drop: "emits holds (drop_flight E flight \<bind> (\<lambda>_. State_Monad.return r)) (\<lambda>_. calm)" for flight and r :: "task_outcome run"
    by (rule emits_bind [OF drop_flight_calm]) (auto intro!: wp)
  have miss: "emits holds (forwarded_miss E cfg meta task tier hint flight \<bind> (\<lambda>oc. drop_flight E flight \<bind>
      (\<lambda>_. State_Monad.return (Returned oc)))) (\<lambda>_ es'. ?ok (es @ es'))" if "calm es" for meta task tier hint flight es
  proof (rule emits_bind [OF forwarded_miss_trace], elim conjE)
    fix oc :: task_outcome and es1 assume o: "orderly S cfg task es1" "sendless es1"
    show "emits holds (drop_flight E flight \<bind> (\<lambda>_. State_Monad.return (Returned oc))) (\<lambda>_ es'. ?ok (es @ es1 @ es'))"
      by (rule emits_mono [OF drop])
        (use that o clean_then_orderly [OF calm_clean [OF that] orderly_then_calm [OF o(1)]] in \<open>auto dest: calm_local\<close>)
  qed
  have main: "emits holds (acquire_render_output_cache turns E cfg task RequiresLocalRenderer \<bind> (\<lambda>acquired. case acquired of
         Waiting \<Rightarrow> State_Monad.return Waiting
       | Panicked \<Rightarrow> State_Monad.return Panicked
       | Returned (Inl oc) \<Rightarrow> returned (record_forwarded_outcome oc)
       | Returned (Inr flight) \<Rightarrow> forwarded_miss E cfg meta task tier hint flight \<bind> (\<lambda>oc. drop_flight E flight \<bind>
           (\<lambda>_. State_Monad.return (Returned oc))))) (\<lambda>_ es'. ?ok (EvNow t # es'))" for meta task tier hint t
  proof (rule emits_bind [OF acquire_calm])
    fix acquired :: "(task_outcome + flight_leader option) run" and es assume "calm es"
    then have es: "calm (EvNow t # es)" by simp
    show "emits holds (case acquired of
         Waiting \<Rightarrow> State_Monad.return Waiting
       | Panicked \<Rightarrow> State_Monad.return Panicked
       | Returned (Inl oc) \<Rightarrow> returned (record_forwarded_outcome oc)
       | Returned (Inr flight) \<Rightarrow> forwarded_miss E cfg meta task tier hint flight \<bind> (\<lambda>oc. drop_flight E flight \<bind>
           (\<lambda>_. State_Monad.return (Returned oc)))) (\<lambda>_ es'. ?ok (EvNow t # es @ es'))"
      using early [OF es] miss [OF es] calm_local [OF es, of cfg]
      by (auto intro!: wp split: run.splits sum.splits)
  qed
  show ?thesis
    unfolding handle_forwarded_def Let_def
    using early [of "[EvNow t]" for t] main calm_local [of "[EvNow t]" cfg for t]
    by (auto intro!: wp split: option.splits)
qed

end

section \<open>The gate of every node, of a draining and of a degraded one\<close>

interpretation any_node: gated_node E "\<lambda>_. True" "\<lambda>_. True" for E :: "'e node_env"
  by unfold_locales simp_all

text \<open>A draining node stays so when no other handler runs.\<close>

definition alone :: "'e node_env \<Rightarrow> 'e node_env" where
  "alone E = E\<lparr>en_interfere := Pair\<rparr>"

interpretation solitary: gated_node "alone E" ns_draining Not for E :: "'e node_env"
  by unfold_locales (simp_all add: alone_def)

lemma draining_gate:
  "\<forall>s e. ns_draining s \<longrightarrow> ns_draining (fst (en_interfere E s e)) \<Longrightarrow> gated_node E ns_draining Not"
  by unfold_locales simp_all

lemma orderly_after_accepted:
  assumes "orderly S cfg task (us @ e # vs)" and "accepted e"
  shows "sendless vs" and "EvWorker t tier reply \<notin> set vs"
proof -
  have past: False if "vs = xs @ e' # ys" "case e' of EvWorker _ _ _ \<Rightarrow> True | EvSend _ _ \<Rightarrow> True | _ \<Rightarrow> False" for xs e' ys
  proof -
    from assms(1) that(1) have "event_ok S cfg task (us @ e # xs) e'" unfolding orderly_def by auto
    with that(2) assms(2) show False by (cases e') (auto simp: event_ok_def)
  qed
  show "sendless vs" unfolding sendless_def using past by (force simp: in_set_conv_decomp)
  show "EvWorker t tier reply \<notin> set vs" using past by (force simp: in_set_conv_decomp)
qed

lemma handle_incoming_events:
  assumes "run_state (handle_incoming turns E cfg task) w = (r, w')"
  obtains es where "wd_trace w' = wd_trace w @ es" "orderly (\<lambda>_. True) cfg task es"
  using emitsD [OF any_node.handle_incoming_orderly _ assms] by (auto simp: any_node.holds_def)

section \<open>A run\<close>

text \<open>The two nodes of the dispatcher's example, seen from \<open>a\<close>: the peer does not answer, and the
  worker of the local fallback disappears with the command.\<close>

definition demo_cluster :: cluster_view where
  "demo_cluster = \<lparr>cv_members = [''a'', ''b''],
     cv_states = [(''a'', demo_node_a), (''b'', demo_node_b)], cv_generated_at = 0\<rparr>"

definition demo_view_turn :: view_iter where
  "demo_view_turn =
     (let st = \<lparr>vs_cached = Some \<lparr>cw_expires_at = 10, cw_gossip_epoch = 1, cw_view = demo_cluster\<rparr>, vs_loading = False\<rparr>
      in \<lparr>vi_now = 0, vi_state = st, vi_epoch = 1, vi_check_now = 0, vi_locked_state = st, vi_locked_epoch = 1,
          vi_locked_now = 0, vi_load_epoch = 1, vi_view = None, vi_after_epoch = 1, vi_done_now = 0, vi_woken = False\<rparr>)"

definition demo_node_env :: "unit node_env" where
  "demo_node_env =
     \<lparr>en_interfere = Pair, en_now = Pair 0, en_admission = Pair True, en_view = Pair [demo_view_turn],
      en_follow = (\<lambda>_. Pair False), en_prepare = (\<lambda>_. Pair (Inr None)),
      en_send = (\<lambda>_ _ _. Pair (SentRetryable ''refused'')),
      en_worker = (\<lambda>_ _ _ _. Pair ReplyDropped)\<rparr>"

definition demo_cfg :: "unit node_config" where
  "demo_cfg =
     \<lparr>nc_id = ''a'', nc_dispatcher = demo_dispatcher, nc_hop_latency = millis 1, nc_cache_on = False,
      nc_view_ttl = millis 100, nc_to_json = (\<lambda>_. []), nc_seed = (\<lambda>_. ()), nc_draw = demo_draw,
      nc_hasher = (\<lambda>_. 0)\<rparr>"

definition demo_world :: "unit world" where
  "demo_world =
     \<lparr>wd_shared = \<lparr>ns_pool = (pool_spawn 1 2 8 1 1)\<lparr>pl_depths := [3]\<rparr>, ns_cache = Map.empty, ns_in_flight = {},
        ns_catalog = catalog_new, ns_draining = False\<rparr>,
      wd_trace = [], wd_env = ()\<rparr>"

lemma demo_local_state:
  "snapshot_workers ((pool_spawn 1 2 8 1 1)\<lparr>pl_depths := [3]\<rparr>) = nsv_workers demo_node_a"
  by (simp add: snapshot_workers_def pool_spawn_def pool_state_new_def Let_def demo_node_a_def)

lemma demo_decide_local:
  "decide_with_local_state (\<lambda>_. ()) demo_draw now demo_dispatcher demo_task demo_cluster
     \<lparr>nsv_id = ''a'', nsv_accepts_new_renders = True, nsv_workers = nsv_workers demo_node_a\<rparr> =
   Some (Forward Tier1WarmTracking [\<lparr>fc_node_id = ''b'', fc_drain_worker = None\<rparr>])"
proof -
  have "\<lparr>nsv_id = ''a'', nsv_accepts_new_renders = True, nsv_workers = nsv_workers demo_node_a\<rparr> = demo_node_a"
    by (simp add: demo_node_a_def)
  with demo_decide [of now] show ?thesis by (simp add: decide_with_local_state_def demo_view_def demo_cluster_def)
qed

lemma demo_view_loads: "get_or_load (millis 100) (it_deadline demo_task) [demo_view_turn] = Some (Some demo_cluster)"
  by (simp add: demo_task_def demo_view_turn_def get_or_load_turn_def usable_cached_view_def Let_def millis_def)

lemma demo_budget: "millis min_forward_budget_ms \<le> it_deadline demo_task" "0 < it_deadline demo_task"
  "it_forwarding_hops demo_task = 0" "it_authorization demo_task = None"
  by (simp_all add: min_forward_budget_ms_def demo_task_def millis_def)

lemma demo_admit:
  "\<exists>ad pl. process_admit 0 ((pool_spawn 1 2 8 1 1)\<lparr>pl_depths := [3]\<rparr>) task None None = Inr (ad, pl)"
  by (simp add: process_admit_def reserve_best_available_def best_available_worker_def try_reserve_def
      pool_spawn_def Let_def process_commit_def split: prod.splits)

lemmas run_defs = handle_incoming_def acquire_render_output_cache_def cache_lookup_def lookup_or_join_def
  cache_is_enabled_for_def note_lookup_def acquire_settled_def must_shed_def incoming_miss_def
  local_dispatch_state_def can_start_render_def dispatch_decision_def forward_with_failover_def
  forward_budget_too_small_def forward_answer_def overflow_fallback_def prepare_local_profile_def
  process_local_task_def pool_process_def prepared_source_id_def maybe_insert_render_output_cache_def
  drop_flight_def returned_def record_ingress_outcome_def clock_now_def record_metric_def emit_def ask_def
  observe_def put_shared_def

definition demo_request :: forward_request where
  "demo_request = forward_request_of demo_cfg demo_task Tier1WarmTracking \<lparr>fc_node_id = ''b'', fc_drain_worker = None\<rparr> 0"

definition demo_before :: "node_event list" where
  "demo_before = [EvNow 0, EvNow 0, EvCanStart True, EvNow 0, EvNow 0, EvNow 0, EvNow 0]"

definition demo_between :: "node_event list" where
  "demo_between = [EvMetric ForwardRetryable, EvCanStart True, EvNow 0, EvPrepare demo_task,
     EvMetric (ProfilePrepare True), EvCanStart True, EvNow 0]"

definition demo_reply :: task_outcome where
  "demo_reply = meta_fail (meta_of demo_task) ''worker queue disconnected'' OtherFailure"

lemma demo_incoming:
  "\<exists>w'. run_state (handle_incoming 0 demo_node_env demo_cfg demo_task) demo_world = (Returned demo_reply, w')
     \<and> wd_trace w' = demo_before @ EvSend ''b'' demo_request # demo_between
         @ EvWorker demo_task Tier4Overflow ReplyDropped # [EvMetric (IngressOutcome demo_reply)]"
proof -
  obtain ad pl where "process_admit 0 ((pool_spawn 1 2 8 1 1)\<lparr>pl_depths := [3]\<rparr>) demo_task None None = Inr (ad, pl)"
    using demo_admit by blast
  note facts = this demo_local_state demo_decide_local demo_view_loads demo_budget
  show ?thesis
    unfolding demo_before_def demo_between_def demo_request_def demo_reply_def
    using facts
    by (simp add: run_defs demo_node_env_def demo_cfg_def demo_world_def Let_def max_forwarding_hops_def
        saturating_duration_since_def not_less is_ok_def)
qed

definition demo_forwarded_world :: "unit world" where
  "demo_forwarded_world = demo_world\<lparr>wd_shared := (wd_shared demo_world)\<lparr>ns_catalog :=
     upsert_definition ''s'' \<lparr>sd_style_url = ''u'', sd_version = 1\<rparr> catalog_new\<rparr>\<rparr>"

lemma demo_wire:
  "\<exists>task. into_internal (fr_task demo_request) 0 = Some task \<and> 0 < it_deadline task"
  by (simp add: into_internal_def demo_request_def forward_request_of_def to_forward_wire_def
      to_wire_with_hop_latency_def demo_cfg_def demo_task_def Let_def millis_def as_millis_def
      instant_checked_add_def instant_max_def saturating_duration_since_def duration_saturating_mul_def
      duration_max_def u32_max_def)

lemma demo_accepts: "accepts_revision (ns_catalog (wd_shared demo_forwarded_world)) (wt_style (fr_task demo_request))"
  by (simp add: accepts_revision_def resolve_latest_def upsert_definition_def demo_forwarded_world_def demo_world_def
      demo_request_def forward_request_of_def to_forward_wire_def to_wire_with_hop_latency_def demo_task_def Let_def)

lemma demo_forwarded:
  "\<exists>r w' task. run_state (handle_forwarded 0 demo_node_env demo_cfg demo_request) demo_forwarded_world = (r, w')
     \<and> EvWorker task Tier1WarmTracking ReplyDropped \<in> set (wd_trace w')"
proof -
  obtain task where t: "into_internal (fr_task demo_request) 0 = Some task" "0 < it_deadline task"
    using demo_wire by blast
  obtain ad pl where a: "process_admit 0 ((pool_spawn 1 2 8 1 1)\<lparr>pl_depths := [3]\<rparr>) task None None = Inr (ad, pl)"
    using demo_admit by blast
  have "fr_route_tier demo_request = Tier1WarmTracking" "fr_drain_worker demo_request = None"
    by (simp_all add: demo_request_def forward_request_of_def)
  with t a demo_accepts show ?thesis
    by (simp add: run_defs handle_forwarded_def forwarded_miss_def record_forwarded_outcome_def demo_node_env_def
        demo_cfg_def demo_forwarded_world_def demo_world_def Let_def)
qed

section \<open>Properties\<close>



text \<open>C14: every task sent to a peer is sent on its first hop, after a clock read that left at least
  200 ms of its deadline, as the wire form of the very task the client asked for with one hop added
  and the hop latency reserved, and with the response budget the clock then left.\<close>

theorem incoming_sends_within_budget:
  assumes "run_state (handle_incoming turns E cfg task) w = (r, w')"
  shows "\<exists>es. wd_trace w' = wd_trace w @ es
    \<and> (\<forall>us target fr vs. es = us @ EvSend target fr # vs \<longrightarrow>
         (\<exists>us' t0 t1. us = us' @ [EvNow t0, EvNow t1] \<and> t0 + millis 200 \<le> it_deadline task
            \<and> it_forwarding_hops task = 0 \<and> wt_forwarding_hops (fr_task fr) = 1
            \<and> fr_task fr = to_forward_wire task t1 (nc_hop_latency cfg)
            \<and> fr_origin_response_budget_ms fr = min (as_millis (it_deadline task - t1)) u32_max))"
proof -
  obtain es where es: "wd_trace w' = wd_trace w @ es" "orderly (\<lambda>_. True) cfg task es"
    by (rule handle_incoming_events [OF assms])
  have "\<exists>us' t0 t1. us = us' @ [EvNow t0, EvNow t1] \<and> t0 + millis 200 \<le> it_deadline task
      \<and> it_forwarding_hops task = 0 \<and> wt_forwarding_hops (fr_task fr) = 1
      \<and> fr_task fr = to_forward_wire task t1 (nc_hop_latency cfg)
      \<and> fr_origin_response_budget_ms fr = min (as_millis (it_deadline task - t1)) u32_max"
    if "es = us @ EvSend target fr # vs" for us target fr vs
  proof -
    from es(2) that have "send_ok cfg task us target fr" by (force simp: orderly_def event_ok_def)
    then obtain us' t0 t1 tier c where s: "us = us' @ [EvNow t0, EvNow t1]"
      "millis 200 \<le> it_deadline task - t0" "it_forwarding_hops task < 1"
      "fr = forward_request_of cfg task tier c t1"
      by (auto simp: send_ok_def min_forward_budget_ms_def max_forwarding_hops_def saturating_duration_since_def)
    moreover have "0 < millis 200" by (simp add: millis_def)
    moreover have "it_forwarding_hops task = 0" using s(3) by simp
    ultimately show ?thesis
      by (auto simp: forward_request_of_def saturating_duration_since_def to_forward_wire_def u8_saturating_add_def Let_def)
  qed
  with es(1) show ?thesis by blast
qed

theorem incoming_sends_within_budget_witness:
  "\<exists>w' us vs. run_state (handle_incoming 0 demo_node_env demo_cfg demo_task) demo_world = (Returned demo_reply, w')
     \<and> wd_trace w' = us @ EvSend ''b'' demo_request # vs
     \<and> wt_forwarding_hops (fr_task demo_request) = 1 \<and> it_forwarding_hops demo_task = 0"
proof -
  obtain w' vs where w: "run_state (handle_incoming 0 demo_node_env demo_cfg demo_task) demo_world = (Returned demo_reply, w')"
    and t: "wd_trace w' = demo_before @ EvSend ''b'' demo_request # vs"
    using demo_incoming by auto
  from incoming_sends_within_budget [OF w] t
  have "wt_forwarding_hops (fr_task demo_request) = 1" "it_forwarding_hops demo_task = 0"
    by (auto simp: demo_world_def)
  with w t show ?thesis by blast
qed

text \<open>C15: a forwarded task is never sent on, whatever the handler meets, and its native work is
  started only right after the admission gate answered that rendering may start, at most once.\<close>

theorem forwarded_stays_local:
  assumes "run_state (handle_forwarded turns E cfg fwd) w = (r, w')"
  shows "\<exists>es. wd_trace w' = wd_trace w @ es \<and> (\<forall>n fr. EvSend n fr \<notin> set es)
    \<and> (\<forall>us t tier reply vs. es = us @ EvWorker t tier reply # vs \<longrightarrow>
         (\<exists>us' t0. us = us' @ [EvCanStart True, EvNow t0])
         \<and> (reply \<noteq> SendFailed \<longrightarrow> (\<forall>t tier reply. EvWorker t tier reply \<notin> set vs)))"
proof -
  obtain es task where es: "wd_trace w' = wd_trace w @ es" "orderly (\<lambda>_. True) cfg task es" "sendless es"
    by (rule emitsD [OF any_node.handle_forwarded_orderly _ assms]) (auto simp: any_node.holds_def)
  have "(\<exists>us' t0. us = us' @ [EvCanStart True, EvNow t0])
      \<and> (reply \<noteq> SendFailed \<longrightarrow> (\<forall>t tier reply. EvWorker t tier reply \<notin> set vs))"
    if "es = us @ EvWorker t tier reply # vs" for us t tier reply vs
  proof -
    from es(2) that have "event_ok (\<lambda>_. True) cfg task us (EvWorker t tier reply)" unfolding orderly_def by blast
    then have "\<exists>us' t0. us = us' @ [EvCanStart True, EvNow t0]" by (auto simp: event_ok_def work_ok_def)
    moreover have "EvWorker t' tier' reply' \<notin> set vs" if "reply \<noteq> SendFailed" for t' tier' reply'
      using orderly_after_accepted(2) [OF es(2) [unfolded \<open>es = _\<close>]] that by simp
    ultimately show ?thesis by blast
  qed
  with es show ?thesis by (auto simp: sendless_def)
qed

theorem forwarded_stays_local_witness:
  "\<exists>r w'. run_state (handle_forwarded 0 demo_node_env demo_cfg demo_request) demo_forwarded_world = (r, w')
     \<and> (\<exists>us reply vs. wd_trace w' = us @ reply # vs \<and> accepted reply \<and> (\<forall>n fr. EvSend n fr \<notin> set us \<union> set vs))"
proof -
  obtain r w' us task vs where
    w: "run_state (handle_forwarded 0 demo_node_env demo_cfg demo_request) demo_forwarded_world = (r, w')"
    and t: "wd_trace w' = us @ EvWorker task Tier1WarmTracking ReplyDropped # vs"
    using demo_forwarded by (metis split_list)
  from forwarded_stays_local [OF w] t have "\<forall>n fr. EvSend n fr \<notin> set us \<union> set vs"
    by (auto simp: demo_forwarded_world_def demo_world_def)
  with w t show ?thesis by (intro exI conjI) auto
qed

text \<open>A node that is shutting down starts no native render, for public and for forwarded
  requests alike, as long as nothing clears its draining flag.\<close>

theorem draining_starts_no_render:
  assumes "\<forall>s e. ns_draining s \<longrightarrow> ns_draining (fst (en_interfere E s e))"
    and "ns_draining (wd_shared w)"
    and "run_state (handle_incoming turns E cfg task) w = (r, w')
      \<or> run_state (handle_forwarded turns E cfg fwd) w = (r, w')"
  shows "\<exists>es. wd_trace w' = wd_trace w @ es \<and> (\<forall>t tier reply. EvWorker t tier reply \<notin> set es)
    \<and> ns_draining (wd_shared w')"
proof -
  note D = draining_gate [OF assms(1)]
  note inv = gated_node.holds_def [OF D]
  from assms(3) show ?thesis
  proof
    assume "run_state (handle_incoming turns E cfg task) w = (r, w')"
    from emitsD [OF gated_node.handle_incoming_orderly [OF D] _ this]
    obtain es where "wd_trace w' = wd_trace w @ es" "orderly Not cfg task es" "ns_draining (wd_shared w')"
      by (auto simp: inv assms(2))
    then show ?thesis using orderly_closed_gate by blast
  next
    assume "run_state (handle_forwarded turns E cfg fwd) w = (r, w')"
    from emits_run [OF gated_node.handle_forwarded_orderly [OF D] _ this]
    obtain es task where "wd_trace w' = wd_trace w @ es" "orderly Not cfg task es" "ns_draining (wd_shared w')"
      by (auto simp: inv assms(2))
    then show ?thesis using orderly_closed_gate by blast
  qed
qed

end
