(* ===== verification/Node_Protocol.thy ===== *)
theory Node_Protocol
  imports Node_Traces
begin

text \<open>
  Further properties of the handlers of \<open>Node\<close>: every render flight a handler leads is released,
  handlers answer, the pool call refines the sequential one, and gossiping only what changed keeps a
  peer's picture complete.
\<close>

section \<open>Flights are released\<close>

definition net :: "flight_leader \<Rightarrow> node_event list \<Rightarrow> int" where
  "net k es = int (count_list es (EvLead k)) - int (count_list es (EvDropLeader k))"

lemma net_simps [simp]:
  "net k [] = 0" "net k (es @ es') = net k es + net k es'"
  "net k (EvNow t # es) = net k es" "net k (EvCanStart b # es) = net k es"
  "net k (EvPrepare task # es) = net k es" "net k (EvSend n fr # es) = net k es"
  "net k (EvWorker task tier reply # es) = net k es"
  "net k (EvMarkStyleLoadFailed r a # es) = net k es" "net k (EvMetric m # es) = net k es"
  "net k (EvLead l # es) = (if l = k then 1 else 0) + net k es"
  "net k (EvDropLeader l # es) = net k es - (if l = k then 1 else 0)"
  by (simp_all add: net_def)

abbreviation flat :: "flight_leader \<Rightarrow> ('e, 'a) node_m \<Rightarrow> bool" where
  "flat k m \<equiv> emits any_node.holds m (\<lambda>_ es. net k es = 0)"

lemma flat_bind: "flat k m \<Longrightarrow> (\<And>a. flat k (f a)) \<Longrightarrow> flat k (State_Monad.bind m f)"
  by (rule emits_bind, assumption) simp

lemma flat_primitives:
  "flat k (State_Monad.return x)" "flat k (ask g)" "flat k (observe E)" "flat k (put_shared s)"
  "flat k (record_metric m)" "flat k (clock_now E)" "flat k (can_start_render E)"
  "flat k (emit (EvPrepare task))" "flat k (emit (EvSend n fr))" "flat k (emit (EvWorker task tier reply))"
  "flat k (emit (EvMarkStyleLoadFailed r a))"
  by (auto simp: emits_def any_node.holds_def ask_def observe_def put_shared_def record_metric_def emit_def
      clock_now_def can_start_render_def split: prod.splits)

lemma flat_handlers:
  "flat k (renderer_degraded_reject task)" "flat k (prepare_local_profile E task)"
  "flat k (forward_budget_too_small E task)" "flat k (record_ingress_outcome oc)"
  "flat k (record_forwarded_outcome oc)" "flat k (must_shed E miss)" "flat k (local_dispatch_state E cfg)"
  unfolding renderer_degraded_reject_def renderer_degraded_reason_def prepare_local_profile_def
    forward_budget_too_small_def record_ingress_outcome_def record_forwarded_outcome_def must_shed_def
    local_dispatch_state_def
  by (auto intro!: flat_bind flat_primitives)

lemma flat_local_task: "flat k (process_local_task E cfg task pp tier hint)"
  unfolding process_local_task_def pool_process_def
  by (auto intro!: flat_bind flat_primitives split: sum.splits)

lemma flat_answer: "flat k (forward_answer E task sent prev saw)"
  unfolding forward_answer_def
  by (auto intro!: flat_bind flat_primitives split: sent.splits option.splits simp del: is_retryable_at_forward.simps)

lemma flat_candidates: "flat k (forward_candidates E cfg task tier cs prev saw)"
  by (induction cs arbitrary: prev saw)
    (auto intro!: flat_bind flat_primitives flat_handlers flat_answer split: sum.splits)

lemma flat_failover: "flat k (forward_with_failover E cfg task tier cs)"
  unfolding forward_with_failover_def overflow_fallback_def
  by (auto intro!: flat_bind flat_primitives flat_handlers flat_local_task flat_candidates
      split: sum.splits process_error.splits)

lemma flat_route: "flat k (process_local_route E cfg task tier hint fallback)"
  unfolding process_local_route_def
  by (auto intro!: flat_bind flat_primitives flat_handlers flat_local_task flat_failover
      split: sum.splits process_error.splits)

lemma flat_insert: "flat k (maybe_insert_render_output_cache E flight oc)"
  unfolding maybe_insert_render_output_cache_def Let_def
  by (auto intro!: flat_bind flat_primitives split: option.splits prod.splits)

lemma flat_incoming_miss: "flat k (incoming_miss E cfg task flight)"
  unfolding incoming_miss_def dispatch_decision_def returned_def renderer_degraded_reason_def
  by (auto intro!: flat_bind flat_primitives flat_handlers flat_route flat_failover flat_insert
      split: option.splits decision.splits)

lemma flat_forwarded_miss: "flat k (forwarded_miss E cfg meta task tier hint flight)"
  unfolding forwarded_miss_def
  by (auto intro!: flat_bind flat_primitives flat_handlers flat_local_task flat_insert
      split: sum.splits process_error.splits)

text \<open>The flight a cache acquisition ends with.\<close>

fun held :: "flight_leader \<Rightarrow> (task_outcome + flight_leader option) run \<Rightarrow> int" where
  "held k (Returned (Inr (Some l))) = (if l = k then 1 else 0)"
| "held k _ = 0"

definition led :: "flight_leader \<Rightarrow> flight_leader \<Rightarrow> render_cache_lookup \<Rightarrow> int" where
  "led k leader l = (if l = Leader \<and> leader = k then 1 else 0)"

lemma note_lookup_net: "emits any_node.holds (note_lookup leader l) (\<lambda>_ es. net k es = led k leader l)"
  unfolding note_lookup_def led_def by (cases l) (auto intro!: any_node.wp)

lemma lookup_net:
  "emits any_node.holds (cache_lookup E cfg task) (\<lambda>l es. net k es = led k (task_leader cfg task) l)"
  "emits any_node.holds (follower_recheck E cfg task) (\<lambda>l es. net k es = led k (task_leader cfg task) l)"
  unfolding cache_lookup_def follower_recheck_def Let_def
  by (auto intro!: any_node.wp emits_bind [OF note_lookup_net [where k = k]] split: prod.splits)

lemma drop_leader_net: "emits any_node.holds (drop_leader E l) (\<lambda>_ es. net k es = - (if l = k then 1 else 0))"
  unfolding drop_leader_def by (auto intro!: any_node.wp)

lemma acquire_settled_net:
  "emits any_node.holds (acquire_settled E cfg task miss l)
     (\<lambda>r es. net k es = held k r - led k (task_leader cfg task) l)"
  unfolding acquire_settled_def
  by (cases l) (auto intro!: any_node.wp emits_bind [OF flat_handlers(6) [where k = k]] emits_bind [OF flat_handlers(1) [where k = k]]
      emits_bind [OF drop_leader_net [where k = k]] simp: led_def)

lemma acquire_loop_net:
  "emits any_node.holds (acquire_loop turns E cfg task miss joined l)
     (\<lambda>r es. net k es = held k r - led k (task_leader cfg task) l)"
proof (induction turns arbitrary: joined l)
  case 0
  then show ?case by (simp add: acquire_settled_net)
next
  case (Suc turns)
  have "emits any_node.holds (acquire_loop turns E cfg task miss True l') (\<lambda>r es'. net k es + net k es' = held k r)"
    if "net k es = led k (task_leader cfg task) l'" for l' es
    by (rule emits_mono [OF Suc.IH]) (simp add: that)
  moreover have "led k (task_leader cfg task) Wait = 0" by (simp add: led_def)
  ultimately show ?case
    by (auto intro!: any_node.wp acquire_settled_net emits_bind [OF lookup_net(2) [where k = k]])
qed

lemma acquire_net:
  "emits any_node.holds (acquire_render_output_cache turns E cfg task miss) (\<lambda>r es. net k es = held k r)"
  unfolding acquire_render_output_cache_def
  by (rule emits_bind [OF lookup_net(1) [where k = k]], rule emits_mono [OF acquire_loop_net [where k = k]]) simp

lemma drop_flight_net: "emits any_node.holds (drop_flight E flight) (\<lambda>_ es. net k es = - held k (Returned (Inr flight)))"
proof (cases flight)
  case None
  then show ?thesis by (auto simp: drop_flight_def intro!: any_node.wp)
next
  case (Some l)
  have "emits any_node.holds (drop_leader E l) (\<lambda>_ es. net k es = - held k (Returned (Inr (Some l))))"
    by (rule emits_mono [OF drop_leader_net [where k = k]]) simp
  with Some show ?thesis by (simp add: drop_flight_def)
qed

text \<open>The scope of a guard: acquired, used, dropped.\<close>

lemma flight_scope:
  assumes "\<And>flight. flat k (body flight)" and "\<And>oc. flat k (settle oc)"
  shows "flat k (acquire_render_output_cache turns E cfg task miss \<bind> (\<lambda>acquired. case acquired of
         Waiting \<Rightarrow> State_Monad.return Waiting
       | Panicked \<Rightarrow> State_Monad.return Panicked
       | Returned (Inl oc) \<Rightarrow> settle oc
       | Returned (Inr flight) \<Rightarrow> body flight \<bind> (\<lambda>r. drop_flight E flight \<bind> (\<lambda>_. State_Monad.return (g r)))))"
proof (rule emits_bind [OF acquire_net [where k = k]])
  fix acquired es assume es: "net k es = held k acquired"
  have scope: "emits any_node.holds (body flight \<bind> (\<lambda>r. drop_flight E flight \<bind> (\<lambda>_. State_Monad.return (g r))))
      (\<lambda>_ es'. net k es' = - held k (Returned (Inr flight)))" for flight
    by (rule emits_bind [OF assms(1)], rule emits_bind [OF drop_flight_net [where k = k]]) (auto intro!: any_node.wp)
  show "emits any_node.holds (case acquired of
         Waiting \<Rightarrow> State_Monad.return Waiting
       | Panicked \<Rightarrow> State_Monad.return Panicked
       | Returned (Inl oc) \<Rightarrow> settle oc
       | Returned (Inr flight) \<Rightarrow> body flight \<bind> (\<lambda>r. drop_flight E flight \<bind> (\<lambda>_. State_Monad.return (g r))))
      (\<lambda>_ es'. net k (es @ es') = 0)"
    using es by (auto intro!: any_node.wp emits_mono [OF assms(2)] emits_mono [OF scope] split: run.splits sum.splits)
qed

lemma handle_incoming_flat: "flat k (handle_incoming turns E cfg task)"
  unfolding handle_incoming_def returned_def
  by (auto intro!: flat_bind flat_primitives flat_handlers flight_scope [where g = "\<lambda>r. r"] flat_incoming_miss)

lemma handle_forwarded_flat: "flat k (handle_forwarded turns E cfg fwd)"
  unfolding handle_forwarded_def Let_def returned_def
  by (auto intro!: flat_bind flat_primitives flat_handlers flight_scope [where g = Returned] flat_forwarded_miss
      split: option.splits)

section \<open>Handlers answer\<close>

text \<open>A bound on how often followers are still woken, which the environment never raises.\<close>

definition wakeups_bounded :: "('e \<Rightarrow> nat) \<Rightarrow> 'e node_env \<Rightarrow> bool" where
  "wakeups_bounded \<mu> E \<longleftrightarrow>
     (\<forall>d e. fst (en_follow E d e) \<longrightarrow> \<mu> (snd (en_follow E d e)) < \<mu> e)
     \<and> (\<forall>s e. \<mu> (snd (en_interfere E s e)) \<le> \<mu> e) \<and> (\<forall>e. \<mu> (snd (en_now E e)) \<le> \<mu> e)"

lemma wakeups_boundedD:
  assumes "wakeups_bounded \<mu> E"
  shows "en_follow E d e = (True, e') \<Longrightarrow> \<mu> e' < \<mu> e" "en_interfere E s e = (s', e') \<Longrightarrow> \<mu> e' \<le> \<mu> e"
    "en_now E e = (t, e') \<Longrightarrow> \<mu> e' \<le> \<mu> e"
  using assms unfolding wakeups_bounded_def by (metis fst_conv snd_conv)+

lemma observe_bound:
  "wakeups_bounded \<mu> E \<Longrightarrow> run_state (observe E) w = (s, w') \<Longrightarrow> \<mu> (wd_env w') \<le> \<mu> (wd_env w)"
  by (auto simp: observe_def dest: wakeups_boundedD split: prod.splits)

lemma note_lookup_env: "run_state (note_lookup leader l) w = (u, w') \<Longrightarrow> wd_env w' = wd_env w"
  by (auto simp: note_lookup_def emit_def split: render_cache_lookup.splits)

lemma lookups_bound:
  assumes "wakeups_bounded \<mu> E"
  shows "run_state (cache_lookup E cfg task) w = (l, w') \<Longrightarrow> \<mu> (wd_env w') \<le> \<mu> (wd_env w)"
    and "run_state (follower_recheck E cfg task) w = (l, w') \<Longrightarrow> \<mu> (wd_env w') \<le> \<mu> (wd_env w)"
  by (auto simp: cache_lookup_def follower_recheck_def put_shared_def Let_def split: prod.splits
      dest!: observe_bound [OF assms] note_lookup_env)

lemma clock_bound:
  "wakeups_bounded \<mu> E \<Longrightarrow> run_state (clock_now E) w = (t, w') \<Longrightarrow> \<mu> (wd_env w') \<le> \<mu> (wd_env w)"
  by (auto simp: clock_now_def ask_def emit_def dest: wakeups_boundedD split: prod.splits)

lemma acquire_settled_settles: "l \<noteq> Wait \<Longrightarrow> run_state (acquire_settled E cfg task miss l) w = (r, w') \<Longrightarrow> r \<noteq> Waiting"
  by (cases l) (auto simp: acquire_settled_def split: prod.splits if_splits)

lemma acquire_loop_settles:
  assumes "wakeups_bounded \<mu> E"
  shows "\<mu> (wd_env w) < turns \<Longrightarrow> run_state (acquire_loop turns E cfg task miss joined l) w = (r, w') \<Longrightarrow> r \<noteq> Waiting"
proof (induction turns arbitrary: joined l w)
  case (Suc turns)
  show ?case
  proof (cases "l = Wait")
    case True
    define w1 where "w1 = snd (run_state (if joined then State_Monad.return () else record_metric OutputCacheCoalesced) w)"
    have w1: "run_state (if joined then State_Monad.return () else record_metric OutputCacheCoalesced) w = ((), w1)"
      and e1: "wd_env w1 = wd_env w"
      by (simp_all add: w1_def record_metric_def emit_def)
    obtain changed e where f: "en_follow E (it_deadline task) (wd_env w) = (changed, e)" by fastforce
    show ?thesis
    proof (cases changed)
      case changed: True
      obtain l' w2 where l': "run_state (follower_recheck E cfg task) (w1\<lparr>wd_env := e\<rparr>) = (l', w2)" by fastforce
      with lookups_bound(2) [OF assms this] wakeups_boundedD(1) [OF assms] f changed
      have "\<mu> (wd_env w2) < \<mu> (wd_env w)" by fastforce
      with Suc.prems True w1 f e1 l' changed Suc.IH [of w2 True l'] show ?thesis
        by (auto simp: ask_def split: prod.splits)
    qed (use Suc.prems True w1 f e1 in \<open>auto simp: ask_def split: prod.splits\<close>)
  qed (use Suc.prems in \<open>auto dest: acquire_settled_settles\<close>)
qed simp

lemma acquire_settles:
  assumes "wakeups_bounded \<mu> E" and "\<mu> (wd_env w) < turns"
    and "run_state (acquire_render_output_cache turns E cfg task miss) w = (r, w')"
  shows "r \<noteq> Waiting"
proof -
  obtain l w1 where l: "run_state (cache_lookup E cfg task) w = (l, w1)" by fastforce
  with lookups_bound(1) [OF assms(1) this] assms(2) have "\<mu> (wd_env w1) < turns" by simp
  from acquire_loop_settles [OF assms(1) this] assms(3) l show ?thesis
    by (simp add: acquire_render_output_cache_def)
qed

lemma incoming_miss_settles:
  assumes "\<forall>e. get_or_load (nc_view_ttl cfg) (it_deadline task) (fst (en_view E e)) \<noteq> None"
    and "run_state (incoming_miss E cfg task flight) w = (r, w')"
  shows "r \<noteq> Waiting"
proof -
  obtain its e where v: "en_view E (wd_env w) = (its, e)" by fastforce
  with assms(1) have "get_or_load (nc_view_ttl cfg) (it_deadline task) its \<noteq> None" by (metis fst_conv)
  with assms(2) v show ?thesis
    by (auto simp: incoming_miss_def ask_def returned_def split: prod.splits option.splits if_splits)
qed



text \<open>Whatever happens in between, errors and panics included, every render flight that a handler
  leads is dropped by it exactly as often: no key stays in flight after its request.\<close>

theorem flights_released:
  assumes "run_state (handle_incoming turns E cfg task) w = (r, w')
    \<or> run_state (handle_forwarded turns E cfg fwd) w = (r, w')"
  shows "\<exists>es. wd_trace w' = wd_trace w @ es
    \<and> (\<forall>leader. count_list es (EvLead leader) = count_list es (EvDropLeader leader))"
proof -
  have "\<exists>es. wd_trace w' = wd_trace w @ es \<and> net k es = 0" for k
    using assms emits_run [OF handle_incoming_flat [where k = k and turns = turns and E = E and cfg = cfg and task = task], of w r w']
      emits_run [OF handle_forwarded_flat [where k = k and turns = turns and E = E and cfg = cfg and fwd = fwd], of w r w'] by (auto simp: any_node.holds_def)
  then have "net k (drop (length (wd_trace w)) (wd_trace w')) = 0
      \<and> wd_trace w' = wd_trace w @ drop (length (wd_trace w)) (wd_trace w')" for k
    by (metis append_eq_conv_conj)
  then show ?thesis by (intro exI [of _ "drop (length (wd_trace w)) (wd_trace w')"]) (simp add: net_def)
qed

section \<open>The pool call\<close>

text \<open>A node's call of the pool, with no other handler running meanwhile, is the sequential
  \<open>process\<close> of the pool on the same clock reading, source, hint and worker reply, and touches nothing
  else of the shared state.\<close>

theorem pool_process_refines:
  assumes "run_state (pool_process (alone E) cfg task pp tier hint) w = (r, w')"
    and "en_now E (wd_env w) = (now, e)"
  shows "process now (ns_pool (wd_shared w)) task (prepared_source_id (nc_hasher cfg) pp) hint
      (\<lambda>ad. fst (en_worker E task pp tier ad e)) = (r, ns_pool (wd_shared w'))
    \<and> wd_shared w' = (wd_shared w)\<lparr>ns_pool := ns_pool (wd_shared w')\<rparr>"
proof (cases "process_admit now (ns_pool (wd_shared w)) task (prepared_source_id (nc_hasher cfg) pp) hint")
  case (Inl err)
  with assms show ?thesis
    by (auto simp: pool_process_def clock_now_def ask_def emit_def observe_def alone_def process_def)
next
  case (Inr x)
  obtain ad pl where x: "x = (ad, pl)" by fastforce
  obtain reply e' where reply: "en_worker E task pp tier ad e = (reply, e')" by fastforce
  with assms Inr x show ?thesis
    by (cases reply) (auto simp: pool_process_def clock_now_def ask_def emit_def observe_def put_shared_def alone_def process_def)
qed

section \<open>Gossiping what changed\<close>

text \<open>The peers' copy of this node's keys: \<open>set_many\<close> upserts. A history is a list of what the publisher
  saw at its turns; its state is what it last sent, with the copy.\<close>

definition gossip_set_many :: "node_kvs \<Rightarrow> node_kvs \<Rightarrow> node_kvs" where
  "gossip_set_many changed store = fold (\<lambda>(k, v). bt_insert k v) changed store"

definition publish :: "pool \<times> bool \<Rightarrow> node_kvs \<times> node_kvs \<Rightarrow> node_kvs \<times> node_kvs" where
  "publish seen st =
     (case publisher_turn (fst seen) (snd seen) (fst st) of
        (None, kvs) \<Rightarrow> (kvs, snd st)
      | (Some changed, kvs) \<Rightarrow> (kvs, gossip_set_many changed (snd st)))"

lemma gossip_set_many_sorted: "bt_sorted store \<Longrightarrow> bt_sorted (gossip_set_many changed store)"
  unfolding gossip_set_many_def by (induction changed arbitrary: store) auto

lemma gossip_set_many_lookup:
  "bt_sorted store \<Longrightarrow> distinct (map fst changed) \<Longrightarrow>
     map_of (gossip_set_many changed store) x = (case map_of changed x of Some v \<Rightarrow> Some v | None \<Rightarrow> map_of store x)"
proof (induction changed arbitrary: store)
  case (Cons kv changed)
  then have "map_of changed (fst kv) = None" by (auto simp: map_of_eq_None_iff)
  with Cons.IH [of "bt_insert (fst kv) (snd kv) store"] Cons.prems show ?case
    by (cases kv) (auto simp: gossip_set_many_def split: option.splits)
qed (simp add: gossip_set_many_def)

lemma encode_worker_kvs_keys:
  "fst ` set (encode_worker_kvs out i p q) =
     {worker_key i ''queue'', worker_key i ''scale'', worker_key i ''mode'', worker_key i ''style''} \<union> fst ` set out"
proof -
  obtain a b c where "profile_gossip_values p = (a, b, c)" by (metis prod.exhaust)
  then show ?thesis by (auto simp: encode_worker_kvs_def)
qed

lemma snapshot_kvs_keys:
  "fst ` set (snapshot_kvs pl) = (\<Union>i\<in>{..<length (pl_depths pl)}.
     {worker_key (of_nat i) ''queue'', worker_key (of_nat i) ''scale'', worker_key (of_nat i) ''mode'', worker_key (of_nat i) ''style''})"
proof -
  have "fst ` set (fold (\<lambda>i out. encode_worker_kvs out (of_nat i) (f i) (g i)) ixs out) = fst ` set out \<union> (\<Union>i\<in>set ixs.
     {worker_key (of_nat i) ''queue'', worker_key (of_nat i) ''scale'', worker_key (of_nat i) ''mode'', worker_key (of_nat i) ''style''})"
    for ixs f g out
    by (induction ixs arbitrary: out) (auto simp: encode_worker_kvs_keys)
  then show ?thesis by (simp add: snapshot_kvs_def atLeast0LessThan)
qed

lemma publisher_kvs_keys:
  "length (pl_depths pl) = length (pl_depths pl') \<Longrightarrow> fst ` set (publisher_kvs pl a) = fst ` set (publisher_kvs pl' a')"
  by (simp add: publisher_kvs_def snapshot_kvs_keys)

lemma snapshot_kvs_sorted: "bt_sorted (snapshot_kvs pl)"
proof -
  have "bt_sorted out \<Longrightarrow> bt_sorted (fold (\<lambda>i out. encode_worker_kvs out (of_nat i) (f i) (g i)) ixs out)" for f g ixs out
    by (induction ixs arbitrary: out) (simp_all add: encode_worker_kvs_def split: prod.splits)
  then show ?thesis by (simp add: snapshot_kvs_def)
qed

lemma publisher_kvs_sorted: "bt_sorted (publisher_kvs pl a)"
  by (simp add: publisher_kvs_def snapshot_kvs_sorted)

lemma map_of_filter:
  "distinct (map fst xs) \<Longrightarrow> map_of (filter P xs) x =
     (case map_of xs x of None \<Rightarrow> None | Some v \<Rightarrow> if P (x, v) then Some v else None)"
proof (induction xs)
  case (Cons y xs)
  then have "map_of xs (fst y) = None" "map_of (filter P xs) (fst y) = None"
    by (auto simp: map_of_eq_None_iff)
  with Cons show ?case by (cases y) (auto split: option.splits)
qed simp

text \<open>One turn brings a complete copy up to date.\<close>

lemma publish_step:
  assumes "bt_sorted last_sent" and "last_sent = [] \<or> fst ` set last_sent = fst ` set (publisher_kvs pl a)"
  shows "publish (pl, a) (last_sent, last_sent) = (publisher_kvs pl a, publisher_kvs pl a)"
proof -
  let ?kvs = "publisher_kvs pl a"
  let ?changed = "filter (\<lambda>(k, v). map_of last_sent k \<noteq> Some v) ?kvs"
  have d: "distinct (map fst ?kvs)" by (simp add: bt_sorted_distinct publisher_kvs_sorted)
  then have dc: "distinct (map fst ?changed)" by (rule distinct_map_filter)
  have ch: "map_of ?changed x = (case map_of ?kvs x of None \<Rightarrow> None
      | Some v \<Rightarrow> if map_of last_sent x = Some v then None else Some v)" for x
    unfolding map_of_filter [OF d] by (simp split: option.splits)
  have none: "map_of last_sent x = None" if "map_of ?kvs x = None" for x
    using assms(2) that by (auto simp: map_of_eq_None_iff)
  have "map_of (gossip_set_many ?changed last_sent) x = map_of ?kvs x" for x
    unfolding gossip_set_many_lookup [OF assms(1) dc] ch using none by (auto split: option.splits)
  then have "gossip_set_many ?changed last_sent = ?kvs"
    by (intro bt_sorted_eqI) (auto simp: gossip_set_many_sorted assms(1) publisher_kvs_sorted)
  then show ?thesis
    by (auto simp: publish_def publisher_turn_def Let_def gossip_set_many_def)
qed

lemma publish_history:
  assumes "\<forall>seen\<in>set hist. length (pl_depths (fst seen)) = n"
  shows "fold publish hist ([], []) = (if hist = [] then ([], []) else
    (publisher_kvs (fst (last hist)) (snd (last hist)), publisher_kvs (fst (last hist)) (snd (last hist))))"
  using assms
proof (induction hist rule: rev_induct)
  case (snoc seen hist)
  let ?st = "fst (fold publish hist ([], []))"
  have "fold publish hist ([], []) = (?st, ?st)" "bt_sorted ?st"
    using snoc by (auto simp: publisher_kvs_sorted)
  moreover have "?st = [] \<or> fst ` set ?st = fst ` set (publisher_kvs (fst seen) (snd seen))"
    using snoc by (cases hist rule: rev_cases) (auto intro!: publisher_kvs_keys)
  ultimately show ?case using publish_step [of ?st "fst seen" "snd seen"] by simp
qed simp

text \<open>C17: gossiping only the keys that changed since the last turn refines gossiping everything: after
  any history of a node's publisher, a peer's copy decodes to the pool's snapshot and admission flag
  of the last turn.\<close>

theorem publisher_delta_complete:
  assumes "\<forall>seen\<in>set hist. length (pl_depths (fst seen)) = n" and "n \<le> 2 ^ 32"
    and "\<forall>w\<in>set (snapshot_workers pl). valid_worker_view w" and "length (pl_depths pl) = n"
  shows "from_kvs node (snd (fold publish (hist @ [(pl, accepts)]) ([], []))) =
    \<lparr>nsv_id = node, nsv_accepts_new_renders = accepts, nsv_workers = snapshot_workers pl\<rparr>"
proof -
  have "snd (fold publish (hist @ [(pl, accepts)]) ([], [])) = publisher_kvs pl accepts"
    using publish_history [of "hist @ [(pl, accepts)]" n] assms(1,4) by simp
  moreover have "from_kvs node (publisher_kvs pl accepts) =
    \<lparr>nsv_id = node, nsv_accepts_new_renders = accepts, nsv_workers = snapshot_workers pl\<rparr>"
    unfolding publisher_kvs_def snapshot_kvs_views
    using from_kvs_encode [OF snapshot_workers_sorted [of pl] assms(3)] assms(2,4) by simp
  ultimately show ?thesis by simp
qed

theorem publisher_delta_complete_witness:
  "from_kvs ''n'' (snd (fold publish [(demo_pool, True), (demo_pool, False)] ([], []))) =
    \<lparr>nsv_id = ''n'', nsv_accepts_new_renders = False, nsv_workers = snapshot_workers demo_pool\<rparr>"
proof -
  have n: "length (pl_depths demo_pool) = 2" by (simp add: demo_pool_def pool_spawn_def Let_def)
  have "\<forall>w\<in>set (snapshot_workers demo_pool). valid_worker_view w"
    by (simp add: snapshot_workers_def demo_pool_def pool_spawn_def pool_state_new_def Let_def numeral_2_eq_2
        valid_worker_view_def)
  with publisher_delta_complete [of "[(demo_pool, True)]" 2 demo_pool "''n''" False] n show ?thesis by simp
qed

end
