(* ===== verification/Pmtiles_Format.thy ===== *)
theory Pmtiles_Format
  imports Interfaces
begin

text \<open>
  \<^verbatim>\<open>crates/mmpf-pmtiles/src/format.rs\<close>: the PMTiles v3 archive format. Tile coordinates and Hilbert tile
  ids, the fixed-size header, varints, directories and the search of a tile in them. The Hilbert curve
  and the three decompressors are third-party code and arguments here; a fixed-point coordinate of the
  header is its exact rational value.
\<close>

section \<open>Errors\<close>

datatype format_error =
    InvalidZoom | InvalidCoord u8 u32 u32 | InvalidTileIdValue u64
  | InvalidCompression u8 | InvalidTileType u8
  | HeaderTruncated nat | InvalidMagic | UnsupportedVersion u8 | SectionOverflow string
  | VarintEof | VarintTooLarge | EntryCountOverflow | EntryCountTooLarge u64 nat
  | TileIdOverflow | NotU32 | InvalidEntry | OffsetOverflow
  | UnsupportedCompression | DecoderFailed string | LimitOverflow | PayloadTooLarge nat

section \<open>Tile coordinates and ids\<close>

definition max_zoom_level :: u8 where
  "max_zoom_level = 31"

definition max_tile_id :: u64 where
  "max_tile_id = 6148914691236517204"

record tile_coord =
  tc_z :: u8
  tc_x :: u32
  tc_y :: u32

text \<open>\<open>1u64.checked_shl\<close>\<close>

definition one_checked_shl :: "nat \<Rightarrow> u64 option" where
  "one_checked_shl n = (if n < 64 then Some (push_bit n 1) else None)"

definition tile_coord_new :: "u8 \<Rightarrow> u32 \<Rightarrow> u32 \<Rightarrow> format_error + tile_coord" where
  "tile_coord_new z x y =
     (case one_checked_shl (unat z) of
        None \<Rightarrow> Inl InvalidZoom
      | Some extent \<Rightarrow>
          if max_zoom_level < z \<or> extent \<le> ucast x \<or> extent \<le> ucast y then Inl (InvalidCoord z x y)
          else Inr \<lparr>tc_z = z, tc_x = x, tc_y = y\<rparr>)"

definition tile_id_new :: "u64 \<Rightarrow> format_error + u64" where
  "tile_id_new v = (if max_tile_id < v then Inl (InvalidTileIdValue v) else Inr v)"

definition pyramid_size_before_zoom :: "u8 \<Rightarrow> u64" where
  "pyramid_size_before_zoom z =
     (case one_checked_shl (unat z * 2) of
        Some n \<Rightarrow> (n - 1) div 3
      | None \<Rightarrow> (- 1) div 3)"

text \<open>\<open>xy2h\<close> is the Hilbert curve of \<open>fast_hilbert\<close>.\<close>

definition tile_id_of_coord :: "(u32 \<Rightarrow> u32 \<Rightarrow> u8 \<Rightarrow> u64) \<Rightarrow> tile_coord \<Rightarrow> u64" where
  "tile_id_of_coord xy2h c =
     (if tc_z c = 0 then 0 else pyramid_size_before_zoom (tc_z c) + xy2h (tc_x c) (tc_y c) (tc_z c))"

section \<open>Compression and tile types\<close>

datatype compression = CUnknown | CNone | CGzip | CBrotli | CZstd

definition content_encoding :: "compression \<Rightarrow> string option" where
  "content_encoding c =
     (case c of CGzip \<Rightarrow> Some ''gzip'' | CBrotli \<Rightarrow> Some ''br'' | CZstd \<Rightarrow> Some ''zstd'' | _ \<Rightarrow> None)"

definition compression_try_from :: "u8 \<Rightarrow> format_error + compression" where
  "compression_try_from v =
     (if v = 0 then Inr CUnknown else if v = 1 then Inr CNone else if v = 2 then Inr CGzip
      else if v = 3 then Inr CBrotli else if v = 4 then Inr CZstd else Inl (InvalidCompression v))"

datatype tile_type = TUnknown | TMvt | TPng | TJpeg | TWebp | TAvif | TMlt

definition mlt_content_type :: string where
  "mlt_content_type = ''application/vnd.maplibre-tile''"

fun tile_content_type :: "tile_type \<Rightarrow> string" where
  "tile_content_type TMvt = ''application/vnd.mapbox-vector-tile''"
| "tile_content_type TPng = ''image/png''"
| "tile_content_type TJpeg = ''image/jpeg''"
| "tile_content_type TWebp = ''image/webp''"
| "tile_content_type TAvif = ''image/avif''"
| "tile_content_type TMlt = mlt_content_type"
| "tile_content_type TUnknown = ''application/octet-stream''"

fun tilejson_format :: "tile_type \<Rightarrow> string option" where
  "tilejson_format TMvt = Some ''pbf''"
| "tilejson_format TMlt = Some ''pbf''"
| "tilejson_format TPng = Some ''png''"
| "tilejson_format TJpeg = Some ''jpg''"
| "tilejson_format TWebp = Some ''webp''"
| "tilejson_format TAvif = Some ''avif''"
| "tilejson_format TUnknown = None"

fun tilejson_encoding :: "tile_type \<Rightarrow> string option" where
  "tilejson_encoding TMvt = Some ''mvt''"
| "tilejson_encoding TMlt = Some ''mlt''"
| "tilejson_encoding _ = None"

definition tile_type_try_from :: "u8 \<Rightarrow> format_error + tile_type" where
  "tile_type_try_from v =
     (if v = 0 then Inr TUnknown else if v = 1 then Inr TMvt else if v = 2 then Inr TPng
      else if v = 3 then Inr TJpeg else if v = 4 then Inr TWebp else if v = 5 then Inr TAvif
      else if v = 6 then Inr TMlt else Inl (InvalidTileType v))"

section \<open>The header\<close>

record header =
  hd_version :: u8
  hd_root_offset :: u64
  hd_root_length :: u64
  hd_metadata_offset :: u64
  hd_metadata_length :: u64
  hd_leaf_offset :: u64
  hd_leaf_length :: u64
  hd_data_offset :: u64
  hd_data_length :: u64
  hd_n_addressed_tiles :: u64
  hd_n_tile_entries :: u64
  hd_n_tile_contents :: u64
  hd_clustered :: bool
  hd_internal_compression :: compression
  hd_tile_compression :: compression
  hd_tile_type :: tile_type
  hd_min_zoom :: u8
  hd_max_zoom :: u8
  hd_min_longitude :: rat
  hd_min_latitude :: rat
  hd_max_longitude :: rat
  hd_max_latitude :: rat
  hd_center_zoom :: u8
  hd_center_longitude :: rat
  hd_center_latitude :: rat

definition header_size :: nat where
  "header_size = 127"

definition pmtiles_version :: u8 where
  "pmtiles_version = 3"

text \<open>\<open>Buf::get_*\<close> at a cursor position: the bytes there, least significant first.\<close>

definition le_value :: "bytes \<Rightarrow> nat" where
  "le_value bs = foldr (\<lambda>b acc. unat b + 256 * acc) bs 0"

definition u64_at :: "bytes \<Rightarrow> nat \<Rightarrow> u64" where
  "u64_at bs i = of_nat (le_value (take 8 (drop i bs)))"

definition u8_at :: "bytes \<Rightarrow> nat \<Rightarrow> u8" where
  "u8_at bs i = bs ! i"

definition read_coordinate_part :: "bytes \<Rightarrow> nat \<Rightarrow> rat" where
  "read_coordinate_part bs i =
     of_int (sint (of_nat (le_value (take 4 (drop i bs))) :: 32 word)) / 10000000"

fun first_overflow :: "(string \<times> u64 \<times> u64) list \<Rightarrow> string option" where
  "first_overflow [] = None"
| "first_overflow ((name, off, len) # rest) =
     (case checked_add off len of None \<Rightarrow> Some name | Some _ \<Rightarrow> first_overflow rest)"

definition header_sections :: "header \<Rightarrow> (string \<times> u64 \<times> u64) list" where
  "header_sections h =
     [(''root directory'', hd_root_offset h, hd_root_length h),
      (''metadata'', hd_metadata_offset h, hd_metadata_length h),
      (''leaf directory'', hd_leaf_offset h, hd_leaf_length h),
      (''tile data'', hd_data_offset h, hd_data_length h)]"

definition header_parse :: "bytes \<Rightarrow> format_error + header" where
  "header_parse bs =
     (if length bs < header_size then Inl (HeaderTruncated (length bs))
      else if take 7 bs \<noteq> [0x50, 0x4d, 0x54, 0x69, 0x6c, 0x65, 0x73] then Inl InvalidMagic
      else if u8_at bs 7 \<noteq> pmtiles_version then Inl (UnsupportedVersion (u8_at bs 7))
      else case compression_try_from (u8_at bs 97) of
        Inl e \<Rightarrow> Inl e
      | Inr internal \<Rightarrow>
          (case compression_try_from (u8_at bs 98) of
             Inl e \<Rightarrow> Inl e
           | Inr tile \<Rightarrow>
               (case tile_type_try_from (u8_at bs 99) of
                  Inl e \<Rightarrow> Inl e
                | Inr ty \<Rightarrow>
                    let h = \<lparr>hd_version = u8_at bs 7, hd_root_offset = u64_at bs 8, hd_root_length = u64_at bs 16,
                      hd_metadata_offset = u64_at bs 24, hd_metadata_length = u64_at bs 32,
                      hd_leaf_offset = u64_at bs 40, hd_leaf_length = u64_at bs 48,
                      hd_data_offset = u64_at bs 56, hd_data_length = u64_at bs 64,
                      hd_n_addressed_tiles = u64_at bs 72, hd_n_tile_entries = u64_at bs 80,
                      hd_n_tile_contents = u64_at bs 88, hd_clustered = (u8_at bs 96 \<noteq> 0),
                      hd_internal_compression = internal, hd_tile_compression = tile, hd_tile_type = ty,
                      hd_min_zoom = u8_at bs 100, hd_max_zoom = u8_at bs 101,
                      hd_min_longitude = read_coordinate_part bs 102, hd_min_latitude = read_coordinate_part bs 106,
                      hd_max_longitude = read_coordinate_part bs 110, hd_max_latitude = read_coordinate_part bs 114,
                      hd_center_zoom = u8_at bs 118, hd_center_longitude = read_coordinate_part bs 119,
                      hd_center_latitude = read_coordinate_part bs 123\<rparr>
                    in case first_overflow (header_sections h) of
                         Some name \<Rightarrow> Inl (SectionOverflow name)
                       | None \<Rightarrow> Inr h)))"

section \<open>Decompression\<close>

text \<open>What a decoder yields when it is read to its end: the bytes, or its error. The reader takes one
  byte more than the limit; an error past that is never met, so a decoder is a function of how much
  is read.\<close>

record decoders =
  dec_gzip :: "bytes \<Rightarrow> nat \<Rightarrow> string + bytes"
  dec_brotli :: "bytes \<Rightarrow> nat \<Rightarrow> string + bytes"
  dec_zstd :: "bytes \<Rightarrow> string + (nat \<Rightarrow> string + bytes)"

definition read_decompressed_limited :: "(nat \<Rightarrow> string + bytes) \<Rightarrow> nat \<Rightarrow> format_error + bytes" where
  "read_decompressed_limited reader max_bytes =
     (if max_bytes = u64_max then Inl LimitOverflow
      else case reader (max_bytes + 1) of
        Inl e \<Rightarrow> Inl (DecoderFailed e)
      | Inr out \<Rightarrow>
          let decompressed = take (max_bytes + 1) out
          in if max_bytes < length decompressed then Inl (PayloadTooLarge max_bytes) else Inr decompressed)"

definition decompress_bytes_with_limit :: "decoders \<Rightarrow> compression \<Rightarrow> bytes \<Rightarrow> nat \<Rightarrow> format_error + bytes" where
  "decompress_bytes_with_limit dec c bs max_bytes =
     (case c of
        CNone \<Rightarrow> if max_bytes < length bs then Inl (PayloadTooLarge max_bytes) else Inr bs
      | CGzip \<Rightarrow> read_decompressed_limited (dec_gzip dec bs) max_bytes
      | CBrotli \<Rightarrow> read_decompressed_limited (dec_brotli dec bs) max_bytes
      | CZstd \<Rightarrow>
          (case dec_zstd dec bs of
             Inl e \<Rightarrow> Inl (DecoderFailed e)
           | Inr reader \<Rightarrow> read_decompressed_limited reader max_bytes)
      | CUnknown \<Rightarrow> Inl UnsupportedCompression)"

section \<open>Varints\<close>

fun read_varint_from :: "nat \<Rightarrow> u64 \<Rightarrow> bytes \<Rightarrow> format_error + u64 \<times> bytes" where
  "read_varint_from shift acc [] = Inl VarintEof"
| "read_varint_from shift acc (b # bs) =
     (let payload = ucast (b AND 0x7f)
      in if shift = 63 \<and> 1 < payload then Inl VarintTooLarge
         else let acc' = acc OR push_bit shift payload
              in if b AND 0x80 = 0 then Inr (acc', bs)
                 else if 64 \<le> shift + 7 then Inl VarintTooLarge
                 else read_varint_from (shift + 7) acc' bs)"

definition read_u64_varint :: "bytes \<Rightarrow> format_error + u64 \<times> bytes" where
  "read_u64_varint buf = read_varint_from 0 0 buf"

section \<open>Directories\<close>

record directory_entry =
  de_tile_id :: u64
  de_offset :: u64
  de_length :: u32
  de_run_length :: u32

type_synonym directory = "directory_entry list"

definition is_leaf :: "directory_entry \<Rightarrow> bool" where
  "is_leaf e \<longleftrightarrow> de_run_length e = 0"

text \<open>One column of varints after another; the offsets use the lengths read before.\<close>

fun read_tile_ids :: "nat \<Rightarrow> u64 \<Rightarrow> bytes \<Rightarrow> format_error + u64 list \<times> bytes" where
  "read_tile_ids 0 next_id buf = Inr ([], buf)"
| "read_tile_ids (Suc n) next_id buf =
     (case read_u64_varint buf of
        Inl e \<Rightarrow> Inl e
      | Inr (d, buf) \<Rightarrow>
          (case checked_add next_id d of
             None \<Rightarrow> Inl TileIdOverflow
           | Some i \<Rightarrow>
               (case read_tile_ids n i buf of
                  Inl e \<Rightarrow> Inl e
                | Inr (ids, buf) \<Rightarrow> Inr (i # ids, buf))))"

fun read_u32s :: "nat \<Rightarrow> bytes \<Rightarrow> format_error + u32 list \<times> bytes" where
  "read_u32s 0 buf = Inr ([], buf)"
| "read_u32s (Suc n) buf =
     (case read_u64_varint buf of
        Inl e \<Rightarrow> Inl e
      | Inr (v, buf) \<Rightarrow>
          if u32_max < unat v then Inl NotU32
          else (case read_u32s n buf of
                  Inl e \<Rightarrow> Inl e
                | Inr (vs, buf) \<Rightarrow> Inr (ucast v # vs, buf)))"

fun read_offsets :: "u32 list \<Rightarrow> (u64 \<times> u32) option \<Rightarrow> bytes \<Rightarrow> format_error + u64 list \<times> bytes" where
  "read_offsets [] previous buf = Inr ([], buf)"
| "read_offsets (len # lens) previous buf =
     (case read_u64_varint buf of
        Inl e \<Rightarrow> Inl e
      | Inr (v, buf) \<Rightarrow>
          (case (if v = 0
                 then (case previous of
                         None \<Rightarrow> Inl InvalidEntry
                       | Some (off, prev_len) \<Rightarrow>
                           (case checked_add off (ucast prev_len) of None \<Rightarrow> Inl OffsetOverflow | Some o' \<Rightarrow> Inr o'))
                 else Inr (v - 1)) of
             Inl e \<Rightarrow> Inl e
           | Inr off \<Rightarrow>
               (case read_offsets lens (Some (off, len)) buf of
                  Inl e \<Rightarrow> Inl e
                | Inr (offs, buf) \<Rightarrow> Inr (off # offs, buf))))"

definition zip_entries :: "u64 list \<Rightarrow> u32 list \<Rightarrow> u32 list \<Rightarrow> u64 list \<Rightarrow> directory" where
  "zip_entries ids runs lens offs =
     map (\<lambda>(i, r, l, off). \<lparr>de_tile_id = i, de_offset = off, de_length = l, de_run_length = r\<rparr>)
       (zip ids (zip runs (zip lens offs)))"

definition directory_decode :: "bytes \<Rightarrow> format_error + directory" where
  "directory_decode buf0 =
     (case read_u64_varint buf0 of
        Inl e \<Rightarrow> Inl e
      | Inr (count', buf) \<Rightarrow>
          let n = unat count'
          in case usize_checked_mul n 4 of
               None \<Rightarrow> Inl EntryCountOverflow
             | Some minimum \<Rightarrow>
                 if length buf < minimum then Inl (EntryCountTooLarge count' (length buf))
                 else case read_tile_ids n 0 buf of
                   Inl e \<Rightarrow> Inl e
                 | Inr (ids, buf) \<Rightarrow>
                     (case read_u32s n buf of
                        Inl e \<Rightarrow> Inl e
                      | Inr (runs, buf) \<Rightarrow>
                          (case read_u32s n buf of
                             Inl e \<Rightarrow> Inl e
                           | Inr (lens, buf) \<Rightarrow>
                               (case read_offsets lens None buf of
                                  Inl e \<Rightarrow> Inl e
                                | Inr (offs, buf) \<Rightarrow> Inr (zip_entries ids runs lens offs)))))"

definition parse_with_limit :: "decoders \<Rightarrow> compression \<Rightarrow> bytes \<Rightarrow> nat \<Rightarrow> format_error + directory" where
  "parse_with_limit dec c bs max_bytes =
     (case decompress_bytes_with_limit dec c bs max_bytes of
        Inl e \<Rightarrow> Inl e
      | Inr buf \<Rightarrow> directory_decode buf)"

definition max_decompressed_bytes :: nat where
  "max_decompressed_bytes = 64 * 1024 * 1024"

definition directory_parse :: "decoders \<Rightarrow> compression \<Rightarrow> bytes \<Rightarrow> format_error + directory" where
  "directory_parse dec c bs = parse_with_limit dec c bs max_decompressed_bytes"

text \<open>The subtraction does not wrap on a sorted directory: the entry precedes the insertion point.\<close>

definition find_tile_id :: "directory \<Rightarrow> u64 \<Rightarrow> (nat \<times> directory_entry) option" where
  "find_tile_id dir t =
     (case binary_search_by de_tile_id dir t of
        Inr i \<Rightarrow> if i < length dir then Some (i, dir ! i) else None
      | Inl next_id \<Rightarrow>
          if 0 < next_id \<and> next_id - 1 < length dir then
            (let previous = dir ! (next_id - 1)
             in if is_leaf previous \<or> t - de_tile_id previous < ucast (de_run_length previous)
                then Some (next_id - 1, previous) else None)
          else None)"

section \<open>Varints are exact\<close>

text \<open>The number a sequence of varint bytes stands for, and its encoding.\<close>

definition varint_value :: "bytes \<Rightarrow> nat" where
  "varint_value bs = foldr (\<lambda>b acc. unat (b AND 0x7f) + 128 * acc) bs 0"

fun encode_varint_nat :: "nat \<Rightarrow> bytes" where
  "encode_varint_nat n = (if n < 128 then [of_nat n] else of_nat (n mod 128 + 128) # encode_varint_nat (n div 128))"

declare encode_varint_nat.simps [simp del]

definition encode_varint :: "u64 \<Rightarrow> bytes" where
  "encode_varint v = encode_varint_nat (unat v)"

lemma nat_or_push_bit: "a < 2 ^ s \<Longrightarrow> a OR push_bit s b = a + b * 2 ^ s" for a b :: nat
proof -
  assume "a < 2 ^ s"
  then have a: "take_bit s a = a" by (rule take_bit_nat_eq_self)
  have "\<not> bit a n \<or> \<not> bit (push_bit s b) n" for n
    using a bit_take_bit_iff [of s a n] by (auto simp: bit_push_bit_iff_nat)
  then have "a + push_bit s b = a OR push_bit s b" by (rule disjunctive_add)
  then show ?thesis by (simp add: push_bit_nat_def)
qed

lemma varint_accumulate:
  fixes acc p :: u64
  assumes "unat acc < 2 ^ s" and "unat p * 2 ^ s < 2 ^ 64"
  shows "unat (acc OR push_bit s p) = unat acc + unat p * 2 ^ s"
proof -
  have "unat (push_bit s p) = push_bit s (unat p)"
    using assms(2) by (simp add: unsigned_push_bit_eq push_bit_nat_def take_bit_nat_eq_self)
  then show ?thesis using assms(1) by (simp add: unsigned_or_eq nat_or_push_bit)
qed

lemma payload_less: "unat (b AND 0x7f) < 128" for b :: u8
proof -
  have "b AND 0x7f = take_bit 7 b" by (simp add: take_bit_eq_mask mask_eq_exp_minus_1)
  then show ?thesis using take_bit_nat_less_exp [of 7 "unat b"] by (simp add: unsigned_take_bit_eq)
qed

lemma unat_payload: "unat (ucast (b AND 0x7f) :: u64) = unat (b AND 0x7f)" for b :: u8
  using payload_less [of b] by (simp add: unsigned_ucast_eq take_bit_nat_eq_self)

lemma varint_step:
  fixes acc :: u64 and b :: u8
  assumes "unat acc < 2 ^ s" and "s \<le> 56 \<or> s = 63 \<and> unat (b AND 0x7f) \<le> 1"
  shows "unat (acc OR push_bit s (ucast (b AND 0x7f))) = unat acc + unat (b AND 0x7f) * 2 ^ s"
    and "unat acc + unat (b AND 0x7f) * 2 ^ s < 2 ^ (s + 7)"
proof -
  have "unat (b AND 0x7f) * 2 ^ s < 2 ^ 64"
    using assms(2)
  proof
    assume s: "s \<le> 56"
    have "unat (b AND 0x7f) * 2 ^ s < 128 * 2 ^ s" using payload_less [of b] by simp
    also have "\<dots> \<le> 128 * 2 ^ 56" using s by (intro mult_left_mono power_increasing) simp_all
    finally show ?thesis by simp
  next
    assume "s = 63 \<and> unat (b AND 0x7f) \<le> 1"
    then show ?thesis by (auto simp: le_Suc_eq)
  qed
  then show "unat (acc OR push_bit s (ucast (b AND 0x7f))) = unat acc + unat (b AND 0x7f) * 2 ^ s"
    using assms(1) by (intro varint_accumulate [THEN trans]) (simp_all add: unat_payload)
  have "unat (b AND 0x7f) * 2 ^ s \<le> 127 * 2 ^ s" using payload_less [of b] by simp
  moreover have "2 ^ (s + 7) = 2 ^ s + 127 * (2 ^ s :: nat)" by (simp add: power_add)
  ultimately show "unat acc + unat (b AND 0x7f) * 2 ^ s < 2 ^ (s + 7)" using assms(1) by linarith
qed

lemma read_varint_value:
  assumes "read_varint_from s acc bs = Inr (v, rest)" and "unat acc < 2 ^ s" and "s \<le> 63" and "s mod 7 = 0"
  shows "\<exists>used. bs = used @ rest \<and> used \<noteq> [] \<and> unat v = unat acc + varint_value used * 2 ^ s"
  using assms
proof (induction s acc bs rule: read_varint_from.induct)
  case (2 s acc b bs)
  let ?p = "unat (b AND 0x7f)"
  have "s \<le> 56 \<or> s = 63" using 2(4,5) by presburger
  moreover have "\<not> (s = 63 \<and> 1 < (ucast (b AND 0x7f) :: u64))" using 2(2) by (auto simp: Let_def)
  then have "s = 63 \<Longrightarrow> ?p \<le> 1" using unat_payload [of b] by (auto simp: word_less_nat_alt)
  ultimately have s: "s \<le> 56 \<or> s = 63 \<and> ?p \<le> 1" by auto
  note step = varint_step [OF 2(3) s]
  show ?case
  proof (cases "b AND 0x80 = 0")
    case True
    with 2(2) have "v = acc OR push_bit s (ucast (b AND 0x7f))" "rest = bs" by (auto simp: Let_def split: if_splits)
    then show ?thesis using step(1) by (intro exI [of _ "[b]"]) (simp add: varint_value_def)
  next
    case False
    with 2(2) have r: "read_varint_from (s + 7) (acc OR push_bit s (ucast (b AND 0x7f))) bs = Inr (v, rest)"
      "s + 7 < 64" "\<not> (s = 63 \<and> 1 < (ucast (b AND 0x7f) :: u64))"
      by (auto simp: Let_def split: if_splits)
    from 2(1) [OF refl r(3) refl False _ r(1)] r(2) step 2(5) obtain used where
      u: "bs = used @ rest" "unat v = unat acc + ?p * 2 ^ s + varint_value used * 2 ^ (s + 7)"
      by (auto simp: mod_add_left_eq [symmetric])
    then show ?thesis
      by (intro exI [of _ "b # used"]) (simp add: varint_value_def power_add algebra_simps)
  qed
qed simp

lemma continuation_bit: "b AND 0x80 = 0 \<longleftrightarrow> unat b < 128" for b :: u8
proof -
  have "b AND 0x80 = 0 \<longleftrightarrow> \<not> bit b 7" using and_exp_eq_0_iff_not_bit [of b 7] by simp
  also have "\<dots> \<longleftrightarrow> \<not> odd (unat b div 128)" proof -
    have "bit b 7 \<longleftrightarrow> bit (unat b) 7" by (simp add: bit_unsigned_iff)
    also have "\<dots> \<longleftrightarrow> odd (unat b div 128)" by (simp add: bit_iff_odd)
    finally show ?thesis by simp
  qed
  also have "\<dots> \<longleftrightarrow> unat b < 128"
  proof -
    have "unat b < 256" using unsigned_less [of b] by simp
    then have "unat b div 128 = 0 \<or> unat b div 128 = 1" by linarith
    then show ?thesis by (auto simp: div_eq_0_iff)
  qed
  finally show ?thesis .
qed

lemma payload_of_nat: "n < 256 \<Longrightarrow> unat ((of_nat n :: u8) AND 0x7f) = n mod 128"
proof -
  assume "n < 256"
  have "(of_nat n :: u8) AND 0x7f = take_bit 7 (of_nat n)" by (simp add: take_bit_eq_mask mask_eq_exp_minus_1)
  then have "unat ((of_nat n :: u8) AND 0x7f) = take_bit 7 (unat (of_nat n :: u8))"
    by (simp only: unsigned_take_bit_eq)
  also have "unat (of_nat n :: u8) = n" using \<open>n < 256\<close> by (simp add: unat_of_nat take_bit_nat_eq_self)
  finally show ?thesis by (simp add: take_bit_eq_mod)
qed

lemma unat_byte: "n < 256 \<Longrightarrow> unat (of_nat n :: u8) = n"
  by (simp add: unat_of_nat take_bit_nat_eq_self)

lemma read_encoded_varint:
  assumes "unat acc < 2 ^ s" and "s \<le> 63" and "s mod 7 = 0" and "n * 2 ^ s < 2 ^ 64"
  shows "\<exists>v. read_varint_from s acc (encode_varint_nat n @ rest) = Inr (v, rest) \<and> unat v = unat acc + n * 2 ^ s"
  using assms
proof (induction n arbitrary: s acc rule: encode_varint_nat.induct)
  case (1 n)
  have s: "s \<le> 56 \<or> s = 63" using 1(3,4) by presburger
  have last: "n \<le> 1" if "s = 63"
  proof (rule ccontr)
    assume "\<not> n \<le> 1"
    then have "2 * 2 ^ 63 \<le> n * (2 ^ 63 :: nat)" by (intro mult_right_mono) simp_all
    with 1(5) that show False by simp
  qed
  show ?case
  proof (cases "n < 128")
    case True
    define b :: u8 where "b = of_nat n"
    have b: "unat (b AND 0x7f) = n" "b AND 0x80 = 0"
      using True by (simp_all add: b_def payload_of_nat continuation_bit unat_byte)
    from s last b(1) have s': "s \<le> 56 \<or> s = 63 \<and> unat (b AND 0x7f) \<le> 1" by auto
    have "\<not> (s = 63 \<and> 1 < (ucast (b AND 0x7f) :: u64))" using s' unat_payload [of b] by (auto simp: word_less_nat_alt)
    moreover have "encode_varint_nat n = [b]"
      unfolding b_def by (subst encode_varint_nat.simps) (simp add: True)
    ultimately show ?thesis using b varint_step(1) [OF 1(2) s'] by (auto simp: Let_def)
  next
    case False
    define b :: u8 where "b = of_nat (n mod 128 + 128)"
    have m: "n mod 128 + 128 < 256" using mod_less_divisor [of 128 n] by linarith
    have b: "unat (b AND 0x7f) = n mod 128" "b AND 0x80 \<noteq> 0"
      using payload_of_nat [OF m] unat_byte [OF m] by (simp_all add: b_def continuation_bit del: of_nat_add)
    from s last False have s': "s \<le> 56" by auto
    note step = varint_step [OF 1(2) disjI1 [OF s'], of b]
    have "n div 128 * 2 ^ (s + 7) \<le> n * 2 ^ s"
      by (simp add: power_add mult.commute [of _ 128] mult.assoc [symmetric]) 
    with 1(5) have "n div 128 * 2 ^ (s + 7) < 2 ^ 64" by linarith
    from 1(1) [OF False, of "acc OR push_bit s (ucast (b AND 0x7f))" "s + 7", OF _ _ _ this] step 1(4) s'
    obtain v where v: "read_varint_from (s + 7) (acc OR push_bit s (ucast (b AND 0x7f))) (encode_varint_nat (n div 128) @ rest)
        = Inr (v, rest)" "unat v = unat acc + (n mod 128) * 2 ^ s + n div 128 * 2 ^ (s + 7)"
      by (auto simp: b(1) mod_add_left_eq [symmetric])
    moreover have "(n mod 128) * 2 ^ s + n div 128 * 2 ^ (s + 7) = n * 2 ^ s"
    proof -
      have "(n mod 128 + n div 128 * 128) * 2 ^ s = n * 2 ^ s" by simp
      then show ?thesis by (simp only: power_add add_mult_distrib mult.assoc) (simp add: mult.commute)
    qed
    moreover have "encode_varint_nat n = b # encode_varint_nat (n div 128)"
      unfolding b_def by (subst encode_varint_nat.simps) (simp add: False)
    ultimately show ?thesis using b s' by (simp add: Let_def)
  qed
qed

lemma read_u64_varint_encode: "read_u64_varint (encode_varint v @ rest) = Inr (v, rest)"
proof -
  have "unat v < 2 ^ 64" using unsigned_less [of v] by simp
  with read_encoded_varint [of 0 0 "unat v" rest] obtain w where
    "read_varint_from 0 0 (encode_varint_nat (unat v) @ rest) = Inr (w, rest)" "unat w = unat v" by auto
  moreover from this(2) have "w = v" by (simp add: word_unat_eq_iff)
  ultimately show ?thesis by (simp add: read_u64_varint_def encode_varint_def)
qed

lemma read_u64_varint_value:
  assumes "read_u64_varint bs = Inr (v, rest)"
  shows "\<exists>used. bs = used @ rest \<and> used \<noteq> [] \<and> unat v = varint_value used"
  using read_varint_value [of 0 0 bs v rest] assms by (simp add: read_u64_varint_def)

definition varint_decode :: "bytes \<Rightarrow> (u64 \<times> bytes) option" where
  "varint_decode bs = (case read_u64_varint bs of Inl _ \<Rightarrow> None | Inr r \<Rightarrow> Some r)"

lemma encode_varint_not_Nil [simp]: "encode_varint v \<noteq> []"
  unfolding encode_varint_def by (subst encode_varint_nat.simps) simp

interpretation varint: prefix_code encode_varint varint_decode "\<lambda>_. True"
  by unfold_locales (simp_all add: varint_decode_def read_u64_varint_encode)

section \<open>Encoding directories\<close>

text \<open>The encoding the format prescribes: deltas of the sorted tile ids, run lengths, lengths, and
  offsets with zero for an entry that follows its predecessor's bytes.\<close>

fun encode_ids :: "u64 \<Rightarrow> u64 list \<Rightarrow> bytes" where
  "encode_ids prev [] = []"
| "encode_ids prev (i # ids) = encode_varint (i - prev) @ encode_ids i ids"

definition encode_u32s :: "u32 list \<Rightarrow> bytes" where
  "encode_u32s vs = concat (map (\<lambda>v. encode_varint (ucast v)) vs)"

fun encode_offsets :: "(u64 \<times> u32) option \<Rightarrow> (u64 \<times> u32) list \<Rightarrow> bytes" where
  "encode_offsets prev [] = []"
| "encode_offsets prev ((off, len) # rest) =
     encode_varint (case prev of
         Some (o', l') \<Rightarrow> if checked_add o' (ucast l') = Some off then 0 else off + 1
       | None \<Rightarrow> off + 1) @ encode_offsets (Some (off, len)) rest"

definition encode_directory :: "directory \<Rightarrow> bytes" where
  "encode_directory es =
     encode_varint (of_nat (length es)) @ encode_ids 0 (map de_tile_id es) @ encode_u32s (map de_run_length es)
       @ encode_u32s (map de_length es) @ encode_offsets None (map (\<lambda>e. (de_offset e, de_length e)) es)"

lemma read_encoded_ids:
  "sorted (prev # ids) \<Longrightarrow> read_tile_ids (length ids) prev (encode_ids prev ids @ rest) = Inr (ids, rest)"
proof (induction ids arbitrary: prev)
  case (Cons i ids)
  then have le: "prev \<le> i" and s: "sorted (i # ids)" by auto
  have "unat prev + unat (i - prev) = unat i" using le by (simp add: unat_sub_if' word_le_nat_alt)
  then have "checked_add prev (i - prev) = Some i"
    using unsigned_less [of i] by (simp add: checked_add_def)
  with Cons.IH [OF s] show ?case by (simp add: read_u64_varint_encode)
qed simp

lemma unat_ucast_u32: "unat (ucast (v :: u32) :: u64) = unat v"
proof -
  have "unat v < 2 ^ 32" using unsigned_less [of v] by simp
  also have "(2 ^ 32 :: nat) < 2 ^ 64" by simp
  finally show ?thesis by (simp add: unsigned_ucast_eq take_bit_nat_eq_self)
qed

lemma ucast_u32_u64 [simp]: "ucast (ucast (v :: u32) :: u64) = v"
  by (rule bit_word_eqI) (auto simp: bit_ucast_iff dest: bit_imp_le_length)

lemma read_encoded_u32s: "read_u32s (length vs) (encode_u32s vs @ rest) = Inr (vs, rest)"
  by (induction vs) (simp_all add: encode_u32s_def read_u64_varint_encode unat_ucast_u32 not_less)

lemma read_encoded_offsets:
  "\<forall>(off, len)\<in>set ols. unat off < u64_max \<Longrightarrow>
     read_offsets (map snd ols) prev (encode_offsets prev ols @ rest) = Inr (map fst ols, rest)"
proof (induction ols arbitrary: prev)
  case (Cons ol ols)
  obtain off len where ol: "ol = (off, len)" by fastforce
  with Cons.prems have "unat off < u64_max" by simp
  then have "off + 1 \<noteq> 0" by (auto simp: u64_max_def dest!: word_unat_eq_iff [THEN iffD1] simp: unat_word_ariths)
  with Cons ol show ?case
    by (cases prev) (auto simp: read_u64_varint_encode split: if_splits)
qed simp

lemma encode_varint_len: "1 \<le> length (encode_varint v)"
  using encode_varint_not_Nil [of v] by (cases "encode_varint v") simp_all

lemma encoded_columns_len:
  "length ids \<le> length (encode_ids prev ids)" "length vs \<le> length (encode_u32s vs)"
  "length ols \<le> length (encode_offsets q ols)"
proof -
  show "length ids \<le> length (encode_ids prev ids)"
  proof (induction ids arbitrary: prev)
    case (Cons i ids)
    show ?case using Cons [of i] encode_varint_len [of "i - prev"] by simp
  qed simp
  show "length vs \<le> length (encode_u32s vs)"
  proof (induction vs)
    case (Cons v vs)
    then show ?case using encode_varint_len [of "ucast v"] by (simp add: encode_u32s_def)
  qed simp
  show "length ols \<le> length (encode_offsets q ols)"
  proof (induction ols arbitrary: q)
    case (Cons ol ols)
    obtain off len where ol: "ol = (off, len)" by fastforce
    show ?case unfolding ol encode_offsets.simps length_append length_Cons
      using add_mono [OF encode_varint_len Cons [of "Some (off, len)"]] by simp
  qed simp
qed

definition directory_ok :: "directory \<Rightarrow> bool" where
  "directory_ok es \<longleftrightarrow> sorted (map de_tile_id es) \<and> 4 * length es \<le> usize_max \<and> (\<forall>e\<in>set es. unat (de_offset e) < u64_max)"

lemma zip_entries_columns:
  "zip_entries (map de_tile_id es) (map de_run_length es) (map de_length es) (map de_offset es) = es"
  by (induction es) (simp_all add: zip_entries_def)

lemma directory_decode_encode:
  assumes "directory_ok es"
  shows "directory_decode (encode_directory es @ rest) = Inr es"
proof -
  let ?n = "length es" and ?ols = "map (\<lambda>e. (de_offset e, de_length e)) es"
  have n: "unat (of_nat ?n :: u64) = ?n"
    using assms by (simp add: directory_ok_def usize_max_def unat_of_nat take_bit_nat_eq_self)
  have ids: "read_tile_ids ?n 0 (encode_ids 0 (map de_tile_id es) @ r) = Inr (map de_tile_id es, r)" for r
    using read_encoded_ids [of 0 "map de_tile_id es" r] assms by (simp add: directory_ok_def)
  have runs: "read_u32s ?n (encode_u32s (map f es) @ r) = Inr (map f es, r)" for f r
    using read_encoded_u32s [of "map f es" r] by simp
  have offs: "read_offsets (map de_length es) None (encode_offsets None ?ols @ r) = Inr (map de_offset es, r)" for r
    using read_encoded_offsets [of ?ols None r] assms by (simp add: directory_ok_def comp_def)
  have mul: "usize_checked_mul ?n 4 = Some (?n * 4)" using assms by (simp add: usize_checked_mul_def directory_ok_def)
  have len: "\<not> length (encode_ids 0 (map de_tile_id es) @ encode_u32s (map de_run_length es)
      @ encode_u32s (map de_length es) @ encode_offsets None ?ols @ rest) < ?n * 4"
    using encoded_columns_len(1) [of "map de_tile_id es" 0] encoded_columns_len(2) [of "map de_run_length es"]
      encoded_columns_len(2) [of "map de_length es"] encoded_columns_len(3) [of ?ols None] by simp
  show ?thesis
    unfolding directory_decode_def encode_directory_def append_assoc read_u64_varint_encode
    using mul len by (simp add: n ids runs offs Let_def zip_entries_columns del: length_append)
qed

section \<open>Parsed directories\<close>

lemma read_tile_ids_sorted:
  "read_tile_ids n i buf = Inr (ids, rest) \<Longrightarrow> sorted (i # ids) \<and> length ids = n"
proof (induction n arbitrary: i buf ids)
  case (Suc n)
  then obtain d buf' j js where j: "checked_add i d = Some j" "read_tile_ids n j buf' = Inr (js, rest)" "ids = j # js"
    by (auto split: sum.splits option.splits)
  from j(1) have "i \<le> j"
    by (auto simp: checked_add_def word_le_nat_alt unat_word_ariths split: if_splits)
  with Suc.IH [OF j(2)] j(3) show ?case by auto
qed simp

lemma read_u32s_len: "read_u32s n buf = Inr (vs, rest) \<Longrightarrow> length vs = n"
  by (induction n arbitrary: buf vs) (auto split: sum.splits if_splits)

lemma read_offsets_len: "read_offsets lens p buf = Inr (offs, rest) \<Longrightarrow> length offs = length lens"
  by (induction lens p buf arbitrary: offs rest rule: read_offsets.induct) (auto split: sum.splits if_splits)

lemma zip_entries_ids:
  assumes "length runs = length ids" "length lens = length ids" "length offs = length ids"
  shows "map de_tile_id (zip_entries ids runs lens offs) = ids"
  using assms by (intro nth_equalityI) (simp_all add: zip_entries_def)

lemma directory_decode_ok:
  assumes "directory_decode bs = Inr d"
  shows "sorted (map de_tile_id d)" and "4 * length d < length bs"
proof -
  obtain c buf n buf1 buf2 buf3 buf4 ids runs lens offs where
    c: "read_u64_varint bs = Inr (c, buf)" and n: "n = unat c" "4 * n \<le> length buf"
    and r: "read_tile_ids n 0 buf = Inr (ids, buf1)" "read_u32s n buf1 = Inr (runs, buf2)"
      "read_u32s n buf2 = Inr (lens, buf3)" "read_offsets lens None buf3 = Inr (offs, buf4)"
    and d: "d = zip_entries ids runs lens offs"
    using assms
    by (auto simp: directory_decode_def Let_def usize_checked_mul_def not_less mult.commute
        split: sum.splits option.splits prod.splits if_splits)
  note len = read_tile_ids_sorted [OF r(1)] read_u32s_len [OF r(2)] read_u32s_len [OF r(3)] read_offsets_len [OF r(4)]
  have ids: "map de_tile_id d = ids" unfolding d using len by (intro zip_entries_ids) simp_all
  with len show "sorted (map de_tile_id d)" by simp
  from ids len have "length d = n" by (metis length_map)
  moreover from read_u64_varint_value [OF c] have "length buf < length bs" by auto
  ultimately show "4 * length d < length bs" using n(2) by simp
qed

text \<open>What a directory says of a tile id, by linear search: the last entry at or before it, when that
  is a leaf pointer or a run reaching it.\<close>

definition entry_covers :: "directory_entry \<Rightarrow> u64 \<Rightarrow> bool" where
  "entry_covers e t \<longleftrightarrow> de_tile_id e \<le> t \<and> (is_leaf e \<or> unat t < unat (de_tile_id e) + unat (de_run_length e))"

definition directory_lookup :: "directory \<Rightarrow> u64 \<Rightarrow> directory_entry option" where
  "directory_lookup d t =
     (case rev (filter (\<lambda>e. de_tile_id e \<le> t) d) of
        [] \<Rightarrow> None
      | e # _ \<Rightarrow> if entry_covers e t then Some e else None)"

lemma directory_lookup_at:
  assumes "i < length d" and "de_tile_id (d ! i) \<le> t" and "\<And>j. i < j \<Longrightarrow> j < length d \<Longrightarrow> t < de_tile_id (d ! j)"
  shows "directory_lookup d t = (if entry_covers (d ! i) t then Some (d ! i) else None)"
proof -
  have "filter (\<lambda>e. de_tile_id e \<le> t) (drop (Suc i) d) = []"
    using assms(3) by (force simp: filter_empty_conv in_set_conv_nth not_le)
  with id_take_nth_drop [OF assms(1)] assms(2)
  have "filter (\<lambda>e. de_tile_id e \<le> t) d = filter (\<lambda>e. de_tile_id e \<le> t) (take i d) @ [d ! i]"
    by (metis append_Nil2 filter.simps(2) filter_append)
  then show ?thesis by (simp add: directory_lookup_def)
qed

lemma directory_lookup_none:
  "(\<And>j. j < length d \<Longrightarrow> t < de_tile_id (d ! j)) \<Longrightarrow> directory_lookup d t = None"
proof -
  assume "\<And>j. j < length d \<Longrightarrow> t < de_tile_id (d ! j)"
  then have "filter (\<lambda>e. de_tile_id e \<le> t) d = []" by (force simp: filter_empty_conv in_set_conv_nth not_le)
  then show ?thesis by (simp add: directory_lookup_def)
qed

lemma run_distance: "e \<le> t \<Longrightarrow> t - e < ucast (r :: u32) \<longleftrightarrow> unat t < unat e + unat r" for e t :: u64
  by (auto simp: word_less_nat_alt unat_ucast_u32 unat_sub_if' word_le_nat_alt)

lemma sorted_distinct_nth_less:
  "sorted (map f xs) \<Longrightarrow> distinct (map f xs) \<Longrightarrow> i < j \<Longrightarrow> j < length xs \<Longrightarrow> f (xs ! i) < (f (xs ! j) :: 'k::linorder)"
  using strict_sorted_iff [of "map f xs"] by (auto simp: sorted_wrt_iff_nth_less)

lemma find_tile_id_lookup:
  assumes s: "sorted (map de_tile_id d)" and dist: "distinct (map de_tile_id d)"
  shows "map_option snd (find_tile_id d t) = directory_lookup d t"
proof (cases "binary_search_by de_tile_id d t")
  case (Inr i)
  with binary_search_by_Ok [OF s] have i: "i < length d" "de_tile_id (d ! i) = t" by auto
  from i sorted_distinct_nth_less [OF s dist] have "directory_lookup d t = (if entry_covers (d ! i) t then Some (d ! i) else None)"
    by (intro directory_lookup_at) auto
  moreover from i have "entry_covers (d ! i) t" by (auto simp: entry_covers_def is_leaf_def unat_gt_0)
  ultimately show ?thesis using Inr i by (simp add: find_tile_id_def)
next
  case (Inl i)
  note e = binary_search_by_Err [OF s Inl]
  show ?thesis
  proof (cases i)
    case 0
    with e(3) Inl show ?thesis by (simp add: find_tile_id_def directory_lookup_none)
  next
    case (Suc k)
    with e have k: "k < length d" "de_tile_id (d ! k) < t" by auto
    from k Suc e(3) have "directory_lookup d t = (if entry_covers (d ! k) t then Some (d ! k) else None)"
      by (intro directory_lookup_at) auto
    with Inl Suc k show ?thesis
      by (simp add: find_tile_id_def Let_def entry_covers_def run_distance [OF less_imp_le])
  qed
qed

lemma decompressed_within_limit:
  "decompress_bytes_with_limit dec c bs limit = Inr buf \<Longrightarrow> length buf \<le> limit"
  by (auto simp: decompress_bytes_with_limit_def read_decompressed_limited_def Let_def
      split: compression.splits sum.splits if_splits)

section \<open>Tile ids\<close>

lemma one_checked_shl_unat: "n < 64 \<Longrightarrow> one_checked_shl n = Some w \<Longrightarrow> unat w = 2 ^ n"
  by (auto simp: one_checked_shl_def unsigned_push_bit_eq push_bit_nat_def take_bit_nat_eq_self simp del: push_bit_of_1)

definition pyramid :: "nat \<Rightarrow> nat" where
  "pyramid z = (4 ^ z - 1) div 3"

lemma pyramid_Suc: "pyramid (Suc z) = pyramid z + 4 ^ z"
proof -
  have "(4 :: nat) ^ z mod 3 = 1" by (induction z) (simp, simp, presburger)
  then have "(4 :: nat) ^ z = 3 * (4 ^ z div 3) + 1" using mult_div_mod_eq [of 3 "(4 :: nat) ^ z"] by linarith
  then obtain k where "(4 :: nat) ^ z = 3 * k + 1" by blast
  then show ?thesis by (simp add: pyramid_def)
qed

lemma pyramid_mono: "z < z' \<Longrightarrow> pyramid z + 4 ^ z \<le> pyramid z'"
  using lift_Suc_mono_le [of pyramid "Suc z" z'] by (simp add: pyramid_Suc Suc_le_eq)

lemma pyramid_size_unat: "z \<le> max_zoom_level \<Longrightarrow> unat (pyramid_size_before_zoom z) = pyramid (unat z)"
proof -
  assume "z \<le> max_zoom_level"
  then have z: "unat z * 2 < 64" by (simp add: max_zoom_level_def word_le_nat_alt)
  then obtain w where w: "one_checked_shl (unat z * 2) = Some w" by (simp add: one_checked_shl_def)
  with one_checked_shl_unat [OF z] have "unat w = 4 ^ unat z" by (simp add: power_mult [symmetric] mult.commute [of "unat z"] power_mult)
  moreover from this have "1 \<le> w" by (simp add: word_le_nat_alt)
  ultimately show ?thesis using w
    by (simp add: pyramid_size_before_zoom_def pyramid_def unat_div_distrib unat_sub)
qed

text \<open>What the id of a coordinate relies on of the Hilbert curve at every zoom level: it numbers the
  \<open>4\<^sup>z\<close> tiles of the level without gaps or repetitions.\<close>

definition hilbert_numbering :: "(u32 \<Rightarrow> u32 \<Rightarrow> u8 \<Rightarrow> u64) \<Rightarrow> bool" where
  "hilbert_numbering xy2h \<longleftrightarrow>
     (\<forall>z\<le>max_zoom_level. \<forall>x y. unat x < 2 ^ unat z \<and> unat y < 2 ^ unat z \<longrightarrow>
        unat (xy2h x y z) < 4 ^ unat z
      \<and> (\<forall>x' y'. unat x' < 2 ^ unat z \<and> unat y' < 2 ^ unat z \<and> xy2h x' y' z = xy2h x y z \<longrightarrow> x' = x \<and> y' = y))"

lemma tile_coord_new_bounds:
  "tile_coord_new z x y = Inr c \<Longrightarrow>
     tc_z c = z \<and> tc_x c = x \<and> tc_y c = y \<and> z \<le> max_zoom_level \<and> unat x < 2 ^ unat z \<and> unat y < 2 ^ unat z"
  using one_checked_shl_unat [of "unat z"]
  by (auto simp: tile_coord_new_def not_le not_less word_less_nat_alt word_le_nat_alt unat_ucast_u32 one_checked_shl_def
      split: option.splits if_splits)

lemma tile_id_of_coord_unat:
  assumes "hilbert_numbering xy2h" and "tile_coord_new z x y = Inr c"
  shows "pyramid (unat z) \<le> unat (tile_id_of_coord xy2h c)"
    and "unat (tile_id_of_coord xy2h c) < pyramid (unat z) + 4 ^ unat z"
    and "z \<noteq> 0 \<Longrightarrow> unat (tile_id_of_coord xy2h c) = pyramid (unat z) + unat (xy2h x y z)"
proof -
  note b = tile_coord_new_bounds [OF assms(2)]
  from b assms(1) have h: "unat (xy2h x y z) < 4 ^ unat z" by (auto simp: hilbert_numbering_def)
  have z: "unat z < 32" using b by (simp add: max_zoom_level_def word_le_nat_alt)
  have "pyramid (unat z) + 4 ^ unat z \<le> pyramid 32" using pyramid_mono [OF z] .
  also have "pyramid 32 < 2 ^ 64" by (simp add: pyramid_def)
  finally have lt: "pyramid (unat z) + 4 ^ unat z < 2 ^ 64" .
  with h b have id: "unat (tile_id_of_coord xy2h c) = pyramid (unat z) + unat (xy2h x y z)" if "z \<noteq> 0"
    using that by (simp add: tile_id_of_coord_def unat_word_ariths pyramid_size_unat)
  show "z \<noteq> 0 \<Longrightarrow> unat (tile_id_of_coord xy2h c) = pyramid (unat z) + unat (xy2h x y z)" by (rule id)
  have "z = 0 \<Longrightarrow> unat (tile_id_of_coord xy2h c) = 0 \<and> pyramid (unat z) = 0"
    using b by (simp add: tile_id_of_coord_def pyramid_def)
  with id h show "pyramid (unat z) \<le> unat (tile_id_of_coord xy2h c)"
    and "unat (tile_id_of_coord xy2h c) < pyramid (unat z) + 4 ^ unat z" by fastforce+
qed

lemma tile_id_zoom:
  assumes "hilbert_numbering xy2h" "tile_coord_new z x y = Inr c" "tile_coord_new z' x' y' = Inr c'" "z < z'"
  shows "tile_id_of_coord xy2h c < tile_id_of_coord xy2h c'"
proof -
  from assms(4) have "unat z < unat z'" by (simp add: word_less_nat_alt)
  from tile_id_of_coord_unat(2) [OF assms(1,2)] pyramid_mono [OF this] tile_id_of_coord_unat(1) [OF assms(1,3)]
  show ?thesis by (simp add: word_less_nat_alt)
qed

lemma tile_id_level:
  assumes H: "hilbert_numbering xy2h" and c: "tile_coord_new z x y = Inr c" and c': "tile_coord_new z x' y' = Inr c'"
    and eq: "tile_id_of_coord xy2h c = tile_id_of_coord xy2h c'"
  shows "c = c'"
proof (cases "z = 0")
  case True
  then show ?thesis using tile_coord_new_bounds [OF c] tile_coord_new_bounds [OF c'] by (simp add: unat_eq_0)
next
  case False
  with tile_id_of_coord_unat(3) [OF H c] tile_id_of_coord_unat(3) [OF H c'] eq
  have "xy2h x y z = xy2h x' y' z" by (simp add: word_unat_eq_iff)
  with H tile_coord_new_bounds [OF c] tile_coord_new_bounds [OF c'] show ?thesis
    by (fastforce simp: hilbert_numbering_def)
qed

section \<open>Properties\<close>

text \<open>C20: A directory read back from its encoding is the directory, whatever bytes follow it: ids as
  deltas, run lengths, lengths, and offsets with the shorthand for contiguous entries.\<close>

theorem directory_roundtrip:
  assumes "directory_ok es" and "length (encode_directory es @ rest) \<le> limit"
  shows "parse_with_limit dec CNone (encode_directory es @ rest) limit = Inr es"
  using assms by (simp add: parse_with_limit_def decompress_bytes_with_limit_def directory_decode_encode)

theorem directory_roundtrip_witness:
  "parse_with_limit
     \<lparr>dec_gzip = \<lambda>_ _. Inl [], dec_brotli = \<lambda>_ _. Inl [], dec_zstd = \<lambda>_. Inl []\<rparr> CNone
     (encode_directory
       [\<lparr>de_tile_id = 0, de_offset = 0, de_length = 300, de_run_length = 1\<rparr>,
        \<lparr>de_tile_id = 7, de_offset = 300, de_length = 5, de_run_length = 0\<rparr>] @ [9]) 16384
   = Inr [\<lparr>de_tile_id = 0, de_offset = 0, de_length = 300, de_run_length = 1\<rparr>,
        \<lparr>de_tile_id = 7, de_offset = 300, de_length = 5, de_run_length = 0\<rparr>]"
  by (rule directory_roundtrip)
    (simp_all add: directory_ok_def u64_max_def usize_max_def encode_directory_def encode_u32s_def encode_varint_def
      encode_varint_nat.simps checked_add_def)



text \<open>Every coordinate the server accepts has a tile id the reader accepts; different coordinates
  have different ids, and a deeper level's ids come after all of a shallower one's.\<close>

theorem tile_ids_unique:
  assumes "hilbert_numbering xy2h"
    and "tile_coord_new z x y = Inr c" and "tile_coord_new z' x' y' = Inr c'"
  shows "tile_id_new (tile_id_of_coord xy2h c) = Inr (tile_id_of_coord xy2h c)
       \<and> (tile_id_of_coord xy2h c = tile_id_of_coord xy2h c' \<longrightarrow> c = c')
       \<and> (z < z' \<longrightarrow> tile_id_of_coord xy2h c < tile_id_of_coord xy2h c')"
proof (intro conjI impI)
  have "unat z < 32" using tile_coord_new_bounds [OF assms(2)] by (simp add: max_zoom_level_def word_le_nat_alt)
  from tile_id_of_coord_unat(2) [OF assms(1,2)] pyramid_mono [OF this]
  have "unat (tile_id_of_coord xy2h c) < 6148914691236517205" by (simp add: pyramid_def)
  then show "tile_id_new (tile_id_of_coord xy2h c) = Inr (tile_id_of_coord xy2h c)"
    by (simp add: tile_id_new_def max_tile_id_def word_less_nat_alt)
next
  assume eq: "tile_id_of_coord xy2h c = tile_id_of_coord xy2h c'"
  consider "z < z'" | "z' < z" | "z = z'" by fastforce
  then show "c = c'"
  proof cases
    case 3
    with tile_id_level [OF assms(1,2) _ eq] assms(3) show ?thesis by blast
  qed (use tile_id_zoom [OF assms] tile_id_zoom [OF assms(1,3,2)] eq in simp_all)
next
  assume "z < z'"
  then show "tile_id_of_coord xy2h c < tile_id_of_coord xy2h c'" by (rule tile_id_zoom [OF assms])
qed

text \<open>A numbering of each level row by row, to show the assumption can hold.\<close>

definition row_major :: "u32 \<Rightarrow> u32 \<Rightarrow> u8 \<Rightarrow> u64" where
  "row_major x y z = of_nat (unat x + unat y * 2 ^ unat z)"

lemma row_major_numbering: "hilbert_numbering row_major"
proof -
  have less: "unat x + unat y * 2 ^ unat z < 4 ^ unat z" if "unat x < 2 ^ unat z" "unat y < 2 ^ unat z"
    for x y :: u32 and z :: u8
  proof -
    have "unat x + unat y * 2 ^ unat z < (unat y + 1) * 2 ^ unat z" using that(1) by simp
    also have "\<dots> \<le> 2 ^ unat z * 2 ^ unat z" using that(2) by (intro mult_right_mono) simp_all
    finally show ?thesis by (simp add: power_mult_distrib [symmetric])
  qed
  have "(4 :: nat) ^ unat z < 2 ^ 64" if "z \<le> max_zoom_level" for z :: u8
  proof -
    have "unat z \<le> 31" using that by (simp add: max_zoom_level_def word_le_nat_alt)
    then have "(4 :: nat) ^ unat z \<le> 4 ^ 31" by (intro power_increasing) simp_all
    then show ?thesis by simp
  qed
  moreover have "unat (of_nat n :: u64) = n" if "n < 2 ^ 64" for n
    using that by (simp add: unat_of_nat take_bit_nat_eq_self)
  ultimately have val: "unat (row_major x y z) = unat x + unat y * 2 ^ unat z"
    if "z \<le> max_zoom_level" "unat x < 2 ^ unat z" "unat y < 2 ^ unat z" for x y z
    unfolding row_major_def using that less less_trans by blast
  have inj: "x' = x \<and> y' = y" if "unat x + unat y * 2 ^ unat z = unat x' + unat y' * 2 ^ unat z"
      "unat x < 2 ^ unat z" "unat x' < 2 ^ unat z" for x y x' y' :: u32 and z :: u8
    using arg_cong [OF that(1), of "\<lambda>n. n mod 2 ^ unat z"] arg_cong [OF that(1), of "\<lambda>n. n div 2 ^ unat z"] that(2,3)
    by (simp add: word_unat_eq_iff)
  show ?thesis unfolding hilbert_numbering_def
  proof (intro allI impI conjI; (elim conjE)?)
    fix z :: u8 and x y :: u32
    assume z: "z \<le> max_zoom_level" and b: "unat x < 2 ^ unat z" "unat y < 2 ^ unat z"
    with val less show "unat (row_major x y z) < 4 ^ unat z" by simp
    fix x' y' assume b': "unat x' < 2 ^ unat z" "unat y' < 2 ^ unat z" and "row_major x' y' z = row_major x y z"
    with val [OF z b] val [OF z b'] have "unat x + unat y * 2 ^ unat z = unat x' + unat y' * 2 ^ unat z" by simp
    from inj [OF this b(1) b'(1)] show "x' = x" "y' = y" by auto
  qed
qed

end
