(* ===== verification/Pmtiles_Reader.thy ===== *)
theory Pmtiles_Reader
  imports Pmtiles_Format
begin

text \<open>
  \<^verbatim>\<open>crates/mmpf-pmtiles/src/reader.rs\<close>: the reader of one PMTiles archive. A tile is resolved by
  walking directories from the root through leaves the backend loads. The range backend reads byte
  ranges from a source and keeps decoded directories in a store; sources, stores and the metadata's
  JSON decoder are arguments. An \<open>async\<close> operation is a function that threads the state the backend
  shares: its store, its source and the events it reports.
\<close>

section \<open>Data\<close>

definition min_bootstrap_bytes :: nat where
  "min_bootstrap_bytes = 16384"

definition default_max_directory_depth :: u8 where
  "default_max_directory_depth = 64"

definition default_max_decompressed_bytes :: nat where
  "default_max_decompressed_bytes = 64 * 1024 * 1024"

record archive_identity =
  ai_name :: string
  ai_generation :: string

datatype identity_error = EmptyName | EmptyGeneration

definition archive_identity_new :: "string \<Rightarrow> string \<Rightarrow> identity_error + archive_identity" where
  "archive_identity_new nm gen =
     (if nm = [] then Inl EmptyName
      else if gen = [] then Inl EmptyGeneration
      else Inr \<lparr>ai_name = nm, ai_generation = gen\<rparr>)"

datatype read_kind = KBootstrap | KMetadata | KLeafDirectory | KTile

record read_request =
  rq_offset :: u64
  rq_length :: nat
  rq_archive_len :: "u64 option"
  rq_kind :: read_kind

datatype archive_fault =
    Malformed format_error
  | SectionRange string
  | EntryRange string
  | OutsideSection string u64 u64 u64
  | AbsoluteOffset string
  | ZeroDepthLimit
  | DepthExceeded u8
  | ArchiveTruncated
  | RootRange
  | RootOutsideBootstrap
  | MetadataJson string
  | RangeTooLong nat nat
  | RangeOverflow u64 nat
  | ReadTooLong read_kind nat nat
  | ShortReadOf read_kind u64 nat nat

record 'm archive_bootstrap =
  bs_header :: header
  bs_root :: directory
  bs_metadata :: "'m option"
  bs_archive_len :: u64

record leaf_directory_key =
  lk_archive :: archive_identity
  lk_offset :: u64
  lk_length :: u32

datatype reader_event =
    EvCacheHit read_kind u64
  | EvReadStarted read_request
  | EvReadCompleted read_request nat
  | EvShortRead read_request nat
  | EvReadFailed read_request
  | EvDirectoryDecoded read_kind nat

record reader_limits =
  rl_bootstrap_bytes :: nat
  rl_max_range_bytes :: nat
  rl_max_directory_depth :: u8
  rl_max_decompressed_directory_bytes :: nat
  rl_max_decompressed_metadata_bytes :: nat

definition reader_limits_default :: reader_limits where
  "reader_limits_default =
     \<lparr>rl_bootstrap_bytes = min_bootstrap_bytes, rl_max_range_bytes = 64 * 1024 * 1024,
      rl_max_directory_depth = default_max_directory_depth,
      rl_max_decompressed_directory_bytes = default_max_decompressed_bytes,
      rl_max_decompressed_metadata_bytes = default_max_decompressed_bytes\<rparr>"

datatype reader_config_error = BootstrapTooSmall | DepthZero | RangeBelowBootstrap | DecompressedZero

definition validate_limits :: "reader_limits \<Rightarrow> reader_config_error option" where
  "validate_limits l =
     (if rl_bootstrap_bytes l < min_bootstrap_bytes then Some BootstrapTooSmall
      else if rl_max_directory_depth l = 0 then Some DepthZero
      else if rl_max_range_bytes l < rl_bootstrap_bytes l then Some RangeBelowBootstrap
      else if rl_max_decompressed_directory_bytes l = 0 \<or> rl_max_decompressed_metadata_bytes l = 0
      then Some DecompressedZero
      else None)"

datatype 'e reader_error = Source 'e | InvalidTileId format_error | InvalidArchive archive_fault

record tile_location =
  tl_offset :: u64
  tl_length :: u32
  tl_archive_len :: u64

record archive_range =
  ar_offset :: u64
  ar_length :: u32

record tile_lookup_trace =
  tt_bootstrap :: archive_range
  tt_leaves :: "archive_range list"
  tt_tile :: "tile_location option"
  tt_archive_len :: u64

datatype directory_step = StepMissing | StepLeaf archive_range | StepTile tile_location

record tile_data =
  td_bytes :: bytes
  td_content_type :: string
  td_content_encoding :: "string option"

section \<open>Sections\<close>

fun sections_end :: "u64 \<Rightarrow> (string \<times> u64 \<times> u64) list \<Rightarrow> archive_fault + u64" where
  "sections_end acc [] = Inr acc"
| "sections_end acc ((name, off, len) # rest) =
     (case checked_add off len of
        None \<Rightarrow> Inl (SectionRange name)
      | Some section_end \<Rightarrow> sections_end (max acc section_end) rest)"

definition archive_len :: "header \<Rightarrow> archive_fault + u64" where
  "archive_len h = sections_end 0 (header_sections h)"

definition archive_bootstrap_new :: "header \<Rightarrow> directory \<Rightarrow> 'm option \<Rightarrow> archive_fault + 'm archive_bootstrap" where
  "archive_bootstrap_new h root_dir md =
     (case archive_len h of
        Inl e \<Rightarrow> Inl e
      | Inr n \<Rightarrow> Inr \<lparr>bs_header = h, bs_root = root_dir, bs_metadata = md, bs_archive_len = n\<rparr>)"

definition checked_section_offset :: "string \<Rightarrow> u64 \<Rightarrow> u64 \<Rightarrow> u64 \<Rightarrow> u64 \<Rightarrow> archive_fault + u64" where
  "checked_section_offset name section_offset section_length relative_offset len =
     (case checked_add relative_offset len of
        None \<Rightarrow> Inl (EntryRange name)
      | Some relative_end \<Rightarrow>
          if section_length < relative_end
          then Inl (OutsideSection name relative_offset relative_end section_length)
          else case checked_add section_offset relative_offset of
                 None \<Rightarrow> Inl (AbsoluteOffset name)
               | Some off \<Rightarrow> Inr off)"

section \<open>The directory walker\<close>

record directory_walker =
  dw_header :: header
  dw_archive_len :: u64
  dw_tile_id :: u64
  dw_depth :: u8
  dw_max_depth :: u8

definition directory_walker_new :: "header \<Rightarrow> u64 \<Rightarrow> u8 \<Rightarrow> archive_fault + directory_walker" where
  "directory_walker_new h tile_id max_depth =
     (if max_depth = 0 then Inl ZeroDepthLimit
      else case archive_len h of
             Inl e \<Rightarrow> Inl e
           | Inr n \<Rightarrow> Inr \<lparr>dw_header = h, dw_archive_len = n, dw_tile_id = tile_id, dw_depth = 0, dw_max_depth = max_depth\<rparr>)"

definition walker_step :: "directory_walker \<Rightarrow> directory \<Rightarrow> (archive_fault + directory_step) \<times> directory_walker" where
  "walker_step w dir =
     (case find_tile_id dir (dw_tile_id w) of
        None \<Rightarrow> (Inr StepMissing, w)
      | Some (_, e) \<Rightarrow>
          if is_leaf e then
            if dw_max_depth w \<le> dw_depth w then (Inl (DepthExceeded (dw_max_depth w)), w)
            else let w' = w\<lparr>dw_depth := dw_depth w + 1\<rparr>
                 in (case checked_section_offset ''leaf directory'' (hd_leaf_offset (dw_header w))
                           (hd_leaf_length (dw_header w)) (de_offset e) (ucast (de_length e)) of
                       Inl err \<Rightarrow> (Inl err, w')
                     | Inr off \<Rightarrow> (Inr (StepLeaf \<lparr>ar_offset = off, ar_length = de_length e\<rparr>), w'))
          else (case checked_section_offset ''tile data'' (hd_data_offset (dw_header w))
                      (hd_data_length (dw_header w)) (de_offset e) (ucast (de_length e)) of
                  Inl err \<Rightarrow> (Inl err, w)
                | Inr off \<Rightarrow>
                    (Inr (StepTile \<lparr>tl_offset = off, tl_length = de_length e, tl_archive_len = dw_archive_len w\<rparr>), w)))"

lemma walker_step_leaf:
  assumes "walker_step w dir = (Inr (StepLeaf r), w')"
  shows "dw_depth w < dw_max_depth w" and "w' = w\<lparr>dw_depth := dw_depth w + 1\<rparr>"
    and "unat (dw_depth w') = Suc (unat (dw_depth w))"
proof -
  from assms show lt: "dw_depth w < dw_max_depth w" and w': "w' = w\<lparr>dw_depth := dw_depth w + 1\<rparr>"
    by (auto simp: walker_step_def Let_def not_le split: option.splits if_splits sum.splits)
  have "unat (dw_max_depth w) < 2 ^ 8" using unsigned_less [of "dw_max_depth w"] by simp
  with lt show "unat (dw_depth w') = Suc (unat (dw_depth w))" by (simp add: w' unat_word_ariths word_less_nat_alt)
qed

lemma walker_step_measure:
  "(Inr (StepLeaf r), w') = walker_step w dir \<Longrightarrow>
     unat (dw_max_depth w') - unat (dw_depth w') < unat (dw_max_depth w) - unat (dw_depth w)"
  using walker_step_leaf [of w dir r w'] by (auto simp: word_less_nat_alt)

section \<open>Decoding what a source returns\<close>

text \<open>A \<open>usize\<close> has 64 bits, so a section offset or length always fits.\<close>

definition decode_bootstrap_bytes :: "decoders \<Rightarrow> bytes \<Rightarrow> nat \<Rightarrow> archive_fault + 'm archive_bootstrap" where
  "decode_bootstrap_bytes dec body max_directory =
     (if length body < header_size then Inl ArchiveTruncated
      else case header_parse (take header_size body) of
        Inl e \<Rightarrow> Inl (Malformed e)
      | Inr h \<Rightarrow>
          let root_start = unat (hd_root_offset h); root_length = unat (hd_root_length h)
          in case usize_checked_add root_start root_length of
               None \<Rightarrow> Inl RootRange
             | Some root_end \<Rightarrow>
                 if length body < root_end then Inl RootOutsideBootstrap
                 else case parse_with_limit dec (hd_internal_compression h)
                             (take (root_end - root_start) (drop root_start body)) max_directory of
                   Inl e \<Rightarrow> Inl (Malformed e)
                 | Inr root_dir \<Rightarrow> archive_bootstrap_new h root_dir None)"

definition decode_metadata_bytes :: "decoders \<Rightarrow> (bytes \<Rightarrow> string + 'm) \<Rightarrow> header \<Rightarrow> bytes \<Rightarrow> nat \<Rightarrow> archive_fault + 'm" where
  "decode_metadata_bytes dec json h bs max_bytes =
     (case decompress_bytes_with_limit dec (hd_internal_compression h) bs max_bytes of
        Inl e \<Rightarrow> Inl (Malformed e)
      | Inr b \<Rightarrow> (case json b of Inl e \<Rightarrow> Inl (MetadataJson e) | Inr m \<Rightarrow> Inr m))"

section \<open>The reader over a backend\<close>

record leaf_directory_request =
  lr_offset :: u64
  lr_length :: u32
  lr_compression :: compression
  lr_archive_len :: u64

record ('s, 'e, 'm) archive_backend =
  be_load_bootstrap :: "'s \<Rightarrow> ('e + 'm archive_bootstrap) \<times> 's"
  be_load_metadata :: "'s \<Rightarrow> ('e + 'm) \<times> 's"
  be_load_leaf :: "leaf_directory_request \<Rightarrow> 's \<Rightarrow> ('e + directory) \<times> 's"
  be_read_range :: "read_request \<Rightarrow> 's \<Rightarrow> ('e + bytes) \<times> 's"
  be_invalid_tile_id :: "format_error \<Rightarrow> 'e"
  be_invalid_archive :: "archive_fault \<Rightarrow> 'e"

definition check_range :: "('s, 'e, 'm) archive_backend \<Rightarrow> reader_limits \<Rightarrow> u64 \<Rightarrow> u32 \<Rightarrow> 'e option" where
  "check_range be lims off len =
     (if rl_max_range_bytes lims < unat len
      then Some (be_invalid_archive be (RangeTooLong (unat len) (rl_max_range_bytes lims)))
      else if checked_add off (ucast len) = None
      then Some (be_invalid_archive be (RangeOverflow off (unat len)))
      else None)"

text \<open>The loop of \<open>resolve_tile_location\<close>; \<open>leaves\<close> is the trace the caller asked for, if any.\<close>

function resolve_loop ::
  "('s, 'e, 'm) archive_backend \<Rightarrow> reader_limits \<Rightarrow> 'm archive_bootstrap \<Rightarrow> directory_walker \<Rightarrow> directory
     \<Rightarrow> archive_range list option \<Rightarrow> 's \<Rightarrow> ('e + tile_location option \<times> archive_range list option) \<times> 's" where
  "resolve_loop be lims boot w dir leaves s =
     (case walker_step w dir of
        (Inl e, _) \<Rightarrow> (Inl (be_invalid_archive be e), s)
      | (Inr StepMissing, _) \<Rightarrow> (Inr (None, leaves), s)
      | (Inr (StepTile loc), _) \<Rightarrow> (Inr (Some loc, leaves), s)
      | (Inr (StepLeaf r), w') \<Rightarrow>
          (case check_range be lims (ar_offset r) (ar_length r) of
             Some e \<Rightarrow> (Inl e, s)
           | None \<Rightarrow>
               (case be_load_leaf be
                       \<lparr>lr_offset = ar_offset r, lr_length = ar_length r,
                        lr_compression = hd_internal_compression (bs_header boot),
                        lr_archive_len = bs_archive_len boot\<rparr> s of
                  (Inl e, s') \<Rightarrow> (Inl e, s')
                | (Inr dir', s') \<Rightarrow>
                    resolve_loop be lims boot w' dir' (map_option (\<lambda>ls. ls @ [r]) leaves) s')))"
  by pat_completeness auto
termination
  by (relation "measure (\<lambda>(be, lims, boot, w, dir, leaves, s). unat (dw_max_depth w) - unat (dw_depth w))")
    (auto intro: walker_step_measure)

declare resolve_loop.simps [simp del]

definition resolve_tile_location ::
  "('s, 'e, 'm) archive_backend \<Rightarrow> reader_limits \<Rightarrow> u64 \<Rightarrow> archive_range list option \<Rightarrow> 's
     \<Rightarrow> ('e + (tile_location option \<times> header \<times> u64) \<times> archive_range list option) \<times> 's" where
  "resolve_tile_location be lims raw_tile_id leaves s =
     (case tile_id_new raw_tile_id of
        Inl e \<Rightarrow> (Inl (be_invalid_tile_id be e), s)
      | Inr tile_id \<Rightarrow>
          (case be_load_bootstrap be s of
             (Inl e, s') \<Rightarrow> (Inl e, s')
           | (Inr boot, s') \<Rightarrow>
               (case directory_walker_new (bs_header boot) tile_id (rl_max_directory_depth lims) of
                  Inl e \<Rightarrow> (Inl (be_invalid_archive be e), s')
                | Inr w \<Rightarrow>
                    (case resolve_loop be lims boot w (bs_root boot) leaves s' of
                       (Inl e, s'') \<Rightarrow> (Inl e, s'')
                     | (Inr (loc, ls), s'') \<Rightarrow> (Inr ((loc, bs_header boot, bs_archive_len boot), ls), s'')))))"

definition reader_header :: "('s, 'e, 'm) archive_backend \<Rightarrow> 's \<Rightarrow> ('e + header) \<times> 's" where
  "reader_header be s =
     (case be_load_bootstrap be s of
        (Inl e, s') \<Rightarrow> (Inl e, s')
      | (Inr boot, s') \<Rightarrow> (Inr (bs_header boot), s'))"

definition reader_metadata :: "('s, 'e, 'm) archive_backend \<Rightarrow> 's \<Rightarrow> ('e + 'm) \<times> 's" where
  "reader_metadata be s = be_load_metadata be s"

definition lookup_with_trace ::
  "('s, 'e, 'm) archive_backend \<Rightarrow> reader_limits \<Rightarrow> u64 \<Rightarrow> 's \<Rightarrow> ('e + tile_lookup_trace) \<times> 's" where
  "lookup_with_trace be lims tile_id s =
     (case resolve_tile_location be lims tile_id (Some []) s of
        (Inl e, s') \<Rightarrow> (Inl e, s')
      | (Inr ((tile, _, n), leaves), s') \<Rightarrow>
          (Inr \<lparr>tt_bootstrap = \<lparr>ar_offset = 0,
                  ar_length = (if rl_bootstrap_bytes lims \<le> u32_max then of_nat (rl_bootstrap_bytes lims) else - 1)\<rparr>,
                tt_leaves = (case leaves of Some ls \<Rightarrow> ls | None \<Rightarrow> []), tt_tile = tile, tt_archive_len = n\<rparr>, s'))"

definition get_tile ::
  "('s, 'e, 'm) archive_backend \<Rightarrow> reader_limits \<Rightarrow> u64 \<Rightarrow> 's \<Rightarrow> ('e + tile_data option) \<times> 's" where
  "get_tile be lims tile_id s =
     (case resolve_tile_location be lims tile_id None s of
        (Inl e, s') \<Rightarrow> (Inl e, s')
      | (Inr ((None, _, _), _), s') \<Rightarrow> (Inr None, s')
      | (Inr ((Some loc, h, _), _), s') \<Rightarrow>
          (case check_range be lims (tl_offset loc) (tl_length loc) of
             Some e \<Rightarrow> (Inl e, s')
           | None \<Rightarrow>
               (case be_read_range be \<lparr>rq_offset = tl_offset loc, rq_length = unat (tl_length loc),
                       rq_archive_len = Some (tl_archive_len loc), rq_kind = KTile\<rparr> s' of
                  (Inl e, s'') \<Rightarrow> (Inl e, s'')
                | (Inr bs, s'') \<Rightarrow>
                    (Inr (Some \<lparr>td_bytes = bs, td_content_type = tile_content_type (hd_tile_type h),
                       td_content_encoding = content_encoding (hd_tile_compression h)\<rparr>), s''))))"

section \<open>The range backend\<close>

record ('d, 'm) directory_store =
  ds_get_bootstrap :: "archive_identity \<Rightarrow> 'd \<Rightarrow> 'm archive_bootstrap option \<times> 'd"
  ds_put_bootstrap :: "archive_identity \<Rightarrow> 'm archive_bootstrap \<Rightarrow> 'd \<Rightarrow> 'd"
  ds_get_leaf :: "leaf_directory_key \<Rightarrow> 'd \<Rightarrow> directory option \<times> 'd"
  ds_put_leaf :: "leaf_directory_key \<Rightarrow> directory \<Rightarrow> 'd \<Rightarrow> 'd"

definition no_directory_store :: "('d, 'm) directory_store" where
  "no_directory_store =
     \<lparr>ds_get_bootstrap = \<lambda>_ d. (None, d), ds_put_bootstrap = \<lambda>_ _ d. d,
      ds_get_leaf = \<lambda>_ d. (None, d), ds_put_leaf = \<lambda>_ _ d. d\<rparr>"

text \<open>The backend, with the third-party codecs it calls, and the state it shares.\<close>

record ('d, 'w, 'e, 'm) range_backend =
  rb_source :: "read_request \<Rightarrow> 'w \<Rightarrow> ('e + bytes) \<times> 'w"
  rb_identity :: archive_identity
  rb_directories :: "('d, 'm) directory_store"
  rb_limits :: reader_limits
  rb_decoders :: decoders
  rb_json :: "bytes \<Rightarrow> string + 'm"
  rb_default_metadata :: 'm

record ('d, 'w) backend_state =
  st_store :: 'd
  st_source :: 'w
  st_events :: "reader_event list"

definition observe :: "reader_event \<Rightarrow> ('d, 'w) backend_state \<Rightarrow> ('d, 'w) backend_state" where
  "observe ev s = s\<lparr>st_events := st_events s @ [ev]\<rparr>"

definition rb_read_range ::
  "('d, 'w, 'e, 'm) range_backend \<Rightarrow> read_request \<Rightarrow> ('d, 'w) backend_state
     \<Rightarrow> ('e reader_error + bytes) \<times> ('d, 'w) backend_state" where
  "rb_read_range rb rq s =
     (if rl_max_range_bytes (rb_limits rb) < rq_length rq
      then (Inl (InvalidArchive (ReadTooLong (rq_kind rq) (rq_length rq) (rl_max_range_bytes (rb_limits rb)))), s)
      else let s = observe (EvReadStarted rq) s
           in case rb_source rb rq (st_source s) of
                (Inr bs, src) \<Rightarrow>
                  let s = s\<lparr>st_source := src\<rparr>
                  in if rq_kind rq \<noteq> KBootstrap \<and> length bs \<noteq> rq_length rq
                     then (Inl (InvalidArchive (ShortReadOf (rq_kind rq) (rq_offset rq) (rq_length rq) (length bs))),
                           observe (EvShortRead rq (length bs)) s)
                     else (Inr bs, observe (EvReadCompleted rq (length bs)) s)
              | (Inl e, src) \<Rightarrow> (Inl (Source e), observe (EvReadFailed rq) (s\<lparr>st_source := src\<rparr>)))"

definition rb_load_bootstrap ::
  "('d, 'w, 'e, 'm) range_backend \<Rightarrow> ('d, 'w) backend_state
     \<Rightarrow> ('e reader_error + 'm archive_bootstrap) \<times> ('d, 'w) backend_state" where
  "rb_load_bootstrap rb s =
     (case ds_get_bootstrap (rb_directories rb) (rb_identity rb) (st_store s) of
        (Some boot, d) \<Rightarrow> (Inr boot, observe (EvCacheHit KBootstrap 0) (s\<lparr>st_store := d\<rparr>))
      | (None, d) \<Rightarrow>
          (case rb_read_range rb \<lparr>rq_offset = 0, rq_length = rl_bootstrap_bytes (rb_limits rb),
                  rq_archive_len = None, rq_kind = KBootstrap\<rparr> (s\<lparr>st_store := d\<rparr>) of
             (Inl e, s) \<Rightarrow> (Inl e, s)
           | (Inr bs, s) \<Rightarrow>
               (case decode_bootstrap_bytes (rb_decoders rb) bs (rl_max_decompressed_directory_bytes (rb_limits rb)) of
                  Inl e \<Rightarrow> (Inl (InvalidArchive e), s)
                | Inr boot \<Rightarrow>
                    let s = observe (EvDirectoryDecoded KBootstrap (length (bs_root boot))) s
                    in (Inr boot, s\<lparr>st_store :=
                          ds_put_bootstrap (rb_directories rb) (rb_identity rb) boot (st_store s)\<rparr>))))"

definition rb_load_metadata ::
  "('d, 'w, 'e, 'm) range_backend \<Rightarrow> ('d, 'w) backend_state
     \<Rightarrow> ('e reader_error + 'm) \<times> ('d, 'w) backend_state" where
  "rb_load_metadata rb s =
     (case rb_load_bootstrap rb s of
        (Inl e, s) \<Rightarrow> (Inl e, s)
      | (Inr boot, s) \<Rightarrow>
          (case bs_metadata boot of
             Some md \<Rightarrow> (Inr md, observe (EvCacheHit KMetadata (hd_metadata_offset (bs_header boot))) s)
           | None \<Rightarrow>
               (case (if hd_metadata_length (bs_header boot) = 0 then (Inr (rb_default_metadata rb), s)
                      else case rb_read_range rb \<lparr>rq_offset = hd_metadata_offset (bs_header boot),
                                  rq_length = unat (hd_metadata_length (bs_header boot)),
                                  rq_archive_len = Some (bs_archive_len boot), rq_kind = KMetadata\<rparr> s of
                        (Inl e, s) \<Rightarrow> (Inl e, s)
                      | (Inr bs, s) \<Rightarrow>
                          (case decode_metadata_bytes (rb_decoders rb) (rb_json rb) (bs_header boot) bs
                                  (rl_max_decompressed_metadata_bytes (rb_limits rb)) of
                             Inl e \<Rightarrow> (Inl (InvalidArchive e), s)
                           | Inr md \<Rightarrow> (Inr md, s))) of
                  (Inl e, s) \<Rightarrow> (Inl e, s)
                | (Inr md, s) \<Rightarrow>
                    (Inr md, s\<lparr>st_store := ds_put_bootstrap (rb_directories rb) (rb_identity rb)
                       (boot\<lparr>bs_metadata := Some md\<rparr>) (st_store s)\<rparr>))))"

definition rb_load_leaf ::
  "('d, 'w, 'e, 'm) range_backend \<Rightarrow> leaf_directory_request \<Rightarrow> ('d, 'w) backend_state
     \<Rightarrow> ('e reader_error + directory) \<times> ('d, 'w) backend_state" where
  "rb_load_leaf rb rq s =
     (let key = \<lparr>lk_archive = rb_identity rb, lk_offset = lr_offset rq, lk_length = lr_length rq\<rparr>
      in case ds_get_leaf (rb_directories rb) key (st_store s) of
           (Some dir, d) \<Rightarrow> (Inr dir, observe (EvCacheHit KLeafDirectory (lr_offset rq)) (s\<lparr>st_store := d\<rparr>))
         | (None, d) \<Rightarrow>
             (case rb_read_range rb \<lparr>rq_offset = lr_offset rq, rq_length = unat (lr_length rq),
                     rq_archive_len = Some (lr_archive_len rq), rq_kind = KLeafDirectory\<rparr> (s\<lparr>st_store := d\<rparr>) of
                (Inl e, s) \<Rightarrow> (Inl e, s)
              | (Inr bs, s) \<Rightarrow>
                  (case parse_with_limit (rb_decoders rb) (lr_compression rq) bs
                          (rl_max_decompressed_directory_bytes (rb_limits rb)) of
                     Inl e \<Rightarrow> (Inl (InvalidArchive (Malformed e)), s)
                   | Inr dir \<Rightarrow>
                       let s = observe (EvDirectoryDecoded KLeafDirectory (length dir)) s
                       in (Inr dir, s\<lparr>st_store := ds_put_leaf (rb_directories rb) key dir (st_store s)\<rparr>))))"

definition range_archive_backend ::
  "('d, 'w, 'e, 'm) range_backend \<Rightarrow> (('d, 'w) backend_state, 'e reader_error, 'm) archive_backend" where
  "range_archive_backend rb =
     \<lparr>be_load_bootstrap = rb_load_bootstrap rb, be_load_metadata = rb_load_metadata rb,
      be_load_leaf = rb_load_leaf rb, be_read_range = rb_read_range rb,
      be_invalid_tile_id = InvalidTileId, be_invalid_archive = InvalidArchive\<rparr>"

text \<open>\<open>ArchiveReader::with_components\<close> over the range backend.\<close>

definition reader_with_components ::
  "(read_request \<Rightarrow> 'w \<Rightarrow> ('e + bytes) \<times> 'w) \<Rightarrow> archive_identity \<Rightarrow> ('d, 'm) directory_store \<Rightarrow> reader_limits
     \<Rightarrow> decoders \<Rightarrow> (bytes \<Rightarrow> string + 'm) \<Rightarrow> 'm \<Rightarrow> reader_config_error + ('d, 'w, 'e, 'm) range_backend" where
  "reader_with_components src i ds lims dec json md =
     (case validate_limits lims of
        Some e \<Rightarrow> Inl e
      | None \<Rightarrow> Inr \<lparr>rb_source = src, rb_identity = i, rb_directories = ds, rb_limits = lims,
                  rb_decoders = dec, rb_json = json, rb_default_metadata = md\<rparr>)"

definition reader_new ::
  "(read_request \<Rightarrow> 'w \<Rightarrow> ('e + bytes) \<times> 'w) \<Rightarrow> archive_identity \<Rightarrow> decoders \<Rightarrow> (bytes \<Rightarrow> string + 'm) \<Rightarrow> 'm
     \<Rightarrow> ('d, 'w, 'e, 'm) range_backend" where
  "reader_new src i dec json md =
     \<lparr>rb_source = src, rb_identity = i, rb_directories = no_directory_store,
      rb_limits = reader_limits_default, rb_decoders = dec, rb_json = json, rb_default_metadata = md\<rparr>"

abbreviation leaf_request :: "'m archive_bootstrap \<Rightarrow> archive_range \<Rightarrow> leaf_directory_request" where
  "leaf_request boot rg \<equiv> \<lparr>lr_offset = ar_offset rg, lr_length = ar_length rg,
     lr_compression = hd_internal_compression (bs_header boot), lr_archive_len = bs_archive_len boot\<rparr>"

lemma check_range_errs: "check_range be lims off len = Some e \<Longrightarrow> \<exists>x. e = be_invalid_archive be x"
  by (auto simp: check_range_def split: if_splits)

lemma resolve_loop_cases:
  assumes "resolve_loop be lims boot w dir leaves s = (r, s')"
  obtains (fault) x where "r = Inl (be_invalid_archive be x)" and "s' = s"
  | (missing) w' where "walker_step w dir = (Inr StepMissing, w')" and "r = Inr (None, leaves)" and "s' = s"
  | (tile) w' loc where "walker_step w dir = (Inr (StepTile loc), w')" and "r = Inr (Some loc, leaves)" and "s' = s"
  | (failed) rg w' e where "walker_step w dir = (Inr (StepLeaf rg), w')"
      and "be_load_leaf be (leaf_request boot rg) s = (Inl e, s')" and "r = Inl e"
  | (leaf) rg w' dir' s1 where "walker_step w dir = (Inr (StepLeaf rg), w')"
      and "check_range be lims (ar_offset rg) (ar_length rg) = None"
      and "be_load_leaf be (leaf_request boot rg) s = (Inr dir', s1)"
      and "resolve_loop be lims boot w' dir' (map_option (\<lambda>ls. ls @ [rg]) leaves) s1 = (r, s')"
  using assms
  by (subst (asm) resolve_loop.simps)
    (auto split: prod.splits sum.splits directory_step.splits option.splits dest!: check_range_errs)

lemma check_range_None: "check_range be lims off len = None \<Longrightarrow> unat len \<le> rl_max_range_bytes lims"
  by (auto simp: check_range_def split: if_splits)

section \<open>Reads of a request\<close>

text \<open>A backend whose operations are each at most one read of the underlying source.\<close>

locale counted_backend =
  fixes be :: "('s, 'e, 'm) archive_backend"
    and reads :: "'s \<Rightarrow> nat"
  assumes bootstrap_reads: "be_load_bootstrap be s = (r, s') \<Longrightarrow> reads s' \<le> Suc (reads s)"
    and leaf_reads: "be_load_leaf be rq s = (r', s') \<Longrightarrow> reads s' \<le> Suc (reads s)"
    and range_reads: "be_read_range be rq' s = (r'', s') \<Longrightarrow> reads s' \<le> Suc (reads s)"
begin

lemma loop_reads:
  "resolve_loop be lims boot w dir leaves s = (r, s') \<Longrightarrow>
     reads s' + unat (dw_depth w) \<le> reads s + max (unat (dw_depth w)) (unat (dw_max_depth w))"
proof (induction "unat (dw_max_depth w) - unat (dw_depth w)" arbitrary: w dir leaves s rule: less_induct)
  case less
  from less.prems show ?case
  proof (cases rule: resolve_loop_cases)
    case (failed rg w' e)
    with leaf_reads [OF failed(2)] walker_step_leaf [OF failed(1)] show ?thesis by (simp add: word_less_nat_alt)
  next
    case (leaf rg w' dir' s1)
    from less.hyps [OF walker_step_measure [OF leaf(1) [symmetric]] leaf(4)] leaf_reads [OF leaf(3)]
      walker_step_leaf [OF leaf(1)] show ?thesis by (simp add: word_less_nat_alt)
  qed simp_all
qed

lemma resolve_reads:
  assumes "resolve_tile_location be lims t leaves s = (r, s')"
  shows "reads s' \<le> reads s + Suc (unat (rl_max_directory_depth lims))"
proof -
  consider "s' = s" | r1 where "be_load_bootstrap be s = (r1, s')"
    | boot s1 w r1 where "be_load_bootstrap be s = (Inr boot, s1)"
        "directory_walker_new (bs_header boot) t (rl_max_directory_depth lims) = Inr w"
        "resolve_loop be lims boot w (bs_root boot) leaves s1 = (r1, s')"
    using assms by (auto simp: resolve_tile_location_def tile_id_new_def split: sum.splits prod.splits if_splits)
  then show ?thesis
  proof cases
    case 2
    with bootstrap_reads show ?thesis by fastforce
  next
    case 3
    from 3(2) have "dw_depth w = 0" "dw_max_depth w = rl_max_directory_depth lims"
      by (auto simp: directory_walker_new_def split: if_splits sum.splits)
    with loop_reads [OF 3(3)] bootstrap_reads [OF 3(1)] show ?thesis by simp
  qed simp
qed

lemma get_tile_reads:
  assumes "get_tile be lims t s = (r, s')"
  shows "reads s' \<le> reads s + unat (rl_max_directory_depth lims) + 2"
proof -
  obtain r1 s1 where res: "resolve_tile_location be lims t None s = (r1, s1)" by fastforce
  consider "s' = s1" | rq r2 where "be_read_range be rq s1 = (r2, s')"
    using assms by (auto simp: get_tile_def res split: sum.splits prod.splits option.splits)
  then show ?thesis using resolve_reads [OF res] range_reads by cases fastforce+
qed

end

text \<open>The reads a range backend has started.\<close>

definition is_read_started :: "reader_event \<Rightarrow> bool" where
  "is_read_started ev = (case ev of EvReadStarted _ \<Rightarrow> True | _ \<Rightarrow> False)"

definition reads_started :: "('d, 'w) backend_state \<Rightarrow> nat" where
  "reads_started s = length (filter is_read_started (st_events s))"

lemma reads_started_observe [simp]:
  "reads_started (observe ev s) = reads_started s + (if is_read_started ev then 1 else 0)"
  "reads_started (s\<lparr>st_store := d\<rparr>) = reads_started s" "reads_started (s\<lparr>st_source := w\<rparr>) = reads_started s"
  by (simp_all add: reads_started_def observe_def)

lemma is_read_started_simps [simp]:
  "is_read_started (EvReadStarted rq)" "\<not> is_read_started (EvCacheHit k i)" "\<not> is_read_started (EvReadCompleted rq n)"
  "\<not> is_read_started (EvShortRead rq n)" "\<not> is_read_started (EvReadFailed rq)"
  "\<not> is_read_started (EvDirectoryDecoded k n)"
  by (simp_all add: is_read_started_def)

lemma rb_read_range_reads: "rb_read_range rb rq s = (r, s') \<Longrightarrow> reads_started s' \<le> Suc (reads_started s)"
  by (auto simp: rb_read_range_def Let_def split: if_splits prod.splits sum.splits)

interpretation range_reads: counted_backend "range_archive_backend rb" reads_started for rb
proof unfold_locales
  show "be_load_bootstrap (range_archive_backend rb) s = (r, s') \<Longrightarrow> reads_started s' \<le> Suc (reads_started s)" for s r s'
    by (auto simp: range_archive_backend_def rb_load_bootstrap_def Let_def
        split: prod.splits option.splits sum.splits dest!: rb_read_range_reads)
  show "be_load_leaf (range_archive_backend rb) rq s = (r, s') \<Longrightarrow> reads_started s' \<le> Suc (reads_started s)" for s r s' rq
    by (auto simp: range_archive_backend_def rb_load_leaf_def Let_def
        split: prod.splits option.splits sum.splits dest!: rb_read_range_reads)
qed (simp add: range_archive_backend_def rb_read_range_reads)

section \<open>Errors of a request\<close>

text \<open>The errors of the reader are those of its backend: every error of an operation that keeps the
  backend's invariant, and the two the backend makes for an invalid id or archive.\<close>

definition backend_errs :: "('s, 'e, 'm) archive_backend \<Rightarrow> ('s \<Rightarrow> bool) \<Rightarrow> ('m archive_bootstrap \<Rightarrow> bool) \<Rightarrow> ('e \<Rightarrow> bool) \<Rightarrow> bool" where
  "backend_errs be ok boot_ok err \<longleftrightarrow>
     (\<forall>s r s'. ok s \<and> be_load_bootstrap be s = (r, s') \<longrightarrow>
        ok s' \<and> (\<forall>e. r = Inl e \<longrightarrow> err e) \<and> (\<forall>b. r = Inr b \<longrightarrow> boot_ok b))
   \<and> (\<forall>s b rg r s'. ok s \<and> boot_ok b \<and> be_load_leaf be (leaf_request b rg) s = (r, s') \<longrightarrow> ok s' \<and> (\<forall>e. r = Inl e \<longrightarrow> err e))
   \<and> (\<forall>s rq r s'. ok s \<and> be_read_range be rq s = (r, s') \<longrightarrow> ok s' \<and> (\<forall>e. r = Inl e \<longrightarrow> err e))
   \<and> (\<forall>x. err (be_invalid_archive be x)) \<and> (\<forall>x. err (be_invalid_tile_id be x))"

lemma backend_errsI:
  assumes "\<And>s r s'. ok s \<Longrightarrow> be_load_bootstrap be s = (r, s') \<Longrightarrow>
        ok s' \<and> (\<forall>e. r = Inl e \<longrightarrow> err e) \<and> (\<forall>b. r = Inr b \<longrightarrow> boot_ok b)"
    and "\<And>s b rg r s'. ok s \<Longrightarrow> boot_ok b \<Longrightarrow> be_load_leaf be (leaf_request b rg) s = (r, s') \<Longrightarrow>
        ok s' \<and> (\<forall>e. r = Inl e \<longrightarrow> err e)"
    and "\<And>s rq r s'. ok s \<Longrightarrow> be_read_range be rq s = (r, s') \<Longrightarrow> ok s' \<and> (\<forall>e. r = Inl e \<longrightarrow> err e)"
    and "\<And>x. err (be_invalid_archive be x)" and "\<And>x. err (be_invalid_tile_id be x)"
  shows "backend_errs be ok boot_ok err"
proof -
  from assms(1) have 1: "\<forall>s r s'. ok s \<and> be_load_bootstrap be s = (r, s') \<longrightarrow>
        ok s' \<and> (\<forall>e. r = Inl e \<longrightarrow> err e) \<and> (\<forall>b. r = Inr b \<longrightarrow> boot_ok b)" by blast
  from assms(2) have 2: "\<forall>s b rg r s'. ok s \<and> boot_ok b \<and> be_load_leaf be (leaf_request b rg) s = (r, s') \<longrightarrow>
        ok s' \<and> (\<forall>e. r = Inl e \<longrightarrow> err e)" by blast
  from assms(3) have 3: "\<forall>s rq r s'. ok s \<and> be_read_range be rq s = (r, s') \<longrightarrow> ok s' \<and> (\<forall>e. r = Inl e \<longrightarrow> err e)" by blast
  show ?thesis unfolding backend_errs_def by (intro conjI 1 2 3 allI assms(4,5))
qed

lemma backend_errsD:
  assumes "backend_errs be ok boot_ok err" and "ok s"
  shows "be_load_bootstrap be s = (rb, s1) \<Longrightarrow> ok s1 \<and> (\<forall>e. rb = Inl e \<longrightarrow> err e) \<and> (\<forall>b. rb = Inr b \<longrightarrow> boot_ok b)"
    and "boot_ok b \<Longrightarrow> be_load_leaf be (leaf_request b rg) s = (rl, s1) \<Longrightarrow> ok s1 \<and> (\<forall>e. rl = Inl e \<longrightarrow> err e)"
    and "be_read_range be rq' s = (rr, s1) \<Longrightarrow> ok s1 \<and> (\<forall>e. rr = Inl e \<longrightarrow> err e)"
    and "err (be_invalid_archive be x)" and "err (be_invalid_tile_id be y)"
proof -
  note B = assms(1) [unfolded backend_errs_def]
  show "be_load_bootstrap be s = (rb, s1) \<Longrightarrow> ok s1 \<and> (\<forall>e. rb = Inl e \<longrightarrow> err e) \<and> (\<forall>b. rb = Inr b \<longrightarrow> boot_ok b)"
    using B [THEN conjunct1, rule_format, of s rb s1] assms(2) by blast
  show "boot_ok b \<Longrightarrow> be_load_leaf be (leaf_request b rg) s = (rl, s1) \<Longrightarrow> ok s1 \<and> (\<forall>e. rl = Inl e \<longrightarrow> err e)"
    using B [THEN conjunct2, THEN conjunct1, rule_format, of s b rg rl s1] assms(2) by blast
  show "be_read_range be rq' s = (rr, s1) \<Longrightarrow> ok s1 \<and> (\<forall>e. rr = Inl e \<longrightarrow> err e)"
    using B [THEN conjunct2, THEN conjunct2, THEN conjunct1, rule_format, of s rq' rr s1] assms(2) by blast
qed (use assms(1) [unfolded backend_errs_def, THEN conjunct2, THEN conjunct2, THEN conjunct2] in auto)

lemma resolve_loop_errs:
  assumes B: "backend_errs be ok boot_ok err" and boot: "boot_ok boot"
  shows "resolve_loop be lims boot w dir leaves s = (r, s') \<Longrightarrow> ok s \<Longrightarrow> ok s' \<and> (\<forall>e. r = Inl e \<longrightarrow> err e)"
proof (induction "unat (dw_max_depth w) - unat (dw_depth w)" arbitrary: w dir leaves s rule: less_induct)
  case less
  note D = backend_errsD [OF B less.prems(2)]
  from less.prems(1) show ?case
  proof (cases rule: resolve_loop_cases)
    case (failed rg w' e)
    from D(2) [OF boot failed(2)] failed(3) show ?thesis by auto
  next
    case (leaf rg w' dir' s1)
    from D(2) [OF boot leaf(3)] have "ok s1" by simp
    from less.hyps [OF walker_step_measure [OF leaf(1) [symmetric]] leaf(4) this] show ?thesis .
  qed (use less.prems(2) D(4) in auto)
qed

lemma get_tile_errs:
  assumes B: "backend_errs be ok boot_ok err" and s: "ok s" and op: "get_tile be lims t s = (Inl e, s')"
  shows "err e"
proof -
  note D = backend_errsD [OF B]
  obtain r1 s1 where res: "resolve_tile_location be lims t None s = (r1, s1)" by fastforce
  have r1: "ok s1 \<and> (\<forall>e. r1 = Inl e \<longrightarrow> err e)"
  proof (cases "tile_id_new t")
    case (Inl x)
    with res s D(5) [OF s] show ?thesis by (auto simp: resolve_tile_location_def)
  next
    case (Inr tid)
    obtain rb s2 where b: "be_load_bootstrap be s = (rb, s2)" by fastforce
    from D(1) [OF s b] have s2: "ok s2" "\<And>e. rb = Inl e \<Longrightarrow> err e" "\<And>b. rb = Inr b \<Longrightarrow> boot_ok b" by auto
    show ?thesis
    proof (cases rb)
      case (Inl e)
      with res Inr b s2 show ?thesis by (auto simp: resolve_tile_location_def)
    next
      case boot: (Inr boot)
      show ?thesis
      proof (cases "directory_walker_new (bs_header boot) tid (rl_max_directory_depth lims)")
        case (Inl x)
        with res Inr b boot s2 D(4) [OF s2(1)] show ?thesis by (auto simp: resolve_tile_location_def)
      next
        case w: (Inr w)
        obtain rl s3 where l: "resolve_loop be lims boot w (bs_root boot) None s2 = (rl, s3)" by fastforce
        from resolve_loop_errs [OF B s2(3) [OF boot] l s2(1)] res Inr b boot w l show ?thesis
          by (auto simp: resolve_tile_location_def split: sum.splits)
      qed
    qed
  qed
  then have s1: "ok s1" by simp
  from op res r1 show ?thesis
    by (auto simp: get_tile_def split: sum.splits option.splits prod.splits
        dest!: check_range_errs dest: D(3) [OF s1] intro: D(4) [OF s1])
qed

section \<open>What an archive says of a tile\<close>

text \<open>The bytes of an archive at a range inside it.\<close>

definition archive_slice :: "bytes \<Rightarrow> u64 \<Rightarrow> nat \<Rightarrow> bytes" where
  "archive_slice A off len = take len (drop (unat off) A)"

definition slice_inside :: "bytes \<Rightarrow> u64 \<Rightarrow> nat \<Rightarrow> bool" where
  "slice_inside A off len \<longleftrightarrow> len \<le> length A - unat off"

text \<open>What its header, root directory, leaves and metadata decode to.\<close>

definition archive_root :: "decoders \<Rightarrow> nat \<Rightarrow> bytes \<Rightarrow> header \<Rightarrow> directory \<Rightarrow> bool" where
  "archive_root dec dl A h d \<longleftrightarrow>
     header_parse (take header_size A) = Inr h
   \<and> slice_inside A (hd_root_offset h) (unat (hd_root_length h))
   \<and> parse_with_limit dec (hd_internal_compression h)
       (archive_slice A (hd_root_offset h) (unat (hd_root_length h))) dl = Inr d"

definition bootstrap_of :: "decoders \<Rightarrow> nat \<Rightarrow> bytes \<Rightarrow> 'm archive_bootstrap \<Rightarrow> bool" where
  "bootstrap_of dec dl A b \<longleftrightarrow>
     archive_root dec dl A (bs_header b) (bs_root b) \<and> archive_len (bs_header b) = Inr (bs_archive_len b)"

definition leaf_of :: "decoders \<Rightarrow> nat \<Rightarrow> bytes \<Rightarrow> u64 \<Rightarrow> u32 \<Rightarrow> directory \<Rightarrow> bool" where
  "leaf_of dec dl A off len d \<longleftrightarrow>
     (\<exists>h. header_parse (take header_size A) = Inr h \<and> slice_inside A off (unat len)
        \<and> parse_with_limit dec (hd_internal_compression h) (archive_slice A off (unat len)) dl = Inr d)"

text \<open>The range of a tile, reached through a number of leaf directories.\<close>

inductive locates :: "decoders \<Rightarrow> nat \<Rightarrow> nat \<Rightarrow> bytes \<Rightarrow> header \<Rightarrow> u64 \<Rightarrow> directory \<Rightarrow> nat \<Rightarrow> (u64 \<times> u32) option \<Rightarrow> bool"
  for dec :: decoders and dl :: nat and mr :: nat and A :: bytes and h :: header and t :: u64
  where
    locates_missing: "find_tile_id d t = None \<Longrightarrow> locates dec dl mr A h t d 0 None"
  | locates_tile: "find_tile_id d t = Some (i, e) \<Longrightarrow> \<not> is_leaf e \<Longrightarrow>
      checked_section_offset ''tile data'' (hd_data_offset h) (hd_data_length h) (de_offset e) (ucast (de_length e)) = Inr off
      \<Longrightarrow> locates dec dl mr A h t d 0 (Some (off, de_length e))"
  | locates_leaf: "find_tile_id d t = Some (i, e) \<Longrightarrow> is_leaf e \<Longrightarrow>
      checked_section_offset ''leaf directory'' (hd_leaf_offset h) (hd_leaf_length h) (de_offset e) (ucast (de_length e)) = Inr off
      \<Longrightarrow> unat (de_length e) \<le> mr \<Longrightarrow> leaf_of dec dl A off (de_length e) d' \<Longrightarrow> locates dec dl mr A h t d' n r \<Longrightarrow> locates dec dl mr A h t d (Suc n) r"

inductive_cases locates_zeroE: "locates dec dl mr A h t d 0 r"
inductive_cases locates_SucE: "locates dec dl mr A h t d (Suc n) r"

lemma leaf_of_unique: "leaf_of dec dl A off len d \<Longrightarrow> leaf_of dec dl A off len d' \<Longrightarrow> d = d'"
  by (auto simp: leaf_of_def)

lemma archive_root_unique: "archive_root dec dl A h d \<Longrightarrow> archive_root dec dl A h' d' \<Longrightarrow> h = h' \<and> d = d'"
  by (auto simp: archive_root_def)

lemma locates_unique: "locates dec dl mr A h t d n r \<Longrightarrow> locates dec dl mr A h t d n' r' \<Longrightarrow> n = n' \<and> r = r'"
proof (induction arbitrary: n' r' rule: locates.induct)
  case (locates_leaf d i e off d' n r)
  from locates_leaf.prems locates_leaf.hyps(1-5) obtain n1 where "n' = Suc n1" "locates dec dl mr A h t d' n1 r'"
    by (cases rule: locates.cases) (auto dest: leaf_of_unique)
  with locates_leaf.IH show ?case by auto
qed (auto elim: locates.cases)

lemma checked_section_offset_Inr:
  assumes "checked_section_offset nm so sl ro len = Inr off"
  shows "unat off = unat so + unat ro" and "unat off + unat len \<le> unat so + unat sl"
  using assms
  by (auto simp: checked_section_offset_def checked_add_Some_iff not_less word_le_nat_alt unat_word_ariths
      split: option.splits if_splits)

lemma locates_inside:
  "locates dec dl mr A h t d n (Some (off, len)) \<Longrightarrow>
     unat (hd_data_offset h) \<le> unat off \<and> unat off + unat len \<le> unat (hd_data_offset h) + unat (hd_data_length h)"
proof (induction d n "Some (off, len)" rule: locates.induct)
  case (locates_tile d i e)
  from checked_section_offset_Inr [OF locates_tile(3)] locates_tile(4) show ?case by (auto simp: unat_ucast_u32)
qed

lemma first_overflow_None: "first_overflow ss = None \<Longrightarrow> (nm, off, len) \<in> set ss \<Longrightarrow> unat off + unat len < 2 ^ 64"
  by (induction ss rule: first_overflow.induct) (auto simp: checked_add_Some_iff split: option.splits)

lemma header_parse_sections:
  assumes "header_parse bs = Inr h"
  shows "unat (hd_leaf_offset h) + unat (hd_leaf_length h) < 2 ^ 64"
    and "unat (hd_data_offset h) + unat (hd_data_length h) < 2 ^ 64"
proof -
  from assms have "first_overflow (header_sections h) = None"
    by (auto simp: header_parse_def Let_def split: if_splits sum.splits option.splits)
  from first_overflow_None [OF this, of "''leaf directory''"] first_overflow_None [OF this, of "''tile data''"]
  show "unat (hd_leaf_offset h) + unat (hd_leaf_length h) < 2 ^ 64"
    and "unat (hd_data_offset h) + unat (hd_data_length h) < 2 ^ 64"
    by (auto simp: header_sections_def)
qed

text \<open>The answer an archive gives for a tile, through at most \<open>depth\<close> leaf directories.\<close>

definition tile_payload :: "bytes \<Rightarrow> header \<Rightarrow> u64 \<Rightarrow> u32 \<Rightarrow> tile_data" where
  "tile_payload A h off len =
     \<lparr>td_bytes = archive_slice A off (unat len), td_content_type = tile_content_type (hd_tile_type h),
      td_content_encoding = content_encoding (hd_tile_compression h)\<rparr>"

inductive serves_tile :: "decoders \<Rightarrow> nat \<Rightarrow> nat \<Rightarrow> bytes \<Rightarrow> nat \<Rightarrow> u64 \<Rightarrow> tile_data option \<Rightarrow> bool"
  for dec :: decoders and dl :: nat and mr :: nat and A :: bytes and depth :: nat and t :: u64
  where
    serves_none: "archive_root dec dl A h d \<Longrightarrow> locates dec dl mr A h t d n None \<Longrightarrow> n \<le> depth \<Longrightarrow>
      serves_tile dec dl mr A depth t None"
  | serves_some: "archive_root dec dl A h d \<Longrightarrow> locates dec dl mr A h t d n (Some (off, len)) \<Longrightarrow> n \<le> depth \<Longrightarrow>
      slice_inside A off (unat len) \<Longrightarrow> unat len \<le> mr \<Longrightarrow> serves_tile dec dl mr A depth t (Some (tile_payload A h off len))"

lemma serves_tileE:
  assumes "serves_tile dec dl mr A depth t td"
  obtains h d n loc where "archive_root dec dl A h d" and "locates dec dl mr A h t d n loc" and "n \<le> depth"
    and "td = map_option (\<lambda>(off, len). tile_payload A h off len) loc"
    and "\<forall>off len. loc = Some (off, len) \<longrightarrow> slice_inside A off (unat len) \<and> unat len \<le> mr"
  using assms by (cases rule: serves_tile.cases) fastforce+

lemma serves_tile_unique:
  assumes "serves_tile dec dl mr A k t td" and "serves_tile dec dl mr A k' t td'"
  shows "td = td'"
proof -
  from assms(1) obtain h d n loc where 1: "archive_root dec dl A h d" "locates dec dl mr A h t d n loc"
    "td = map_option (\<lambda>(off, len). tile_payload A h off len) loc" by (rule serves_tileE)
  from assms(2) obtain h' d' n' loc' where 2: "archive_root dec dl A h' d'" "locates dec dl mr A h' t d' n' loc'"
    "td' = map_option (\<lambda>(off, len). tile_payload A h' off len) loc'" by (rule serves_tileE)
  from archive_root_unique [OF 1(1) 2(1)] locates_unique [OF 1(2)] 1(3) 2(2,3) show ?thesis by auto
qed

text \<open>What a walk from a directory has found, with the leaves it passed.\<close>

abbreviation loc_range :: "tile_location option \<Rightarrow> (u64 \<times> u32) option" where
  "loc_range \<equiv> map_option (\<lambda>l. (tl_offset l, tl_length l))"

definition walk_found ::
  "decoders \<Rightarrow> nat \<Rightarrow> nat \<Rightarrow> bytes \<Rightarrow> directory_walker \<Rightarrow> directory \<Rightarrow> archive_range list option
     \<Rightarrow> tile_location option \<times> archive_range list option \<Rightarrow> bool" where
  "walk_found dec dl mr A w dir leaves = (\<lambda>(loc, ls).
     \<exists>n. n + unat (dw_depth w) \<le> max (unat (dw_depth w)) (unat (dw_max_depth w))
       \<and> locates dec dl mr A (dw_header w) (dw_tile_id w) dir n (loc_range loc)
       \<and> (\<forall>l. loc = Some l \<longrightarrow> tl_archive_len l = dw_archive_len w)
       \<and> map_option length ls = map_option (\<lambda>l. length l + n) leaves)"

lemma walk_found_missing:
  "walker_step w dir = (Inr StepMissing, w') \<Longrightarrow> walk_found dec dl mr A w dir leaves (None, leaves)"
  by (auto simp: walk_found_def walker_step_def Let_def intro!: exI [of _ 0] locates_missing
      split: option.splits if_splits sum.splits)

lemma walk_found_tile:
  assumes "walker_step w dir = (Inr (StepTile loc), w')"
  shows "walk_found dec dl mr A w dir leaves (Some loc, leaves)"
proof -
  from assms obtain i e where e: "find_tile_id dir (dw_tile_id w) = Some (i, e)" "\<not> is_leaf e"
      "checked_section_offset ''tile data'' (hd_data_offset (dw_header w)) (hd_data_length (dw_header w))
         (de_offset e) (ucast (de_length e)) = Inr (tl_offset loc)"
      "tl_length loc = de_length e" "tl_archive_len loc = dw_archive_len w"
    by (auto simp: walker_step_def Let_def split: option.splits if_splits sum.splits)
  from locates_tile [OF e(1-3)] e(4,5) show ?thesis by (auto simp: walk_found_def intro!: exI [of _ 0])
qed

lemma walk_found_leaf:
  assumes mr: "unat (ar_length rg) \<le> mr" and w: "walker_step w dir = (Inr (StepLeaf rg), w')" and l: "leaf_of dec dl A (ar_offset rg) (ar_length rg) dir'"
    and f: "walk_found dec dl mr A w' dir' (map_option (\<lambda>ls. ls @ [rg]) leaves) (loc, ls)"
  shows "walk_found dec dl mr A w dir leaves (loc, ls)"
proof -
  from w obtain i e where e: "find_tile_id dir (dw_tile_id w) = Some (i, e)" "is_leaf e"
      "checked_section_offset ''leaf directory'' (hd_leaf_offset (dw_header w)) (hd_leaf_length (dw_header w))
         (de_offset e) (ucast (de_length e)) = Inr (ar_offset rg)" "ar_length rg = de_length e"
    by (auto simp: walker_step_def Let_def split: option.splits if_splits sum.splits)
  note step = walker_step_leaf [OF w]
  from f step(2) obtain n where n: "n + unat (dw_depth w') \<le> max (unat (dw_depth w')) (unat (dw_max_depth w))"
      "locates dec dl mr A (dw_header w) (dw_tile_id w) dir' n (loc_range loc)"
      "\<forall>l. loc = Some l \<longrightarrow> tl_archive_len l = dw_archive_len w"
      "map_option length ls = map_option (\<lambda>l. Suc (length l) + n) leaves"
    by (auto simp: walk_found_def option.map_comp comp_def)
  from locates_leaf [OF e(1-3) mr [unfolded e(4)] l [unfolded e(4)] n(2)] n(1,3,4) step(1,3) show ?thesis
    by (auto simp: walk_found_def word_less_nat_alt intro!: exI [of _ "Suc n"])
qed

section \<open>Backends that serve an archive\<close>

text \<open>A backend whose answers, when it gives one, are those of a fixed archive. Its invariant says so
  of what it has cached.\<close>

locale archive_view =
  fixes be :: "('s, 'e, 'm) archive_backend"
    and inv :: "'s \<Rightarrow> bool"
    and A :: bytes
    and dec :: decoders
    and dl :: nat
  assumes bootstrap_view: "inv s \<Longrightarrow> be_load_bootstrap be s = (r, s') \<Longrightarrow>
      inv s' \<and> (\<forall>b. r = Inr b \<longrightarrow> bootstrap_of dec dl A b)"
    and leaf_view: "inv s \<Longrightarrow> header_parse (take header_size A) = Inr h \<Longrightarrow>
      lr_compression lrq = hd_internal_compression h \<Longrightarrow> be_load_leaf be lrq s = (r', s') \<Longrightarrow>
      inv s' \<and> (\<forall>d. r' = Inr d \<longrightarrow> leaf_of dec dl A (lr_offset lrq) (lr_length lrq) d)"
    and range_view: "inv s \<Longrightarrow> rq_kind rq = KTile \<Longrightarrow> rq_archive_len rq \<noteq> None \<Longrightarrow> be_read_range be rq s = (r'', s') \<Longrightarrow>
      inv s' \<and> (\<forall>bs. r'' = Inr bs \<longrightarrow>
        slice_inside A (rq_offset rq) (rq_length rq) \<and> bs = archive_slice A (rq_offset rq) (rq_length rq))"
begin

lemma loop_view:
  assumes hp: "header_parse (take header_size A) = Inr (bs_header boot)"
  shows "resolve_loop be lims boot w dir leaves s = (r, s') \<Longrightarrow> inv s \<Longrightarrow>
     inv s' \<and> (\<forall>x. r = Inr x \<longrightarrow> walk_found dec dl (rl_max_range_bytes lims) A w dir leaves x)"
proof (induction "unat (dw_max_depth w) - unat (dw_depth w)" arbitrary: w dir leaves s rule: less_induct)
  case less
  from less.prems(1) show ?case
  proof (cases rule: resolve_loop_cases)
    case (failed rg w' e)
    with leaf_view [OF less.prems(2) hp _ failed(2)] show ?thesis by simp
  next
    case (leaf rg w' dir' s1)
    from leaf_view [OF less.prems(2) hp _ leaf(3)] have s1: "inv s1" "leaf_of dec dl A (ar_offset rg) (ar_length rg) dir'"
      by auto
    from less.hyps [OF walker_step_measure [OF leaf(1) [symmetric]] leaf(4) s1(1)] walk_found_leaf [OF check_range_None [OF leaf(2)] leaf(1) s1(2)]
    show ?thesis by auto
  qed (use less.prems walk_found_missing walk_found_tile in blast)+
qed

lemma resolve_view:
  assumes "resolve_tile_location be lims t leaves s = (r, s')" and "inv s"
  shows "inv s' \<and> (\<forall>loc h n ls. r = Inr ((loc, h, n), ls) \<longrightarrow>
     (\<exists>boot w. bootstrap_of dec dl A (boot :: 'm archive_bootstrap) \<and> h = bs_header boot \<and> n = bs_archive_len boot
        \<and> directory_walker_new h t (rl_max_directory_depth lims) = Inr w
        \<and> walk_found dec dl (rl_max_range_bytes lims) A w (bs_root boot) leaves (loc, ls)))"
proof -
  consider "s' = s" "\<exists>e. r = Inl e" | r1 where "be_load_bootstrap be s = (r1, s')" "\<exists>e. r = Inl e"
    | boot s1 w r1 where "be_load_bootstrap be s = (Inr boot, s1)"
        "directory_walker_new (bs_header boot) t (rl_max_directory_depth lims) = Inr w"
        "resolve_loop be lims boot w (bs_root boot) leaves s1 = (r1, s')"
        "r = (case r1 of Inl e \<Rightarrow> Inl e | Inr (loc, ls) \<Rightarrow> Inr ((loc, bs_header boot, bs_archive_len boot), ls))"
    using assms(1) by (auto simp: resolve_tile_location_def tile_id_new_def split: sum.splits prod.splits if_splits)
  then show ?thesis
  proof cases
    case 2
    with bootstrap_view [OF assms(2) 2(1)] show ?thesis by auto
  next
    case 3
    from bootstrap_view [OF assms(2) 3(1)] have b: "inv s1" "bootstrap_of dec dl A boot" by auto
    then have "header_parse (take header_size A) = Inr (bs_header boot)" by (simp add: bootstrap_of_def archive_root_def)
    from loop_view [OF this 3(3) b(1)] b(2) 3(2,4) show ?thesis by (auto split: sum.splits prod.splits)
  qed (use assms(2) in auto)
qed

lemma get_tile_view:
  assumes "get_tile be lims t s = (r, s')" and "inv s"
  shows "inv s' \<and> (\<forall>td. r = Inr td \<longrightarrow> serves_tile dec dl (rl_max_range_bytes lims) A (unat (rl_max_directory_depth lims)) t td)"
proof -
  obtain r1 s1 where res: "resolve_tile_location be lims t None s = (r1, s1)" by fastforce
  note rv = resolve_view [OF this assms(2)]
  show ?thesis
  proof (cases r1)
    case (Inl e)
    with assms(1) res rv show ?thesis by (auto simp: get_tile_def)
  next
    case (Inr x)
    obtain loc h n ls where x: "x = ((loc, h, n), ls)" by (metis prod.exhaust)
    with rv Inr obtain boot w where b: "bootstrap_of dec dl A (boot :: 'm archive_bootstrap)" "h = bs_header boot"
      "directory_walker_new h t (rl_max_directory_depth lims) = Inr w" "walk_found dec dl (rl_max_range_bytes lims) A w (bs_root boot) None (loc, ls)"
      and s1: "inv s1" by blast
    from b(3) have w: "dw_depth w = 0" "dw_max_depth w = rl_max_directory_depth lims" "dw_header w = h" "dw_tile_id w = t"
      by (auto simp: directory_walker_new_def split: if_splits sum.splits)
    with b(4) obtain n where n: "locates dec dl (rl_max_range_bytes lims) A h t (bs_root boot) n (loc_range loc)" "n \<le> unat (rl_max_directory_depth lims)"
      by (auto simp: walk_found_def)
    from b(1,2) have root: "archive_root dec dl A h (bs_root boot)" by (simp add: bootstrap_of_def)
    show ?thesis
    proof (cases loc)
      case None
      with serves_none [OF root _ n(2)] n(1) assms(1) res Inr x s1 show ?thesis by (auto simp: get_tile_def)
    next
      case (Some l)
      with serves_some [OF root _ n(2)] n(1) assms(1) res Inr x s1 show ?thesis
        by (auto simp: get_tile_def tile_payload_def split: option.splits prod.splits sum.splits
            dest!: range_view [OF s1, rotated 2] dest: check_range_None)
    qed
  qed
qed

end

section \<open>Backends that answer\<close>

text \<open>A backend that also answers, whenever the archive has what is asked for within the limits.\<close>

locale live_archive = archive_view +
  fixes lims :: reader_limits
  assumes bootstrap_live: "inv s \<Longrightarrow> \<exists>b s'. be_load_bootstrap be s = (Inr b, s')"
    and leaf_live: "inv s \<Longrightarrow> header_parse (take header_size A) = Inr h \<Longrightarrow>
      lr_compression lrq = hd_internal_compression h \<Longrightarrow> leaf_of dec dl A (lr_offset lrq) (lr_length lrq) d \<Longrightarrow>
      unat (lr_length lrq) \<le> rl_max_range_bytes lims \<Longrightarrow> \<exists>s'. be_load_leaf be lrq s = (Inr d, s')"
    and range_live: "inv s \<Longrightarrow> rq_kind rq = KTile \<Longrightarrow> slice_inside A (rq_offset rq) (rq_length rq) \<Longrightarrow>
      rq_length rq \<le> rl_max_range_bytes lims \<Longrightarrow>
      \<exists>s'. be_read_range be rq s = (Inr (archive_slice A (rq_offset rq) (rq_length rq)), s')"
    and depth_pos: "rl_max_directory_depth lims \<noteq> 0"
begin

lemma loop_live:
  assumes hp: "header_parse (take header_size A) = Inr h" and boot: "bs_header boot = h"
  shows "locates dec dl (rl_max_range_bytes lims) A h t dir n loc \<Longrightarrow> inv s \<Longrightarrow> dw_header w = h \<Longrightarrow> dw_tile_id w = t \<Longrightarrow>
    n + unat (dw_depth w) \<le> unat (dw_max_depth w) \<Longrightarrow>
    \<exists>l s'. resolve_loop be lims boot w dir None s = (Inr (l, None), s') \<and> loc_range l = loc \<and> inv s'"
proof (induction arbitrary: w s rule: locates.induct)
  case (locates_missing d)
  then show ?case by (subst resolve_loop.simps) (simp add: walker_step_def)
next
  case (locates_tile d i e off)
  then show ?case by (subst resolve_loop.simps) (simp add: walker_step_def)
next
  case (locates_leaf d i e off d' n r)
  let ?w = "w\<lparr>dw_depth := dw_depth w + 1\<rparr>" and ?rg = "\<lparr>ar_offset = off, ar_length = de_length e\<rparr>"
  from locates_leaf.prems(4) have lt: "dw_depth w < dw_max_depth w" by (simp add: word_less_nat_alt)
  with locates_leaf have step: "walker_step w d = (Inr (StepLeaf ?rg), ?w)" by (simp add: walker_step_def Let_def not_le)
  from checked_section_offset_Inr(2) [OF locates_leaf.hyps(3)] header_parse_sections [OF hp]
  have "unat off + unat (de_length e) < 2 ^ 64" by (simp add: unat_ucast_u32)
  with locates_leaf.hyps(4) have chk: "check_range be lims off (de_length e) = None"
    by (simp add: check_range_def checked_add_def unat_ucast_u32 not_less)
  from leaf_live [OF locates_leaf.prems(1) hp, of "leaf_request boot ?rg" d'] locates_leaf.hyps(4,5) boot
  obtain s1 where load: "be_load_leaf be (leaf_request boot ?rg) s = (Inr d', s1)" by auto
  with leaf_view [OF locates_leaf.prems(1) hp _ load] boot have s1: "inv s1" by simp
  have "n + unat (dw_depth ?w) \<le> unat (dw_max_depth ?w)"
    using walker_step_leaf(3) [OF step] locates_leaf.prems(4) by simp
  from locates_leaf.IH [OF s1 _ _ this] locates_leaf.prems(2,3) obtain l s2
    where "resolve_loop be lims boot ?w d' None s1 = (Inr (l, None), s2)" "loc_range l = r" "inv s2" by auto
  with step chk load show ?case by (subst resolve_loop.simps) simp
qed

lemma get_tile_live:
  assumes "inv s" and "serves_tile dec dl (rl_max_range_bytes lims) A (unat (rl_max_directory_depth lims)) t td"
    and "tile_id_new t = Inr t"
  shows "\<exists>s'. get_tile be lims t s = (Inr td, s')"
proof -
  from assms(2) obtain h d n loc where r: "archive_root dec dl A h d" "locates dec dl (rl_max_range_bytes lims) A h t d n loc"
    "n \<le> unat (rl_max_directory_depth lims)" "td = map_option (\<lambda>(off, len). tile_payload A h off len) loc"
    and inside: "\<forall>off len. loc = Some (off, len) \<longrightarrow> slice_inside A off (unat len) \<and> unat len \<le> rl_max_range_bytes lims"
    by (rule serves_tileE)
  from bootstrap_live [OF assms(1)] obtain boot s1 where load: "be_load_bootstrap be s = (Inr boot, s1)" by blast
  with bootstrap_view [OF assms(1) load] have s1: "inv s1" and b: "bootstrap_of dec dl A boot" by auto
  from archive_root_unique [OF r(1), of "bs_header boot" "bs_root boot"] b have boot: "bs_header boot = h" "bs_root boot = d"
    by (auto simp: bootstrap_of_def)
  from r(1) have hp: "header_parse (take header_size A) = Inr h" by (simp add: archive_root_def)
  obtain w where w: "directory_walker_new h t (rl_max_directory_depth lims) = Inr w" "dw_header w = h" "dw_tile_id w = t"
    "dw_depth w = 0" "dw_max_depth w = rl_max_directory_depth lims"
    using b depth_pos boot by (auto simp: directory_walker_new_def bootstrap_of_def)
  from loop_live [OF hp boot(1) r(2) s1 w(2,3)] w(4,5) r(3) obtain l s2
    where loop: "resolve_loop be lims boot w d None s1 = (Inr (l, None), s2)" "loc_range l = loc" "inv s2" by auto
  have res: "resolve_tile_location be lims t None s = (Inr ((l, h, bs_archive_len boot), None), s2)"
    using assms(3) load w(1) boot loop(1) by (simp add: resolve_tile_location_def)
  show ?thesis
  proof (cases l)
    case None
    with res r(4) loop(2) show ?thesis by (auto simp: get_tile_def)
  next
    case (Some lc)
    with loop(2) inside have in': "slice_inside A (tl_offset lc) (unat (tl_length lc))" "unat (tl_length lc) \<le> rl_max_range_bytes lims"
      by auto
    have "unat (tl_offset lc) + unat (tl_length lc) < 2 ^ 64"
      using locates_inside [of dec dl "rl_max_range_bytes lims" A h t d n "tl_offset lc" "tl_length lc"] r(2) loop(2) Some
        header_parse_sections [OF hp] by auto
    then have chk: "check_range be lims (tl_offset lc) (tl_length lc) = None"
      using in'(2) by (simp add: check_range_def checked_add_def unat_ucast_u32 not_less)
    from range_live [OF loop(3), of "\<lparr>rq_offset = tl_offset lc, rq_length = unat (tl_length lc),
        rq_archive_len = Some (tl_archive_len lc), rq_kind = KTile\<rparr>"] in'
    show ?thesis using res Some chk r(4) loop(2) by (auto simp: get_tile_def tile_payload_def)
  qed
qed

end

section \<open>The range backend serves its archive\<close>

text \<open>The contract of a directory store: it returns only what was put into it. It may forget, and a
  lookup may reorder it.\<close>

locale directory_store_laws =
  fixes ds :: "('d, 'm) directory_store"
    and boots :: "'d \<Rightarrow> (archive_identity \<times> 'm archive_bootstrap) set"
    and leaves :: "'d \<Rightarrow> (leaf_directory_key \<times> directory) set"
  assumes get_bootstrap: "ds_get_bootstrap ds i d = (rb, d') \<Longrightarrow>
      (\<forall>b. rb = Some b \<longrightarrow> (i, b) \<in> boots d) \<and> boots d' \<subseteq> boots d \<and> leaves d' \<subseteq> leaves d"
    and get_leaf: "ds_get_leaf ds k d = (rl, d') \<Longrightarrow>
      (\<forall>l. rl = Some l \<longrightarrow> (k, l) \<in> leaves d) \<and> boots d' \<subseteq> boots d \<and> leaves d' \<subseteq> leaves d"
    and put_bootstrap: "boots (ds_put_bootstrap ds i b d) \<subseteq> insert (i, b) (boots d)"
      "leaves (ds_put_bootstrap ds i b d) \<subseteq> leaves d"
    and put_leaf: "leaves (ds_put_leaf ds k l d) \<subseteq> insert (k, l) (leaves d)"
      "boots (ds_put_leaf ds k l d) \<subseteq> boots d"

text \<open>A range source of an archive: the bytes it returns start at the offset asked for. It may fail,
  and it may return fewer bytes than asked.\<close>

definition reads_archive :: "bytes \<Rightarrow> (read_request \<Rightarrow> 'w \<Rightarrow> ('e + bytes) \<times> 'w) \<Rightarrow> bool" where
  "reads_archive A src \<longleftrightarrow>
     (\<forall>rq w bs w'. src rq w = (Inr bs, w') \<longrightarrow> bs = take (length bs) (drop (unat (rq_offset rq)) A))"

definition metadata_of :: "('d, 'w, 'e, 'm) range_backend \<Rightarrow> bytes \<Rightarrow> 'm \<Rightarrow> bool" where
  "metadata_of rb A md \<longleftrightarrow>
     (\<exists>h. header_parse (take header_size A) = Inr h
        \<and> (if hd_metadata_length h = 0 then md = rb_default_metadata rb
           else slice_inside A (hd_metadata_offset h) (unat (hd_metadata_length h))
              \<and> decode_metadata_bytes (rb_decoders rb) (rb_json rb) h
                  (archive_slice A (hd_metadata_offset h) (unat (hd_metadata_length h)))
                  (rl_max_decompressed_metadata_bytes (rb_limits rb)) = Inr md))"

abbreviation directory_limit :: "('d, 'w, 'e, 'm) range_backend \<Rightarrow> nat" where
  "directory_limit rb \<equiv> rl_max_decompressed_directory_bytes (rb_limits rb)"

text \<open>What is stored under the identity of the archive decodes from the archive.\<close>

definition store_coherent ::
  "('d, 'w, 'e, 'm) range_backend \<Rightarrow> bytes \<Rightarrow> ('d \<Rightarrow> (archive_identity \<times> 'm archive_bootstrap) set)
     \<Rightarrow> ('d \<Rightarrow> (leaf_directory_key \<times> directory) set) \<Rightarrow> ('d, 'w) backend_state \<Rightarrow> bool" where
  "store_coherent rb A boots leaves s \<longleftrightarrow>
     (\<forall>b. (rb_identity rb, b) \<in> boots (st_store s) \<longrightarrow>
        bootstrap_of (rb_decoders rb) (directory_limit rb) A b \<and> (\<forall>md. bs_metadata b = Some md \<longrightarrow> metadata_of rb A md))
   \<and> (\<forall>k l. (k, l) \<in> leaves (st_store s) \<and> lk_archive k = rb_identity rb \<longrightarrow>
        leaf_of (rb_decoders rb) (directory_limit rb) A (lk_offset k) (lk_length k) l)"

lemma store_coherent_mono:
  "store_coherent rb A boots leaves s \<Longrightarrow> boots (st_store s') \<subseteq> boots (st_store s) \<Longrightarrow>
     leaves (st_store s') \<subseteq> leaves (st_store s) \<Longrightarrow> store_coherent rb A boots leaves s'"
  unfolding store_coherent_def by blast

lemma store_coherent_observe [simp]:
  "store_coherent rb A boots leaves (observe ev s) = store_coherent rb A boots leaves s"
  "store_coherent rb A boots leaves (s\<lparr>st_source := w\<rparr>) = store_coherent rb A boots leaves s"
  "store_coherent rb A boots leaves (observe ev s\<lparr>st_store := d\<rparr>) = store_coherent rb A boots leaves (s\<lparr>st_store := d\<rparr>)"
  by (simp_all add: store_coherent_def observe_def)

lemma observe_store [simp]: "st_store (observe ev s) = st_store s"
  by (simp add: observe_def)

lemma slice_of_prefix:
  assumes "n + k \<le> length (take m A)"
  shows "take k (drop n (take m A)) = take k (drop n A)"
proof -
  from assms have "k \<le> m - n" by auto
  then show ?thesis by (simp add: drop_take min.absorb1)
qed

lemma decode_bootstrap_prefix:
  assumes "decode_bootstrap_bytes dec (take n A) dl = Inr b"
  shows "bootstrap_of dec dl A b \<and> bs_metadata b = None"
proof -
  from assms obtain h d where len: "header_size \<le> length (take n A)" and h: "header_parse (take header_size (take n A)) = Inr h"
    and root_end: "unat (hd_root_offset h) + unat (hd_root_length h) \<le> length (take n A)"
    and d: "parse_with_limit dec (hd_internal_compression h)
        (take (unat (hd_root_length h)) (drop (unat (hd_root_offset h)) (take n A))) dl = Inr d"
    and b: "archive_bootstrap_new h d None = Inr b"
    by (auto simp: decode_bootstrap_bytes_def Let_def usize_checked_add_def not_less
        split: if_splits sum.splits option.splits)
  from len have "take header_size (take n A) = take header_size A" by (simp add: min.absorb1)
  with h d slice_of_prefix [OF root_end] root_end b show ?thesis
    by (auto simp: bootstrap_of_def archive_root_def slice_inside_def archive_slice_def archive_bootstrap_new_def split: sum.splits)
qed

lemma rb_read_range_store: "rb_read_range rb rq s = (r, s') \<Longrightarrow> st_store s' = st_store s"
  by (auto simp: rb_read_range_def Let_def split: if_splits prod.splits sum.splits)

lemma rb_read_range_bytes:
  assumes "reads_archive A (rb_source rb)" and "rb_read_range rb rq s = (Inr bs, s')"
  shows "bs = take (length bs) (drop (unat (rq_offset rq)) A)"
    and "rq_kind rq \<noteq> KBootstrap \<Longrightarrow>
      slice_inside A (rq_offset rq) (rq_length rq) \<and> bs = archive_slice A (rq_offset rq) (rq_length rq)"
proof -
  from assms(2) obtain w w' where src: "rb_source rb rq w = (Inr bs, w')"
    and len: "rq_kind rq \<noteq> KBootstrap \<Longrightarrow> length bs = rq_length rq"
    by (auto simp: rb_read_range_def Let_def split: if_splits prod.splits sum.splits)
  with assms(1) show bs: "bs = take (length bs) (drop (unat (rq_offset rq)) A)" unfolding reads_archive_def by blast
  assume k: "rq_kind rq \<noteq> KBootstrap"
  from bs have "length bs \<le> length A - unat (rq_offset rq)" by (metis length_drop length_take min.cobounded1)
  with bs len [OF k] show "slice_inside A (rq_offset rq) (rq_length rq) \<and> bs = archive_slice A (rq_offset rq) (rq_length rq)"
    by (simp add: archive_slice_def slice_inside_def)
qed

locale archive_source = directory_store_laws "rb_directories rb" boots leaves
  for rb :: "('d, 'w, 'e, 'm) range_backend" and boots and leaves +
  fixes A :: bytes
  assumes source: "reads_archive A (rb_source rb)"
begin

lemma coherent_put_bootstrap:
  assumes "store_coherent rb A boots leaves s" and "bootstrap_of (rb_decoders rb) (directory_limit rb) A b"
    and "\<forall>md. bs_metadata b = Some md \<longrightarrow> metadata_of rb A md"
  shows "store_coherent rb A boots leaves (s\<lparr>st_store := ds_put_bootstrap (rb_directories rb) (rb_identity rb) b (st_store s)\<rparr>)"
  using assms put_bootstrap [of "rb_identity rb" b "st_store s"] by (auto simp: store_coherent_def)

lemma load_bootstrap_view:
  assumes "rb_load_bootstrap rb s = (r, s')" and "store_coherent rb A boots leaves s"
  shows "store_coherent rb A boots leaves s' \<and> (\<forall>b. r = Inr b \<longrightarrow>
      bootstrap_of (rb_decoders rb) (directory_limit rb) A b \<and> (\<forall>md. bs_metadata b = Some md \<longrightarrow> metadata_of rb A md))"
proof -
  obtain g d where g: "ds_get_bootstrap (rb_directories rb) (rb_identity rb) (st_store s) = (g, d)" by fastforce
  let ?s = "s\<lparr>st_store := d\<rparr>"
  have s: "store_coherent rb A boots leaves ?s"
    using get_bootstrap [OF g] store_coherent_mono [OF assms(2), of ?s] by simp
  show ?thesis
  proof (cases g)
    case (Some b)
    with assms g s get_bootstrap [OF g] show ?thesis by (auto simp: rb_load_bootstrap_def store_coherent_def)
  next
    case None
    obtain r1 s1 where read: "rb_read_range rb \<lparr>rq_offset = 0, rq_length = rl_bootstrap_bytes (rb_limits rb),
        rq_archive_len = None, rq_kind = KBootstrap\<rparr> ?s = (r1, s1)" by fastforce
    have s1: "store_coherent rb A boots leaves s1"
      using store_coherent_mono [OF s, of s1] rb_read_range_store [OF read] by simp
    have dec: "bootstrap_of (rb_decoders rb) (directory_limit rb) A b \<and> bs_metadata b = None"
      if "r1 = Inr bs" "decode_bootstrap_bytes (rb_decoders rb) bs (directory_limit rb) = Inr b" for bs b
      using rb_read_range_bytes(1) [OF source read [unfolded that(1)]] that(2)
        decode_bootstrap_prefix [of "rb_decoders rb" "length bs" A "directory_limit rb" b] by simp
    from assms(1) g None read dec s1 show ?thesis
      by (auto simp: rb_load_bootstrap_def Let_def split: sum.splits intro!: coherent_put_bootstrap)
  qed
qed

lemma load_metadata_view:
  assumes "rb_load_metadata rb s = (r, s')" and "store_coherent rb A boots leaves s"
  shows "store_coherent rb A boots leaves s' \<and> (\<forall>md. r = Inr md \<longrightarrow> metadata_of rb A md)"
proof -
  obtain r0 s0 where boot: "rb_load_bootstrap rb s = (r0, s0)" by fastforce
  note b = load_bootstrap_view [OF this assms(2)]
  consider (stop) "s' = s0" "\<forall>md. r \<noteq> Inr md"
    | (hit) b md where "r0 = Inr b" "bs_metadata b = Some md" "r = Inr md" "\<exists>ev. s' = observe ev s0"
    | (none) b where "r0 = Inr b" "hd_metadata_length (bs_header b) = 0" "r = Inr (rb_default_metadata rb)"
        "s' = s0\<lparr>st_store := ds_put_bootstrap (rb_directories rb) (rb_identity rb)
                  (b\<lparr>bs_metadata := Some (rb_default_metadata rb)\<rparr>) (st_store s0)\<rparr>"
    | (read) b rq r1 s1 where "r0 = Inr b" "rb_read_range rb rq s0 = (r1, s1)" "rq_offset rq = hd_metadata_offset (bs_header b)"
        "rq_length rq = unat (hd_metadata_length (bs_header b))" "rq_kind rq = KMetadata" "hd_metadata_length (bs_header b) \<noteq> 0"
        "(s' = s1 \<and> (\<forall>md. r \<noteq> Inr md)) \<or> (\<exists>bs md. r1 = Inr bs \<and> r = Inr md
          \<and> decode_metadata_bytes (rb_decoders rb) (rb_json rb) (bs_header b) bs
              (rl_max_decompressed_metadata_bytes (rb_limits rb)) = Inr md
          \<and> s' = s1\<lparr>st_store := ds_put_bootstrap (rb_directories rb) (rb_identity rb)
              (b\<lparr>bs_metadata := Some md\<rparr>) (st_store s1)\<rparr>)"
    using assms(1) boot
    by (auto simp: rb_load_metadata_def split: prod.splits sum.splits option.splits if_splits)
  then show ?thesis
  proof cases
    case hit
    with b show ?thesis by auto
  next
    case none
    from none(1) b have bo: "bootstrap_of (rb_decoders rb) (directory_limit rb) A b" and s0: "store_coherent rb A boots leaves s0" by auto
    then have "metadata_of rb A (rb_default_metadata rb)"
      using none(2) by (auto simp: metadata_of_def bootstrap_of_def archive_root_def)
    with coherent_put_bootstrap [OF s0, of "b\<lparr>bs_metadata := Some (rb_default_metadata rb)\<rparr>"] bo none(3,4) show ?thesis
      by (simp add: bootstrap_of_def)
  next
    case read
    from read(1) b have bo: "bootstrap_of (rb_decoders rb) (directory_limit rb) A b" and s0: "store_coherent rb A boots leaves s0" by auto
    have s1: "store_coherent rb A boots leaves s1"
      using store_coherent_mono [OF s0, of s1] rb_read_range_store [OF read(2)] by simp
    from read(7) show ?thesis
    proof (elim disjE exE conjE)
      fix bs md assume d: "r1 = Inr bs" "r = Inr md" "decode_metadata_bytes (rb_decoders rb) (rb_json rb) (bs_header b) bs
              (rl_max_decompressed_metadata_bytes (rb_limits rb)) = Inr md"
        and s': "s' = s1\<lparr>st_store := ds_put_bootstrap (rb_directories rb) (rb_identity rb)
              (b\<lparr>bs_metadata := Some md\<rparr>) (st_store s1)\<rparr>"
      from rb_read_range_bytes(2) [OF source read(2) [unfolded d(1)]] read(3-6) d(3) bo have "metadata_of rb A md"
        by (auto simp: metadata_of_def bootstrap_of_def archive_root_def)
      with coherent_put_bootstrap [OF s1, of "b\<lparr>bs_metadata := Some md\<rparr>"] bo d(2) s' show ?thesis
        by (simp add: bootstrap_of_def)
    qed (use s1 in simp)
  qed (use b in simp)
qed

lemma load_leaf_view:
  assumes "rb_load_leaf rb rq s = (r, s')" and "store_coherent rb A boots leaves s"
    and "header_parse (take header_size A) = Inr h" and "lr_compression rq = hd_internal_compression h"
  shows "store_coherent rb A boots leaves s' \<and>
    (\<forall>l. r = Inr l \<longrightarrow> leaf_of (rb_decoders rb) (directory_limit rb) A (lr_offset rq) (lr_length rq) l)"
proof -
  let ?k = "\<lparr>lk_archive = rb_identity rb, lk_offset = lr_offset rq, lk_length = lr_length rq\<rparr>"
  obtain g d where g: "ds_get_leaf (rb_directories rb) ?k (st_store s) = (g, d)" by fastforce
  let ?s = "s\<lparr>st_store := d\<rparr>"
  have s: "store_coherent rb A boots leaves ?s"
    using get_leaf [OF g] store_coherent_mono [OF assms(2), of ?s] by simp
  show ?thesis
  proof (cases g)
    case (Some l)
    with get_leaf [OF g] assms(2) have "leaf_of (rb_decoders rb) (directory_limit rb) A (lr_offset rq) (lr_length rq) l"
      by (fastforce simp: store_coherent_def)
    with Some assms(1) g s show ?thesis by (auto simp: rb_load_leaf_def)
  next
    case None
    obtain r1 s1 where read: "rb_read_range rb \<lparr>rq_offset = lr_offset rq, rq_length = unat (lr_length rq),
        rq_archive_len = Some (lr_archive_len rq), rq_kind = KLeafDirectory\<rparr> ?s = (r1, s1)" by fastforce
    have s1: "store_coherent rb A boots leaves s1"
      using store_coherent_mono [OF s, of s1] rb_read_range_store [OF read] by simp
    have leaf: "leaf_of (rb_decoders rb) (directory_limit rb) A (lr_offset rq) (lr_length rq) l"
      if "r1 = Inr bs" "parse_with_limit (rb_decoders rb) (lr_compression rq) bs (directory_limit rb) = Inr l" for bs l
      using rb_read_range_bytes(2) [OF source read [unfolded that(1)]] that(2) assms(3,4) by (simp add: leaf_of_def)
    have put: "store_coherent rb A boots leaves (s1\<lparr>st_store := ds_put_leaf (rb_directories rb) ?k l (st_store s1)\<rparr>)"
      if "leaf_of (rb_decoders rb) (directory_limit rb) A (lr_offset rq) (lr_length rq) l" for l
      using that s1 put_leaf [of ?k l "st_store s1"] by (auto simp: store_coherent_def)
    from assms(1) g None read s1 leaf put show ?thesis
      by (auto simp: rb_load_leaf_def Let_def split: sum.splits)
  qed
qed

end

sublocale archive_source \<subseteq> served: archive_view "range_archive_backend rb" "store_coherent rb A boots leaves" A
    "rb_decoders rb" "directory_limit rb"
proof unfold_locales
  fix s s' rq r assume s: "store_coherent rb A boots leaves s" and k: "rq_kind rq = KTile"
    and "be_read_range (range_archive_backend rb) rq s = (r, s')"
  then have read: "rb_read_range rb rq s = (r, s')" by (simp add: range_archive_backend_def)
  have "store_coherent rb A boots leaves s'"
    using store_coherent_mono [OF s, of s'] rb_read_range_store [OF read] by simp
  then show "store_coherent rb A boots leaves s' \<and> (\<forall>bs. r = Inr bs \<longrightarrow>
      slice_inside A (rq_offset rq) (rq_length rq) \<and> bs = archive_slice A (rq_offset rq) (rq_length rq))"
    using rb_read_range_bytes(2) [OF source, of rq s] read k by auto
qed (auto simp: range_archive_backend_def dest: load_bootstrap_view load_leaf_view)

lemma sections_end_Inr: "first_overflow ss = None \<Longrightarrow> \<exists>n. sections_end acc ss = Inr n"
  by (induction acc ss rule: sections_end.induct) (auto split: option.splits)

lemma header_parse_archive_len: "header_parse bs = Inr h \<Longrightarrow> \<exists>n. archive_len h = Inr n"
  unfolding archive_len_def
  by (rule sections_end_Inr) (auto simp: header_parse_def Let_def split: if_splits sum.splits option.splits)

text \<open>The root directory lies inside the first \<open>n\<close> bytes.\<close>

definition root_within :: "decoders \<Rightarrow> nat \<Rightarrow> bytes \<Rightarrow> nat \<Rightarrow> bool" where
  "root_within dec dl A n \<longleftrightarrow>
     (\<exists>h d. archive_root dec dl A h d \<and> header_size \<le> n
        \<and> unat (hd_root_offset h) + unat (hd_root_length h) \<le> length (take n A)
        \<and> unat (hd_root_offset h) + unat (hd_root_length h) \<le> usize_max)"

lemma decode_bootstrap_fits:
  assumes "root_within dec dl A n"
  shows "decode_bootstrap_bytes dec (take n A) dl \<noteq> Inl e"
proof -
  from assms obtain h d where r: "archive_root dec dl A h d" "header_size \<le> n"
    "unat (hd_root_offset h) + unat (hd_root_length h) \<le> length (take n A)"
    "unat (hd_root_offset h) + unat (hd_root_length h) \<le> usize_max" by (auto simp: root_within_def)
  from r(1) have h: "header_parse (take header_size A) = Inr h" by (simp add: archive_root_def)
  then have "header_size \<le> length A" by (auto simp: header_parse_def min_def split: if_splits)
  with r(2) have "take header_size (take n A) = take header_size A" "\<not> length (take n A) < header_size"
    by (simp_all add: min.absorb1)
  with r h slice_of_prefix [OF r(3)] header_parse_archive_len [OF h] show ?thesis
    by (auto simp: decode_bootstrap_bytes_def Let_def usize_checked_add_def archive_root_def
        archive_slice_def archive_bootstrap_new_def simp del: length_take take_take)
qed

text \<open>A source that answers every read with the bytes of the archive there.\<close>

definition whole_source :: "bytes \<Rightarrow> (read_request \<Rightarrow> 'w \<Rightarrow> ('e + bytes) \<times> 'w) \<Rightarrow> bool" where
  "whole_source A src \<longleftrightarrow> (\<forall>rq w. \<exists>w'. src rq w = (Inr (archive_slice A (rq_offset rq) (rq_length rq)), w'))"

locale whole_archive_source = archive_source +
  assumes exact: "whole_source A (rb_source rb)"
    and limits: "validate_limits (rb_limits rb) = None"
    and boot_fits: "root_within (rb_decoders rb) (directory_limit rb) A (rl_bootstrap_bytes (rb_limits rb))"
begin

lemma read_live:
  assumes "rq_length rq \<le> rl_max_range_bytes (rb_limits rb)"
    and "rq_kind rq = KBootstrap \<or> slice_inside A (rq_offset rq) (rq_length rq)"
  shows "\<exists>s'. rb_read_range rb rq s = (Inr (archive_slice A (rq_offset rq) (rq_length rq)), s')"
proof -
  obtain w' where "rb_source rb rq (st_source s) = (Inr (archive_slice A (rq_offset rq) (rq_length rq)), w')"
    using exact unfolding whole_source_def by blast
  with assms show ?thesis
    by (auto simp: rb_read_range_def Let_def observe_def slice_inside_def archive_slice_def)
qed

lemma load_bootstrap_live: "\<exists>b s'. rb_load_bootstrap rb s = (Inr b, s')"
proof -
  obtain g d where g: "ds_get_bootstrap (rb_directories rb) (rb_identity rb) (st_store s) = (g, d)" by fastforce
  let ?rq = "\<lparr>rq_offset = 0, rq_length = rl_bootstrap_bytes (rb_limits rb), rq_archive_len = None, rq_kind = KBootstrap\<rparr>"
  have "rq_length ?rq \<le> rl_max_range_bytes (rb_limits rb)"
    using limits by (auto simp: validate_limits_def split: if_splits)
  from read_live [OF this, of "s\<lparr>st_store := d\<rparr>"] obtain s1 where
    "rb_read_range rb ?rq (s\<lparr>st_store := d\<rparr>) = (Inr (take (rl_bootstrap_bytes (rb_limits rb)) A), s1)"
    by (auto simp: archive_slice_def)
  with g show ?thesis
    by (cases g) (auto simp: rb_load_bootstrap_def Let_def decode_bootstrap_fits [OF boot_fits] split: sum.splits)
qed

lemma load_leaf_live:
  assumes "store_coherent rb A boots leaves s" and "header_parse (take header_size A) = Inr h"
    and "lr_compression rq = hd_internal_compression h"
    and "leaf_of (rb_decoders rb) (directory_limit rb) A (lr_offset rq) (lr_length rq) l"
    and "unat (lr_length rq) \<le> rl_max_range_bytes (rb_limits rb)"
  shows "\<exists>s'. rb_load_leaf rb rq s = (Inr l, s')"
proof -
  let ?k = "\<lparr>lk_archive = rb_identity rb, lk_offset = lr_offset rq, lk_length = lr_length rq\<rparr>"
  obtain g d where g: "ds_get_leaf (rb_directories rb) ?k (st_store s) = (g, d)" by fastforce
  let ?rq = "\<lparr>rq_offset = lr_offset rq, rq_length = unat (lr_length rq), rq_archive_len = Some (lr_archive_len rq),
    rq_kind = KLeafDirectory\<rparr>"
  from assms(4) have "slice_inside A (lr_offset rq) (unat (lr_length rq))" by (auto simp: leaf_of_def)
  with read_live [of ?rq "s\<lparr>st_store := d\<rparr>"] assms(5) obtain s1 where
    "rb_read_range rb ?rq (s\<lparr>st_store := d\<rparr>) = (Inr (archive_slice A (lr_offset rq) (unat (lr_length rq))), s1)" by auto
  with assms(2-4) g obtain l' s' where l': "rb_load_leaf rb rq s = (Inr l', s')"
    by (cases g) (auto simp: rb_load_leaf_def Let_def leaf_of_def)
  with load_leaf_view [OF l' assms(1-3)] leaf_of_unique [OF assms(4)] show ?thesis by auto
qed

end

sublocale whole_archive_source \<subseteq> answering: live_archive "range_archive_backend rb" "store_coherent rb A boots leaves" A
    "rb_decoders rb" "directory_limit rb" "rb_limits rb"
proof unfold_locales
  show "rl_max_directory_depth (rb_limits rb) \<noteq> 0" using limits by (auto simp: validate_limits_def split: if_splits)
qed (simp_all add: range_archive_backend_def read_live load_bootstrap_live load_leaf_live)

context archive_source
begin

lemma get_tile_coherent:
  "get_tile (range_archive_backend rb) lims t s = (r, s') \<Longrightarrow> store_coherent rb A boots leaves s \<Longrightarrow>
     store_coherent rb A boots leaves s' \<and> (\<forall>td. r = Inr td \<longrightarrow>
       serves_tile (rb_decoders rb) (directory_limit rb) (rl_max_range_bytes lims) A (unat (rl_max_directory_depth lims)) t td)"
  by (rule served.get_tile_view)

lemma metadata_coherent:
  "reader_metadata (range_archive_backend rb) s = (r, s') \<Longrightarrow> store_coherent rb A boots leaves s \<Longrightarrow>
     store_coherent rb A boots leaves s' \<and> (\<forall>md. r = Inr md \<longrightarrow> metadata_of rb A md)"
  by (rule load_metadata_view) (simp_all add: reader_metadata_def range_archive_backend_def)

end

context whole_archive_source
begin

lemma get_tile_answered:
  "store_coherent rb A boots leaves s \<Longrightarrow>
     serves_tile (rb_decoders rb) (directory_limit rb) (rl_max_range_bytes (rb_limits rb)) A
       (unat (rl_max_directory_depth (rb_limits rb))) t td \<Longrightarrow> tile_id_new t = Inr t \<Longrightarrow>
     \<exists>s'. get_tile (range_archive_backend rb) (rb_limits rb) t s = (Inr td, s')"
  by (rule answering.get_tile_live)

end

interpretation no_store: directory_store_laws "no_directory_store :: ('d, 'm) directory_store" "\<lambda>_. {}" "\<lambda>_. {}"
  by unfold_locales (auto simp: no_directory_store_def)

text \<open>An archive held in memory.\<close>

definition memory_source :: "bytes \<Rightarrow> read_request \<Rightarrow> unit \<Rightarrow> (string + bytes) \<times> unit" where
  "memory_source A rq w = (Inr (archive_slice A (rq_offset rq) (rq_length rq)), w)"

lemma whole_source_reads:
  assumes "whole_source A src"
  shows "reads_archive A src"
  unfolding reads_archive_def
proof (intro allI impI)
  fix rq w bs w' assume "src rq w = (Inr bs, w')"
  with assms have "bs = take (rq_length rq) (drop (unat (rq_offset rq)) A)"
    unfolding whole_source_def archive_slice_def by (metis Inr_inject prod.inject)
  then show "bs = take (length bs) (drop (unat (rq_offset rq)) A)" by (simp add: min_def)
qed

lemma memory_source_whole: "whole_source A (memory_source A)"
  by (simp add: whole_source_def memory_source_def)

lemma default_limits_ok: "validate_limits reader_limits_default = None"
  by (simp add: validate_limits_def reader_limits_default_def default_max_directory_depth_def
      default_max_decompressed_bytes_def min_bootstrap_bytes_def)

interpretation in_memory: archive_source "reader_new (memory_source A) i dec json md" "\<lambda>_. {}" "\<lambda>_. {}" A
  for A i dec json md
  by unfold_locales (auto simp: reader_new_def no_directory_store_def whole_source_reads memory_source_whole)

section \<open>Properties\<close>

lemma serves_tile_inside:
  assumes "serves_tile dec dl mr A depth t (Some td)"
  shows "\<exists>h off len. header_parse (take header_size A) = Inr h \<and> td_bytes td = archive_slice A off len
     \<and> length (td_bytes td) = len \<and> len \<le> mr \<and> unat (hd_data_offset h) \<le> unat off
     \<and> unat off + len \<le> unat (hd_data_offset h) + unat (hd_data_length h)"
proof -
  from assms obtain h d n off len where r: "archive_root dec dl A h d" "locates dec dl mr A h t d n (Some (off, len))"
    "slice_inside A off (unat len)" "unat len \<le> mr" "td = tile_payload A h off len"
    by (auto elim!: serves_tile.cases)
  from r(1) have "header_parse (take header_size A) = Inr h" by (simp add: archive_root_def)
  moreover from r(3,5) have "td_bytes td = archive_slice A off (unat len) \<and> length (td_bytes td) = unat len"
    by (simp add: tile_payload_def archive_slice_def slice_inside_def)
  ultimately show ?thesis using locates_inside [OF r(2)] r(4) by blast
qed

text \<open>A one-tile archive.\<close>

definition demo_archive :: bytes where
  "demo_archive =
     [0x50, 0x4d, 0x54, 0x69, 0x6c, 0x65, 0x73, 3,
      127, 0, 0, 0, 0, 0, 0, 0,  5, 0, 0, 0, 0, 0, 0, 0,
      132, 0, 0, 0, 0, 0, 0, 0,  0, 0, 0, 0, 0, 0, 0, 0,
      132, 0, 0, 0, 0, 0, 0, 0,  0, 0, 0, 0, 0, 0, 0, 0,
      132, 0, 0, 0, 0, 0, 0, 0,  2, 0, 0, 0, 0, 0, 0, 0,
      1, 0, 0, 0, 0, 0, 0, 0,  1, 0, 0, 0, 0, 0, 0, 0,  1, 0, 0, 0, 0, 0, 0, 0,
      1, 1, 1, 2, 0, 0,
      0, 0, 0, 0,  0, 0, 0, 0,  0, 0, 0, 0,  0, 0, 0, 0,  0,  0, 0, 0, 0,  0, 0, 0, 0,
      1, 0, 1, 2, 1,  170, 187]"

definition demo_entry :: directory_entry where
  "demo_entry = \<lparr>de_tile_id = 0, de_offset = 0, de_length = 2, de_run_length = 1\<rparr>"

lemma demo_header:
  "\<exists>h. header_parse (take header_size demo_archive) = Inr h \<and> hd_root_offset h = 127 \<and> hd_root_length h = 5
     \<and> hd_data_offset h = 132 \<and> hd_data_length h = 2 \<and> hd_internal_compression h = CNone
     \<and> hd_tile_compression h = CNone \<and> hd_tile_type h = TPng"
  by (simp add: header_parse_def demo_archive_def header_size_def u8_at_def u64_at_def le_value_def Let_def
      pmtiles_version_def compression_try_from_def tile_type_try_from_def header_sections_def checked_add_def)

lemma demo_root:
  "n \<ge> 5 \<Longrightarrow> parse_with_limit dec CNone (take 5 (drop 127 demo_archive)) n = Inr [demo_entry]"
proof -
  have "encode_directory [demo_entry] = take 5 (drop 127 demo_archive)"
    by (simp add: encode_directory_def encode_u32s_def encode_varint_def encode_varint_nat.simps demo_entry_def demo_archive_def)
  moreover have "directory_decode (encode_directory [demo_entry] @ []) = Inr [demo_entry]"
    by (rule directory_decode_encode) (simp add: directory_ok_def demo_entry_def u64_max_def usize_max_def)
  moreover have "length (take 5 (drop 127 demo_archive)) = 5" by (simp add: demo_archive_def)
  ultimately show "n \<ge> 5 \<Longrightarrow> parse_with_limit dec CNone (take 5 (drop 127 demo_archive)) n = Inr [demo_entry]"
    by (simp add: parse_with_limit_def decompress_bytes_with_limit_def)
qed

text \<open>C22: Over any source that returns bytes of the archive, failing or falling short as it may, and
  any store that returns only what was put into it, a tile request that succeeds gives exactly the
  archive's answer: no tile, or the bytes of the tile's range, which lies in the tile data section and
  within the range limit. What the store holds for the archive stays decoded from it.\<close>

theorem get_tile_serves_archive:
  assumes "directory_store_laws (rb_directories rb) boots leaves" and "reads_archive A (rb_source rb)"
    and "store_coherent rb A boots leaves s"
    and "get_tile (range_archive_backend rb) (rb_limits rb) t s = (r, s')"
  shows "store_coherent rb A boots leaves s'
     \<and> (\<forall>td. r = Inr td \<longrightarrow>
          (\<forall>td'. serves_tile (rb_decoders rb) (directory_limit rb) (rl_max_range_bytes (rb_limits rb)) A
             (unat (rl_max_directory_depth (rb_limits rb))) t td' \<longleftrightarrow> td' = td)
        \<and> (\<forall>d. td = Some d \<longrightarrow> (\<exists>h off len. header_parse (take header_size A) = Inr h \<and> td_bytes d = archive_slice A off len
             \<and> length (td_bytes d) = len \<and> len \<le> rl_max_range_bytes (rb_limits rb) \<and> unat (hd_data_offset h) \<le> unat off
             \<and> unat off + len \<le> unat (hd_data_offset h) + unat (hd_data_length h))))"
proof -
  have "archive_source rb boots leaves A" using assms(1,2) by (simp add: archive_source_def archive_source_axioms_def)
  from archive_source.get_tile_coherent [OF this assms(4,3)] show ?thesis
    using serves_tile_unique serves_tile_inside by blast
qed

text \<open>C23: Over a source that answers every read in full, with validated limits and the root directory
  inside the bootstrap read, every tile the archive has within those limits is served, whatever
  coherent directories the store already holds.\<close>

theorem get_tile_answers:
  assumes "directory_store_laws (rb_directories rb) boots leaves"
    and "whole_source A (rb_source rb)"
    and "validate_limits (rb_limits rb) = None"
    and "root_within (rb_decoders rb) (directory_limit rb) A (rl_bootstrap_bytes (rb_limits rb))"
    and "store_coherent rb A boots leaves s" and "tile_id_new t = Inr t"
    and "serves_tile (rb_decoders rb) (directory_limit rb) (rl_max_range_bytes (rb_limits rb)) A
       (unat (rl_max_directory_depth (rb_limits rb))) t td"
  shows "\<exists>s'. get_tile (range_archive_backend rb) (rb_limits rb) t s = (Inr td, s')"
proof -
  have "whole_archive_source rb boots leaves A"
    using assms(1-4) whole_source_reads [OF assms(2)]
    by (simp add: whole_archive_source_def whole_archive_source_axioms_def archive_source_def archive_source_axioms_def)
  from whole_archive_source.get_tile_answered [OF this assms(5,7,6)] show ?thesis .
qed

text \<open>C24: A tile request ends after at most one read for the bootstrap, one per permitted directory
  level and one for the tile, whatever the directories it meets, cyclic ones included.\<close>

theorem get_tile_bounded_reads:
  "reads_started (snd (get_tile (range_archive_backend rb) lims t s))
     \<le> reads_started s + unat (rl_max_directory_depth lims) + 2"
  using range_reads.get_tile_reads [OF surjective_pairing] .


abbreviation demo_reader :: "(unit, unit, string, unit) range_backend" where
  "demo_reader \<equiv> reader_new (memory_source demo_archive) \<lparr>ai_name = ''a'', ai_generation = ''1''\<rparr>
     \<lparr>dec_gzip = \<lambda>_ _. Inl [], dec_brotli = \<lambda>_ _. Inl [], dec_zstd = \<lambda>_. Inl []\<rparr> (\<lambda>_. Inr ()) ()"

definition demo_state :: "(unit, unit) backend_state" where
  "demo_state = \<lparr>st_store = (), st_source = (), st_events = []\<rparr>"

lemma demo_coherent:
  "directory_store_laws (rb_directories demo_reader) (\<lambda>_. {}) (\<lambda>_. {})" "whole_source demo_archive (rb_source demo_reader)"
  "validate_limits (rb_limits demo_reader) = None" "store_coherent demo_reader demo_archive (\<lambda>_. {}) (\<lambda>_. {}) demo_state"
  using no_store.directory_store_laws_axioms default_limits_ok
  by (simp_all add: reader_new_def memory_source_whole store_coherent_def)

lemma demo_limits:
  "rl_bootstrap_bytes (rb_limits demo_reader) = 16384" "directory_limit demo_reader = 67108864"
  "rl_max_range_bytes (rb_limits demo_reader) = 67108864"
  by (simp_all add: reader_new_def reader_limits_default_def min_bootstrap_bytes_def default_max_decompressed_bytes_def)

lemma demo_serves:
  "root_within (rb_decoders demo_reader) (directory_limit demo_reader) demo_archive (rl_bootstrap_bytes (rb_limits demo_reader))"
  "\<exists>h. serves_tile (rb_decoders demo_reader) (directory_limit demo_reader) (rl_max_range_bytes (rb_limits demo_reader))
     demo_archive (unat (rl_max_directory_depth (rb_limits demo_reader))) 0 (Some (tile_payload demo_archive h 132 2))"
proof -
  obtain h where h: "header_parse (take header_size demo_archive) = Inr h" "hd_root_offset h = 127" "hd_root_length h = 5"
     "hd_data_offset h = 132" "hd_data_length h = 2" "hd_internal_compression h = CNone" using demo_header by blast
  have len: "length demo_archive = 134" by (simp add: demo_archive_def)
  have root: "archive_root dec (directory_limit demo_reader) demo_archive h [demo_entry]" for dec
    using h demo_root [of "directory_limit demo_reader" dec] unfolding demo_limits
    by (simp add: archive_root_def slice_inside_def archive_slice_def len)
  with h show "root_within (rb_decoders demo_reader) (directory_limit demo_reader) demo_archive (rl_bootstrap_bytes (rb_limits demo_reader))"
    unfolding root_within_def demo_limits by (intro exI [of _ h] exI [of _ "[demo_entry]"]) (simp add: len header_size_def usize_max_def)
  have "locates dec dl mr demo_archive h 0 [demo_entry] 0 (Some (132, de_length demo_entry))" for dec dl mr
    by (rule locates_tile [of _ _ 0 demo_entry])
      (simp_all add: find_tile_id_def binary_search_by_def bs_loop.simps demo_entry_def is_leaf_def
        checked_section_offset_def checked_add_def h)
  from serves_some [OF root this] show "\<exists>h. serves_tile (rb_decoders demo_reader) (directory_limit demo_reader)
      (rl_max_range_bytes (rb_limits demo_reader)) demo_archive (unat (rl_max_directory_depth (rb_limits demo_reader))) 0
      (Some (tile_payload demo_archive h 132 2))"
    unfolding demo_limits by (intro exI [of _ h]) (simp add: demo_entry_def slice_inside_def len)
qed

theorem get_tile_answers_witness:
  "\<exists>h s'. get_tile (range_archive_backend demo_reader) (rb_limits demo_reader) 0 demo_state
     = (Inr (Some (tile_payload demo_archive h 132 2)), s')"
proof -
  obtain h where "serves_tile (rb_decoders demo_reader) (directory_limit demo_reader) (rl_max_range_bytes (rb_limits demo_reader))
     demo_archive (unat (rl_max_directory_depth (rb_limits demo_reader))) 0 (Some (tile_payload demo_archive h 132 2))"
    using demo_serves(2) by blast
  moreover have "tile_id_new 0 = Inr 0" by (simp add: tile_id_new_def max_tile_id_def)
  ultimately show ?thesis using get_tile_answers [OF demo_coherent(1-3) demo_serves(1) demo_coherent(4)] by blast
qed

lemma demo_answer:
  "\<exists>h s'. get_tile (range_archive_backend demo_reader) (rb_limits demo_reader) 0 demo_state
     = (Inr (Some (tile_payload demo_archive h 132 2)), s')"
proof -
  have "whole_archive_source demo_reader (\<lambda>_. {}) (\<lambda>_. {}) demo_archive"
    using demo_coherent demo_serves(1) whole_source_reads [OF demo_coherent(2)]
    by (simp add: whole_archive_source_def whole_archive_source_axioms_def archive_source_def archive_source_axioms_def)
  moreover have "tile_id_new 0 = Inr 0" by (simp add: tile_id_new_def max_tile_id_def)
  ultimately show ?thesis using whole_archive_source.get_tile_answered [OF _ demo_coherent(4)] demo_serves(2) by blast
qed

theorem get_tile_serves_archive_witness:
  "\<exists>d s' h off. get_tile (range_archive_backend demo_reader) (rb_limits demo_reader) 0 demo_state = (Inr (Some d), s')
     \<and> store_coherent demo_reader demo_archive (\<lambda>_. {}) (\<lambda>_. {}) s'
     \<and> header_parse (take header_size demo_archive) = Inr h
     \<and> td_bytes d = archive_slice demo_archive off (length (td_bytes d)) \<and> unat (hd_data_offset h) \<le> unat off"
proof -
  obtain d s' where g: "get_tile (range_archive_backend demo_reader) (rb_limits demo_reader) 0 demo_state = (Inr (Some d), s')"
    using demo_answer by blast
  from get_tile_serves_archive [OF demo_coherent(1) whole_source_reads [OF demo_coherent(2)] demo_coherent(4) g] g
  show ?thesis by blast
qed

end
