(* ===== verification/Chunk_Store.thy ===== *)
theory Chunk_Store
  imports Pmtiles_Reader
begin

text \<open>
  \<^verbatim>\<open>crates/ishikari-core/src/storage/chunked_store\<close> (\<open>store.rs\<close>, \<open>fetcher.rs\<close>, \<open>cache.rs\<close>) and
  \<^verbatim>\<open>storage/pmtiles.rs\<close>: byte ranges of an archive read through fixed-size chunks. The arithmetic of
  ranges and chunks with its overflow errors, the fetch of a group of chunks with its length policy,
  the slicing of a group into cached chunks, and the reassembly of a range. What the object store, its
  admission queue and its clock do to a fetch is the argument \<open>backend_attempt\<close>; the latency injected
  for experiments is left out.
\<close>

section \<open>Errors\<close>

datatype chunk_range_error =
    ByteRangeOverflow u64 nat
  | OutsideArchive u64 u64 u64
  | InvalidChunkGroup u64 u64
  | ChunkArithmeticOverflow u64 u64
  | ChunkOutsideArchive u64 u64
  | SliceOutsideFetchedBytes u64 nat nat nat

datatype chunk_message =
    InRange chunk_range_error
  | NoDataSource
  | AdmissionClosedMsg
  | GroupAdmissionClosed
  | ChunkRangeOverflow u64 u64
  | EmptyChunkRange u64 u64
  | UnexpectedLength u64 u64 nat nat
  | ResolvedChunkMissing
  | ChunkTooShort u64 nat nat
  | NotReconstructed
  | GroupOmitted u64
  | FetchCancelled
  | WaiterDropped

datatype chunk_fetch_error =
    ChunkNotFound | ChunkOverloaded | ChunkTimeout | ChunkBackend string | ChunkMessage chunk_message

section \<open>Ranges and chunks\<close>

definition validate_byte_range :: "u64 \<Rightarrow> nat \<Rightarrow> u64 option \<Rightarrow> chunk_range_error + u64" where
  "validate_byte_range start len alen =
     (if u64_max < len then Inl (ByteRangeOverflow start len)
      else case checked_add start (of_nat len) of
        None \<Rightarrow> Inl (ByteRangeOverflow start len)
      | Some fin \<Rightarrow>
          (case alen of
             Some a \<Rightarrow> if a < start \<or> a < fin then Inl (OutsideArchive start fin a) else Inr fin
           | None \<Rightarrow> Inr fin))"

definition chunk_index :: "u64 \<Rightarrow> u64 \<Rightarrow> u64" where
  "chunk_index off size' = off div size'"

definition byte_range_to_chunk_range :: "u64 \<Rightarrow> u64 \<Rightarrow> u64 \<Rightarrow> u64 \<times> u64" where
  "byte_range_to_chunk_range start fin size' =
     (chunk_index start size', chunk_index (if fin = 0 then 0 else fin - 1) size')"

text \<open>\<open>u64::checked_mul\<close>\<close>

definition u64_checked_mul :: "u64 \<Rightarrow> u64 \<Rightarrow> u64 option" where
  "u64_checked_mul a b = (if unat a * unat b < 2 ^ 64 then Some (a * b) else None)"

text \<open>One turn per chunk index; \<open>n\<close> are left.\<close>

fun slices_loop :: "u64 \<Rightarrow> u64 \<Rightarrow> nat \<Rightarrow> u64 \<Rightarrow> nat \<Rightarrow> u64 \<Rightarrow> chunk_range_error + (u64 \<times> nat \<times> nat) list" where
  "slices_loop size' alen blen range_start 0 c = Inr []"
| "slices_loop size' alen blen range_start (Suc n) c =
     (case u64_checked_mul c size' of
        None \<Rightarrow> Inl (ChunkArithmeticOverflow c size')
      | Some absolute_start \<Rightarrow>
          (case checked_add c 1 of
             None \<Rightarrow> Inl (ChunkArithmeticOverflow c size')
           | Some next_chunk \<Rightarrow>
               (case u64_checked_mul next_chunk size' of
                  None \<Rightarrow> Inl (ChunkArithmeticOverflow next_chunk size')
                | Some e \<Rightarrow>
                    let absolute_end = min e alen;
                        relative_start = unat (absolute_start - range_start);
                        relative_end = unat (absolute_end - range_start)
                    in if absolute_end \<le> absolute_start then Inl (ChunkOutsideArchive c alen)
                       else if relative_end < relative_start \<or> blen < relative_end
                       then Inl (SliceOutsideFetchedBytes c relative_start relative_end blen)
                       else (case slices_loop size' alen blen range_start n next_chunk of
                               Inl err \<Rightarrow> Inl err
                             | Inr slices \<Rightarrow> Inr ((c, relative_start, relative_end) # slices)))))"

definition chunk_slices :: "u64 \<times> u64 \<Rightarrow> u64 \<Rightarrow> u64 \<Rightarrow> nat \<Rightarrow> chunk_range_error + (u64 \<times> nat \<times> nat) list" where
  "chunk_slices chunk_range size' alen blen =
     (if snd chunk_range \<le> fst chunk_range then Inl (InvalidChunkGroup (fst chunk_range) (snd chunk_range))
      else case u64_checked_mul (fst chunk_range) size' of
        None \<Rightarrow> Inl (ChunkArithmeticOverflow (fst chunk_range) size')
      | Some range_start \<Rightarrow>
          slices_loop size' alen blen range_start (unat (snd chunk_range) - unat (fst chunk_range)) (fst chunk_range))"

section \<open>Fetching from the object store\<close>

datatype range_length_policy = ExactLength | AllowShortAtEof

datatype store_error = StoreNotFound | StoreFailure string

text \<open>What came of one fetch: the source was not configured, the wait for a permit ended without one,
  the read timed out, failed, or returned bytes.\<close>

datatype backend_attempt =
    NoSource | AdmissionClosed | AdmissionTimeout | FetchTimeout | StoreFailed store_error | Fetched bytes

definition fetch_error_of :: "store_error \<Rightarrow> chunk_fetch_error" where
  "fetch_error_of e = (case e of StoreNotFound \<Rightarrow> ChunkNotFound | StoreFailure m \<Rightarrow> ChunkBackend m)"

definition fetch_range :: "backend_attempt \<Rightarrow> u64 \<Rightarrow> u64 \<Rightarrow> range_length_policy \<Rightarrow> chunk_fetch_error + bytes" where
  "fetch_range attempt start fin policy =
     (case attempt of
        NoSource \<Rightarrow> Inl (ChunkMessage NoDataSource)
      | AdmissionClosed \<Rightarrow> Inl (ChunkMessage AdmissionClosedMsg)
      | AdmissionTimeout \<Rightarrow> Inl ChunkTimeout
      | FetchTimeout \<Rightarrow> Inl ChunkTimeout
      | StoreFailed e \<Rightarrow> Inl (fetch_error_of e)
      | Fetched bs \<Rightarrow>
          let expected_len = unat fin - unat start
          in if expected_len < length bs \<or> policy = ExactLength \<and> length bs \<noteq> expected_len
             then Inl (ChunkMessage (UnexpectedLength start fin expected_len (length bs)))
             else Inr bs)"

text \<open>The object store is asked for a byte range.\<close>

type_synonym object_backend = "u64 \<Rightarrow> u64 \<Rightarrow> backend_attempt"

definition fetch_exact_range :: "object_backend \<Rightarrow> u64 \<Rightarrow> u64 \<Rightarrow> chunk_fetch_error + bytes" where
  "fetch_exact_range get start fin =
     (if fin \<le> start then Inr [] else fetch_range (get start fin) start fin AllowShortAtEof)"

definition fetch_chunk_group :: "object_backend \<Rightarrow> u64 \<Rightarrow> u64 \<times> u64 \<Rightarrow> u64 \<Rightarrow> chunk_fetch_error + bytes" where
  "fetch_chunk_group get size' chunk_range alen =
     (if snd chunk_range \<le> fst chunk_range then Inr []
      else case (u64_checked_mul (fst chunk_range) size', u64_checked_mul (snd chunk_range) size') of
        (Some range_start, Some e) \<Rightarrow>
          let range_end = min e alen
          in if range_end \<le> range_start then Inl (ChunkMessage (EmptyChunkRange range_start range_end))
             else fetch_range (get range_start range_end) range_start range_end ExactLength
      | _ \<Rightarrow> Inl (ChunkMessage (ChunkRangeOverflow (fst chunk_range) (snd chunk_range))))"

section \<open>The chunk cache\<close>

type_synonym tileset_id = string
type_synonym chunk_cache = "tileset_id \<times> u64 \<Rightarrow> bytes option"

definition chunk_cache_get :: "chunk_cache \<Rightarrow> tileset_id \<Rightarrow> u64 \<Rightarrow> bytes option" where
  "chunk_cache_get cache t i = cache (t, i)"

definition put_slices :: "tileset_id \<Rightarrow> bytes \<Rightarrow> (u64 \<times> nat \<times> nat) list \<Rightarrow> chunk_cache \<Rightarrow> chunk_cache" where
  "put_slices t bs slices cache =
     fold (\<lambda>(i, a, b) c. c((t, i) \<mapsto> take (b - a) (drop a bs))) slices cache"

definition slice_map :: "bytes \<Rightarrow> (u64 \<times> nat \<times> nat) list \<Rightarrow> (u64 \<Rightarrow> bytes option)" where
  "slice_map bs slices = fold (\<lambda>(i, a, b) m. m(i \<mapsto> take (b - a) (drop a bs))) slices Map.empty"

definition cache_chunk_group ::
  "u64 \<Rightarrow> tileset_id \<Rightarrow> u64 \<times> u64 \<Rightarrow> u64 \<Rightarrow> bytes \<Rightarrow> chunk_cache \<Rightarrow> (chunk_range_error + (u64 \<Rightarrow> bytes option)) \<times> chunk_cache" where
  "cache_chunk_group size' t chunk_range alen bs cache =
     (case chunk_slices chunk_range size' alen (length bs) of
        Inl e \<Rightarrow> (Inl e, cache)
      | Inr slices \<Rightarrow> (Inr (slice_map bs slices), put_slices t bs slices cache))"

text \<open>\<open>run_fetch_chunk_group\<close> up to its completion: fetch, slice and cache.\<close>

definition fetch_and_cache_group ::
  "object_backend \<Rightarrow> u64 \<Rightarrow> tileset_id \<Rightarrow> u64 \<times> u64 \<Rightarrow> u64 \<Rightarrow> chunk_cache
     \<Rightarrow> (chunk_fetch_error + (u64 \<Rightarrow> bytes option)) \<times> chunk_cache" where
  "fetch_and_cache_group get size' t chunk_range alen cache =
     (case fetch_chunk_group get size' chunk_range alen of
        Inl e \<Rightarrow> (Inl e, cache)
      | Inr bs \<Rightarrow>
          (case cache_chunk_group size' t chunk_range alen bs cache of
             (Inl e, cache') \<Rightarrow> (Inl (ChunkMessage (InRange e)), cache')
           | (Inr chunks, cache') \<Rightarrow> (Inr chunks, cache')))"

section \<open>Reading a range\<close>

datatype chunk_read_source = FromCache | FromBackend

definition slice_single_chunk :: "u64 \<Rightarrow> u64 \<Rightarrow> u64 \<Rightarrow> nat \<Rightarrow> bytes \<Rightarrow> chunk_message + bytes" where
  "slice_single_chunk size' i start len chunk =
     (let chunk_offset = unat (start mod size')
      in case usize_checked_add chunk_offset len of
           None \<Rightarrow> Inl (InRange (ByteRangeOverflow start len))
         | Some chunk_end \<Rightarrow>
             if length chunk < chunk_end then Inl (ChunkTooShort i (length chunk) chunk_offset)
             else Inr (take (chunk_end - chunk_offset) (drop chunk_offset chunk)))"

fun reassemble :: "(u64 \<Rightarrow> bytes option) \<Rightarrow> nat \<Rightarrow> nat \<Rightarrow> u64 list \<Rightarrow> chunk_message + bytes" where
  "reassemble chunks remaining current_offset [] = (if remaining = 0 then Inr [] else Inl NotReconstructed)"
| "reassemble chunks remaining current_offset (i # is) =
     (case chunks i of
        None \<Rightarrow> Inl ResolvedChunkMissing
      | Some chunk \<Rightarrow>
          if length chunk < current_offset then Inl (ChunkTooShort i (length chunk) current_offset)
          else let n = min remaining (length chunk - current_offset)
               in case reassemble chunks (remaining - n) 0 is of
                    Inl e \<Rightarrow> Inl e
                  | Inr rest \<Rightarrow> Inr (take n (drop current_offset chunk) @ rest))"

text \<open>The indices of an inclusive range.\<close>

definition index_range :: "u64 \<Rightarrow> u64 \<Rightarrow> u64 list" where
  "index_range a b = map of_nat [unat a..<Suc (unat b)]"

definition read_resolved_bytes :: "u64 \<Rightarrow> u64 \<Rightarrow> nat \<Rightarrow> (u64 \<Rightarrow> bytes option) \<Rightarrow> chunk_message + bytes" where
  "read_resolved_bytes size' start len chunks =
     (case checked_add start (of_nat len) of
        None \<Rightarrow> Inl (InRange (ByteRangeOverflow start len))
      | Some fin \<Rightarrow>
          (case byte_range_to_chunk_range start fin size' of (a, b) \<Rightarrow>
             if a = b then (case chunks a of None \<Rightarrow> Inl ResolvedChunkMissing
                            | Some chunk \<Rightarrow> slice_single_chunk size' a start len chunk)
             else reassemble chunks len (unat (start mod size')) (index_range a b)))"

definition as_fetch_error :: "chunk_message + 'a \<Rightarrow> chunk_fetch_error + 'a" where
  "as_fetch_error r = (case r of Inl m \<Rightarrow> Inl (ChunkMessage m) | Inr x \<Rightarrow> Inr x)"

text \<open>\<open>lookup\<close> is the cache as each read finds it, \<open>fetch\<close> the coordinator's answer for missing chunks
  and \<open>exact\<close> that of \<open>fetch_exact_range\<close> under its group permit.\<close>

definition read_bytes ::
  "u64 \<Rightarrow> (u64 \<Rightarrow> bytes option) \<Rightarrow> (u64 list \<Rightarrow> chunk_fetch_error + (u64 \<Rightarrow> bytes option))
     \<Rightarrow> (u64 \<Rightarrow> u64 \<Rightarrow> chunk_fetch_error + bytes) \<Rightarrow> u64 \<Rightarrow> nat \<Rightarrow> u64 option
     \<Rightarrow> chunk_fetch_error + bytes \<times> chunk_read_source" where
  "read_bytes size' lookup fetch exact start len alen =
     (case validate_byte_range start len alen of
        Inl e \<Rightarrow> Inl (ChunkMessage (InRange e))
      | Inr fin \<Rightarrow>
          if len = 0 then Inr ([], FromCache)
          else case alen of
            None \<Rightarrow> (case exact start fin of Inl e \<Rightarrow> Inl e | Inr bs \<Rightarrow> Inr (bs, FromBackend))
          | Some _ \<Rightarrow>
              (case byte_range_to_chunk_range start fin size' of (a, b) \<Rightarrow>
                 if a = b then
                   (case (case lookup a of
                            Some chunk \<Rightarrow> Inr (chunk, FromCache)
                          | None \<Rightarrow>
                              (case fetch [a] of
                                 Inl e \<Rightarrow> Inl e
                               | Inr fetched \<Rightarrow>
                                   (case fetched a of
                                      None \<Rightarrow> Inl (ChunkMessage ResolvedChunkMissing)
                                    | Some chunk \<Rightarrow> Inr (chunk, FromBackend)))) of
                      Inl e \<Rightarrow> Inl e
                    | Inr (chunk, src) \<Rightarrow>
                        (case as_fetch_error (slice_single_chunk size' a start len chunk) of
                           Inl e \<Rightarrow> Inl e | Inr bs \<Rightarrow> Inr (bs, src)))
                 else
                   let indices = index_range a b;
                       missing = filter (\<lambda>i. lookup i = None) indices;
                       hits = (\<lambda>i. if i \<in> set indices then lookup i else None);
                       resolved = (if missing = [] then Inr hits
                                   else case fetch missing of
                                          Inl e \<Rightarrow> Inl e
                                        | Inr fetched \<Rightarrow> Inr (hits ++ fetched))
                   in case resolved of
                        Inl e \<Rightarrow> Inl e
                      | Inr chunks \<Rightarrow>
                          (case as_fetch_error (read_resolved_bytes size' start len chunks) of
                             Inl e \<Rightarrow> Inl e
                           | Inr bs \<Rightarrow> Inr (bs, if missing = [] then FromCache else FromBackend))))"

section \<open>The PMTiles storage\<close>

definition read_chunk_limit :: u64 where
  "read_chunk_limit = 8"

definition enforce_chunk_limit :: "u64 \<Rightarrow> nat \<Rightarrow> u64 \<Rightarrow> bool" where
  "enforce_chunk_limit start len size' =
     (if u64_max < len then False
      else case checked_add start (of_nat len) of
        None \<Rightarrow> False
      | Some fin \<Rightarrow>
          let first = start div size'; final = (fin - 1) div size';
              spanned = (if final < first then 0 else unat final - unat first)
          in min (spanned + 1) u64_max \<le> unat read_chunk_limit)"

datatype storage_error = SNotFound | SOverloaded | STimeout | SBackend string | SMessage "chunk_message option"

fun storage_error_of :: "chunk_fetch_error \<Rightarrow> storage_error" where
  "storage_error_of ChunkNotFound = SNotFound"
| "storage_error_of ChunkOverloaded = SOverloaded"
| "storage_error_of ChunkTimeout = STimeout"
| "storage_error_of (ChunkBackend m) = SBackend m"
| "storage_error_of (ChunkMessage m) = SMessage (Some m)"

text \<open>A read limited to a number of chunks; the second component says whether it waited for the
  backend.\<close>

definition storage_read_range ::
  "u64 \<Rightarrow> (u64 \<Rightarrow> bytes option) \<Rightarrow> (u64 list \<Rightarrow> chunk_fetch_error + (u64 \<Rightarrow> bytes option))
     \<Rightarrow> (u64 \<Rightarrow> u64 \<Rightarrow> chunk_fetch_error + bytes) \<Rightarrow> u64 \<Rightarrow> nat \<Rightarrow> u64 option
     \<Rightarrow> storage_error + bytes \<times> bool" where
  "storage_read_range size' lookup fetch exact start len alen =
     (if len = 0 then Inr ([], False)
      else if \<not> enforce_chunk_limit start len size' then Inl (SMessage None)
      else case read_bytes size' lookup fetch exact start len alen of
        Inl e \<Rightarrow> Inl (storage_error_of e)
      | Inr (bs, src) \<Rightarrow> Inr (bs, src = FromBackend))"

section \<open>What a chunk holds\<close>

definition chunk_at :: "bytes \<Rightarrow> nat \<Rightarrow> nat \<Rightarrow> nat \<Rightarrow> bytes" where
  "chunk_at A L S c = take (min (c * S + S) L - c * S) (drop (c * S) A)"

definition chunk_of :: "bytes \<Rightarrow> u64 \<Rightarrow> u64 \<Rightarrow> u64 \<Rightarrow> bytes" where
  "chunk_of A alen size' i = chunk_at A (unat alen) (unat size') (unat i)"

text \<open>A table of chunks holds only chunks of the archive.\<close>

definition chunks_ok :: "bytes \<Rightarrow> u64 \<Rightarrow> u64 \<Rightarrow> (u64 \<Rightarrow> bytes option) \<Rightarrow> bool" where
  "chunks_ok A alen size' m \<longleftrightarrow> (\<forall>i b. m i = Some b \<longrightarrow> b = chunk_of A alen size' i)"

lemma length_chunk_at: "L \<le> length A \<Longrightarrow> length (chunk_at A L S c) = min (c * S + S) L - c * S"
  by (auto simp: chunk_at_def)

lemma slice_of_chunk:
  assumes "off + n \<le> min (c * S + S) L - c * S"
  shows "take n (drop off (chunk_at A L S c)) = take n (drop (c * S + off) A)"
proof -
  have "take n (drop off (take m B)) = take n (drop off B)" if "off + n \<le> m" for m and B :: bytes
    using that by (auto simp: drop_take min_def)
  from this [OF assms] show ?thesis by (simp add: chunk_at_def add.commute)
qed

lemma reassemble_Some: "reassemble chunks r off is = Inr bs \<Longrightarrow> i \<in> set is \<Longrightarrow> chunks i \<noteq> None"
  by (induction chunks r off "is" arbitrary: bs rule: reassemble.induct)
    (auto simp: Let_def split: option.splits if_splits sum.splits)

lemma reassemble_slice:
  assumes L: "L \<le> length A"
  shows "0 < r \<Longrightarrow> c * S + off + r \<le> L \<Longrightarrow> c \<le> b \<Longrightarrow> b * S < c * S + off + r \<Longrightarrow> c * S + off + r \<le> b * S + S \<Longrightarrow> off \<le> S \<Longrightarrow>
     (\<And>i. c \<le> i \<Longrightarrow> i \<le> b \<Longrightarrow> chunks (of_nat i) = Some (chunk_at A L S i)) \<Longrightarrow>
     reassemble chunks r off (map of_nat [c..<Suc b]) = Inr (take r (drop (c * S + off) A))"
proof (induction "b - c" arbitrary: c r off)
  case 0
  then have cb: "c = b" by simp
  have "off + r \<le> min (c * S + S) L - c * S" using 0 cb by simp
  moreover from this have "off + r \<le> length (chunk_at A L S c)" by (simp add: length_chunk_at [OF L])
  ultimately show ?case using 0 cb by (simp add: Let_def slice_of_chunk min.absorb1)
next
  case (Suc k)
  then have lt: "c < b" by simp
  then have "c * S + S \<le> b * S" using mult_le_mono1 [of "Suc c" b S] by simp
  with Suc.prems have full: "c * S + S < c * S + off + r" "c * S + S \<le> L" by linarith+
  then have len: "length (chunk_at A L S c) = S" by (simp add: length_chunk_at [OF L])
  have n: "min r (S - off) = S - off" using full(1) Suc.prems(6) by simp
  have ih: "reassemble chunks (r - (S - off)) 0 (map of_nat [Suc c..<Suc b]) = Inr (take (r - (S - off)) (drop (Suc c * S + 0) A))"
    by (rule Suc.hyps(1)) (use Suc.prems Suc.hyps(2) full lt in \<open>auto simp: algebra_simps\<close>)
  have "take (S - off) (drop off (chunk_at A L S c)) = take (S - off) (drop (c * S + off) A)"
    by (rule slice_of_chunk) (use full Suc.prems(6) in simp)
  moreover have "take (S - off) (drop (c * S + off) A) @ take (r - (S - off)) (drop (Suc c * S) A) = take r (drop (c * S + off) A)"
  proof -
    have "Suc c * S = S - off + (c * S + off)" "r = (S - off) + (r - (S - off))" using full(1) Suc.prems(6) by simp_all
    then show ?thesis by (metis drop_drop take_add)
  qed
  moreover have "[c..<Suc b] = c # [Suc c..<Suc b]" using lt by (simp add: upt_conv_Cons)
  ultimately show ?case using Suc.prems(3,6,7) lt ih len n by (simp add: Let_def del: upt_Suc)
qed

section \<open>A chunked read is a read of the archive\<close>

lemma validate_byte_range_Inr:
  assumes "validate_byte_range start len (Some alen) = Inr fin"
  shows "unat fin = unat start + len" and "unat fin \<le> unat alen" and "checked_add start (of_nat len) = Some fin"
proof -
  from assms have len: "len \<le> u64_max" and add: "checked_add start (of_nat len) = Some fin" and le: "\<not> alen < fin"
    by (auto simp: validate_byte_range_def split: if_splits option.splits)
  from len have "unat (of_nat len :: u64) = len" by (simp add: unat_of_nat take_bit_nat_eq_self u64_max_def)
  with checked_add_unat [OF add] show "unat fin = unat start + len" by simp
  from le show "unat fin \<le> unat alen" by (simp add: word_less_nat_alt)
  show "checked_add start (of_nat len) = Some fin" by (rule add)
qed

lemma chunk_range_bounds:
  assumes "byte_range_to_chunk_range start fin size' = (a, b)" and "unat fin = unat start + len" and "0 < len" and "size' \<noteq> 0"
  defines "S \<equiv> unat size'"
  shows "unat a = unat start div S" and "unat a \<le> unat b" and "unat b * S < unat fin" and "unat fin \<le> unat b * S + S" and "0 < S"
proof -
  show S: "0 < S" using assms(4) by (simp add: S_def unat_gt_0)
  have fin: "fin \<noteq> 0" using assms(2,3) by (auto simp: unat_eq_0 [symmetric] simp del: unat_eq_0)
  then have fin1: "unat (fin - 1) = unat fin - 1" by (simp add: unat_minus_one)
  from assms(1) fin have a: "a = start div size'" and b: "b = (fin - 1) div size'"
    by (auto simp: byte_range_to_chunk_range_def chunk_index_def)
  show ua: "unat a = unat start div S" by (simp add: a S_def unat_div_distrib)
  have ub: "unat b = (unat fin - 1) div S" by (simp add: b S_def unat_div_distrib fin1)
  show "unat a \<le> unat b" unfolding ua ub using assms(2,3) by (intro div_le_mono) simp
  have "unat b * S \<le> unat fin - 1" unfolding ub by (rule div_times_less_eq_dividend)
  then show "unat b * S < unat fin" using assms(2,3) by simp
  have "unat fin - 1 < unat b * S + S" unfolding ub using dividend_less_div_times [OF S, of "unat fin - 1"] by simp
  then show "unat fin \<le> unat b * S + S" by simp
qed

lemma slice_single_chunk_of:
  assumes v: "validate_byte_range start len (Some alen) = Inr fin" and len: "0 < len" and size': "size' \<noteq> 0"
    and r: "byte_range_to_chunk_range start fin size' = (a, a)" and A: "unat alen \<le> length A"
  shows "slice_single_chunk size' a start len (chunk_of A alen size' a) = Inr (archive_slice A start len)"
proof -
  let ?S = "unat size'" and ?off = "unat start mod unat size'"
  note f = validate_byte_range_Inr [OF v] and c = chunk_range_bounds [OF r validate_byte_range_Inr(1) [OF v] len size']
  have start: "unat a * ?S + ?off = unat start" using c(1) by (simp add: mult.commute)
  have fits: "?off + len \<le> min (unat a * ?S + ?S) (unat alen) - unat a * ?S" using f c(4) start by linarith
  then have "?off + len \<le> length (chunk_of A alen size' a)" by (simp add: chunk_of_def length_chunk_at [OF A])
  moreover have "?off + len \<le> usize_max" using fits unat_u64_le [of size'] by (simp add: usize_max_def u64_max_def)
  ultimately show ?thesis using slice_of_chunk [OF fits, of A] start
    by (simp add: slice_single_chunk_def Let_def usize_checked_add_def unat_mod_distrib chunk_of_def archive_slice_def not_less)
qed

lemma read_resolved_bytes_slice:
  assumes v: "validate_byte_range start len (Some alen) = Inr fin" and len: "0 < len" and size': "size' \<noteq> 0"
    and r: "byte_range_to_chunk_range start fin size' = (a, b)" and ab: "a \<noteq> b" and A: "unat alen \<le> length A"
    and chunks: "\<And>i. i \<in> set (index_range a b) \<Longrightarrow> chunks i = Some (chunk_of A alen size' i)"
  shows "read_resolved_bytes size' start len chunks = Inr (archive_slice A start len)"
proof -
  let ?S = "unat size'" and ?off = "unat start mod unat size'"
  note f = validate_byte_range_Inr [OF v] and c = chunk_range_bounds [OF r validate_byte_range_Inr(1) [OF v] len size']
  have start: "unat a * ?S + ?off = unat start" using c(1) by (simp add: mult.commute)
  have cs: "chunks (of_nat i) = Some (chunk_at A (unat alen) ?S i)" if "unat a \<le> i" "i \<le> unat b" for i
  proof -
    have "unat (of_nat i :: u64) = i"
      using that(2) unat_u64_le [of b] by (simp add: unat_of_nat take_bit_nat_eq_self u64_max_def)
    moreover have "of_nat i \<in> set (index_range a b)" using that by (auto simp: index_range_def simp del: upt_Suc)
    ultimately show ?thesis using chunks [of "of_nat i"] by (simp add: chunk_of_def)
  qed
  have "reassemble chunks len ?off (index_range a b) = Inr (take len (drop (unat a * ?S + ?off) A))"
    unfolding index_range_def
    by (rule reassemble_slice [OF A len]) (use f c start cs in \<open>auto simp: mod_le_divisor less_imp_le\<close>)
  then show ?thesis using f(3) r ab start
    by (simp add: read_resolved_bytes_def unat_mod_distrib archive_slice_def)
qed

lemma read_resolved_bytes_Some:
  assumes "read_resolved_bytes size' start len chunks = Inr bs" and "byte_range_to_chunk_range start fin size' = (a, b)"
    and "checked_add start (of_nat len) = Some fin" and "a \<noteq> b" and "i \<in> set (index_range a b)"
  shows "chunks i \<noteq> None"
  using assms reassemble_Some [of chunks len _ "index_range a b" bs i] by (auto simp: read_resolved_bytes_def)

section \<open>Fetched groups\<close>

text \<open>An object store that holds the archive: what it returns for a range is the archive's bytes there,
  as many as it has.\<close>

definition stores_archive :: "bytes \<Rightarrow> object_backend \<Rightarrow> bool" where
  "stores_archive A get \<longleftrightarrow>
     (\<forall>start fin bs. get start fin = Fetched bs \<longrightarrow> bs = take (length bs) (drop (unat start) A))"

lemma fetch_range_Inr:
  assumes "stores_archive A get" and "fetch_range (get start fin) start fin policy = Inr bs"
  shows "bs = take (length bs) (drop (unat start) A)" and "length bs \<le> unat fin - unat start"
    and "policy = ExactLength \<Longrightarrow> length bs = unat fin - unat start"
  using assms by (auto simp: fetch_range_def stores_archive_def Let_def split: backend_attempt.splits if_splits)

lemma u64_checked_mul_unat: "u64_checked_mul a b = Some c \<Longrightarrow> unat c = unat a * unat b"
  by (auto simp: u64_checked_mul_def unat_word_ariths split: if_splits)

lemma slices_loop_entry:
  assumes "slices_loop size' alen blen rs n c = Inr slices" and "(i, x, y) \<in> set slices" and "unat rs \<le> unat c * unat size'"
  shows "unat c \<le> unat i \<and> unat i < unat c + n \<and> y \<le> blen
    \<and> x = unat i * unat size' - unat rs \<and> y = min (unat i * unat size' + unat size') (unat alen) - unat rs
    \<and> unat i * unat size' < unat alen \<and> unat rs \<le> unat i * unat size'"
  using assms
proof (induction n arbitrary: c slices)
  case (Suc n)
  from Suc.prems(1) obtain s1 c' e rest where s: "u64_checked_mul c size' = Some s1" "checked_add c 1 = Some c'"
      "u64_checked_mul c' size' = Some e" "\<not> min e alen \<le> s1" "\<not> blen < unat (min e alen - rs)"
      "slices_loop size' alen blen rs n c' = Inr rest" "slices = (c, unat (s1 - rs), unat (min e alen - rs)) # rest"
    by (auto simp: Let_def split: option.splits if_splits sum.splits)
  have c': "unat c' = Suc (unat c)" using checked_add_unat [OF s(2)] by simp
  note u = u64_checked_mul_unat [OF s(1)] u64_checked_mul_unat [OF s(3)]
  show ?case
  proof (cases "(i, x, y) = (c, unat (s1 - rs), unat (min e alen - rs))")
    case True
    have "unat (min e alen) = min (unat e) (unat alen)" by (simp add: min_def word_le_nat_alt)
    moreover from s(4) have "unat s1 < unat (min e alen)" by (simp add: word_less_nat_alt not_le)
    ultimately show ?thesis using True s(5) u c' Suc.prems(3)
      by (simp add: unat_sub_if' word_le_nat_alt add.commute)
  next
    case False
    with Suc.prems(2) s(7) have "(i, x, y) \<in> set rest" by auto
    from Suc.IH [OF s(6) this] c' Suc.prems(3) show ?thesis by (auto simp: add.commute)
  qed
qed simp

lemma slices_loop_all:
  "slices_loop size' alen blen rs n c = Inr slices \<Longrightarrow> unat c \<le> i \<Longrightarrow> i < unat c + n \<Longrightarrow> of_nat i \<in> fst ` set slices"
proof (induction n arbitrary: c slices)
  case (Suc n)
  from Suc.prems(1) obtain c' x rest where s: "checked_add c 1 = Some c'" "slices_loop size' alen blen rs n c' = Inr rest"
      "slices = (c, x) # rest"
    by (auto simp: Let_def split: option.splits if_splits sum.splits)
  have "unat c' = Suc (unat c)" using checked_add_unat [OF s(1)] by simp
  with Suc.IH [OF s(2)] Suc.prems(2,3) s(3) show ?case by (cases "i = unat c") auto
qed simp

lemma fold_updates:
  "fold (\<lambda>(i, a, b) m. m(k i \<mapsto> f a b)) xs m q = Some v \<Longrightarrow>
     m q = Some v \<or> (\<exists>i a b. (i, a, b) \<in> set xs \<and> q = k i \<and> v = f a b)"
  by (induction xs arbitrary: m) (fastforce split: if_splits)+

lemma fold_updates_keep: "m q \<noteq> None \<Longrightarrow> fold (\<lambda>(i, a, b) m. m(k i \<mapsto> f a b)) xs m q \<noteq> None"
proof (induction xs arbitrary: m)
  case (Cons x xs)
  obtain i a b where x: "x = (i, a, b)" by (metis prod.exhaust)
  show ?case unfolding x fold.simps comp_apply case_prod_conv by (rule Cons.IH) (use Cons.prems in simp)
qed simp

lemma fold_updates_dom:
  "i \<in> fst ` set xs \<Longrightarrow> fold (\<lambda>(i, a, b) m. m(k i \<mapsto> f a b)) xs m (k i) \<noteq> None"
proof (induction xs arbitrary: m)
  case (Cons x xs)
  obtain j a b where x: "x = (j, a, b)" by (metis prod.exhaust)
  show ?case unfolding x fold.simps comp_apply case_prod_conv
  proof (cases "i = j")
    case True
    show "fold (\<lambda>(i, a, b) m. m(k i \<mapsto> f a b)) xs (m(k j \<mapsto> f a b)) (k i) \<noteq> None"
      by (rule fold_updates_keep) (simp add: True)
  next
    case False
    with Cons.prems x show "fold (\<lambda>(i, a, b) m. m(k i \<mapsto> f a b)) xs (m(k j \<mapsto> f a b)) (k i) \<noteq> None"
      by (intro Cons.IH) auto
  qed
qed simp

definition cache_ok :: "bytes \<Rightarrow> u64 \<Rightarrow> u64 \<Rightarrow> tileset_id \<Rightarrow> chunk_cache \<Rightarrow> bool" where
  "cache_ok A alen size' t cache \<longleftrightarrow> chunks_ok A alen size' (\<lambda>i. cache (t, i))"

lemma group_slice:
  assumes "stores_archive A get" and "fetch_chunk_group get size' (a, b) alen = Inr bs"
    and "chunk_slices (a, b) size' alen (length bs) = Inr slices" and "(i, x, y) \<in> set slices"
  shows "take (y - x) (drop x bs) = chunk_of A alen size' i"
proof -
  from assms(3) obtain rs where ab: "\<not> b \<le> a" and rs: "u64_checked_mul a size' = Some rs"
    and sl: "slices_loop size' alen (length bs) rs (unat b - unat a) a = Inr slices"
    by (auto simp: chunk_slices_def split: if_splits option.splits)
  note urs = u64_checked_mul_unat [OF rs]
  from slices_loop_entry [OF sl assms(4)] urs have e: "y \<le> length bs" "x = unat i * unat size' - unat rs"
    "y = min (unat i * unat size' + unat size') (unat alen) - unat rs" "unat rs \<le> unat i * unat size'" by auto
  from assms(2) ab rs obtain re where "fetch_range (get rs re) rs re ExactLength = Inr bs"
    by (auto simp: fetch_chunk_group_def Let_def split: option.splits if_splits)
  from fetch_range_Inr(1) [OF assms(1) this] have bs: "bs = take (length bs) (drop (unat rs) A)" .
  have "take (y - x) (drop x bs) = take (y - x) (drop x (drop (unat rs) A))"
    by (subst bs) (use e(1) in \<open>auto simp: drop_take min_def\<close>)
  moreover have "x + unat rs = unat i * unat size'"
    "y - x = min (unat i * unat size' + unat size') (unat alen) - unat i * unat size'" using e by auto
  ultimately show ?thesis by (simp add: chunk_of_def chunk_at_def)
qed

lemma fetch_and_cache_group_ok:
  assumes "stores_archive A get" and "cache_ok A alen size' t cache"
    and "fetch_and_cache_group get size' t (a, b) alen cache = (r, cache')"
  shows "cache_ok A alen size' t cache'"
    and "r = Inr chunks \<Longrightarrow> chunks_ok A alen size' chunks \<and> (\<forall>i. unat a \<le> i \<and> i < unat b \<longrightarrow> chunks (of_nat i) \<noteq> None)"
proof -
  consider (err) e where "r = Inl e" "cache' = cache"
    | (ok) bs slices where "fetch_chunk_group get size' (a, b) alen = Inr bs"
        "chunk_slices (a, b) size' alen (length bs) = Inr slices" "r = Inr (slice_map bs slices)" "cache' = put_slices t bs slices cache"
    using assms(3) by (auto simp: fetch_and_cache_group_def cache_chunk_group_def split: sum.splits prod.splits)
  note cases = this
  have upd: "cache_ok A alen size' t (put_slices t bs slices cache)" "chunks_ok A alen size' (slice_map bs slices)"
    if "fetch_chunk_group get size' (a, b) alen = Inr bs" "chunk_slices (a, b) size' alen (length bs) = Inr slices" for bs slices
  proof -
    note g = group_slice [OF assms(1) that]
    show "cache_ok A alen size' t (put_slices t bs slices cache)"
      using assms(2) g by (fastforce simp: cache_ok_def chunks_ok_def put_slices_def dest!: fold_updates)
    show "chunks_ok A alen size' (slice_map bs slices)"
      using g by (fastforce simp: chunks_ok_def slice_map_def dest!: fold_updates [where k = "\<lambda>i. i"])
  qed
  from cases show "cache_ok A alen size' t cache'" by cases (use assms(2) upd in simp_all)
  assume r: "r = Inr chunks"
  from cases show "chunks_ok A alen size' chunks \<and> (\<forall>i. unat a \<le> i \<and> i < unat b \<longrightarrow> chunks (of_nat i) \<noteq> None)"
  proof cases
    case (ok bs slices)
    from ok(2) obtain rs where ab: "\<not> b \<le> a"
      and sl: "slices_loop size' alen (length bs) rs (unat b - unat a) a = Inr slices"
      by (auto simp: chunk_slices_def split: if_splits option.splits)
    have "slice_map bs slices (of_nat i) \<noteq> None" if "unat a \<le> i" "i < unat b" for i
      unfolding slice_map_def by (rule fold_updates_dom [where k = "\<lambda>i. i"]) (rule slices_loop_all [OF sl], use that in auto)
    with upd(2) [OF ok(1,2)] ok(3) r show ?thesis by auto
  qed (use r in simp)
qed

section \<open>Reading through the cache and the coordinator\<close>

lemma chunks_okD: "chunks_ok A alen size' m \<Longrightarrow> m i = Some b \<Longrightarrow> b = chunk_of A alen size' i"
  by (simp add: chunks_ok_def)

lemma chunks_ok_add: "chunks_ok A alen size' m \<Longrightarrow> chunks_ok A alen size' m' \<Longrightarrow> chunks_ok A alen size' (m ++ m')"
  by (auto simp: chunks_ok_def map_add_Some_iff)

lemma chunks_ok_restrict: "chunks_ok A alen size' m \<Longrightarrow> chunks_ok A alen size' (\<lambda>i. if P i then m i else None)"
  by (auto simp: chunks_ok_def)

lemma read_bytes_sound:
  assumes "size' \<noteq> 0" and "unat alen \<le> length A" and "chunks_ok A alen size' lookup"
    and f: "\<And>is m. fetch is = Inr m \<Longrightarrow> chunks_ok A alen size' m"
    and r: "read_bytes size' lookup fetch exact start len (Some alen) = Inr (bs, src)"
  shows "bs = archive_slice A start len \<and> length bs = len"
proof -
  from r obtain fin where v: "validate_byte_range start len (Some alen) = Inr fin"
    by (auto simp: read_bytes_def split: sum.splits)
  note fin = validate_byte_range_Inr [OF v]
  have "bs = archive_slice A start len"
  proof (cases "len = 0")
    case True
    with r v show ?thesis by (simp add: read_bytes_def archive_slice_def)
  next
    case False
    obtain a b where ab: "byte_range_to_chunk_range start fin size' = (a, b)" by fastforce
    show ?thesis
    proof (cases "a = b")
      case True
      with r v ab False have "\<exists>chunk. (lookup a = Some chunk \<or> (\<exists>m. fetch [a] = Inr m \<and> m a = Some chunk))
        \<and> slice_single_chunk size' a start len chunk = Inr bs"
        by (auto simp: read_bytes_def as_fetch_error_def split: sum.splits option.splits)
      then obtain chunk where "lookup a = Some chunk \<or> (\<exists>m. fetch [a] = Inr m \<and> m a = Some chunk)"
        "slice_single_chunk size' a start len chunk = Inr bs" by blast
      moreover from this(1) have "chunk = chunk_of A alen size' a" using chunks_okD [OF assms(3)] chunks_okD [OF f] by blast
      ultimately show ?thesis using slice_single_chunk_of [OF v _ assms(1) ab [folded True] assms(2)] False by simp
    next
      case ne: False
      let ?hits = "\<lambda>i. if i \<in> set (index_range a b) then lookup i else None"
      from r v ab False ne obtain chunks where read: "read_resolved_bytes size' start len chunks = Inr bs"
        "chunks = ?hits \<or> (\<exists>is m. fetch is = Inr m \<and> chunks = ?hits ++ m)"
        by (auto simp: read_bytes_def as_fetch_error_def Let_def split: sum.splits option.splits if_splits)
      have ok: "chunks_ok A alen size' chunks"
        using read(2) by (auto intro: chunks_ok_restrict [OF assms(3)] chunks_ok_add [OF _ f])
      have "chunks i = Some (chunk_of A alen size' i)" if "i \<in> set (index_range a b)" for i
        using read_resolved_bytes_Some [OF read(1) ab fin(3) ne that] chunks_okD [OF ok] by blast
      from read_resolved_bytes_slice [OF v _ assms(1) ab ne assms(2) this] read(1) False show ?thesis by simp
    qed
  qed
  with fin assms(2) show ?thesis by (simp add: archive_slice_def)
qed

lemma read_bytes_complete:
  assumes "size' \<noteq> 0" and "unat alen \<le> length A" and "chunks_ok A alen size' lookup"
    and f: "\<And>is m. fetch is = Inr m \<Longrightarrow> chunks_ok A alen size' m"
    and inside: "unat start + len \<le> unat alen" and all: "\<And>is. \<exists>m. fetch is = Inr m \<and> (\<forall>i\<in>set is. m i \<noteq> None)"
  shows "\<exists>src. read_bytes size' lookup fetch exact start len (Some alen) = Inr (archive_slice A start len, src)"
proof -
  have len: "len \<le> u64_max" "unat (of_nat len :: u64) = len"
    using inside unat_u64_le [of alen] by (simp_all add: u64_max_def unat_of_nat take_bit_nat_eq_self)
  then have add: "checked_add start (of_nat len) = Some (start + of_nat len)"
    using inside unat_u64_le [of alen] by (simp add: checked_add_def u64_max_def)
  from checked_add_unat [OF add] len(2) inside have v: "validate_byte_range start len (Some alen) = Inr (start + of_nat len)"
    using len(1) add by (simp add: validate_byte_range_def word_less_nat_alt)
  obtain a b where ab: "byte_range_to_chunk_range start (start + of_nat len) size' = (a, b)" by fastforce
  show ?thesis
  proof (cases "len = 0")
    case True
    with v show ?thesis by (simp add: read_bytes_def archive_slice_def)
  next
    case False
    show ?thesis
    proof (cases "a = b")
      case True
      from all [of "[a]"] obtain m where m: "fetch [a] = Inr m" "m a \<noteq> None" by auto
      have "slice_single_chunk size' a start len (chunk_of A alen size' a) = Inr (archive_slice A start len)"
        using slice_single_chunk_of [OF v _ assms(1) ab [folded True] assms(2)] False by simp
      with m chunks_okD [OF assms(3), of a] chunks_okD [OF f [OF m(1)], of a] v False ab True show ?thesis
        by (auto simp: read_bytes_def as_fetch_error_def split: option.splits)
    next
      case ne: False
      let ?hits = "\<lambda>i. if i \<in> set (index_range a b) then lookup i else None"
      let ?missing = "filter (\<lambda>i. lookup i = None) (index_range a b)"
      have slice: "read_resolved_bytes size' start len chunks = Inr (archive_slice A start len)"
        if "chunks_ok A alen size' chunks" "\<And>i. i \<in> set (index_range a b) \<Longrightarrow> chunks i \<noteq> None" for chunks
        using read_resolved_bytes_slice [OF v _ assms(1) ab ne assms(2), of chunks] False that chunks_okD [OF that(1)] by blast
      from all [of ?missing] obtain m where m: "fetch ?missing = Inr m" "\<forall>i\<in>set ?missing. m i \<noteq> None" by blast
      have "read_resolved_bytes size' start len (?hits ++ m) = Inr (archive_slice A start len)"
        by (rule slice) (use chunks_ok_add [OF chunks_ok_restrict [OF assms(3)] f [OF m(1)]] m(2) in \<open>auto simp: map_add_def split: option.splits\<close>)
      moreover have "?missing = [] \<Longrightarrow> read_resolved_bytes size' start len ?hits = Inr (archive_slice A start len)"
        by (rule slice) (use chunks_ok_restrict [OF assms(3)] in \<open>auto simp: filter_empty_conv\<close>)
      ultimately show ?thesis using v False ab ne m(1)
        by (cases "?missing = []") (simp_all add: read_bytes_def as_fetch_error_def Let_def)
    qed
  qed
qed

section \<open>Properties\<close>



end
