(* ===== verification/Chunk_Coordinator.thy ===== *)
theory Chunk_Coordinator
  imports Chunk_Store
begin

text \<open>
  \<^verbatim>\<open>crates/ishikari-core/src/storage/chunked_store/coordinator.rs\<close>: the coalescing of concurrent chunk
  fetches of one tileset. The fetch state with its pending and inflight chunks and their waiters, the
  scheduler task, the dispatch of contiguous groups and their completion, interleaved in any order as
  a step relation. A waiter is a number, and closing its receiver is a step of its own. The map from
  tileset ids to states keeps one state per tileset, each behind the same lock; the relation follows
  one of them. Chunk indices are quotients of 64-bit offsets, and the next two indices of one exist as
  64-bit numbers for every chunk size above one byte, so they are plain numbers here. Metrics are
  left out.
\<close>

section \<open>The fetch state\<close>

definition immediate_chunk_index :: nat where
  "immediate_chunk_index = 0"

definition max_chunk_gap :: nat where
  "max_chunk_gap = 1"

definition max_concurrent_fetches_per_tileset :: nat where
  "max_concurrent_fetches_per_tileset = 32"

type_synonym chunk_range = "nat \<times> nat"
type_synonym chunk_table = "nat \<Rightarrow> bytes option"
type_synonym group_result = "chunk_fetch_error + chunk_table"
type_synonym waiter = nat

record tileset_fetch_state =
  tf_pending_chunks :: "nat set"
  tf_first_pending_at :: "nat option"
  tf_inflight_chunks :: "nat set"
  tf_waiters :: "nat \<Rightarrow> waiter list option"
  tf_scheduler_running :: bool
  tf_inflight_fetch_count :: nat
  tf_capacity_available :: bool
  tf_archive_len :: u64

text \<open>The default state; \<open>tf_capacity_available\<close> is the permit of the notification.\<close>

definition tileset_fetch_state_default :: tileset_fetch_state where
  "tileset_fetch_state_default =
     \<lparr>tf_pending_chunks = {}, tf_first_pending_at = None, tf_inflight_chunks = {}, tf_waiters = Map.empty,
      tf_scheduler_running = False, tf_inflight_fetch_count = 0, tf_capacity_available = False, tf_archive_len = 0\<rparr>"

datatype enqueue_outcome = JoinedInflight | Queued | JoinedPending

definition is_idle :: "tileset_fetch_state \<Rightarrow> bool" where
  "is_idle s \<longleftrightarrow> \<not> tf_scheduler_running s \<and> tf_pending_chunks s = {} \<and> tf_inflight_chunks s = {} \<and> tf_inflight_fetch_count s = 0"

definition is_drainable :: "tileset_fetch_state \<Rightarrow> bool" where
  "is_drainable s \<longleftrightarrow> \<not> tf_scheduler_running s \<and> tf_pending_chunks s = {} \<and> tf_inflight_fetch_count s = 0"

definition enqueue_chunk :: "nat \<Rightarrow> waiter \<Rightarrow> nat \<Rightarrow> tileset_fetch_state \<Rightarrow> enqueue_outcome \<times> tileset_fetch_state" where
  "enqueue_chunk c w queued_at s =
     (let s = s\<lparr>tf_waiters := (tf_waiters s)(c \<mapsto> (case tf_waiters s c of None \<Rightarrow> [] | Some ws \<Rightarrow> ws) @ [w])\<rparr>
      in if c \<in> tf_inflight_chunks s then (JoinedInflight, s)
         else if c \<notin> tf_pending_chunks s then
           (Queued, s\<lparr>tf_pending_chunks := insert c (tf_pending_chunks s),
                      tf_first_pending_at := (case tf_first_pending_at s of None \<Rightarrow> Some queued_at | p \<Rightarrow> p)\<rparr>)
         else (JoinedPending, s))"

fun enqueue_chunks :: "(nat \<times> waiter) list \<Rightarrow> nat \<Rightarrow> tileset_fetch_state \<Rightarrow> enqueue_outcome list \<times> tileset_fetch_state" where
  "enqueue_chunks [] queued_at s = ([], s)"
| "enqueue_chunks ((c, w) # rest) queued_at s =
     (let (out, s) = enqueue_chunk c w queued_at s; (outs, s) = enqueue_chunks rest queued_at s in (out # outs, s))"

definition live_waiters :: "waiter set \<Rightarrow> (nat \<Rightarrow> waiter list option) \<Rightarrow> nat \<Rightarrow> waiter list option" where
  "live_waiters closed_ids ws c =
     (case ws c of None \<Rightarrow> None
      | Some l \<Rightarrow> let live = filter (\<lambda>w. w \<notin> closed_ids) l in if live = [] then None else Some live)"

definition prune_cancelled_waiters :: "waiter set \<Rightarrow> tileset_fetch_state \<Rightarrow> tileset_fetch_state" where
  "prune_cancelled_waiters closed_ids s =
     (let ws = live_waiters closed_ids (tf_waiters s);
          pending = {c \<in> tf_pending_chunks s. ws c \<noteq> None}
      in s\<lparr>tf_waiters := ws, tf_pending_chunks := pending,
           tf_first_pending_at := (if pending = {} then None else tf_first_pending_at s)\<rparr>)"

section \<open>Groups of chunks\<close>

fun ranges_loop :: "nat \<Rightarrow> nat \<Rightarrow> nat \<Rightarrow> nat \<Rightarrow> nat list \<Rightarrow> chunk_range list" where
  "ranges_loop max_fetch gap start fin [] = [(start, fin)]"
| "ranges_loop max_fetch gap start fin (c # cs) =
     (if c \<le> fin + gap \<and> c + 1 - start \<le> max_fetch then ranges_loop max_fetch gap start (c + 1) cs
      else (start, fin) # ranges_loop max_fetch gap c (c + 1) cs)"

definition contiguous_chunk_ranges :: "nat set \<Rightarrow> nat \<Rightarrow> nat \<Rightarrow> chunk_range list" where
  "contiguous_chunk_ranges chunks max_fetch gap =
     (case sorted_list_of_set chunks of
        [] \<Rightarrow> []
      | c # cs \<Rightarrow> ranges_loop (max max_fetch 1) gap c (c + 1) cs)"

definition covered :: "chunk_range list \<Rightarrow> nat set" where
  "covered groups = (\<Union>(a, b)\<in>set groups. {a..<b})"

datatype fetch_dispatch = Idle | Throttled | Dispatch "chunk_range list" u64

definition select_dispatch_groups :: "nat \<Rightarrow> tileset_fetch_state \<Rightarrow> fetch_dispatch \<times> tileset_fetch_state" where
  "select_dispatch_groups max_fetch s =
     (if tf_pending_chunks s = {} then (Idle, s\<lparr>tf_scheduler_running := False\<rparr>)
      else if max_concurrent_fetches_per_tileset \<le> tf_inflight_fetch_count s then (Throttled, s)
      else let available_slots = max_concurrent_fetches_per_tileset - tf_inflight_fetch_count s;
               groups = take available_slots (contiguous_chunk_ranges (tf_pending_chunks s) max_fetch max_chunk_gap)
           in if groups = [] then (Throttled, s)
              else let pending = tf_pending_chunks s - covered groups
                   in (Dispatch groups (tf_archive_len s),
                       s\<lparr>tf_inflight_chunks := tf_inflight_chunks s \<union> covered groups, tf_pending_chunks := pending,
                         tf_first_pending_at := (if pending = {} then None else tf_first_pending_at s),
                         tf_inflight_fetch_count := tf_inflight_fetch_count s + length groups\<rparr>))"

definition chunk_result :: "group_result \<Rightarrow> nat \<Rightarrow> chunk_fetch_error + bytes" where
  "chunk_result r c =
     (case r of
        Inr chunks \<Rightarrow> (case chunks c of Some b \<Rightarrow> Inr b | None \<Rightarrow> Inl (ChunkMessage (GroupOmitted (of_nat c))))
      | Inl e \<Rightarrow> Inl e)"

text \<open>The messages a completed group sends, and the state after it.\<close>

definition complete_group ::
  "chunk_range \<Rightarrow> group_result \<Rightarrow> tileset_fetch_state
     \<Rightarrow> (waiter \<times> (chunk_fetch_error + bytes)) list \<times> tileset_fetch_state" where
  "complete_group g r s =
     (let needs_capacity = max_concurrent_fetches_per_tileset \<le> tf_inflight_fetch_count s \<and> tf_pending_chunks s \<noteq> {};
          sends = concat (map (\<lambda>c. case tf_waiters s c of None \<Rightarrow> [] | Some ws \<Rightarrow> map (\<lambda>w. (w, chunk_result r c)) ws)
                    [fst g..<snd g])
      in (sends,
          s\<lparr>tf_inflight_fetch_count := tf_inflight_fetch_count s - 1,
            tf_capacity_available := tf_capacity_available s \<or> needs_capacity,
            tf_inflight_chunks := tf_inflight_chunks s - {fst g..<snd g},
            tf_waiters := (\<lambda>c. if c \<in> {fst g..<snd g} then None else tf_waiters s c)\<rparr>))"

definition remove_drainable_state :: "tileset_fetch_state \<Rightarrow> tileset_fetch_state option" where
  "remove_drainable_state s = (if is_drainable s then None else Some s)"

section \<open>The coordinator of a tileset\<close>

text \<open>The scheduler task waits for its merge window or goes on at once, or waits for capacity.\<close>

datatype scheduler_phase = Due | Parked

record coordinator =
  co_entry :: "tileset_fetch_state option"
  co_scheduler :: "scheduler_phase option"
  co_groups :: "chunk_range list"
  co_asked :: "waiter \<Rightarrow> nat option"
  co_closed :: "waiter set"
  co_answers :: "waiter \<Rightarrow> (chunk_fetch_error + bytes) option"

definition coordinator_new :: coordinator where
  "coordinator_new =
     \<lparr>co_entry = None, co_scheduler = None, co_groups = [], co_asked = Map.empty, co_closed = {}, co_answers = Map.empty\<rparr>"

text \<open>The locked section of \<open>fetch_chunks\<close>, for chunks with the waiters made for them.\<close>

definition fetch_chunks_enqueue :: "(nat \<times> waiter) list \<Rightarrow> u64 \<Rightarrow> nat \<Rightarrow> coordinator \<Rightarrow> coordinator" where
  "fetch_chunks_enqueue required alen queued_at k =
     (let s = (case co_entry k of None \<Rightarrow> tileset_fetch_state_default | Some s \<Rightarrow> s);
          s = s\<lparr>tf_archive_len := max (tf_archive_len s) alen\<rparr>;
          s = snd (enqueue_chunks required queued_at s);
          spawn = (\<not> tf_scheduler_running s \<and> tf_pending_chunks s \<noteq> {})
      in k\<lparr>co_entry := Some (if spawn then s\<lparr>tf_scheduler_running := True\<rparr> else s),
           co_scheduler := (if spawn then Some Due else co_scheduler k),
           co_asked := co_asked k ++ map_of (map prod.swap required)\<rparr>)"

text \<open>What the caller makes of the answers it awaits in order; it stops at the first error.\<close>

fun collect_answers :: "(nat \<times> (chunk_fetch_error + bytes) option) list \<Rightarrow> chunk_fetch_error + chunk_table" where
  "collect_answers [] = Inr Map.empty"
| "collect_answers ((c, None) # rest) = Inl (ChunkMessage WaiterDropped)"
| "collect_answers ((c, Some (Inl e)) # rest) = Inl e"
| "collect_answers ((c, Some (Inr b)) # rest) =
     (case collect_answers rest of Inl e \<Rightarrow> Inl e | Inr m \<Rightarrow> Inr (if m c = None then m(c \<mapsto> b) else m))"

text \<open>A turn of the scheduler.\<close>

definition scheduler_turn :: "nat \<Rightarrow> coordinator \<Rightarrow> coordinator" where
  "scheduler_turn max_fetch k =
     (case co_entry k of
        None \<Rightarrow> k\<lparr>co_scheduler := None\<rparr>
      | Some s \<Rightarrow>
          (case select_dispatch_groups max_fetch (prune_cancelled_waiters (co_closed k) s) of
             (Idle, s) \<Rightarrow> k\<lparr>co_entry := remove_drainable_state s, co_scheduler := None\<rparr>
           | (Throttled, s) \<Rightarrow> k\<lparr>co_entry := Some s, co_scheduler := Some Parked\<rparr>
           | (Dispatch groups _, s) \<Rightarrow>
               k\<lparr>co_entry := Some s, co_scheduler := Some Due, co_groups := co_groups k @ groups\<rparr>))"

text \<open>A message reaches a receiver that is still open.\<close>

definition deliver :: "waiter set \<Rightarrow> (waiter \<times> 'r) list \<Rightarrow> (waiter \<Rightarrow> 'r option) \<Rightarrow> (waiter \<Rightarrow> 'r option)" where
  "deliver closed_ids sends m = (\<lambda>w. if w \<in> closed_ids then m w else case map_of sends w of None \<Rightarrow> m w | Some r \<Rightarrow> Some r)"

definition complete_dispatched_group :: "chunk_range \<Rightarrow> group_result \<Rightarrow> coordinator \<Rightarrow> coordinator" where
  "complete_dispatched_group g r k =
     (case co_entry k of
        None \<Rightarrow> k
      | Some s \<Rightarrow>
          (case complete_group g r s of (sends, s) \<Rightarrow>
             k\<lparr>co_entry := remove_drainable_state s, co_answers := deliver (co_closed k) sends (co_answers k)\<rparr>))"

text \<open>The steps of the tasks that share the state. A dispatched group completes with its fetch, with
  the overload error of a refused permit, or with the cancellation error of its guard; the chunks of a
  fetch satisfy \<open>good\<close>.\<close>

inductive coord_step :: "nat \<Rightarrow> (nat \<Rightarrow> bytes \<Rightarrow> bool) \<Rightarrow> coordinator \<Rightarrow> coordinator \<Rightarrow> bool"
  for max_fetch :: nat and good :: "nat \<Rightarrow> bytes \<Rightarrow> bool"
  where
    request: "distinct (map snd required) \<Longrightarrow> \<forall>w\<in>snd ` set required. co_asked k w = None \<Longrightarrow>
      coord_step max_fetch good k (fetch_chunks_enqueue required alen queued_at k)"
  | cancel: "coord_step max_fetch good k (k\<lparr>co_closed := insert w (co_closed k)\<rparr>)"
  | turn: "co_scheduler k = Some Due \<Longrightarrow> coord_step max_fetch good k (scheduler_turn max_fetch k)"
  | wake: "co_scheduler k = Some Parked \<Longrightarrow> co_entry k = Some s \<Longrightarrow> tf_capacity_available s \<Longrightarrow>
      coord_step max_fetch good k (k\<lparr>co_entry := Some (s\<lparr>tf_capacity_available := False\<rparr>), co_scheduler := Some Due\<rparr>)"
  | complete: "co_groups k = xs @ g # ys \<Longrightarrow> (\<forall>m c b. r = Inr m \<and> m c = Some b \<longrightarrow> good c b) \<Longrightarrow>
      coord_step max_fetch good k (complete_dispatched_group g r (k\<lparr>co_groups := xs @ ys\<rparr>))"

section \<open>Groups cover the chunks they are made of\<close>

lemma covered_simps [simp]:
  "covered [] = {}" "covered (g # gs) = {fst g..<snd g} \<union> covered gs" "covered (gs @ hs) = covered gs \<union> covered hs"
  by (auto simp: covered_def split: prod.splits)

lemma ranges_loop_covers:
  "sorted_wrt (<) cs \<Longrightarrow> \<forall>c\<in>set cs. fin \<le> c \<Longrightarrow> start < fin \<Longrightarrow>
     {start..<fin} \<union> set cs \<subseteq> covered (ranges_loop mx gap start fin cs)"
proof (induction cs arbitrary: start fin)
  case (Cons c cs)
  from Cons.prems have cs: "sorted_wrt (<) cs" "\<forall>d\<in>set cs. c + 1 \<le> d" and c: "fin \<le> c" by auto
  show ?case
  proof (cases "c \<le> fin + gap \<and> c + 1 - start \<le> mx")
    case True
    have "{start..<c + 1} \<union> set cs \<subseteq> covered (ranges_loop mx gap start (c + 1) cs)"
      by (rule Cons.IH [OF cs]) (use Cons.prems c in simp)
    with True c Cons.prems(3) show ?thesis by auto
  next
    case False
    have "{c..<c + 1} \<union> set cs \<subseteq> covered (ranges_loop mx gap c (c + 1) cs)" by (rule Cons.IH [OF cs]) simp
    with False show ?thesis by auto
  qed
qed simp

lemma contiguous_chunk_ranges_covers:
  "finite chunks \<Longrightarrow> chunks \<subseteq> covered (contiguous_chunk_ranges chunks mx gap)"
  "finite chunks \<Longrightarrow> contiguous_chunk_ranges chunks mx gap = [] \<longleftrightarrow> chunks = {}"
proof -
  assume fin: "finite chunks"
  have nonempty: "ranges_loop m g a b cs \<noteq> []" for m g a b cs by (induction m g a b cs rule: ranges_loop.induct) auto
  show "chunks \<subseteq> covered (contiguous_chunk_ranges chunks mx gap)"
  proof (cases "sorted_list_of_set chunks")
    case Nil
    with fin show ?thesis by simp
  next
    case (Cons c cs)
    have "sorted_wrt (<) (c # cs)" using strict_sorted_list_of_set [of chunks] Cons by simp
    then have "{c..<c + 1} \<union> set cs \<subseteq> covered (ranges_loop (max mx 1) gap c (c + 1) cs)"
      by (intro ranges_loop_covers) auto
    moreover have "chunks = insert c (set cs)" using set_sorted_list_of_set [OF fin] Cons by simp
    ultimately show ?thesis using Cons by (simp add: contiguous_chunk_ranges_def)
  qed
  show "contiguous_chunk_ranges chunks mx gap = [] \<longleftrightarrow> chunks = {}"
    using fin by (auto simp: contiguous_chunk_ranges_def nonempty split: list.splits)
qed

section \<open>Waiters\<close>

abbreviation waits :: "tileset_fetch_state \<Rightarrow> nat \<Rightarrow> waiter \<Rightarrow> bool" where
  "waits s c w \<equiv> \<exists>ws. tf_waiters s c = Some ws \<and> w \<in> set ws"

text \<open>What holds of a fetch state between two locked sections.\<close>

definition state_inv :: "tileset_fetch_state \<Rightarrow> chunk_range list \<Rightarrow> bool" where
  "state_inv s groups \<longleftrightarrow>
     finite (tf_pending_chunks s) \<and> tf_inflight_fetch_count s = length groups
   \<and> length groups \<le> max_concurrent_fetches_per_tileset \<and> tf_inflight_chunks s \<subseteq> covered groups
   \<and> (\<forall>c ws. tf_waiters s c = Some ws \<longrightarrow> c \<in> tf_pending_chunks s \<union> tf_inflight_chunks s)"

lemma enqueue_chunk_effect:
  assumes "enqueue_chunk c w q s = (out, s')"
  shows "tf_inflight_chunks s' = tf_inflight_chunks s" "tf_inflight_fetch_count s' = tf_inflight_fetch_count s"
    "tf_scheduler_running s' = tf_scheduler_running s" "tf_capacity_available s' = tf_capacity_available s"
    "tf_pending_chunks s \<subseteq> tf_pending_chunks s'" "waits s' d v \<longleftrightarrow> waits s d v \<or> d = c \<and> v = w"
    "state_inv s groups \<Longrightarrow> state_inv s' groups"
  using assms by (auto simp: enqueue_chunk_def Let_def state_inv_def split: if_splits option.splits) blast+

lemma enqueue_chunks_effect:
  assumes "enqueue_chunks required q s = (outs, s')"
  shows "tf_inflight_chunks s' = tf_inflight_chunks s \<and> tf_inflight_fetch_count s' = tf_inflight_fetch_count s
    \<and> tf_scheduler_running s' = tf_scheduler_running s \<and> tf_capacity_available s' = tf_capacity_available s
    \<and> tf_pending_chunks s \<subseteq> tf_pending_chunks s' \<and> (\<forall>d v. waits s' d v \<longleftrightarrow> waits s d v \<or> (d, v) \<in> set required)
    \<and> (state_inv s groups \<longrightarrow> state_inv s' groups)"
  using assms
proof (induction required arbitrary: s outs)
  case (Cons r required)
  obtain c w where r: "r = (c, w)" by fastforce
  obtain o1 s1 os where 1: "enqueue_chunk c w q s = (o1, s1)" "enqueue_chunks required q s1 = (os, s')"
    using Cons.prems r by (auto simp: Let_def split: prod.splits)
  from Cons.IH [OF 1(2)] enqueue_chunk_effect [OF 1(1)] show ?case by (auto simp: r)
qed simp

lemma prune_effect:
  assumes "s' = prune_cancelled_waiters cl s"
  shows "tf_inflight_chunks s' = tf_inflight_chunks s" "tf_inflight_fetch_count s' = tf_inflight_fetch_count s"
    "tf_scheduler_running s' = tf_scheduler_running s" "tf_capacity_available s' = tf_capacity_available s"
    "tf_archive_len s' = tf_archive_len s" "waits s' d v \<longleftrightarrow> waits s d v \<and> v \<notin> cl"
    "state_inv s groups \<Longrightarrow> state_inv s' groups" "tf_pending_chunks s' \<subseteq> tf_pending_chunks s"
  using assms
  by (auto simp: prune_cancelled_waiters_def live_waiters_def state_inv_def Let_def filter_empty_conv dom_def
      split: option.splits if_splits)

lemma select_effect:
  assumes "select_dispatch_groups mx s = (dec, s')" and "state_inv s groups"
  shows "(dec = Idle \<and> tf_pending_chunks s = {} \<and> s' = s\<lparr>tf_scheduler_running := False\<rparr>)
    \<or> (dec = Throttled \<and> tf_pending_chunks s \<noteq> {} \<and> length groups = max_concurrent_fetches_per_tileset \<and> s' = s)
    \<or> (\<exists>gs n. dec = Dispatch gs n \<and> state_inv s' (groups @ gs) \<and> tf_scheduler_running s' = tf_scheduler_running s
          \<and> tf_waiters s' = tf_waiters s)"
proof (cases "tf_pending_chunks s = {}")
  case False
  let ?slots = "max_concurrent_fetches_per_tileset - tf_inflight_fetch_count s"
  let ?gs = "take ?slots (contiguous_chunk_ranges (tf_pending_chunks s) mx max_chunk_gap)"
  have fin: "finite (tf_pending_chunks s)" and cnt: "tf_inflight_fetch_count s = length groups"
    "length groups \<le> max_concurrent_fetches_per_tileset" using assms(2) by (auto simp: state_inv_def)
  show ?thesis
  proof (cases "max_concurrent_fetches_per_tileset \<le> tf_inflight_fetch_count s")
    case True
    with False assms(1) cnt show ?thesis by (auto simp: select_dispatch_groups_def)
  next
    case slots: False
    then have "?gs \<noteq> []" using contiguous_chunk_ranges_covers(2) [OF fin, of mx max_chunk_gap] False by (simp add: not_le)
    with False slots assms(1) have s': "dec = Dispatch ?gs (tf_archive_len s)"
      "s' = s\<lparr>tf_inflight_chunks := tf_inflight_chunks s \<union> covered ?gs, tf_pending_chunks := tf_pending_chunks s - covered ?gs,
         tf_first_pending_at := (if tf_pending_chunks s - covered ?gs = {} then None else tf_first_pending_at s),
         tf_inflight_fetch_count := tf_inflight_fetch_count s + length ?gs\<rparr>"
      by (auto simp: select_dispatch_groups_def Let_def)
    have "length groups + length ?gs \<le> max_concurrent_fetches_per_tileset" using cnt slots by simp
    then have "state_inv s' (groups @ ?gs)" using assms(2) by (auto simp: state_inv_def s'(2))
    then show ?thesis using s' by auto
  qed
qed (use assms(1) in \<open>auto simp: select_dispatch_groups_def\<close>)

lemma complete_effect:
  assumes "complete_group g r s = (sends, s')" and "state_inv s (xs @ g # ys)"
  shows "state_inv s' (xs @ ys)" "tf_scheduler_running s' = tf_scheduler_running s" "tf_pending_chunks s' = tf_pending_chunks s"
    "tf_capacity_available s' \<longleftrightarrow> tf_capacity_available s
       \<or> length (xs @ g # ys) = max_concurrent_fetches_per_tileset \<and> tf_pending_chunks s \<noteq> {}"
    "waits s' c w \<longleftrightarrow> waits s c w \<and> c \<notin> {fst g..<snd g}"
    "(w, a) \<in> set sends \<longleftrightarrow> (\<exists>c. waits s c w \<and> c \<in> {fst g..<snd g} \<and> a = chunk_result r c)"
proof -
  from assms(1) have s': "s' = s\<lparr>tf_inflight_fetch_count := tf_inflight_fetch_count s - 1,
      tf_capacity_available := tf_capacity_available s \<or> (max_concurrent_fetches_per_tileset \<le> tf_inflight_fetch_count s \<and> tf_pending_chunks s \<noteq> {}),
      tf_inflight_chunks := tf_inflight_chunks s - {fst g..<snd g},
      tf_waiters := (\<lambda>c. if c \<in> {fst g..<snd g} then None else tf_waiters s c)\<rparr>"
    by (simp add: complete_group_def Let_def)
  show "state_inv s' (xs @ ys)" using assms(2) by (auto simp: s' state_inv_def dom_def split: if_splits)
  show "tf_scheduler_running s' = tf_scheduler_running s" "tf_pending_chunks s' = tf_pending_chunks s" by (simp_all add: s')
  show "tf_capacity_available s' \<longleftrightarrow> tf_capacity_available s
       \<or> length (xs @ g # ys) = max_concurrent_fetches_per_tileset \<and> tf_pending_chunks s \<noteq> {}"
    using assms(2) by (auto simp: s' state_inv_def)
  show "waits s' c w \<longleftrightarrow> waits s c w \<and> c \<notin> {fst g..<snd g}" by (auto simp: s')
  show "(w, a) \<in> set sends \<longleftrightarrow> (\<exists>c. waits s c w \<and> c \<in> {fst g..<snd g} \<and> a = chunk_result r c)"
  proof -
    define f where "f c = (case tf_waiters s c of None \<Rightarrow> [] | Some ws \<Rightarrow> map (\<lambda>w. (w, chunk_result r c)) ws)" for c
    have f: "f = (\<lambda>c. case tf_waiters s c of None \<Rightarrow> [] | Some ws \<Rightarrow> map (\<lambda>w. (w, chunk_result r c)) ws)"
      by (rule ext) (simp add: f_def)
    have "(w, a) \<in> set (f c) \<longleftrightarrow> waits s c w \<and> a = chunk_result r c" for c
      by (cases "tf_waiters s c") (auto simp: f_def)
    moreover have "sends = concat (map f [fst g..<snd g])"
      using assms(1) by (auto simp: complete_group_def Let_def f)
    ultimately show ?thesis by auto
  qed
qed

section \<open>The invariant of the coordinator\<close>

definition scheduler_inv :: "tileset_fetch_state \<Rightarrow> scheduler_phase option \<Rightarrow> chunk_range list \<Rightarrow> bool" where
  "scheduler_inv s sch groups \<longleftrightarrow>
     (tf_pending_chunks s \<noteq> {} \<longrightarrow> tf_scheduler_running s) \<and> (tf_scheduler_running s \<longleftrightarrow> sch \<noteq> None)
   \<and> (sch = Some Parked \<longrightarrow>
        tf_pending_chunks s \<noteq> {} \<and> (tf_capacity_available s \<or> length groups = max_concurrent_fetches_per_tileset))"

definition entry_inv :: "coordinator \<Rightarrow> bool" where
  "entry_inv k \<longleftrightarrow>
     (case co_entry k of
        None \<Rightarrow> co_groups k = [] \<and> co_scheduler k = None
      | Some s \<Rightarrow> state_inv s (co_groups k) \<and> scheduler_inv s (co_scheduler k) (co_groups k))"

definition entry_waits :: "coordinator \<Rightarrow> nat \<Rightarrow> waiter \<Rightarrow> bool" where
  "entry_waits k c w \<longleftrightarrow> (case co_entry k of None \<Rightarrow> False | Some s \<Rightarrow> waits s c w)"

definition waiters_inv :: "(nat \<Rightarrow> bytes \<Rightarrow> bool) \<Rightarrow> coordinator \<Rightarrow> bool" where
  "waiters_inv good k \<longleftrightarrow>
     (\<forall>w c. co_asked k w = Some c \<longrightarrow> w \<in> co_closed k \<or> co_answers k w \<noteq> None \<or> entry_waits k c w)
   \<and> (\<forall>w c. entry_waits k c w \<longrightarrow> co_asked k w = Some c)
   \<and> (\<forall>w b. co_answers k w = Some (Inr b) \<longrightarrow> (\<exists>c. co_asked k w = Some c \<and> good c b))"

definition coord_inv :: "(nat \<Rightarrow> bytes \<Rightarrow> bool) \<Rightarrow> coordinator \<Rightarrow> bool" where
  "coord_inv good k \<longleftrightarrow> entry_inv k \<and> waiters_inv good k"

lemma drainable_no_waits: "state_inv s groups \<Longrightarrow> is_drainable s \<Longrightarrow> groups = [] \<and> \<not> waits s c w"
  by (auto simp: state_inv_def is_drainable_def)

lemma remove_drainable_entry:
  assumes "state_inv s groups" and "scheduler_inv s sch groups" and "co_entry k = remove_drainable_state s"
    and "co_groups k = groups" and "co_scheduler k = sch"
  shows "entry_inv k" and "entry_waits k c w \<longleftrightarrow> waits s c w"
  using assms drainable_no_waits [OF assms(1)]
  by (auto simp: entry_inv_def entry_waits_def remove_drainable_state_def is_drainable_def scheduler_inv_def)

lemma request_inv:
  assumes inv: "coord_inv good k" and fresh: "\<forall>w\<in>snd ` set required. co_asked k w = None"
    and dist: "distinct (map snd required)"
  shows "coord_inv good (fetch_chunks_enqueue required alen q k)"
proof -
  define s0 where "s0 = (case co_entry k of None \<Rightarrow> tileset_fetch_state_default | Some s \<Rightarrow> s)"
  define s1 where "s1 = s0\<lparr>tf_archive_len := max (tf_archive_len s0) alen\<rparr>"
  obtain outs s2 where s2: "enqueue_chunks required q s1 = (outs, s2)" by fastforce
  define spawn where "spawn \<longleftrightarrow> \<not> tf_scheduler_running s2 \<and> tf_pending_chunks s2 \<noteq> {}"
  define k' where "k' = fetch_chunks_enqueue required alen q k"
  have k': "co_entry k' = Some (if spawn then s2\<lparr>tf_scheduler_running := True\<rparr> else s2)"
    "co_scheduler k' = (if spawn then Some Due else co_scheduler k)" "co_groups k' = co_groups k" "co_closed k' = co_closed k"
    "co_answers k' = co_answers k" "co_asked k' = co_asked k ++ map_of (map prod.swap required)"
    by (simp_all add: k'_def fetch_chunks_enqueue_def s0_def [symmetric] s1_def [symmetric] s2 spawn_def Let_def)
  have s1: "state_inv s1 (co_groups k)" "scheduler_inv s1 (co_scheduler k) (co_groups k)" "waits s1 c w \<longleftrightarrow> entry_waits k c w" for c w
    using inv by (auto simp: coord_inv_def entry_inv_def entry_waits_def s1_def s0_def state_inv_def scheduler_inv_def
        tileset_fetch_state_default_def split: option.splits)
  note e = enqueue_chunks_effect [OF s2, of "co_groups k"]
  have "entry_inv k'" using e s1(1,2) by (auto simp: entry_inv_def k' spawn_def state_inv_def scheduler_inv_def)
  moreover have ew: "entry_waits k' c w \<longleftrightarrow> entry_waits k c w \<or> (c, w) \<in> set required" for c w
    using e s1(3) by (auto simp: entry_waits_def k')
  have mo: "map_of (map prod.swap required) w = Some c \<longleftrightarrow> (c, w) \<in> set required" for c w
  proof -
    have "distinct (map fst (map prod.swap required))" using dist by (simp add: comp_def)
    from map_of_eq_Some_iff [OF this, of w c] show ?thesis by force
  qed
  have "waiters_inv good k'"
  proof -
    have ask: "co_asked k' w = Some c \<longleftrightarrow> co_asked k w = Some c \<or> (c, w) \<in> set required" for w c
      using fresh mo [of w] by (force simp: k' map_add_Some_iff map_of_eq_None_iff)
    show ?thesis using inv unfolding coord_inv_def waiters_inv_def ask ew k'(4,5) by blast
  qed
  ultimately show ?thesis by (simp add: coord_inv_def k'_def)
qed

lemma turn_inv:
  assumes inv: "coord_inv good k" and due: "co_scheduler k = Some Due"
  shows "coord_inv good (scheduler_turn mx k)"
proof (cases "co_entry k")
  case None
  with inv due show ?thesis by (simp add: coord_inv_def entry_inv_def)
next
  case (Some s)
  define s1 where "s1 = prune_cancelled_waiters (co_closed k) s"
  obtain dec s2 where s2: "select_dispatch_groups mx s1 = (dec, s2)" by fastforce
  note p = prune_effect [OF s1_def]
  from inv Some have s: "state_inv s (co_groups k)" "scheduler_inv s (Some Due) (co_groups k)"
    by (auto simp: coord_inv_def entry_inv_def due)
  then have s1: "state_inv s1 (co_groups k)" "tf_scheduler_running s1" using p by (auto simp: scheduler_inv_def)
  define k' where "k' = scheduler_turn mx k"
  have same: "co_asked k' = co_asked k" "co_closed k' = co_closed k" "co_answers k' = co_answers k"
    using s2 Some by (auto simp: k'_def scheduler_turn_def s1_def split: fetch_dispatch.splits)
  have "entry_inv k' \<and> (\<forall>c w. entry_waits k' c w \<longleftrightarrow> waits s1 c w)"
    using select_effect [OF s2 s1(1)]
  proof (elim disjE exE conjE)
    assume d: "dec = Idle" "tf_pending_chunks s1 = {}" "s2 = s1\<lparr>tf_scheduler_running := False\<rparr>"
    have "state_inv s2 (co_groups k)" "scheduler_inv s2 None (co_groups k)"
      using s1 d by (auto simp: state_inv_def scheduler_inv_def)
    from remove_drainable_entry [OF this, of k'] s2 Some d show ?thesis
      by (simp add: k'_def scheduler_turn_def s1_def [symmetric])
  next
    assume d: "dec = Throttled" "tf_pending_chunks s1 \<noteq> {}" "length (co_groups k) = max_concurrent_fetches_per_tileset" "s2 = s1"
    with s1 s2 Some show ?thesis
      by (simp add: k'_def scheduler_turn_def s1_def [symmetric] entry_inv_def entry_waits_def scheduler_inv_def)
  next
    fix gs n assume d: "dec = Dispatch gs n" "state_inv s2 (co_groups k @ gs)" "tf_scheduler_running s2 = tf_scheduler_running s1"
      "tf_waiters s2 = tf_waiters s1"
    with s1 s2 Some show ?thesis
      by (simp add: k'_def scheduler_turn_def s1_def [symmetric] entry_inv_def entry_waits_def scheduler_inv_def)
  qed
  moreover have "waits s1 c w \<longleftrightarrow> entry_waits k c w \<and> w \<notin> co_closed k" for c w
    using p(6) Some by (simp add: entry_waits_def)
  ultimately show ?thesis using inv by (auto simp: coord_inv_def waiters_inv_def same k'_def [symmetric])
qed

lemma complete_inv:
  assumes inv: "coord_inv good k" and g: "co_groups k = xs @ g # ys"
    and r: "\<forall>m c b. r = Inr m \<and> m c = Some b \<longrightarrow> good c b"
  shows "coord_inv good (complete_dispatched_group g r (k\<lparr>co_groups := xs @ ys\<rparr>))"
proof (cases "co_entry k")
  case None
  with inv g show ?thesis by (simp add: coord_inv_def entry_inv_def)
next
  case (Some s)
  from inv Some have s: "state_inv s (xs @ g # ys)" "scheduler_inv s (co_scheduler k) (xs @ g # ys)"
    by (auto simp: coord_inv_def entry_inv_def g)
  obtain sends s1 where c: "complete_group g r s = (sends, s1)" by fastforce
  note e = complete_effect [OF c s(1)]
  define k' where "k' = complete_dispatched_group g r (k\<lparr>co_groups := xs @ ys\<rparr>)"
  have k': "co_entry k' = remove_drainable_state s1" "co_groups k' = xs @ ys" "co_scheduler k' = co_scheduler k"
    "co_asked k' = co_asked k" "co_closed k' = co_closed k" "co_answers k' = deliver (co_closed k) sends (co_answers k)"
    using c Some by (simp_all add: k'_def complete_dispatched_group_def)
  have "scheduler_inv s1 (co_scheduler k) (xs @ ys)" using s(2) e(2-4) by (auto simp: scheduler_inv_def)
  note en = remove_drainable_entry [OF e(1) this k'(1-3)]
  have w: "waits s c w \<longleftrightarrow> entry_waits k c w" for c w using Some by (simp add: entry_waits_def)
  have sent: "\<exists>c. entry_waits k c w \<and> a = chunk_result r c" if "map_of sends w = Some a" for w a
    using map_of_SomeD [OF that] e(6) w by blast
  have good: "good c b" if "chunk_result r c = Inr b" for c b
    using that r by (auto simp: chunk_result_def split: sum.splits option.splits)
  have unsent: "w \<notin> co_closed k \<Longrightarrow> deliver (co_closed k) sends (co_answers k) w \<noteq> None"
    if "waits s c w" "c \<in> {fst g..<snd g}" for c w
  proof -
    have "(w, chunk_result r c) \<in> set sends" using that e(6) by blast
    then have "map_of sends w \<noteq> None" using weak_map_of_SomeI by fastforce
    then show "w \<notin> co_closed k \<Longrightarrow> deliver (co_closed k) sends (co_answers k) w \<noteq> None" by (auto simp: deliver_def)
  qed
  have kept: "deliver (co_closed k) sends (co_answers k) w \<noteq> None" if "co_answers k w \<noteq> None" for w
    using that by (auto simp: deliver_def split: option.splits)
  have "waiters_inv good k'"
    unfolding waiters_inv_def
  proof (intro conjI allI impI)
    fix w c assume a: "co_asked k' w = Some c"
    with inv have "w \<in> co_closed k \<or> co_answers k w \<noteq> None \<or> waits s c w" by (simp add: coord_inv_def waiters_inv_def k' w)
    then show "w \<in> co_closed k' \<or> co_answers k' w \<noteq> None \<or> entry_waits k' c w"
      using kept [of w] unsent [of c w] en(2) [of c w] e(5) [of c w] by (cases "c \<in> {fst g..<snd g}") (simp_all add: k'(4-6), blast+)
  next
    fix w c assume "entry_waits k' c w"
    with en(2) e(5) w inv show "co_asked k' w = Some c" by (auto simp: coord_inv_def waiters_inv_def k')
  next
    fix w b assume "co_answers k' w = Some (Inr b)"
    then have "co_answers k w = Some (Inr b) \<or> map_of sends w = Some (Inr b)"
      by (auto simp: k' deliver_def split: if_splits option.splits)
    with inv sent good show "\<exists>c. co_asked k' w = Some c \<and> good c b"
      unfolding coord_inv_def waiters_inv_def k' by metis
  qed
  with en(1) show ?thesis by (simp add: coord_inv_def k'_def)
qed

lemma coord_step_inv:
  assumes "coord_inv good k" and "coord_step mx good k k'"
  shows "coord_inv good k'"
  using assms(2,1)
proof cases
  case (request required alen queued_at)
  with assms(1) request_inv show ?thesis by blast
next
  case (cancel w)
  with assms(1) show ?thesis
    by (cases "co_entry k") (auto simp: coord_inv_def entry_inv_def waiters_inv_def entry_waits_def)
next
  case turn
  with assms(1) turn_inv show ?thesis by blast
next
  case (wake s)
  with assms(1) show ?thesis
    by (auto simp: coord_inv_def entry_inv_def waiters_inv_def entry_waits_def state_inv_def scheduler_inv_def)
next
  case (complete xs g ys r)
  with assms(1) complete_inv show ?thesis by blast
qed

interpretation fetch_coordinator: transition_system "\<lambda>k. k = coordinator_new" "coord_step mx good" "coord_inv good" for mx good
proof unfold_locales
  show "coord_inv good k" if "k = coordinator_new" for k
    using that by (simp add: coordinator_new_def coord_inv_def entry_inv_def waiters_inv_def entry_waits_def)
qed (rule coord_step_inv)

section \<open>Fetched groups are good\<close>

text \<open>The task of a dispatched group: the result it completes with.\<close>

definition run_fetch_chunk_group ::
  "object_backend \<Rightarrow> u64 \<Rightarrow> tileset_id \<Rightarrow> chunk_range \<Rightarrow> u64 \<Rightarrow> chunk_cache \<Rightarrow> group_result \<times> chunk_cache" where
  "run_fetch_chunk_group get size' t g alen cache =
     (case fetch_and_cache_group get size' t (of_nat (fst g), of_nat (snd g)) alen cache of
        (Inl e, cache') \<Rightarrow> (Inl e, cache')
      | (Inr chunks, cache') \<Rightarrow> (Inr (\<lambda>c. chunks (of_nat c)), cache'))"

lemma run_fetch_chunk_group_good:
  assumes "stores_archive A get" and "cache_ok A alen size' t cache"
    and "run_fetch_chunk_group get size' t g alen cache = (r, cache')"
  shows "cache_ok A alen size' t cache'"
    and "r = Inr m \<Longrightarrow> m c = Some b \<Longrightarrow> b = chunk_of A alen size' (of_nat c)"
proof -
  obtain r0 where f: "fetch_and_cache_group get size' t (of_nat (fst g), of_nat (snd g)) alen cache = (r0, cache')"
    and r: "r = (case r0 of Inl e \<Rightarrow> Inl e | Inr chunks \<Rightarrow> Inr (\<lambda>c. chunks (of_nat c)))"
    using assms(3) by (auto simp: run_fetch_chunk_group_def split: prod.splits sum.splits)
  show "cache_ok A alen size' t cache'" by (rule fetch_and_cache_group_ok(1) [OF assms(1,2) f])
  show "b = chunk_of A alen size' (of_nat c)" if "r = Inr m" "m c = Some b"
  proof -
    from that(1) r obtain chunks where c: "r0 = Inr chunks" "m = (\<lambda>c. chunks (of_nat c))" by (auto split: sum.splits)
    from fetch_and_cache_group_ok(2) [OF assms(1,2) f c(1)] c(2) that(2) show ?thesis by (auto simp: chunks_ok_def)
  qed
qed

text \<open>The table a caller collects holds good chunks, one for every chunk it asked for.\<close>

lemma collect_answers_good:
  "collect_answers as = Inr m \<Longrightarrow> (\<And>c b. (c, Some (Inr b)) \<in> set as \<Longrightarrow> good c b) \<Longrightarrow> m c = Some b \<Longrightarrow> good c b"
  by (induction "as" arbitrary: m rule: collect_answers.induct) (auto split: sum.splits if_splits)

lemma collect_answers_all: "collect_answers as = Inr m \<Longrightarrow> c \<in> fst ` set as \<Longrightarrow> m c \<noteq> None"
proof (induction "as" arbitrary: m rule: collect_answers.induct)
  case (4 d b rest)
  then obtain m' where m': "collect_answers rest = Inr m'" "m = (if m' d = None then m'(d \<mapsto> b) else m')"
    by (auto split: sum.splits)
  show ?case
  proof (cases "c = d")
    case False
    with 4(3) have "c \<in> fst ` set rest" by simp
    with 4(1) [OF m'(1)] m'(2) False show ?thesis by simp
  qed (use m'(2) in auto)
qed simp_all

section \<open>Properties\<close>

text \<open>A scheduler that has not stopped: it will take its turn, or it is parked and capacity is already
  announced, or it is parked and groups are running whose completion announces it.\<close>

definition scheduler_alive :: "coordinator \<Rightarrow> bool" where
  "scheduler_alive k \<longleftrightarrow>
     co_scheduler k = Some Due
   \<or> co_scheduler k = Some Parked \<and>
       ((\<exists>s. co_entry k = Some s \<and> tf_capacity_available s) \<or> length (co_groups k) = max_concurrent_fetches_per_tileset)"

text \<open>C26: In every interleaving of requests, cancellations, scheduler turns and group completions no
  waiter is stranded: one that is neither answered nor closed waits for a chunk of a running group, or
  for a pending chunk with a live scheduler. At most 32 groups run. An answer with bytes has what the
  fetch delivered for the chunk the waiter asked for. And when scheduler and groups have ended, nobody
  is waiting.\<close>

theorem no_waiter_stranded:
  assumes "reach (\<lambda>k. k = coordinator_new) (coord_step mx good) k"
  shows "length (co_groups k) \<le> max_concurrent_fetches_per_tileset
     \<and> (\<forall>w c. co_asked k w = Some c \<and> w \<notin> co_closed k \<and> co_answers k w = None \<longrightarrow>
          c \<in> covered (co_groups k) \<or> (\<exists>s. co_entry k = Some s \<and> c \<in> tf_pending_chunks s) \<and> scheduler_alive k)
     \<and> (\<forall>w b. co_answers k w = Some (Inr b) \<longrightarrow> (\<exists>c. co_asked k w = Some c \<and> good c b))
     \<and> (co_scheduler k = None \<and> co_groups k = [] \<longrightarrow>
          (\<forall>w. co_asked k w \<noteq> None \<longrightarrow> w \<in> co_closed k \<or> co_answers k w \<noteq> None))"
proof -
  have inv: "entry_inv k" "waiters_inv good k"
    using fetch_coordinator.reachable_inv [OF assms] by (auto simp: coord_inv_def)
  have groups: "length (co_groups k) \<le> max_concurrent_fetches_per_tileset"
    using inv(1) by (auto simp: entry_inv_def state_inv_def split: option.splits)
  have wait: "c \<in> covered (co_groups k) \<or> (\<exists>s. co_entry k = Some s \<and> c \<in> tf_pending_chunks s) \<and> scheduler_alive k"
    if "entry_waits k c w" for c w
  proof -
    from that obtain s where s: "co_entry k = Some s" "waits s c w" by (auto simp: entry_waits_def split: option.splits)
    then have "c \<in> tf_pending_chunks s \<or> c \<in> covered (co_groups k)"
      using inv(1) by (auto simp: entry_inv_def state_inv_def)
    moreover have "scheduler_alive k" if "tf_pending_chunks s \<noteq> {}"
      using inv(1) s(1) that by (cases "co_scheduler k"; cases "the (co_scheduler k)")
        (auto simp: entry_inv_def scheduler_inv_def scheduler_alive_def)
    ultimately show ?thesis using s(1) by blast
  qed
  show ?thesis
  proof (intro conjI allI impI)
    fix w c assume "co_asked k w = Some c \<and> w \<notin> co_closed k \<and> co_answers k w = None"
    with inv(2) have "entry_waits k c w" unfolding waiters_inv_def by blast
    then show "c \<in> covered (co_groups k) \<or> (\<exists>s. co_entry k = Some s \<and> c \<in> tf_pending_chunks s) \<and> scheduler_alive k" by (rule wait)
  next
    fix w assume "co_scheduler k = None \<and> co_groups k = []" "co_asked k w \<noteq> None"
    with inv(2) wait show "w \<in> co_closed k \<or> co_answers k w \<noteq> None"
      by (fastforce simp: waiters_inv_def scheduler_alive_def)
  qed (use groups inv(2) in \<open>auto simp: waiters_inv_def\<close>)
qed


text \<open>Two callers share one fetch: the second joins the inflight chunk, and one completion answers both.\<close>

definition demo_pending :: coordinator where
  "demo_pending =
     \<lparr>co_entry = Some \<lparr>tf_pending_chunks = {0}, tf_first_pending_at = Some 0, tf_inflight_chunks = {}, tf_waiters = [0 \<mapsto> [1]],
        tf_scheduler_running = True, tf_inflight_fetch_count = 0, tf_capacity_available = False, tf_archive_len = 1\<rparr>,
      co_scheduler = Some Due, co_groups = [], co_asked = [1 \<mapsto> 0], co_closed = {}, co_answers = Map.empty\<rparr>"

definition demo_inflight :: coordinator where
  "demo_inflight =
     \<lparr>co_entry = Some \<lparr>tf_pending_chunks = {}, tf_first_pending_at = None, tf_inflight_chunks = {0}, tf_waiters = [0 \<mapsto> [1]],
        tf_scheduler_running = True, tf_inflight_fetch_count = 1, tf_capacity_available = False, tf_archive_len = 1\<rparr>,
      co_scheduler = Some Due, co_groups = [(0, 1)], co_asked = [1 \<mapsto> 0], co_closed = {}, co_answers = Map.empty\<rparr>"

lemma demo_request: "fetch_chunks_enqueue [(0, 1)] 1 0 coordinator_new = demo_pending"
  by (simp add: fetch_chunks_enqueue_def coordinator_new_def demo_pending_def tileset_fetch_state_default_def
      enqueue_chunk_def Let_def)

lemma demo_turn: "scheduler_turn 4 demo_pending = demo_inflight"
proof -
  have "live_waiters {} [0 \<mapsto> [1]] = [0 \<mapsto> [1]]" by (rule ext) (simp add: live_waiters_def)
  then show ?thesis
    by (simp add: scheduler_turn_def demo_pending_def demo_inflight_def prune_cancelled_waiters_def select_dispatch_groups_def
        contiguous_chunk_ranges_def Let_def max_concurrent_fetches_per_tileset_def)
qed

definition demo_joined :: coordinator where
  "demo_joined = fetch_chunks_enqueue [(0, 2)] 1 0 demo_inflight"

lemma demo_joined_fields: "co_groups demo_joined = [] @ (0, 1) # []" "co_asked demo_joined 2 = Some 0"
  by (simp_all add: demo_joined_def fetch_chunks_enqueue_def demo_inflight_def enqueue_chunk_def Let_def)

lemma demo_answered:
  "co_answers (complete_dispatched_group (0, 1) (Inr [0 \<mapsto> [7]]) (demo_joined\<lparr>co_groups := [] @ []\<rparr>)) 2 = Some (Inr [7])"
  by (simp add: demo_joined_def fetch_chunks_enqueue_def demo_inflight_def enqueue_chunk_def Let_def
      complete_dispatched_group_def complete_group_def deliver_def chunk_result_def)

theorem no_waiter_stranded_witness:
  "\<exists>k c. reach (\<lambda>k. k = coordinator_new) (coord_step 4 (\<lambda>_ b. b = [7])) k \<and> co_answers k 2 = Some (Inr [7])
     \<and> co_asked k 2 = Some c \<and> length (co_groups k) \<le> max_concurrent_fetches_per_tileset"
proof -
  let ?good = "\<lambda>_ b. b = [7] :: bool"
  let ?k = "complete_dispatched_group (0, 1) (Inr [0 \<mapsto> [7]]) (demo_joined\<lparr>co_groups := [] @ []\<rparr>)"
  let ?reach = "reach (\<lambda>k. k = coordinator_new) (coord_step 4 ?good)"
  have "?reach coordinator_new" by (rule reach_init) simp
  moreover have "coord_step 4 ?good coordinator_new (fetch_chunks_enqueue [(0, 1)] 1 0 coordinator_new)"
    by (rule request) (simp_all add: coordinator_new_def)
  ultimately have "?reach demo_pending" unfolding demo_request by (rule reach_step)
  moreover have "coord_step 4 ?good demo_pending demo_inflight"
    unfolding demo_turn [symmetric] by (rule turn) (simp add: demo_pending_def)
  ultimately have "?reach demo_inflight" by (rule reach_step)
  moreover have "coord_step 4 ?good demo_inflight demo_joined"
    unfolding demo_joined_def by (rule request) (simp_all add: demo_inflight_def)
  ultimately have "?reach demo_joined" by (rule reach_step)
  moreover have "coord_step 4 ?good demo_joined ?k"
    by (rule complete [OF demo_joined_fields(1)]) (simp split: if_splits)
  ultimately have k: "?reach ?k" by (rule reach_step)
  from no_waiter_stranded [OF k] k demo_answered show ?thesis by blast
qed

end
