(* ===== verification/Ishikari_Reader.thy ===== *)
theory Ishikari_Reader
  imports Chunk_Coordinator
begin

text \<open>
  \<^verbatim>\<open>crates/ishikari-core/src/pmtiles\<close> (\<open>cache.rs\<close>, \<open>reader.rs\<close>) and
  \<^verbatim>\<open>crates/mmpf-common/src/singleflight.rs\<close>: the multi-archive reader of a tile server. It serves the
  PMTiles reader as its archive backend: bootstraps and leaf directories come from its caches, from the
  peer that owns the tileset, or from its own storage, each load under a single flight per key. Other
  tasks share caches and flights: what storage, peers and flights answer, and what the caches hold
  afterwards, is an argument, a record of operations on a world. The wait for another task's flight
  may repeat; its turns are counted by a fuel, and a request that runs out of it is still waiting.
\<close>

section \<open>Single flight\<close>

text \<open>The table of a single flight: per key the outcome channel of its leader. A leader that drops its
  guard removes the key, and followers see the outcome it left, if any.\<close>

record ('k, 'v) single_flight =
  sf_entries :: "'k \<Rightarrow> nat option"
  sf_outcomes :: "nat \<Rightarrow> 'v option option"
  sf_next :: nat

datatype flight_role = LeadsFlight | FollowsFlight nat

definition single_flight_default :: "('k, 'v) single_flight" where
  "single_flight_default = \<lparr>sf_entries = Map.empty, sf_outcomes = Map.empty, sf_next = 0\<rparr>"

definition flight_begin :: "'k \<Rightarrow> ('k, 'v) single_flight \<Rightarrow> flight_role \<times> ('k, 'v) single_flight" where
  "flight_begin key sf =
     (case sf_entries sf key of
        Some ch \<Rightarrow> (FollowsFlight ch, sf)
      | None \<Rightarrow> (LeadsFlight, sf\<lparr>sf_entries := (sf_entries sf)(key \<mapsto> sf_next sf), sf_next := Suc (sf_next sf)\<rparr>))"

text \<open>\<open>complete_with\<close> and the drop of the guard.\<close>

definition flight_drop :: "'k \<Rightarrow> 'v option \<Rightarrow> ('k, 'v) single_flight \<Rightarrow> ('k, 'v) single_flight" where
  "flight_drop key outcome sf =
     (case sf_entries sf key of
        None \<Rightarrow> sf
      | Some ch \<Rightarrow> sf\<lparr>sf_entries := (sf_entries sf)(key := None), sf_outcomes := (sf_outcomes sf)(ch \<mapsto> outcome)\<rparr>)"

text \<open>A follower resumes when its channel is closed, with the outcome.\<close>

definition flight_wait :: "nat \<Rightarrow> ('k, 'v) single_flight \<Rightarrow> 'v option option" where
  "flight_wait ch sf = sf_outcomes sf ch"

text \<open>Tasks lead or follow: the keys led, the channels followed, and the table.\<close>

inductive flight_reach :: "'k list \<Rightarrow> nat set \<Rightarrow> ('k, 'v) single_flight \<Rightarrow> bool" where
  flight_reach_start: "flight_reach [] {} single_flight_default"
| flight_reach_lead: "flight_reach L F sf \<Longrightarrow> flight_begin key sf = (LeadsFlight, sf') \<Longrightarrow> flight_reach (key # L) F sf'"
| flight_reach_follow: "flight_reach L F sf \<Longrightarrow> flight_begin key sf = (FollowsFlight ch, sf') \<Longrightarrow> flight_reach L (insert ch F) sf'"
| flight_reach_drop: "flight_reach L F sf \<Longrightarrow> key \<in> set L \<Longrightarrow> flight_reach (remove1 key L) F (flight_drop key outcome sf)"
| flight_reach_resume: "flight_reach L F sf \<Longrightarrow> flight_wait ch sf = Some outcome \<Longrightarrow> flight_reach L (F - {ch}) sf"

text \<open>A key has one leader, and a follower waits for a live leader or can resume.\<close>

lemma flight_reach_inv:
  assumes "flight_reach L F sf"
  shows "distinct L \<and> set L = dom (sf_entries sf) \<and> (\<forall>ch\<in>F. ch \<in> ran (sf_entries sf) \<or> flight_wait ch sf \<noteq> None)"
  using assms
proof induction
  case (flight_reach_lead L F sf key sf')
  then have "sf_entries sf key = None" "sf' = sf\<lparr>sf_entries := (sf_entries sf)(key \<mapsto> sf_next sf), sf_next := Suc (sf_next sf)\<rparr>"
    by (auto simp: flight_begin_def split: option.splits)
  moreover from this(1) have "ran ((sf_entries sf)(key \<mapsto> sf_next sf)) = insert (sf_next sf) (ran (sf_entries sf))" by simp
  ultimately show ?case using flight_reach_lead.IH by (auto simp: flight_wait_def simp del: fun_upd_apply)
next
  case (flight_reach_drop L F sf key outcome)
  then obtain ch where ch: "sf_entries sf key = Some ch" by auto
  have "c \<in> ran ((sf_entries sf)(key := None)) \<or> c = ch" if "c \<in> ran (sf_entries sf)" for c
    using that ch by (simp add: ran_def) (metis option.inject)
  then have "\<forall>c\<in>F. c \<in> ran ((sf_entries sf)(key := None)) \<or> flight_wait c (flight_drop key outcome sf) \<noteq> None"
    using flight_reach_drop.IH ch by (fastforce simp: flight_drop_def flight_wait_def)
  moreover have "set (remove1 key L) = dom ((sf_entries sf)(key := None))"
    using flight_reach_drop.IH by simp
  moreover have "sf_entries (flight_drop key outcome sf) = (sf_entries sf)(key := None)"
    using ch by (auto simp: flight_drop_def)
  ultimately show ?case using flight_reach_drop.IH by (metis distinct_remove1)
qed (auto simp: single_flight_default_def flight_begin_def flight_wait_def ran_def split: option.splits if_splits)

section \<open>The index caches\<close>

record ishikari_leaf_key =
  ik_tileset :: tileset_id
  ik_offset :: u64
  ik_length :: nat

record 'm archive_cache =
  ac_archives :: "tileset_id \<Rightarrow> ('m archive_bootstrap \<times> bytes) option"
  ac_leafs :: "ishikari_leaf_key \<Rightarrow> directory option"
  ac_absent :: "tileset_id set"

definition archive_cache_get :: "'m archive_cache \<Rightarrow> tileset_id \<Rightarrow> 'm archive_bootstrap option" where
  "archive_cache_get c t = map_option fst (ac_archives c t)"

definition get_bootstrap_bytes :: "'m archive_cache \<Rightarrow> tileset_id \<Rightarrow> bytes option" where
  "get_bootstrap_bytes c t = map_option snd (ac_archives c t)"

definition archive_cache_put :: "tileset_id \<Rightarrow> 'm archive_bootstrap \<Rightarrow> bytes \<Rightarrow> 'm archive_cache \<Rightarrow> 'm archive_cache" where
  "archive_cache_put t b bs c =
     (let md = (case (bs_metadata b, ac_archives c t) of
                  (None, Some (existing, _)) \<Rightarrow> bs_metadata existing
                | (m, _) \<Rightarrow> m)
      in c\<lparr>ac_absent := ac_absent c - {t}, ac_archives := (ac_archives c)(t \<mapsto> (b\<lparr>bs_metadata := md\<rparr>, bs))\<rparr>)"

definition is_known_absent :: "'m archive_cache \<Rightarrow> tileset_id \<Rightarrow> bool" where
  "is_known_absent c t \<longleftrightarrow> t \<in> ac_absent c"

definition mark_absent :: "tileset_id \<Rightarrow> 'm archive_cache \<Rightarrow> 'm archive_cache" where
  "mark_absent t c = c\<lparr>ac_absent := insert t (ac_absent c)\<rparr>"

definition put_metadata :: "tileset_id \<Rightarrow> 'm \<Rightarrow> 'm archive_cache \<Rightarrow> 'm archive_cache" where
  "put_metadata t md c =
     (case ac_archives c t of
        Some (b, bs) \<Rightarrow> c\<lparr>ac_archives := (ac_archives c)(t \<mapsto> (b\<lparr>bs_metadata := Some md\<rparr>, bs))\<rparr>
      | None \<Rightarrow> c)"

definition cache_get_leaf :: "'m archive_cache \<Rightarrow> ishikari_leaf_key \<Rightarrow> directory option" where
  "cache_get_leaf c key = ac_leafs c key"

definition cache_put_leaf :: "ishikari_leaf_key \<Rightarrow> directory \<Rightarrow> 'm archive_cache \<Rightarrow> 'm archive_cache" where
  "cache_put_leaf key d c = c\<lparr>ac_leafs := (ac_leafs c)(key \<mapsto> d)\<rparr>"

section \<open>Errors\<close>

text \<open>A reader error keeps a storage failure typed under its context; \<open>StillWaiting\<close> is the fuel's end.\<close>

datatype ishikari_error =
    FailedRead storage_error
  | FailedDecode archive_fault
  | FailedTileId format_error
  | FailedElsewhere
  | StillWaiting

text \<open>\<open>ReaderFlightError::capture\<close> and \<open>into_error\<close>.\<close>

definition flight_error_capture :: "ishikari_error \<Rightarrow> storage_error option" where
  "flight_error_capture e = (case e of FailedRead s \<Rightarrow> Some s | _ \<Rightarrow> None)"

definition flight_error_into :: "storage_error option \<Rightarrow> ishikari_error" where
  "flight_error_into e = (case e of Some s \<Rightarrow> FailedRead s | None \<Rightarrow> FailedElsewhere)"

datatype distributed_reader_error = ArchiveAbsent | OtherError ishikari_error

section \<open>Leaf ranges\<close>

definition validated_leaf_range :: "u64 \<Rightarrow> u64 \<Rightarrow> u64 \<Rightarrow> u64 \<Rightarrow> nat \<Rightarrow> bool" where
  "validated_leaf_range leaf_offset leaf_length alen off len \<longleftrightarrow>
     (if u64_max < len then False
      else case checked_add off (of_nat len) of
        None \<Rightarrow> False
      | Some fin \<Rightarrow>
          (case checked_add leaf_offset leaf_length of
             None \<Rightarrow> False
           | Some leaf_end \<Rightarrow>
               \<not> (len = 0 \<or> rl_max_range_bytes reader_limits_default < len \<or> off < leaf_offset
                  \<or> leaf_end < fin \<or> alen \<le> off \<or> alen < fin)))"

definition leaf_range_from_archive :: "'m archive_bootstrap \<Rightarrow> u64 \<Rightarrow> nat \<Rightarrow> bool" where
  "leaf_range_from_archive b off len =
     validated_leaf_range (hd_leaf_offset (bs_header b)) (hd_leaf_length (bs_header b)) (bs_archive_len b) off len"

section \<open>The reader and its world\<close>

text \<open>A world holds the caches and everything else that answers. Every operation of the environment
  may have changed the caches in the meantime.\<close>

record ('x, 'm) reader_world =
  wd_cache :: "'m archive_cache"
  wd_rest :: 'x

type_synonym ('x, 'm, 'a) reads = "('x, 'm) reader_world \<Rightarrow> 'a \<times> ('x, 'm) reader_world"

text \<open>The role a task gets from \<open>begin\<close>; a follower's is what its wait returned.\<close>

datatype joined = Leads | Followed "storage_error option option"

record ('x, 'm) reader_env =
  re_read_range :: "tileset_id \<Rightarrow> u64 \<Rightarrow> nat \<Rightarrow> u64 option \<Rightarrow> ('x, 'm, storage_error + bytes) reads"
  re_fetch_bootstrap :: "tileset_id \<Rightarrow> bool \<Rightarrow> ('x, 'm, unit + (bytes \<times> bytes option) option) reads"
  re_fetch_leaf :: "tileset_id \<Rightarrow> u64 \<Rightarrow> nat \<Rightarrow> ('x, 'm, unit + bytes option) reads"
  re_begin_bootstrap :: "tileset_id \<Rightarrow> ('x, 'm, joined) reads"
  re_begin_metadata :: "tileset_id \<Rightarrow> ('x, 'm, joined) reads"
  re_begin_leaf :: "ishikari_leaf_key \<Rightarrow> ('x, 'm, joined) reads"
  re_end_flight :: "storage_error option option \<Rightarrow> ('x, 'm, unit) reads"
  re_decoders :: decoders
  re_json :: "bytes \<Rightarrow> string + 'm"
  re_default_metadata :: 'm

abbreviation update_cache :: "('m archive_cache \<Rightarrow> 'm archive_cache) \<Rightarrow> ('x, 'm) reader_world \<Rightarrow> ('x, 'm) reader_world" where
  "update_cache f w \<equiv> w\<lparr>wd_cache := f (wd_cache w)\<rparr>"

text \<open>\<open>complete_reader_flight\<close>: the guard is dropped, with the captured error if there is one.\<close>

definition complete_reader_flight ::
  "('x, 'm) reader_env \<Rightarrow> ishikari_error + 'a \<Rightarrow> ('x, 'm, ishikari_error + 'a) reads" where
  "complete_reader_flight E r w =
     (r, snd (re_end_flight E (case r of Inl e \<Rightarrow> Some (flight_error_capture e) | Inr _ \<Rightarrow> None) w))"

text \<open>The loops around a flight: a cached answer, or a turn as leader, or a wait.\<close>

fun flight_loop ::
  "nat \<Rightarrow> ('x, 'm) reader_env \<Rightarrow> (('x, 'm) reader_world \<Rightarrow> 'a option) \<Rightarrow> ('x, 'm, joined) reads
     \<Rightarrow> ('x, 'm, ishikari_error + 'a) reads \<Rightarrow> ('x, 'm, ishikari_error + 'a) reads" where
  "flight_loop 0 E cached begin_op lead w = (Inl StillWaiting, w)"
| "flight_loop (Suc n) E cached begin_op lead w =
     (case cached w of
        Some a \<Rightarrow> (Inr a, w)
      | None \<Rightarrow>
          (case begin_op w of
             (Leads, w) \<Rightarrow> (case lead w of (r, w) \<Rightarrow> complete_reader_flight E r w)
           | (Followed (Some e), w) \<Rightarrow> (Inl (flight_error_into e), w)
           | (Followed None, w) \<Rightarrow> flight_loop n E cached begin_op lead w))"

section \<open>Bootstraps\<close>

definition cached_bootstrap :: "tileset_id \<Rightarrow> ('x, 'm) reader_world \<Rightarrow> 'm archive_bootstrap option option" where
  "cached_bootstrap t w =
     (case archive_cache_get (wd_cache w) t of
        Some b \<Rightarrow> Some (Some b)
      | None \<Rightarrow> if is_known_absent (wd_cache w) t then Some None else None)"

definition load_bootstrap_local_uncached ::
  "('x, 'm) reader_env \<Rightarrow> tileset_id \<Rightarrow> ('x, 'm, ishikari_error + 'm archive_bootstrap option) reads" where
  "load_bootstrap_local_uncached E t w =
     (case re_read_range E t 0 min_bootstrap_bytes None w of
        (Inl SNotFound, w) \<Rightarrow> (Inr None, update_cache (mark_absent t) w)
      | (Inl e, w) \<Rightarrow> (Inl (FailedRead e), w)
      | (Inr bs, w) \<Rightarrow>
          (case decode_bootstrap_bytes (re_decoders E) bs default_max_decompressed_bytes of
             Inl e \<Rightarrow> (Inl (FailedDecode e), w)
           | Inr b \<Rightarrow> (Inr (Some b), update_cache (archive_cache_put t b bs) w)))"

definition load_bootstrap_uncached ::
  "('x, 'm) reader_env \<Rightarrow> tileset_id \<Rightarrow> bool \<Rightarrow> ('x, 'm, ishikari_error + 'm archive_bootstrap option) reads" where
  "load_bootstrap_uncached E t include_metadata w =
     (case re_fetch_bootstrap E t include_metadata w of
        (Inr (Some (bs, md_bytes)), w) \<Rightarrow>
          (case decode_bootstrap_bytes (re_decoders E) bs default_max_decompressed_bytes of
             Inl e \<Rightarrow> (Inl (FailedDecode e), w)
           | Inr b \<Rightarrow>
               (case (case md_bytes of
                        None \<Rightarrow> Inr b
                      | Some mb \<Rightarrow>
                          (case decode_metadata_bytes (re_decoders E) (re_json E) (bs_header b) mb default_max_decompressed_bytes of
                             Inl e \<Rightarrow> Inl e
                           | Inr md \<Rightarrow> Inr (b\<lparr>bs_metadata := Some md\<rparr>))) of
                  Inl e \<Rightarrow> (Inl (FailedDecode e), w)
                | Inr b \<Rightarrow> (Inr (Some b), update_cache (archive_cache_put t b bs) w)))
      | (_, w) \<Rightarrow> load_bootstrap_local_uncached E t w)"

definition load_bootstrap_with_metadata ::
  "nat \<Rightarrow> ('x, 'm) reader_env \<Rightarrow> tileset_id \<Rightarrow> bool \<Rightarrow> ('x, 'm, ishikari_error + 'm archive_bootstrap option) reads" where
  "load_bootstrap_with_metadata n E t include_metadata =
     flight_loop n E (cached_bootstrap t) (re_begin_bootstrap E t) (load_bootstrap_uncached E t include_metadata)"

definition load_bootstrap_local ::
  "nat \<Rightarrow> ('x, 'm) reader_env \<Rightarrow> tileset_id \<Rightarrow> ('x, 'm, ishikari_error + 'm archive_bootstrap option) reads" where
  "load_bootstrap_local n E t =
     flight_loop n E (cached_bootstrap t) (re_begin_bootstrap E t) (load_bootstrap_local_uncached E t)"

section \<open>Metadata\<close>

definition load_metadata_from_backend ::
  "('x, 'm) reader_env \<Rightarrow> tileset_id \<Rightarrow> 'm archive_bootstrap \<Rightarrow> ('x, 'm, ishikari_error + 'm) reads" where
  "load_metadata_from_backend E t b w =
     (if hd_metadata_length (bs_header b) = 0 then (Inr (re_default_metadata E), w)
      else case re_read_range E t (hd_metadata_offset (bs_header b)) (unat (hd_metadata_length (bs_header b)))
                  (Some (bs_archive_len b)) w of
        (Inl e, w) \<Rightarrow> (Inl (FailedRead e), w)
      | (Inr bs, w) \<Rightarrow>
          (case decode_metadata_bytes (re_decoders E) (re_json E) (bs_header b) bs default_max_decompressed_bytes of
             Inl e \<Rightarrow> (Inl (FailedDecode e), w)
           | Inr md \<Rightarrow> (Inr md, w)))"

definition load_metadata_uncached ::
  "nat \<Rightarrow> ('x, 'm) reader_env \<Rightarrow> tileset_id \<Rightarrow> ('x, 'm, ishikari_error + 'm option) reads" where
  "load_metadata_uncached n E t w =
     (case load_bootstrap_with_metadata n E t True w of
        (Inl e, w) \<Rightarrow> (Inl e, w)
      | (Inr None, w) \<Rightarrow> (Inr None, w)
      | (Inr (Some b), w) \<Rightarrow>
          (case bs_metadata b of
             Some md \<Rightarrow> (Inr (Some md), w)
           | None \<Rightarrow>
               (case load_metadata_from_backend E t b w of
                  (Inl e, w) \<Rightarrow> (Inl e, w)
                | (Inr md, w) \<Rightarrow> (Inr (Some md), update_cache (put_metadata t md) w))))"

definition cached_metadata :: "tileset_id \<Rightarrow> ('x, 'm) reader_world \<Rightarrow> 'm option option" where
  "cached_metadata t w =
     (case archive_cache_get (wd_cache w) t of
        Some b \<Rightarrow> (case bs_metadata b of Some md \<Rightarrow> Some (Some md)
                   | None \<Rightarrow> if is_known_absent (wd_cache w) t then Some None else None)
      | None \<Rightarrow> if is_known_absent (wd_cache w) t then Some None else None)"

definition ishikari_load_metadata ::
  "nat \<Rightarrow> ('x, 'm) reader_env \<Rightarrow> tileset_id \<Rightarrow> ('x, 'm, ishikari_error + 'm option) reads" where
  "ishikari_load_metadata n E t =
     flight_loop n E (cached_metadata t) (re_begin_metadata E t) (load_metadata_uncached n E t)"

section \<open>Leaf directories\<close>

definition read_directory_from_backend ::
  "('x, 'm) reader_env \<Rightarrow> tileset_id \<Rightarrow> u64 \<Rightarrow> nat \<Rightarrow> compression \<Rightarrow> u64 \<Rightarrow> ('x, 'm, ishikari_error + directory) reads" where
  "read_directory_from_backend E t off len c alen w =
     (case re_read_range E t off len (Some alen) w of
        (Inl e, w) \<Rightarrow> (Inl (FailedRead e), w)
      | (Inr bs, w) \<Rightarrow>
          (case directory_parse (re_decoders E) c bs of Inl e \<Rightarrow> (Inl (FailedDecode (Malformed e)), w) | Inr d \<Rightarrow> (Inr d, w)))"

definition load_leaf_directory_uncached ::
  "('x, 'm) reader_env \<Rightarrow> tileset_id \<Rightarrow> u64 \<Rightarrow> nat \<Rightarrow> compression \<Rightarrow> u64 \<Rightarrow> ('x, 'm, ishikari_error + directory) reads" where
  "load_leaf_directory_uncached E t off len c alen w =
     (let key = \<lparr>ik_tileset = t, ik_offset = off, ik_length = len\<rparr>
      in case re_fetch_leaf E t off len w of
           (Inr (Some body), w) \<Rightarrow>
             (case directory_parse (re_decoders E) c body of
                Inl e \<Rightarrow> (Inl (FailedDecode (Malformed e)), w)
              | Inr d \<Rightarrow> (Inr d, update_cache (cache_put_leaf key d) w))
         | (_, w) \<Rightarrow>
             (case read_directory_from_backend E t off len c alen w of
                (Inl e, w) \<Rightarrow> (Inl e, w)
              | (Inr d, w) \<Rightarrow> (Inr d, update_cache (cache_put_leaf key d) w)))"

definition load_leaf_directory ::
  "nat \<Rightarrow> ('x, 'm) reader_env \<Rightarrow> tileset_id \<Rightarrow> u64 \<Rightarrow> nat \<Rightarrow> compression \<Rightarrow> u64 \<Rightarrow> ('x, 'm, ishikari_error + directory) reads" where
  "load_leaf_directory n E t off len c alen =
     (let key = \<lparr>ik_tileset = t, ik_offset = off, ik_length = len\<rparr>
      in flight_loop n E (\<lambda>w. cache_get_leaf (wd_cache w) key) (re_begin_leaf E key)
           (load_leaf_directory_uncached E t off len c alen))"

section \<open>Serving peers\<close>

definition load_bootstrap_bytes_local ::
  "nat \<Rightarrow> ('x, 'm) reader_env \<Rightarrow> tileset_id \<Rightarrow> bool \<Rightarrow> ('x, 'm, ishikari_error + (bytes \<times> bytes option) option) reads" where
  "load_bootstrap_bytes_local n E t include_metadata w =
     (case load_bootstrap_local n E t w of
        (Inl e, w) \<Rightarrow> (Inl e, w)
      | (Inr None, w) \<Rightarrow> (Inr None, w)
      | (Inr (Some b), w) \<Rightarrow>
          (case (case get_bootstrap_bytes (wd_cache w) t of
                   Some bs \<Rightarrow> (Inr bs, w)
                 | None \<Rightarrow> re_read_range E t 0 (min (unat (bs_archive_len b)) min_bootstrap_bytes) (Some (bs_archive_len b)) w) of
             (Inl e, w) \<Rightarrow> (Inl (FailedRead e), w)
           | (Inr bs, w) \<Rightarrow>
               if include_metadata \<and> 0 < hd_metadata_length (bs_header b) then
                 (case re_read_range E t (hd_metadata_offset (bs_header b)) (unat (hd_metadata_length (bs_header b)))
                         (Some (bs_archive_len b)) w of
                    (Inl e, w) \<Rightarrow> (Inl (FailedRead e), w)
                  | (Inr md, w) \<Rightarrow> (Inr (Some (bs, Some md)), w))
               else (Inr (Some (bs, None)), w)))"

datatype local_leaf_error = InvalidLeafRange | LeafReader ishikari_error

definition load_leaf_bytes_local ::
  "nat \<Rightarrow> ('x, 'm) reader_env \<Rightarrow> tileset_id \<Rightarrow> u64 \<Rightarrow> nat \<Rightarrow> ('x, 'm, local_leaf_error + bytes option) reads" where
  "load_leaf_bytes_local n E t off len w =
     (case load_bootstrap_local n E t w of
        (Inl e, w) \<Rightarrow> (Inl (LeafReader e), w)
      | (Inr None, w) \<Rightarrow> (Inr None, w)
      | (Inr (Some b), w) \<Rightarrow>
          if \<not> leaf_range_from_archive b off len then (Inl InvalidLeafRange, w)
          else (case re_read_range E t off len (Some (bs_archive_len b)) w of
                  (Inl e, w) \<Rightarrow> (Inl (LeafReader (FailedRead e)), w)
                | (Inr bs, w) \<Rightarrow> (Inr (Some bs), w)))"

section \<open>The archive backend\<close>

definition present :: "(ishikari_error + 'a option) \<times> 'w \<Rightarrow> (distributed_reader_error + 'a) \<times> 'w" where
  "present r = (case r of (Inl e, w) \<Rightarrow> (Inl (OtherError e), w)
     | (Inr None, w) \<Rightarrow> (Inl ArchiveAbsent, w) | (Inr (Some a), w) \<Rightarrow> (Inr a, w))"

definition distributed_archive_backend ::
  "nat \<Rightarrow> ('x, 'm) reader_env \<Rightarrow> tileset_id \<Rightarrow> (('x, 'm) reader_world, distributed_reader_error, 'm) archive_backend" where
  "distributed_archive_backend n E t =
     \<lparr>be_load_bootstrap = \<lambda>w. present (load_bootstrap_with_metadata n E t False w),
      be_load_metadata = \<lambda>w. present (ishikari_load_metadata n E t w),
      be_load_leaf = \<lambda>rq w. (case load_leaf_directory n E t (lr_offset rq) (unat (lr_length rq)) (lr_compression rq) (lr_archive_len rq) w of
         (Inl e, w) \<Rightarrow> (Inl (OtherError e), w) | (Inr d, w) \<Rightarrow> (Inr d, w)),
      be_read_range = \<lambda>rq w. (case re_read_range E t (rq_offset rq) (rq_length rq) (rq_archive_len rq) w of
         (Inl e, w) \<Rightarrow> (Inl (OtherError (FailedRead e)), w) | (Inr bs, w) \<Rightarrow> (Inr bs, w)),
      be_invalid_tile_id = \<lambda>e. OtherError (FailedTileId e),
      be_invalid_archive = \<lambda>e. OtherError (FailedDecode e)\<rparr>"

definition ishikari_get_tile ::
  "nat \<Rightarrow> ('x, 'm) reader_env \<Rightarrow> tileset_id \<Rightarrow> u64 \<Rightarrow> ('x, 'm, ishikari_error + tile_data option) reads" where
  "ishikari_get_tile n E t tile_id w =
     (case get_tile (distributed_archive_backend n E t) reader_limits_default tile_id w of
        (Inr td, w) \<Rightarrow> (Inr td, w)
      | (Inl ArchiveAbsent, w) \<Rightarrow> (Inr None, w)
      | (Inl (OtherError e), w) \<Rightarrow> (Inl e, w))"

definition ishikari_header ::
  "nat \<Rightarrow> ('x, 'm) reader_env \<Rightarrow> tileset_id \<Rightarrow> ('x, 'm, ishikari_error + header option) reads" where
  "ishikari_header n E t w =
     (case reader_header (distributed_archive_backend n E t) w of
        (Inr h, w) \<Rightarrow> (Inr (Some h), w)
      | (Inl ArchiveAbsent, w) \<Rightarrow> (Inr None, w)
      | (Inl (OtherError e), w) \<Rightarrow> (Inl e, w))"

definition ishikari_metadata ::
  "nat \<Rightarrow> ('x, 'm) reader_env \<Rightarrow> tileset_id \<Rightarrow> ('x, 'm, ishikari_error + 'm option) reads" where
  "ishikari_metadata n E t w =
     (case reader_metadata (distributed_archive_backend n E t) w of
        (Inr md, w) \<Rightarrow> (Inr (Some md), w)
      | (Inl ArchiveAbsent, w) \<Rightarrow> (Inr None, w)
      | (Inl (OtherError e), w) \<Rightarrow> (Inl e, w))"

section \<open>What the caches and the environment may say of an archive\<close>

text \<open>An operation keeps an invariant of the world and gives, when it succeeds, only good answers.\<close>

definition serves :: "('w \<Rightarrow> bool) \<Rightarrow> ('a \<Rightarrow> bool) \<Rightarrow> ('w \<Rightarrow> ('e + 'a) \<times> 'w) \<Rightarrow> bool" where
  "serves I P op \<longleftrightarrow> (\<forall>w r w'. I w \<and> op w = (r, w') \<longrightarrow> I w' \<and> (\<forall>a. r = Inr a \<longrightarrow> P a))"

definition keeps :: "('w \<Rightarrow> bool) \<Rightarrow> ('w \<Rightarrow> 'a \<times> 'w) \<Rightarrow> bool" where
  "keeps I op \<longleftrightarrow> (\<forall>w r w'. I w \<and> op w = (r, w') \<longrightarrow> I w')"

lemma servesI: "(\<And>w r w'. I w \<Longrightarrow> op w = (r, w') \<Longrightarrow> I w' \<and> (\<forall>a. r = Inr a \<longrightarrow> P a)) \<Longrightarrow> serves I P op"
  unfolding serves_def by blast

lemma servesD: "serves I P op \<Longrightarrow> I w \<Longrightarrow> op w = (r, w') \<Longrightarrow> I w' \<and> (\<forall>a. r = Inr a \<longrightarrow> P a)"
  unfolding serves_def by blast

lemma keepsD: "keeps I op \<Longrightarrow> I w \<Longrightarrow> op w = (r, w') \<Longrightarrow> I w'"
  unfolding keeps_def by blast

lemma flight_loop_serves:
  assumes cached: "\<And>w a. I w \<Longrightarrow> cached w = Some a \<Longrightarrow> P a" and b: "keeps I begin_op"
    and lead: "serves I P lead" and e: "\<And>oc. keeps I (re_end_flight E oc)"
  shows "serves I P (flight_loop n E cached begin_op lead)"
proof (induction n)
  case 0
  show ?case by (rule servesI) auto
next
  case (Suc n)
  show ?case
  proof (rule servesI)
    fix w r w' assume w: "I w" and op: "flight_loop (Suc n) E cached begin_op lead w = (r, w')"
    show "I w' \<and> (\<forall>a. r = Inr a \<longrightarrow> P a)"
    proof (cases "cached w")
      case (Some a)
      with w op cached show ?thesis by auto
    next
      case None
      obtain j w1 where j: "begin_op w = (j, w1)" by fastforce
      from keepsD [OF b w j] have w1: "I w1" .
      consider (leads) r2 w2 where "j = Leads" "lead w1 = (r2, w2)" "complete_reader_flight E r2 w2 = (r, w')"
        | (err) "w' = w1" "\<forall>a. r \<noteq> Inr a" | (again) "flight_loop n E cached begin_op lead w1 = (r, w')"
        using op None j by (auto split: joined.splits option.splits prod.splits)
      then show ?thesis
      proof cases
        case leads
        from servesD [OF lead w1 leads(2)] keepsD [OF e] leads(3) show ?thesis
          by (metis complete_reader_flight_def prod.inject surjective_pairing)
      next
        case again
        from servesD [OF Suc.IH w1 again] show ?thesis .
      qed (use w1 in simp)
    qed
  qed
qed

text \<open>The leaf directory at a range of the archive.\<close>

definition leaf_at :: "decoders \<Rightarrow> bytes \<Rightarrow> u64 \<Rightarrow> nat \<Rightarrow> directory \<Rightarrow> bool" where
  "leaf_at dec A off len d \<longleftrightarrow>
     (\<exists>h. header_parse (take header_size A) = Inr h \<and> slice_inside A off len
        \<and> directory_parse dec (hd_internal_compression h) (archive_slice A off len) = Inr d)"

lemma leaf_at_leaf_of: "leaf_at dec A off (unat len) d \<longleftrightarrow> leaf_of dec default_max_decompressed_bytes A off len d"
  by (simp add: leaf_at_def leaf_of_def directory_parse_def max_decompressed_bytes_def default_max_decompressed_bytes_def)

definition ishikari_metadata_of :: "('x, 'm) reader_env \<Rightarrow> bytes \<Rightarrow> 'm \<Rightarrow> bool" where
  "ishikari_metadata_of E A md \<longleftrightarrow>
     (\<exists>h. header_parse (take header_size A) = Inr h
        \<and> (md = re_default_metadata E \<and> hd_metadata_length h = 0
           \<or> slice_inside A (hd_metadata_offset h) (unat (hd_metadata_length h))
             \<and> decode_metadata_bytes (re_decoders E) (re_json E) h
                 (archive_slice A (hd_metadata_offset h) (unat (hd_metadata_length h))) default_max_decompressed_bytes = Inr md))"

text \<open>The archive at bootstrap time: its header and root, with metadata that is the archive's if any.\<close>

definition bootstrap_entry :: "('x, 'm) reader_env \<Rightarrow> bytes \<Rightarrow> 'm archive_bootstrap \<Rightarrow> bool" where
  "bootstrap_entry E A b \<longleftrightarrow>
     bootstrap_of (re_decoders E) default_max_decompressed_bytes A b
   \<and> (\<forall>md. bs_metadata b = Some md \<longrightarrow> ishikari_metadata_of E A md)"

text \<open>The caches are coherent with the archive of a tileset, and do not claim its absence. What else the
  world holds, which the reader does not touch, may have an invariant of its own.\<close>

definition world_ok :: "('x \<Rightarrow> bool) \<Rightarrow> ('x, 'm) reader_env \<Rightarrow> bytes \<Rightarrow> tileset_id \<Rightarrow> ('x, 'm) reader_world \<Rightarrow> bool" where
  "world_ok R E A t w \<longleftrightarrow>
     R (wd_rest w) \<and> t \<notin> ac_absent (wd_cache w)
   \<and> (\<forall>b bs. ac_archives (wd_cache w) t = Some (b, bs) \<longrightarrow> bootstrap_entry E A b \<and> bs = take (length bs) A)
   \<and> (\<forall>k d. ac_leafs (wd_cache w) k = Some d \<and> ik_tileset k = t \<longrightarrow> leaf_at (re_decoders E) A (ik_offset k) (ik_length k) d)"

text \<open>Bytes that storage returns: those at the offset, and all that were asked for once the length of
  the archive is known.\<close>

definition read_ok :: "bytes \<Rightarrow> u64 \<Rightarrow> nat \<Rightarrow> u64 option \<Rightarrow> bytes \<Rightarrow> bool" where
  "read_ok A off len alen bs \<longleftrightarrow>
     bs = take (length bs) (drop (unat off) A) \<and> (alen \<noteq> None \<longrightarrow> length bs = len)"

text \<open>What a peer transfers.\<close>

definition transfer_ok :: "bytes \<Rightarrow> (bytes \<times> bytes option) option \<Rightarrow> bool" where
  "transfer_ok A tr \<longleftrightarrow>
     (\<forall>bs mb. tr = Some (bs, mb) \<longrightarrow> bs = take (length bs) A
        \<and> (\<forall>m h. mb = Some m \<and> header_parse (take header_size A) = Inr h \<longrightarrow>
             slice_inside A (hd_metadata_offset h) (unat (hd_metadata_length h))
           \<and> m = archive_slice A (hd_metadata_offset h) (unat (hd_metadata_length h))))"

definition leaf_transfer_ok :: "bytes \<Rightarrow> u64 \<Rightarrow> nat \<Rightarrow> bytes option \<Rightarrow> bool" where
  "leaf_transfer_ok A off len tr \<longleftrightarrow> (\<forall>bs. tr = Some bs \<longrightarrow> slice_inside A off len \<and> bs = archive_slice A off len)"

text \<open>The environment of a node for an archive that exists.\<close>

definition env_serves :: "('x \<Rightarrow> bool) \<Rightarrow> ('x, 'm) reader_env \<Rightarrow> bytes \<Rightarrow> tileset_id \<Rightarrow> bool" where
  "env_serves R E A t \<longleftrightarrow>
     (\<forall>off len alen. serves (world_ok R E A t) (read_ok A off len alen) (re_read_range E t off len alen))
   \<and> (\<forall>off len alen w. fst (re_read_range E t off len alen w) \<noteq> Inl SNotFound)
   \<and> (\<forall>md. serves (world_ok R E A t) (transfer_ok A) (re_fetch_bootstrap E t md))
   \<and> (\<forall>off len. serves (world_ok R E A t) (leaf_transfer_ok A off len) (re_fetch_leaf E t off len))
   \<and> keeps (world_ok R E A t) (re_begin_bootstrap E t) \<and> keeps (world_ok R E A t) (re_begin_metadata E t)
   \<and> (\<forall>k. keeps (world_ok R E A t) (re_begin_leaf E k)) \<and> (\<forall>oc. keeps (world_ok R E A t) (re_end_flight E oc))"

section \<open>The loads serve the archive\<close>

abbreviation loaded :: "('x, 'm) reader_env \<Rightarrow> bytes \<Rightarrow> 'm archive_bootstrap option \<Rightarrow> bool" where
  "loaded E A r \<equiv> (\<exists>b. r = Some b \<and> bootstrap_entry E A b)"

lemma read_ok_slice: "read_ok A off len (Some alen) bs \<Longrightarrow> slice_inside A off len \<and> bs = archive_slice A off len"
proof -
  assume r: "read_ok A off len (Some alen) bs"
  then have bs: "bs = take len (drop (unat off) A)" and len: "length bs = len" by (auto simp: read_ok_def)
  then have "len \<le> length A - unat off" by (metis length_drop length_take min.cobounded1)
  with bs show ?thesis by (simp add: slice_inside_def archive_slice_def)
qed

lemma decoded_bootstrap_entry:
  assumes "bs = take (length bs) A" and "decode_bootstrap_bytes (re_decoders E) bs default_max_decompressed_bytes = Inr b"
  shows "bootstrap_entry E A b" and "bs_metadata b = None"
  using decode_bootstrap_prefix [of "re_decoders E" "length bs" A default_max_decompressed_bytes b] assms
  by (auto simp: bootstrap_entry_def)

lemma put_world_ok:
  assumes "world_ok R E A t w" and "bootstrap_entry E A b" and "bs = take (length bs) A"
  shows "world_ok R E A t (update_cache (archive_cache_put t b bs) w)"
  using assms
  by (auto simp: world_ok_def archive_cache_put_def Let_def bootstrap_entry_def bootstrap_of_def split: option.splits)

lemma put_leaf_world_ok:
  "world_ok R E A t w \<Longrightarrow> leaf_at (re_decoders E) A off len d \<Longrightarrow>
     world_ok R E A t (update_cache (cache_put_leaf \<lparr>ik_tileset = t, ik_offset = off, ik_length = len\<rparr> d) w)"
  by (auto simp: world_ok_def cache_put_leaf_def)

lemma put_metadata_world_ok:
  "world_ok R E A t w \<Longrightarrow> ishikari_metadata_of E A md \<Longrightarrow> world_ok R E A t (update_cache (put_metadata t md) w)"
  by (auto simp: world_ok_def put_metadata_def bootstrap_entry_def bootstrap_of_def split: option.splits)

lemma env_read:
  assumes "env_serves R E A t" and "world_ok R E A t w" and "re_read_range E t off len alen w = (r, w')"
  shows "world_ok R E A t w'" and "r \<noteq> Inl SNotFound" and "r = Inr bs \<Longrightarrow> read_ok A off len alen bs"
proof -
  from assms(1) have s: "serves (world_ok R E A t) (read_ok A off len alen) (re_read_range E t off len alen)"
    and "fst (re_read_range E t off len alen w) \<noteq> Inl SNotFound" by (auto simp: env_serves_def)
  with assms(3) show "r \<noteq> Inl SNotFound" by simp
  from servesD [OF s assms(2,3)] show "world_ok R E A t w'" "r = Inr bs \<Longrightarrow> read_ok A off len alen bs" by auto
qed

lemma load_bootstrap_local_uncached_serves:
  assumes E: "env_serves R E A t"
  shows "serves (world_ok R E A t) (loaded E A) (load_bootstrap_local_uncached E t)"
proof (rule servesI)
  fix w r w' assume w: "world_ok R E A t w" and op: "load_bootstrap_local_uncached E t w = (r, w')"
  obtain r1 w1 where read: "re_read_range E t 0 min_bootstrap_bytes None w = (r1, w1)" by fastforce
  note e = env_read [OF E w read]
  consider (err) "w' = w1" "\<forall>a. r \<noteq> Inr a"
    | (ok) bs b where "r1 = Inr bs" "decode_bootstrap_bytes (re_decoders E) bs default_max_decompressed_bytes = Inr b"
        "r = Inr (Some b)" "w' = update_cache (archive_cache_put t b bs) w1"
    using op read e(2) by (auto simp: load_bootstrap_local_uncached_def split: sum.splits storage_error.splits)
  then show "world_ok R E A t w' \<and> (\<forall>a. r = Inr a \<longrightarrow> loaded E A a)"
  proof cases
    case ok
    have bs: "bs = take (length bs) A" using e(3) [OF ok(1)] by (simp add: read_ok_def)
    from decoded_bootstrap_entry(1) [OF bs ok(2)] put_world_ok [OF e(1) _ bs] ok(3,4) show ?thesis by auto
  qed (use e(1) in simp)
qed

lemma load_bootstrap_uncached_serves:
  assumes E: "env_serves R E A t"
  shows "serves (world_ok R E A t) (loaded E A) (load_bootstrap_uncached E t im)"
proof (rule servesI)
  fix w r w' assume w: "world_ok R E A t w" and op: "load_bootstrap_uncached E t im w = (r, w')"
  obtain r1 w1 where fetch: "re_fetch_bootstrap E t im w = (r1, w1)" by fastforce
  have "serves (world_ok R E A t) (transfer_ok A) (re_fetch_bootstrap E t im)" using E by (auto simp: env_serves_def)
  from servesD [OF this w fetch] have w1: "world_ok R E A t w1" and tr: "\<And>x. r1 = Inr x \<Longrightarrow> transfer_ok A x" by auto
  show "world_ok R E A t w' \<and> (\<forall>a. r = Inr a \<longrightarrow> loaded E A a)"
  proof (cases "\<exists>bs mb. r1 = Inr (Some (bs, mb))")
    case False
    then have "load_bootstrap_local_uncached E t w1 = (r, w')"
      using op fetch by (auto simp: load_bootstrap_uncached_def split: sum.splits option.splits prod.splits)
    from servesD [OF load_bootstrap_local_uncached_serves [OF E] w1 this] show ?thesis .
  next
    case True
    then obtain bs mb where r1: "r1 = Inr (Some (bs, mb))" by blast
    from tr [OF r1] have bs: "bs = take (length bs) A"
      and mb: "\<And>m h. mb = Some m \<Longrightarrow> header_parse (take header_size A) = Inr h \<Longrightarrow>
        slice_inside A (hd_metadata_offset h) (unat (hd_metadata_length h))
        \<and> m = archive_slice A (hd_metadata_offset h) (unat (hd_metadata_length h))" by (auto simp: transfer_ok_def)
    show ?thesis
    proof (cases "decode_bootstrap_bytes (re_decoders E) bs default_max_decompressed_bytes :: archive_fault + 'b archive_bootstrap")
      case (Inl e)
      with op fetch r1 w1 show ?thesis by (auto simp: load_bootstrap_uncached_def)
    next
      case (Inr b)
      note b = decoded_bootstrap_entry [OF bs Inr]
      then have h: "header_parse (take header_size A) = Inr (bs_header b)"
        by (simp add: bootstrap_entry_def bootstrap_of_def archive_root_def)
      have put: "world_ok R E A t (update_cache (archive_cache_put t b' bs) w1)" if "bootstrap_entry E A b'" for b'
        by (rule put_world_ok [OF w1 that bs])
      show ?thesis
      proof (cases mb)
        case None
        with op fetch r1 Inr put b(1) show ?thesis by (auto simp: load_bootstrap_uncached_def)
      next
        case (Some m)
        show ?thesis
        proof (cases "decode_metadata_bytes (re_decoders E) (re_json E) (bs_header b) m default_max_decompressed_bytes")
          case (Inl e)
          with op fetch r1 Inr w1 Some show ?thesis by (auto simp: load_bootstrap_uncached_def)
        next
          case md: (Inr md)
          have "bootstrap_entry E A (b\<lparr>bs_metadata := Some md\<rparr>)"
            using b mb [OF Some h] h md by (auto simp: bootstrap_entry_def bootstrap_of_def ishikari_metadata_of_def)
          with op fetch r1 Inr Some md put show ?thesis by (auto simp: load_bootstrap_uncached_def)
        qed
      qed
    qed
  qed
qed

lemma cached_bootstrap_ok: "world_ok R E A t w \<Longrightarrow> cached_bootstrap t w = Some r \<Longrightarrow> loaded E A r"
  by (auto simp: world_ok_def cached_bootstrap_def archive_cache_get_def is_known_absent_def split: option.splits if_splits)

lemma env_keeps:
  assumes "env_serves R E A t"
  shows "keeps (world_ok R E A t) (re_begin_bootstrap E t)" "keeps (world_ok R E A t) (re_begin_metadata E t)"
    "keeps (world_ok R E A t) (re_begin_leaf E k)" "keeps (world_ok R E A t) (re_end_flight E oc)"
  using assms by (simp_all add: env_serves_def)

lemma load_bootstrap_serves:
  assumes "env_serves R E A t"
  shows "serves (world_ok R E A t) (loaded E A) (load_bootstrap_with_metadata n E t im)"
    and "serves (world_ok R E A t) (loaded E A) (load_bootstrap_local n E t)"
  unfolding load_bootstrap_with_metadata_def load_bootstrap_local_def
  by (rule flight_loop_serves [OF _ env_keeps(1) [OF assms] _ env_keeps(4) [OF assms]],
      erule (1) cached_bootstrap_ok, rule load_bootstrap_uncached_serves [OF assms])
    (rule flight_loop_serves [OF _ env_keeps(1) [OF assms] _ env_keeps(4) [OF assms]],
      erule (1) cached_bootstrap_ok, rule load_bootstrap_local_uncached_serves [OF assms])

lemma load_leaf_directory_serves:
  assumes E: "env_serves R E A t" and h: "header_parse (take header_size A) = Inr h" and c: "c = hd_internal_compression h"
  shows "serves (world_ok R E A t) (leaf_at (re_decoders E) A off len) (load_leaf_directory n E t off len c alen)"
proof -
  let ?key = "\<lparr>ik_tileset = t, ik_offset = off, ik_length = len\<rparr>"
  have "serves (world_ok R E A t) (leaf_at (re_decoders E) A off len) (load_leaf_directory_uncached E t off len c alen)"
  proof (rule servesI)
    fix w r w' assume w: "world_ok R E A t w" and op: "load_leaf_directory_uncached E t off len c alen w = (r, w')"
    obtain r1 w1 where fetch: "re_fetch_leaf E t off len w = (r1, w1)" by fastforce
    have "serves (world_ok R E A t) (leaf_transfer_ok A off len) (re_fetch_leaf E t off len)" using E by (auto simp: env_serves_def)
    from servesD [OF this w fetch] have w1: "world_ok R E A t w1" and tr: "\<And>x. r1 = Inr x \<Longrightarrow> leaf_transfer_ok A off len x" by auto
    obtain r2 w2 where read: "re_read_range E t off len (Some alen) w1 = (r2, w2)" by fastforce
    note e = env_read [OF E w1 read]
    have leaf: "leaf_at (re_decoders E) A off len d"
      if "slice_inside A off len \<and> bs = archive_slice A off len" "directory_parse (re_decoders E) c bs = Inr d" for bs d
      using that h c by (auto simp: leaf_at_def)
    consider (err) "w' = w1 \<or> w' = w2" "\<forall>a. r \<noteq> Inr a"
      | (peer) bs d where "r1 = Inr (Some bs)" "directory_parse (re_decoders E) c bs = Inr d" "r = Inr d"
          "w' = update_cache (cache_put_leaf ?key d) w1"
      | (backend) bs d where "r2 = Inr bs" "directory_parse (re_decoders E) c bs = Inr d" "r = Inr d"
          "w' = update_cache (cache_put_leaf ?key d) w2"
      using op fetch read
      by (auto simp: load_leaf_directory_uncached_def read_directory_from_backend_def Let_def split: sum.splits option.splits)
    then show "world_ok R E A t w' \<and> (\<forall>a. r = Inr a \<longrightarrow> leaf_at (re_decoders E) A off len a)"
    proof cases
      case peer
      from tr [OF peer(1)] have "slice_inside A off len \<and> bs = archive_slice A off len" by (simp add: leaf_transfer_ok_def)
      from leaf [OF this peer(2)] put_leaf_world_ok [OF w1] peer(3,4) show ?thesis by auto
    next
      case backend
      from leaf [OF read_ok_slice [OF e(3) [OF backend(1)]] backend(2)] put_leaf_world_ok [OF e(1)] backend(3,4) show ?thesis by auto
    qed (use w1 e(1) in auto)
  qed
  moreover have "leaf_at (re_decoders E) A off len d" if "world_ok R E A t w" "cache_get_leaf (wd_cache w) ?key = Some d" for w d
    using that by (fastforce simp: world_ok_def cache_get_leaf_def)
  ultimately show ?thesis unfolding load_leaf_directory_def Let_def
    by (intro flight_loop_serves) (auto intro: env_keeps [OF E])
qed

lemma load_metadata_from_backend_serves:
  assumes E: "env_serves R E A t" and b: "bootstrap_entry E A b"
  shows "serves (world_ok R E A t) (ishikari_metadata_of E A) (load_metadata_from_backend E t b)"
proof (rule servesI)
  fix w r w' assume w: "world_ok R E A t w" and op: "load_metadata_from_backend E t b w = (r, w')"
  from b have h: "header_parse (take header_size A) = Inr (bs_header b)"
    by (simp add: bootstrap_entry_def bootstrap_of_def archive_root_def)
  show "world_ok R E A t w' \<and> (\<forall>a. r = Inr a \<longrightarrow> ishikari_metadata_of E A a)"
  proof (cases "hd_metadata_length (bs_header b) = 0")
    case True
    with op w h show ?thesis by (auto simp: load_metadata_from_backend_def ishikari_metadata_of_def)
  next
    case False
    obtain r1 w1 where read: "re_read_range E t (hd_metadata_offset (bs_header b)) (unat (hd_metadata_length (bs_header b)))
        (Some (bs_archive_len b)) w = (r1, w1)" by fastforce
    note e = env_read [OF E w read]
    have "ishikari_metadata_of E A md" if "r1 = Inr bs"
        "decode_metadata_bytes (re_decoders E) (re_json E) (bs_header b) bs default_max_decompressed_bytes = Inr md" for bs md
      using read_ok_slice [OF e(3) [OF that(1)]] that(2) h by (auto simp: ishikari_metadata_of_def)
    with op read False e(1) show ?thesis by (auto simp: load_metadata_from_backend_def split: sum.splits)
  qed
qed

abbreviation metadata_loaded :: "('x, 'm) reader_env \<Rightarrow> bytes \<Rightarrow> 'm option \<Rightarrow> bool" where
  "metadata_loaded E A r \<equiv> (\<exists>md. r = Some md \<and> ishikari_metadata_of E A md)"

lemma load_metadata_uncached_serves:
  assumes E: "env_serves R E A t"
  shows "serves (world_ok R E A t) (metadata_loaded E A) (load_metadata_uncached n E t)"
proof (rule servesI)
  fix w r w' assume w: "world_ok R E A t w" and op: "load_metadata_uncached n E t w = (r, w')"
  obtain r1 w1 where boot: "load_bootstrap_with_metadata n E t True w = (r1, w1)" by fastforce
  from servesD [OF load_bootstrap_serves(1) [OF E] w boot] have w1: "world_ok R E A t w1" and r1: "\<And>x. r1 = Inr x \<Longrightarrow> loaded E A x" by auto
  show "world_ok R E A t w' \<and> (\<forall>a. r = Inr a \<longrightarrow> metadata_loaded E A a)"
  proof (cases r1)
    case (Inl e)
    with op boot w1 show ?thesis by (auto simp: load_metadata_uncached_def)
  next
    case (Inr x)
    from r1 [OF this] obtain b where b: "x = Some b" "bootstrap_entry E A b" by blast
    show ?thesis
    proof (cases "bs_metadata b")
      case (Some md)
      with op boot w1 Inr b show ?thesis by (auto simp: load_metadata_uncached_def bootstrap_entry_def)
    next
      case None
      obtain r2 w2 where l: "load_metadata_from_backend E t b w1 = (r2, w2)" by fastforce
      from servesD [OF load_metadata_from_backend_serves [OF E b(2)] w1 l] op boot Inr b(1) None l put_metadata_world_ok
      show ?thesis by (auto simp: load_metadata_uncached_def split: sum.splits)
    qed
  qed
qed

lemma load_metadata_serves:
  assumes "env_serves R E A t"
  shows "serves (world_ok R E A t) (metadata_loaded E A) (ishikari_load_metadata n E t)"
proof -
  have "metadata_loaded E A r" if "world_ok R E A t w" "cached_metadata t w = Some r" for w r
    using that by (auto simp: world_ok_def cached_metadata_def archive_cache_get_def is_known_absent_def bootstrap_entry_def
        split: option.splits if_splits dest!: sym [of "Some _"])
  then show ?thesis unfolding ishikari_load_metadata_def
    by (intro flight_loop_serves) (auto intro: env_keeps [OF assms] load_metadata_uncached_serves [OF assms])
qed

lemma load_bootstrap_bytes_serves:
  assumes E: "env_serves R E A t"
  shows "serves (world_ok R E A t) (transfer_ok A) (load_bootstrap_bytes_local n E t im)"
proof (rule servesI)
  fix w r w' assume w: "world_ok R E A t w" and op: "load_bootstrap_bytes_local n E t im w = (r, w')"
  obtain r1 w1 where boot: "load_bootstrap_local n E t w = (r1, w1)" by fastforce
  from servesD [OF load_bootstrap_serves(2) [OF E] w boot] have w1: "world_ok R E A t w1" and r1: "\<And>x. r1 = Inr x \<Longrightarrow> loaded E A x" by auto
  show "world_ok R E A t w' \<and> (\<forall>a. r = Inr a \<longrightarrow> transfer_ok A a)"
  proof (cases r1)
    case (Inl e)
    with op boot w1 show ?thesis by (auto simp: load_bootstrap_bytes_local_def)
  next
    case (Inr x)
    from r1 [OF this] obtain b where b: "x = Some b" "bootstrap_entry E A b" by blast
    then have h: "header_parse (take header_size A) = Inr (bs_header b)"
      by (simp add: bootstrap_entry_def bootstrap_of_def archive_root_def)
    define src where "src = (case get_bootstrap_bytes (wd_cache w1) t of Some bs \<Rightarrow> (Inr bs, w1)
      | None \<Rightarrow> re_read_range E t 0 (min (unat (bs_archive_len b)) min_bootstrap_bytes) (Some (bs_archive_len b)) w1)"
    obtain r2 w2 where s: "src = (r2, w2)" by fastforce
    have w2: "world_ok R E A t w2 \<and> (\<forall>bs. r2 = Inr bs \<longrightarrow> bs = take (length bs) A)"
    proof (cases "ac_archives (wd_cache w1) t")
      case None
      then have "re_read_range E t 0 (min (unat (bs_archive_len b)) min_bootstrap_bytes) (Some (bs_archive_len b)) w1 = (r2, w2)"
        using s by (simp add: src_def get_bootstrap_bytes_def)
      from env_read [OF E w1 this] show ?thesis by (auto simp: read_ok_def)
    next
      case (Some e)
      then show ?thesis using s w1 by (cases e) (auto simp: src_def get_bootstrap_bytes_def world_ok_def)
    qed
    obtain r3 w3 where md: "re_read_range E t (hd_metadata_offset (bs_header b)) (unat (hd_metadata_length (bs_header b)))
        (Some (bs_archive_len b)) w2 = (r3, w3)" by fastforce
    have w2': "world_ok R E A t w2" using w2 by simp
    note e = env_read [OF E w2' md]
    have full: "transfer_ok A (Some (bs, Some m))" if "r2 = Inr bs" "r3 = Inr m" for bs m
      using w2 that(1) read_ok_slice [OF e(3) [OF that(2)]] h by (auto simp: transfer_ok_def)
    have bare: "transfer_ok A (Some (bs, None))" if "r2 = Inr bs" for bs
      using w2 that by (auto simp: transfer_ok_def)
    from op boot Inr b(1) s md e(1) w2' full bare show ?thesis
      by (cases r2; cases r3) (auto simp: load_bootstrap_bytes_local_def src_def [symmetric] split: if_splits)
  qed
qed

lemma load_leaf_bytes_serves:
  assumes E: "env_serves R E A t"
  shows "serves (world_ok R E A t) (leaf_transfer_ok A off len) (load_leaf_bytes_local n E t off len)"
proof (rule servesI)
  fix w r w' assume w: "world_ok R E A t w" and op: "load_leaf_bytes_local n E t off len w = (r, w')"
  obtain r1 w1 where boot: "load_bootstrap_local n E t w = (r1, w1)" by fastforce
  from servesD [OF load_bootstrap_serves(2) [OF E] w boot] have w1: "world_ok R E A t w1" and r1: "\<And>x. r1 = Inr x \<Longrightarrow> loaded E A x" by auto
  show "world_ok R E A t w' \<and> (\<forall>a. r = Inr a \<longrightarrow> leaf_transfer_ok A off len a)"
  proof (cases r1)
    case (Inl e)
    with op boot w1 show ?thesis by (auto simp: load_leaf_bytes_local_def)
  next
    case (Inr x)
    from r1 [OF this] obtain b where b: "x = Some b" by blast
    obtain r2 w2 where read: "re_read_range E t off len (Some (bs_archive_len b)) w1 = (r2, w2)" by fastforce
    note e = env_read [OF E w1 read]
    have "leaf_transfer_ok A off len (Some bs)" if "r2 = Inr bs" for bs
      using read_ok_slice [OF e(3) [OF that]] by (simp add: leaf_transfer_ok_def)
    with op boot Inr b read e(1) w1 show ?thesis
      by (auto simp: load_leaf_bytes_local_def split: if_splits sum.splits)
  qed
qed

section \<open>The distributed backend is a view of the archive\<close>

lemma distributed_view:
  assumes E: "env_serves R E A t"
  shows "archive_view (distributed_archive_backend n E t) (world_ok R E A t) A (re_decoders E) default_max_decompressed_bytes"
proof unfold_locales
  fix w w' r assume w: "world_ok R E A t w" and "be_load_bootstrap (distributed_archive_backend n E t) w = (r, w')"
  then obtain r1 where l: "load_bootstrap_with_metadata n E t False w = (r1, w')" and r: "\<And>b. r = Inr b \<Longrightarrow> r1 = Inr (Some b)"
    by (auto simp: distributed_archive_backend_def present_def split: prod.splits sum.splits option.splits)
  from servesD [OF load_bootstrap_serves(1) [OF E] w l] r
  show "world_ok R E A t w' \<and> (\<forall>b. r = Inr b \<longrightarrow> bootstrap_of (re_decoders E) default_max_decompressed_bytes A b)"
    by (auto simp: bootstrap_entry_def)
next
  fix w w' h r lrq assume w: "world_ok R E A t w" and h: "header_parse (take header_size A) = Inr h"
    and c: "lr_compression lrq = hd_internal_compression h" and "be_load_leaf (distributed_archive_backend n E t) lrq w = (r, w')"
  then obtain r1 where l: "load_leaf_directory n E t (lr_offset lrq) (unat (lr_length lrq)) (lr_compression lrq) (lr_archive_len lrq) w = (r1, w')"
    and r: "\<And>b. r = Inr b \<Longrightarrow> r1 = Inr b"
    by (auto simp: distributed_archive_backend_def split: prod.splits sum.splits)
  from servesD [OF load_leaf_directory_serves [OF E h c] w l] r
  show "world_ok R E A t w' \<and> (\<forall>d. r = Inr d \<longrightarrow> leaf_of (re_decoders E) default_max_decompressed_bytes A (lr_offset lrq) (lr_length lrq) d)"
    by (auto simp: leaf_at_leaf_of)
next
  fix w w' rq r assume w: "world_ok R E A t w" and alen: "rq_archive_len rq \<noteq> None"
    and "be_read_range (distributed_archive_backend n E t) rq w = (r, w')"
  then obtain r1 where l: "re_read_range E t (rq_offset rq) (rq_length rq) (rq_archive_len rq) w = (r1, w')" and r: "\<And>b. r = Inr b \<Longrightarrow> r1 = Inr b"
    by (auto simp: distributed_archive_backend_def split: prod.splits sum.splits)
  note e = env_read [OF E w l]
  show "world_ok R E A t w' \<and> (\<forall>bs. r = Inr bs \<longrightarrow>
      slice_inside A (rq_offset rq) (rq_length rq) \<and> bs = archive_slice A (rq_offset rq) (rq_length rq))"
    using e(1) r e(3) alen by (auto dest!: read_ok_slice)
qed

lemma distributed_errs:
  assumes E: "env_serves R E A t"
  shows "backend_errs (distributed_archive_backend n E t) (world_ok R E A t) (bootstrap_entry E A) (\<lambda>e. e \<noteq> ArchiveAbsent)"
proof (rule backend_errsI)
  fix w r w' assume w: "world_ok R E A t w" and "be_load_bootstrap (distributed_archive_backend n E t) w = (r, w')"
  then obtain r1 where l: "load_bootstrap_with_metadata n E t False w = (r1, w')"
    and r: "r = fst (present (r1, w'))"
    by (auto simp: distributed_archive_backend_def present_def split: prod.splits sum.splits option.splits)
  from servesD [OF load_bootstrap_serves(1) [OF E] w l] r
  show "world_ok R E A t w' \<and> (\<forall>e. r = Inl e \<longrightarrow> e \<noteq> ArchiveAbsent) \<and> (\<forall>b. r = Inr b \<longrightarrow> bootstrap_entry E A b)"
    by (auto simp: present_def split: sum.splits option.splits)
next
  fix w b rg r w' assume w: "world_ok R E A t w" and b: "bootstrap_entry E A b"
    and op: "be_load_leaf (distributed_archive_backend n E t) (leaf_request b rg) w = (r, w')"
  from b have h: "header_parse (take header_size A) = Inr (bs_header b)"
    by (simp add: bootstrap_entry_def bootstrap_of_def archive_root_def)
  from op obtain r1 where l: "load_leaf_directory n E t (ar_offset rg) (unat (ar_length rg)) (hd_internal_compression (bs_header b))
      (bs_archive_len b) w = (r1, w')" and r: "r = (case r1 of Inl e \<Rightarrow> Inl (OtherError e) | Inr d \<Rightarrow> Inr d)"
    by (auto simp: distributed_archive_backend_def split: prod.splits sum.splits)
  from servesD [OF load_leaf_directory_serves [OF E h refl] w l] r
  show "world_ok R E A t w' \<and> (\<forall>e. r = Inl e \<longrightarrow> e \<noteq> ArchiveAbsent)" by (auto split: sum.splits)
next
  fix w rq r w' assume w: "world_ok R E A t w" and "be_read_range (distributed_archive_backend n E t) rq w = (r, w')"
  then obtain r1 where l: "re_read_range E t (rq_offset rq) (rq_length rq) (rq_archive_len rq) w = (r1, w')"
    and r: "r = (case r1 of Inl e \<Rightarrow> Inl (OtherError (FailedRead e)) | Inr d \<Rightarrow> Inr d)"
    by (auto simp: distributed_archive_backend_def split: prod.splits sum.splits)
  from env_read(1) [OF E w l] r show "world_ok R E A t w' \<and> (\<forall>e. r = Inl e \<longrightarrow> e \<noteq> ArchiveAbsent)"
    by (auto split: sum.splits)
qed (simp_all add: distributed_archive_backend_def)

lemma ishikari_get_tile_serves:
  assumes E: "env_serves R E A t"
  shows "serves (world_ok R E A t) (serves_tile (re_decoders E) default_max_decompressed_bytes
      (rl_max_range_bytes reader_limits_default) A (unat (rl_max_directory_depth reader_limits_default)) tile_id)
    (ishikari_get_tile n E t tile_id)"
proof (rule servesI)
  fix w r w' assume w: "world_ok R E A t w" and op: "ishikari_get_tile n E t tile_id w = (r, w')"
  let ?be = "distributed_archive_backend n E t"
  obtain r1 where g: "get_tile ?be reader_limits_default tile_id w = (r1, w')"
    and r: "r = (case r1 of Inr td \<Rightarrow> Inr td | Inl ArchiveAbsent \<Rightarrow> Inr None | Inl (OtherError e) \<Rightarrow> Inl e)"
    using op by (auto simp: ishikari_get_tile_def split: prod.splits sum.splits distributed_reader_error.splits)
  from archive_view.get_tile_view [OF distributed_view [OF E] g w]
  have v: "world_ok R E A t w'" "\<And>td. r1 = Inr td \<Longrightarrow> serves_tile (re_decoders E) default_max_decompressed_bytes
      (rl_max_range_bytes reader_limits_default) A (unat (rl_max_directory_depth reader_limits_default)) tile_id td" by auto
  have "r1 \<noteq> Inl ArchiveAbsent" using get_tile_errs [OF distributed_errs [OF E] w] g by blast
  with v r show "world_ok R E A t w' \<and> (\<forall>td. r = Inr td \<longrightarrow> serves_tile (re_decoders E) default_max_decompressed_bytes
      (rl_max_range_bytes reader_limits_default) A (unat (rl_max_directory_depth reader_limits_default)) tile_id td)"
    by (auto split: sum.splits distributed_reader_error.splits)
qed

lemma ishikari_header_serves:
  assumes E: "env_serves R E A t"
  shows "serves (world_ok R E A t) (\<lambda>r. \<exists>h. r = Some h \<and> header_parse (take header_size A) = Inr h) (ishikari_header n E t)"
proof (rule servesI)
  fix w r w' assume w: "world_ok R E A t w" and op: "ishikari_header n E t w = (r, w')"
  obtain r1 where l: "load_bootstrap_with_metadata n E t False w = (r1, w')"
    and r: "\<And>x. r = Inr x \<Longrightarrow> (case r1 of Inr (Some b) \<Rightarrow> x = Some (bs_header b) | Inr None \<Rightarrow> x = None | Inl _ \<Rightarrow> False)"
    using op by (auto simp: ishikari_header_def reader_header_def distributed_archive_backend_def present_def
        split: prod.splits sum.splits option.splits distributed_reader_error.splits)
  from servesD [OF load_bootstrap_serves(1) [OF E] w l] r
  show "world_ok R E A t w' \<and> (\<forall>x. r = Inr x \<longrightarrow> (\<exists>h. x = Some h \<and> header_parse (take header_size A) = Inr h))"
    by (fastforce simp: bootstrap_entry_def bootstrap_of_def archive_root_def split: sum.splits)
qed

lemma ishikari_metadata_serves:
  assumes E: "env_serves R E A t"
  shows "serves (world_ok R E A t) (\<lambda>r. \<exists>md. r = Some md \<and> ishikari_metadata_of E A md) (ishikari_metadata n E t)"
proof (rule servesI)
  fix w r w' assume w: "world_ok R E A t w" and op: "ishikari_metadata n E t w = (r, w')"
  obtain r1 where l: "ishikari_load_metadata n E t w = (r1, w')" and r: "\<And>x. r = Inr x \<Longrightarrow> r1 = Inr x"
    using op by (auto simp: ishikari_metadata_def reader_metadata_def distributed_archive_backend_def present_def
        split: prod.splits sum.splits option.splits distributed_reader_error.splits)
  from servesD [OF load_metadata_serves [OF E] w l] r
  show "world_ok R E A t w' \<and> (\<forall>x. r = Inr x \<longrightarrow> (\<exists>md. x = Some md \<and> ishikari_metadata_of E A md))" by auto
qed

section \<open>Properties\<close>

text \<open>C27: A node of the tile cluster serves the archive: over storage that holds it, peers that
  transfer its bytes, and caches and flights shared with any number of other requests, a tile or
  metadata request that succeeds gives the archive's answer, the caches stay coherent with it, and
  what the node hands to a peer is again a true transfer.\<close>

theorem ishikari_serves_archive:
  assumes "env_serves R E A t"
  shows "serves (world_ok R E A t)
           (serves_tile (re_decoders E) default_max_decompressed_bytes (rl_max_range_bytes reader_limits_default) A
              (unat (rl_max_directory_depth reader_limits_default)) tile_id) (ishikari_get_tile n E t tile_id)
       \<and> serves (world_ok R E A t) (\<lambda>r. \<exists>md. r = Some md \<and> ishikari_metadata_of E A md) (ishikari_load_metadata n E t)
       \<and> serves (world_ok R E A t) (transfer_ok A) (load_bootstrap_bytes_local n E t include_metadata)
       \<and> serves (world_ok R E A t) (leaf_transfer_ok A off len) (load_leaf_bytes_local n E t off len)"
  by (intro conjI ishikari_get_tile_serves load_metadata_serves load_bootstrap_bytes_serves load_leaf_bytes_serves assms)

text \<open>A node alone with the archive.\<close>

definition solitary_env :: "bytes \<Rightarrow> ('x, unit) reader_env" where
  "solitary_env A =
     \<lparr>re_read_range = \<lambda>t off len alen w.
        (if alen = None \<or> len \<le> length A - unat off then Inr (archive_slice A off len) else Inl (SBackend []), w),
      re_fetch_bootstrap = \<lambda>t im w. (Inr None, w), re_fetch_leaf = \<lambda>t off len w. (Inl (), w),
      re_begin_bootstrap = \<lambda>t w. (Leads, w), re_begin_metadata = \<lambda>t w. (Leads, w), re_begin_leaf = \<lambda>k w. (Leads, w),
      re_end_flight = \<lambda>oc w. ((), w),
      re_decoders = \<lparr>dec_gzip = \<lambda>_ _. Inl [], dec_brotli = \<lambda>_ _. Inl [], dec_zstd = \<lambda>_. Inl []\<rparr>,
      re_json = \<lambda>_. Inr (), re_default_metadata = ()\<rparr>"

lemma solitary_env_serves: "env_serves R (solitary_env A) A t"
proof -
  have clip: "take n B = take (min (length B) n) B" for n and B :: bytes by (simp add: min_def)
  show ?thesis using clip [of _ "drop _ A"]
    by (auto simp: env_serves_def serves_def keeps_def solitary_env_def read_ok_def transfer_ok_def leaf_transfer_ok_def
        archive_slice_def split: if_splits)
qed

theorem ishikari_serves_archive_witness:
  "serves (world_ok (\<lambda>_ :: unit. True) (solitary_env demo_archive) demo_archive ''a'')
     (serves_tile (re_decoders (solitary_env demo_archive :: (unit, unit) reader_env)) default_max_decompressed_bytes
        (rl_max_range_bytes reader_limits_default) demo_archive (unat (rl_max_directory_depth reader_limits_default)) 0)
     (ishikari_get_tile 1 (solitary_env demo_archive) ''a'' 0)
   \<and> world_ok (\<lambda>_ :: unit. True) (solitary_env demo_archive) demo_archive ''a''
       \<lparr>wd_cache = \<lparr>ac_archives = Map.empty, ac_leafs = Map.empty, ac_absent = {}\<rparr>, wd_rest = ()\<rparr>"
  using ishikari_serves_archive [OF solitary_env_serves [of "\<lambda>_ :: unit. True" demo_archive "''a''"]] by (simp add: world_ok_def)

end
