(* ===== verification/Tileset_Ids.thy ===== *)
theory Tileset_Ids
  imports Chunk_Store
begin

text \<open>
  \<^verbatim>\<open>crates/ishikari-core/src/interned.rs\<close> and the typed internal paths of
  \<^verbatim>\<open>crates/ishikari-core/src/storage/peer.rs\<close>: validation of tileset ids, routing keys of derived
  resources, the paths a node requests from its peers, and their classification into a bounded set of
  resource kinds with their deadlines and body limits.
\<close>

section \<open>Tileset ids\<close>

definition max_tileset_id_len :: nat where
  "max_tileset_id_len = 256"

datatype tileset_id_error =
    IdEmpty | IdTooLong | IdTooManySegments | IdSegmentEmpty | IdSegmentDots | IdInvalidCharacters | IdReservedWord
  | ProductEmpty | ProductTooLong | ProductInvalid

text \<open>\<open>u8::is_ascii_alphanumeric\<close> and \<open>str::split\<close>.\<close>

definition is_ascii_alphanumeric :: "char \<Rightarrow> bool" where
  "is_ascii_alphanumeric c \<longleftrightarrow>
     (let n = of_char c :: nat in 48 \<le> n \<and> n \<le> 57 \<or> 65 \<le> n \<and> n \<le> 90 \<or> 97 \<le> n \<and> n \<le> 122)"

fun str_split :: "char \<Rightarrow> string \<Rightarrow> string list" where
  "str_split d [] = [[]]"
| "str_split d (c # s) = (if c = d then [] # str_split d s else (case str_split d s of [] \<Rightarrow> [[c]] | a # r \<Rightarrow> (c # a) # r))"

definition is_identifier_segment :: "string \<Rightarrow> bool" where
  "is_identifier_segment s = list_all (\<lambda>b. is_ascii_alphanumeric b \<or> b \<in> {CHR ''.'', CHR ''_'', CHR ''-''}) s"

definition validate_tileset_segment :: "string \<Rightarrow> tileset_id_error + unit" where
  "validate_tileset_segment s =
     (if s = [] then Inl IdSegmentEmpty
      else if s = ''.'' \<or> s = ''..'' then Inl IdSegmentDots
      else if \<not> is_identifier_segment s then Inl IdInvalidCharacters
      else Inr ())"

definition validate_resource_segment :: "string \<Rightarrow> tileset_id_error + unit" where
  "validate_resource_segment s =
     (if s = [] then Inl ProductEmpty
      else if max_tileset_id_len < length s then Inl ProductTooLong
      else if s = ''.'' \<or> s = ''..'' \<or> \<not> is_identifier_segment s then Inl ProductInvalid
      else Inr ())"

definition validate_tileset_id :: "string \<Rightarrow> tileset_id_error + unit" where
  "validate_tileset_id s =
     (if s = [] then Inl IdEmpty
      else if max_tileset_id_len < length s then Inl IdTooLong
      else case str_split CHR ''/'' s of
        [a] \<Rightarrow> validate_tileset_segment a
      | [a, b] \<Rightarrow>
          (case validate_tileset_segment a of
             Inl e \<Rightarrow> Inl e
           | Inr _ \<Rightarrow>
               (case validate_tileset_segment b of
                  Inl e \<Rightarrow> Inl e
                | Inr _ \<Rightarrow> if b = ''preview'' \<or> b = ''preview.json'' then Inl IdReservedWord else Inr ()))
      | _ \<Rightarrow> Inl IdTooManySegments)"

definition tileset_id_try_new :: "string \<Rightarrow> tileset_id_error + tileset_id" where
  "tileset_id_try_new s = (case validate_tileset_id s of Inl e \<Rightarrow> Inl e | Inr _ \<Rightarrow> Inr s)"

definition join_segment :: "tileset_id \<Rightarrow> string \<Rightarrow> tileset_id_error + tileset_id" where
  "join_segment t segment = tileset_id_try_new (t @ ''/'' @ segment)"

definition tileset_namespace :: "tileset_id \<Rightarrow> string option" where
  "tileset_namespace t = map_option fst (split_once CHR ''/'' t)"

definition tileset_local_id :: "tileset_id \<Rightarrow> string" where
  "tileset_local_id t = (case split_once CHR ''/'' t of None \<Rightarrow> t | Some (_, l) \<Rightarrow> l)"

definition for_derived_resource :: "string \<Rightarrow> tileset_id \<Rightarrow> tileset_id_error + string" where
  "for_derived_resource product t =
     (case validate_resource_segment product of
        Inl e \<Rightarrow> Inl e
      | Inr _ \<Rightarrow> Inr (''derived:'' @ product @ '':'' @ t))"

section \<open>Internal paths\<close>

definition encode_tileset_path :: "tileset_id \<Rightarrow> string" where
  "encode_tileset_path t = concat (map (\<lambda>c. if c = CHR ''/'' then ''%2F'' else [c]) t)"

definition bootstrap_path :: "tileset_id \<Rightarrow> bool \<Rightarrow> string" where
  "bootstrap_path t include_metadata =
     (if include_metadata then ''/_internal/pmtiles/'' @ encode_tileset_path t @ ''/bootstrap?metadata=true''
      else ''/_internal/pmtiles/'' @ encode_tileset_path t @ ''/bootstrap'')"

definition leaf_path :: "tileset_id \<Rightarrow> u64 \<Rightarrow> nat \<Rightarrow> string" where
  "leaf_path t off len = ''/_internal/pmtiles/'' @ encode_tileset_path t @ ''/leaf/'' @ decimal (unat off) @ ''/'' @ decimal len"

definition tile_path :: "tileset_id \<Rightarrow> u64 \<Rightarrow> string" where
  "tile_path t tile_id = ''/_internal/tiles/'' @ encode_tileset_path t @ ''/'' @ decimal (unat tile_id)"

text \<open>Provider resources.\<close>

datatype provider_resource_kind = PStyle | PGlyph | PSprite

fun provider_kind_as_str :: "provider_resource_kind \<Rightarrow> string" where
  "provider_kind_as_str PStyle = ''style''"
| "provider_kind_as_str PGlyph = ''glyph''"
| "provider_kind_as_str PSprite = ''sprite''"

datatype provider_sprite_variant = SpriteJson | SpritePng | SpriteJson2x | SpritePng2x

fun sprite_suffix :: "provider_sprite_variant \<Rightarrow> string" where
  "sprite_suffix SpriteJson = ''.json''"
| "sprite_suffix SpritePng = ''.png''"
| "sprite_suffix SpriteJson2x = ''@2x.json''"
| "sprite_suffix SpritePng2x = ''@2x.png''"

datatype provider_resource =
    ProviderStyle string
  | ProviderGlyph string string
  | ProviderSprite string provider_sprite_variant

record provider_request =
  pq_resource :: provider_resource
  pq_upstream_url :: string

fun provider_kind :: "provider_resource \<Rightarrow> provider_resource_kind" where
  "provider_kind (ProviderStyle _) = PStyle"
| "provider_kind (ProviderGlyph _ _) = PGlyph"
| "provider_kind (ProviderSprite _ _) = PSprite"

definition placement_key :: "provider_request \<Rightarrow> string" where
  "placement_key q =
     (case pq_resource q of
        ProviderStyle _ \<Rightarrow> ''style:'' @ pq_upstream_url q
      | ProviderGlyph _ _ \<Rightarrow> ''glyph:'' @ pq_upstream_url q
      | ProviderSprite _ v \<Rightarrow> ''sprite:'' @ sprite_suffix v @ '':'' @ pq_upstream_url q)"

text \<open>\<open>%02X\<close> of a byte.\<close>

definition upper_hex_digit :: "nat \<Rightarrow> char" where
  "upper_hex_digit n = char_of (if n < 10 then 48 + n else 55 + n)"

definition percent_byte :: "char \<Rightarrow> string" where
  "percent_byte c = [CHR ''%'', upper_hex_digit (of_char c div 16), upper_hex_digit (of_char c mod 16)]"

definition provider_path_encode :: "string \<Rightarrow> string" where
  "provider_path_encode s =
     concat (map (\<lambda>b. if is_ascii_alphanumeric b \<or> b \<in> {CHR ''-'', CHR ''.'', CHR ''_'', CHR ''~'', CHR '',''}
       then [b] else percent_byte b) s)"

fun str_join :: "string \<Rightarrow> string list \<Rightarrow> string" where
  "str_join d [] = []"
| "str_join d [s] = s"
| "str_join d (s # t # r) = s @ d @ str_join d (t # r)"

definition provider_path_encode_segments :: "string \<Rightarrow> string" where
  "provider_path_encode_segments s = str_join ''/'' (map provider_path_encode (str_split CHR ''/'' s))"

definition provider_internal_path :: "provider_resource \<Rightarrow> string" where
  "provider_internal_path q =
     (case q of
        ProviderStyle k \<Rightarrow> ''/_internal/provider/styles/'' @ provider_path_encode_segments k @ ''/style.json''
      | ProviderGlyph f r \<Rightarrow> ''/_internal/provider/fonts/'' @ provider_path_encode f @ ''/'' @ r @ ''.pbf''
      | ProviderSprite k v \<Rightarrow> ''/_internal/provider/styles/'' @ provider_path_encode_segments k @ ''/sprite'' @ sprite_suffix v)"

section \<open>Classification\<close>

definition peer_resource_label :: "string \<Rightarrow> string" where
  "peer_resource_label kind =
     (if kind \<in> {''tile'', ''bootstrap'', ''leaf'', ''style'', ''glyph'', ''sprite'', ''derived''} then kind else ''other'')"

text \<open>\<open>starts_with\<close>, \<open>ends_with\<close> and \<open>contains\<close>.\<close>

definition starts_with :: "string \<Rightarrow> string \<Rightarrow> bool" where
  "starts_with s p \<longleftrightarrow> take (length p) s = p"

definition ends_with :: "string \<Rightarrow> string \<Rightarrow> bool" where
  "ends_with s p \<longleftrightarrow> length p \<le> length s \<and> drop (length s - length p) s = p"

fun str_contains :: "string \<Rightarrow> string \<Rightarrow> bool" where
  "str_contains [] p \<longleftrightarrow> p = []"
| "str_contains (c # s) p \<longleftrightarrow> starts_with (c # s) p \<or> str_contains s p"

definition internal_resource_kind :: "string \<Rightarrow> string option" where
  "internal_resource_kind full =
     (let path = (case split_once CHR ''?'' full of None \<Rightarrow> full | Some (p, _) \<Rightarrow> p)
      in if starts_with path ''/_internal/tiles/'' then Some ''tile''
         else if starts_with path ''/_internal/derived/'' then Some ''derived''
         else if starts_with path ''/_internal/pmtiles/'' \<and> ends_with path ''/bootstrap'' then Some ''bootstrap''
         else if starts_with path ''/_internal/pmtiles/'' \<and> str_contains path ''/leaf/'' then Some ''leaf''
         else if starts_with path ''/_internal/provider/fonts/'' then Some ''glyph''
         else if starts_with path ''/_internal/provider/styles/''
         then (if ends_with path ''/style.json'' then Some ''style''
               else if str_contains path ''/sprite'' then Some ''sprite''
               else Some ''other'')
         else None)"

definition internal_peer_request_timeout :: "string \<Rightarrow> duration" where
  "internal_peer_request_timeout path =
     (if starts_with path ''/_internal/derived/'' then millis 30000
      else if starts_with path ''/_internal/provider/'' then millis 20000
      else millis 10000)"

definition max_internal_binary_response_bytes :: nat where
  "max_internal_binary_response_bytes = 64 * 1024 * 1024"

definition max_internal_glyph_response_bytes :: nat where
  "max_internal_glyph_response_bytes = 1024 * 1024"

definition max_internal_json_response_bytes :: nat where
  "max_internal_json_response_bytes = 2 * 1024 * 1024"

definition max_internal_sprite_response_bytes :: nat where
  "max_internal_sprite_response_bytes = 8 * 1024 * 1024"

definition max_internal_bootstrap_response_bytes :: nat where
  "max_internal_bootstrap_response_bytes = 8 + min_bootstrap_bytes + default_max_decompressed_bytes"

definition internal_response_body_limit :: "string \<Rightarrow> nat" where
  "internal_response_body_limit path =
     (let kind = internal_resource_kind path
      in if kind = Some ''bootstrap'' then max_internal_bootstrap_response_bytes
         else if kind = Some ''glyph'' then max_internal_glyph_response_bytes
         else if kind = Some ''style'' then max_internal_json_response_bytes
         else if kind = Some ''sprite'' then max_internal_sprite_response_bytes
         else max_internal_binary_response_bytes)"

section \<open>Characters of ids and paths\<close>

definition id_char :: "char \<Rightarrow> bool" where
  "id_char c \<longleftrightarrow> is_ascii_alphanumeric c \<or> c \<in> {CHR ''.'', CHR ''_'', CHR ''-'', CHR ''/''}"

lemma set_str_split: "c \<in> set s \<Longrightarrow> c = d \<or> (\<exists>x\<in>set (str_split d s). c \<in> set x)"
  by (induction s) (auto split: list.splits)

lemma str_split_ne [simp]: "str_split d s \<noteq> []"
  by (cases s) (auto split: list.splits)

lemma validate_tileset_segment_ok: "validate_tileset_segment s = Inr u \<Longrightarrow> is_identifier_segment s"
  by (simp add: validate_tileset_segment_def split: if_splits)

lemma identifier_char: "is_identifier_segment s \<Longrightarrow> c \<in> set s \<Longrightarrow> id_char c"
  by (auto simp: is_identifier_segment_def id_char_def list_all_iff)

lemma valid_id_chars:
  assumes "validate_tileset_id s = Inr u"
  shows "\<forall>c\<in>set s. id_char c"
proof -
  from assms have "\<forall>x\<in>set (str_split CHR ''/'' s). is_identifier_segment x"
    by (auto simp: validate_tileset_id_def split: if_splits list.splits sum.splits dest: validate_tileset_segment_ok)
  then show ?thesis
    using set_str_split [of _ s "CHR ''/''"] identifier_char by (fastforce simp: id_char_def [of "CHR ''/''"])
qed

lemma id_char_not: "\<not> id_char CHR ''%''" "\<not> id_char CHR ''?''" "\<not> id_char CHR '':''"
  by (simp_all add: id_char_def is_ascii_alphanumeric_def)

lemma valid_id_not_in:
  assumes "validate_tileset_id s = Inr u"
  shows "CHR ''%'' \<notin> set s" and "CHR ''?'' \<notin> set s" and "CHR '':'' \<notin> set s"
  using valid_id_chars [OF assms] id_char_not by auto

lemma encode_tileset_path_inj:
  "CHR ''%'' \<notin> set a \<Longrightarrow> CHR ''%'' \<notin> set b \<Longrightarrow> encode_tileset_path a = encode_tileset_path b \<longleftrightarrow> a = b"
proof (induction a arbitrary: b)
  case Nil
  then show ?case by (cases b) (auto simp: encode_tileset_path_def)
next
  case (Cons c a)
  then show ?case by (cases b) (auto simp: encode_tileset_path_def split: if_splits)
qed

lemma set_encode_tileset_path: "CHR ''?'' \<notin> set t \<Longrightarrow> CHR ''?'' \<notin> set (encode_tileset_path t)"
  "CHR ''/'' \<notin> set (encode_tileset_path t)"
  by (auto simp: encode_tileset_path_def split: if_splits)

lemma split_once_eq_append:
  fixes c :: char
  shows "c \<notin> set a \<Longrightarrow> c \<notin> set a' \<Longrightarrow> a @ c # b = a' @ c # b' \<longleftrightarrow> a = a' \<and> b = b'"
  by (metis append_same_eq list.inject option.inject prod.inject split_once_append)

section \<open>Classification of the paths a node builds\<close>

lemma starts_with_append [simp]: "starts_with (p @ s) p"
  by (simp add: starts_with_def)

lemma ends_with_append [simp]: "ends_with (s @ p) p"
  by (simp add: ends_with_def)

lemma ends_with_append_iff: "length p \<le> length y \<Longrightarrow> ends_with (x @ y) p \<longleftrightarrow> ends_with y p"
  by (simp add: ends_with_def)

lemma ends_with_last: "ends_with s p \<Longrightarrow> p \<noteq> [] \<Longrightarrow> last s = last p"
  unfolding ends_with_def by (metis last_drop length_0_conv diff_less less_le_trans length_greater_0_conv)

lemma str_contains_append: "str_contains (a @ p @ b) p"
proof (induction a)
  case Nil
  then show ?case by (cases p; cases b) (auto simp: starts_with_def)
qed simp

definition path_of :: "string \<Rightarrow> string" where
  "path_of full = (case split_once CHR ''?'' full of None \<Rightarrow> full | Some (p, _) \<Rightarrow> p)"

lemma path_of_plain: "CHR ''?'' \<notin> set s \<Longrightarrow> path_of s = s"
  by (simp add: path_of_def split_once_None_iff [THEN iffD2])

lemma path_of_query: "CHR ''?'' \<notin> set s \<Longrightarrow> path_of (s @ CHR ''?'' # q) = s"
  by (simp add: path_of_def split_once_append)

lemma path_of_prefix: "CHR ''?'' \<notin> set p \<Longrightarrow> \<exists>r. path_of (p @ s) = p @ r"
proof (cases "split_once CHR ''?'' s")
  case None
  moreover assume "CHR ''?'' \<notin> set p"
  ultimately show ?thesis by (simp add: path_of_plain split_once_None_iff)
next
  case (Some ab)
  moreover assume "CHR ''?'' \<notin> set p"
  ultimately show ?thesis
    using path_of_query [of "p @ fst ab" "snd ab"] by (cases ab) (auto dest!: split_once_Some)
qed

lemma resource_kind_path:
  "internal_resource_kind full =
     (let path = path_of full
      in if starts_with path ''/_internal/tiles/'' then Some ''tile''
         else if starts_with path ''/_internal/derived/'' then Some ''derived''
         else if starts_with path ''/_internal/pmtiles/'' \<and> ends_with path ''/bootstrap'' then Some ''bootstrap''
         else if starts_with path ''/_internal/pmtiles/'' \<and> str_contains path ''/leaf/'' then Some ''leaf''
         else if starts_with path ''/_internal/provider/fonts/'' then Some ''glyph''
         else if starts_with path ''/_internal/provider/styles/''
         then (if ends_with path ''/style.json'' then Some ''style''
               else if str_contains path ''/sprite'' then Some ''sprite'' else Some ''other'')
         else None)"
  by (simp add: internal_resource_kind_def path_of_def)

lemma not_in_decimal: "CHR ''?'' \<notin> set (decimal n)" "CHR ''/'' \<notin> set (decimal n)"
  by (rule not_digit_not_in_decimal; simp add: is_digit_def)+

lemma tile_path_kind: "internal_resource_kind (tile_path t i) = Some ''tile''"
proof -
  obtain r where "path_of (tile_path t i) = ''/_internal/tiles/'' @ r"
    unfolding tile_path_def using path_of_prefix [of "''/_internal/tiles/''"] by auto
  then show ?thesis by (simp add: resource_kind_path del: append.simps)
qed

lemma bootstrap_path_kind:
  assumes "validate_tileset_id t = Inr u"
  shows "internal_resource_kind (bootstrap_path t md) = Some ''bootstrap''"
proof -
  let ?p = "''/_internal/pmtiles/'' @ encode_tileset_path t @ ''/bootstrap''"
  have q: "CHR ''?'' \<notin> set ?p"
    using set_encode_tileset_path(1) [OF valid_id_not_in(2) [OF assms]] by simp
  have "path_of (bootstrap_path t md) = ?p"
    using path_of_plain [OF q] path_of_query [OF q, of "''metadata=true''"] by (cases md) (simp_all add: bootstrap_path_def)
  moreover have "ends_with ?p ''/bootstrap''"
    using ends_with_append [of "''/_internal/pmtiles/'' @ encode_tileset_path t"] by (simp only: append_assoc)
  ultimately show ?thesis by (simp add: resource_kind_path starts_with_def)
qed

lemma leaf_path_kind:
  assumes "validate_tileset_id t = Inr u"
  shows "internal_resource_kind (leaf_path t off len) = Some ''leaf''"
proof -
  have q: "CHR ''?'' \<notin> set (leaf_path t off len)"
    using set_encode_tileset_path(1) [OF valid_id_not_in(2) [OF assms]] by (simp add: leaf_path_def not_in_decimal)
  have "last (leaf_path t off len) = last (decimal len)" by (simp add: leaf_path_def)
  then have "last (leaf_path t off len) \<noteq> CHR ''p''"
    using decimal_char_digit [of "last (decimal len)" len] by (auto simp: is_digit_def)
  then have "\<not> ends_with (leaf_path t off len) ''/bootstrap''" by (auto dest: ends_with_last)
  moreover have "str_contains (leaf_path t off len) ''/leaf/''"
    using str_contains_append [of "''/_internal/pmtiles/'' @ encode_tileset_path t" "''/leaf/''"]
    unfolding leaf_path_def by (simp only: append_assoc)
  ultimately show ?thesis using path_of_plain [OF q]
    by (simp add: resource_kind_path) (simp add: leaf_path_def starts_with_def)
qed

lemma upper_hex_digit_not_query: "n < 16 \<Longrightarrow> upper_hex_digit n \<noteq> CHR ''?''"
proof
  assume n: "n < 16" and "upper_hex_digit n = CHR ''?''"
  then have "of_char (upper_hex_digit n) = (63 :: nat)" by simp
  with n show False by (simp add: upper_hex_digit_def split: if_splits)
qed

lemma percent_byte_not_query: "CHR ''?'' \<notin> set (percent_byte c)"
proof -
  have "of_char c < (256 :: nat)" by simp
  then have "of_char c div 16 < (16 :: nat)" "of_char c mod 16 < (16 :: nat)" by (simp_all add: div_less_iff_less_mult)
  from this [THEN upper_hex_digit_not_query] show ?thesis by (auto simp: percent_byte_def)
qed

lemma provider_path_encode_not_query: "CHR ''?'' \<notin> set (provider_path_encode s)"
  by (auto simp: provider_path_encode_def percent_byte_not_query is_ascii_alphanumeric_def split: if_splits)

lemma set_str_join: "set (str_join d xs) \<subseteq> set d \<union> \<Union> (set ` set xs)"
  by (induction d xs rule: str_join.induct) auto

lemma provider_path_encode_segments_not_query: "CHR ''?'' \<notin> set (provider_path_encode_segments s)"
  using set_str_join [of "''/''" "map provider_path_encode (str_split CHR ''/'' s)"] provider_path_encode_not_query
  by (auto simp: provider_path_encode_segments_def dest!: subsetD)

lemma sprite_suffix_not_style:
  "\<not> ends_with (x @ ''/sprite'' @ sprite_suffix v) ''/style.json''" "CHR ''?'' \<notin> set (sprite_suffix v)"
  by (cases v; subst ends_with_append_iff; simp add: ends_with_def) (cases v; simp)

lemma provider_path_kind: "internal_resource_kind (provider_internal_path q) = Some (provider_kind_as_str (provider_kind q))"
proof (cases q)
  case (ProviderStyle k)
  let ?p = "''/_internal/provider/styles/'' @ provider_path_encode_segments k @ ''/style.json''"
  have "path_of ?p = ?p" by (rule path_of_plain) (simp add: provider_path_encode_segments_not_query)
  moreover have "ends_with ?p ''/style.json''"
    using ends_with_append [of "''/_internal/provider/styles/'' @ provider_path_encode_segments k"] by (simp only: append_assoc)
  ultimately show ?thesis using ProviderStyle by (simp add: provider_internal_path_def resource_kind_path) (simp add: starts_with_def)
next
  case (ProviderGlyph f r)
  obtain r' where "path_of (provider_internal_path q) = ''/_internal/provider/fonts/'' @ r'"
    using ProviderGlyph path_of_prefix [of "''/_internal/provider/fonts/''"] by (auto simp: provider_internal_path_def)
  then show ?thesis using ProviderGlyph by (simp add: resource_kind_path) (simp add: starts_with_def)
next
  case (ProviderSprite k v)
  let ?p = "''/_internal/provider/styles/'' @ provider_path_encode_segments k @ ''/sprite'' @ sprite_suffix v"
  have "path_of ?p = ?p"
    by (rule path_of_plain) (simp add: provider_path_encode_segments_not_query sprite_suffix_not_style)
  moreover have "\<not> ends_with ?p ''/style.json''"
    using sprite_suffix_not_style(1) [of "''/_internal/provider/styles/'' @ provider_path_encode_segments k"] by (simp only: append_assoc) simp
  moreover have "str_contains ?p ''/sprite''"
    using str_contains_append [of "''/_internal/provider/styles/'' @ provider_path_encode_segments k" "''/sprite''"] by (simp only: append_assoc)
  ultimately show ?thesis using ProviderSprite by (simp add: provider_internal_path_def resource_kind_path) (simp add: starts_with_def)
qed

section \<open>Paths and keys name one resource\<close>

lemma tile_path_inj:
  assumes "validate_tileset_id t = Inr u" and "validate_tileset_id t' = Inr u'" and "tile_path t i = tile_path t' i'"
  shows "t = t' \<and> i = i'"
proof -
  from assms(3) have "encode_tileset_path t @ CHR ''/'' # decimal (unat i) = encode_tileset_path t' @ CHR ''/'' # decimal (unat i')"
    by (simp add: tile_path_def)
  then show ?thesis
    by (simp add: split_once_eq_append set_encode_tileset_path encode_tileset_path_inj valid_id_not_in [OF assms(1)]
        valid_id_not_in [OF assms(2)] word_unat_eq_iff)
qed

lemma leaf_path_inj:
  assumes "validate_tileset_id t = Inr u" and "validate_tileset_id t' = Inr u'" and "leaf_path t off len = leaf_path t' off' len'"
  shows "t = t' \<and> off = off' \<and> len = len'"
proof -
  from assms(3) have "encode_tileset_path t @ CHR ''/'' # ''leaf/'' @ decimal (unat off) @ CHR ''/'' # decimal len
      = encode_tileset_path t' @ CHR ''/'' # ''leaf/'' @ decimal (unat off') @ CHR ''/'' # decimal len'"
    by (simp add: leaf_path_def)
  then show ?thesis
    by (simp add: split_once_eq_append set_encode_tileset_path encode_tileset_path_inj valid_id_not_in [OF assms(1)]
        valid_id_not_in [OF assms(2)] word_unat_eq_iff not_in_decimal)
qed

lemma bootstrap_path_inj:
  assumes "validate_tileset_id t = Inr u" and "validate_tileset_id t' = Inr u'" and "bootstrap_path t md = bootstrap_path t' md'"
  shows "t = t' \<and> md = md'"
proof -
  from assms(3) have "encode_tileset_path t @ CHR ''/'' # (if md then ''bootstrap?metadata=true'' else ''bootstrap'')
      = encode_tileset_path t' @ CHR ''/'' # (if md' then ''bootstrap?metadata=true'' else ''bootstrap'')"
    by (auto simp: bootstrap_path_def split: if_splits)
  then show ?thesis
    by (auto simp: split_once_eq_append set_encode_tileset_path encode_tileset_path_inj valid_id_not_in [OF assms(1)]
        valid_id_not_in [OF assms(2)] split: if_splits)
qed

lemma derived_key_inj:
  assumes "for_derived_resource p t = Inr k" and "for_derived_resource p' t' = Inr k"
  shows "p = p' \<and> t = t'"
proof -
  from assms have p: "is_identifier_segment p" "is_identifier_segment p'"
    and "p @ CHR '':'' # t = p' @ CHR '':'' # t'"
    by (auto simp: for_derived_resource_def validate_resource_segment_def split: sum.splits if_splits)
  moreover have "CHR '':'' \<notin> set p" "CHR '':'' \<notin> set p'" using p identifier_char id_char_not(3) by blast+
  ultimately show ?thesis by (simp add: split_once_eq_append)
qed

lemma derived_key_not_id: "for_derived_resource p t = Inr k \<Longrightarrow> validate_tileset_id k \<noteq> Inr u"
  using valid_id_not_in(3) [of k] by (auto simp: for_derived_resource_def split: sum.splits)

section \<open>Properties\<close>



end
