(* ===== verification/Ishikari_Peers.thy ===== *)
theory Ishikari_Peers
  imports Hrw Ishikari_Reader Tileset_Ids "HOL-Library.AList"
begin

text \<open>
  \<^verbatim>\<open>crates/ishikari-core/src/storage\<close> \<^verbatim>\<open>routing.rs\<close> and \<^verbatim>\<open>peer.rs\<close>, and the bootstrap endpoint of
  \<^verbatim>\<open>servers/ishikari/src/server/internal.rs\<close>: placement of tile groups on peers, suppression of peers
  after retryable failures, the loops over candidate peers, and the transfer of bootstraps. The hash,
  the peer directory, the transport and the clock are arguments.
\<close>

section \<open>Placement\<close>

record peer =
  pr_id :: string
  pr_addr :: string

record scored_peer =
  sp_score :: u64
  sp_peer :: peer

record hrw_router =
  hr_candidate_count :: nat
  hr_tile_group_size :: u64

definition hrw_router_new :: "nat \<Rightarrow> u64 \<Rightarrow> hrw_router" where
  "hrw_router_new candidate_count tile_group_size =
     \<lparr>hr_candidate_count = max candidate_count 1, hr_tile_group_size = max tile_group_size 1\<rparr>"

definition string_bytes :: "string \<Rightarrow> bytes" where
  "string_bytes s = map of_char s"

text \<open>\<open>to_le_bytes\<close>, of a given width.\<close>

fun le_bytes :: "nat \<Rightarrow> nat \<Rightarrow> bytes" where
  "le_bytes 0 v = []"
| "le_bytes (Suc k) v = of_nat v # le_bytes k (v div 256)"

text \<open>The score of a peer: the hash of the bytes fed to the hasher, in order.\<close>

definition peer_weight :: "(bytes \<Rightarrow> u64) \<Rightarrow> string \<Rightarrow> u64 \<Rightarrow> string \<Rightarrow> u64" where
  "peer_weight xxh key group_id node_id =
     xxh (string_bytes key @ [0xff] @ le_bytes 8 (unat group_id) @ [0xfe] @ string_bytes node_id)"

text \<open>The order of scored peers, and the heap that keeps the least of them: its elements in order, the
  greatest last, which is what \<open>pop\<close> takes.\<close>

definition scored_key :: "scored_peer \<Rightarrow> u64 reverse \<times> string" where
  "scored_key p = (Reverse (sp_score p), pr_id (sp_peer p))"

definition heap_push :: "scored_peer \<Rightarrow> scored_peer list \<Rightarrow> scored_peer list" where
  "heap_push p heap = insert_after scored_key p heap"

definition heap_pop :: "scored_peer list \<Rightarrow> scored_peer list" where
  "heap_pop heap = butlast heap"

definition route_group :: "(bytes \<Rightarrow> u64) \<Rightarrow> hrw_router \<Rightarrow> peer list \<Rightarrow> string \<Rightarrow> u64 \<Rightarrow> scored_peer list" where
  "route_group xxh r peers key group_id =
     fold (\<lambda>p top_peers.
         let top_peers = heap_push \<lparr>sp_score = peer_weight xxh key group_id (pr_id p), sp_peer = p\<rparr> top_peers
         in if hr_candidate_count r < length top_peers then heap_pop top_peers else top_peers) peers []"

definition route_tile_group :: "(bytes \<Rightarrow> u64) \<Rightarrow> hrw_router \<Rightarrow> peer list \<Rightarrow> string \<Rightarrow> u64 \<Rightarrow> scored_peer list" where
  "route_tile_group xxh r peers t tile_id = route_group xxh r peers t (tile_id div hr_tile_group_size r)"

definition route_key :: "(bytes \<Rightarrow> u64) \<Rightarrow> hrw_router \<Rightarrow> peer list \<Rightarrow> string \<Rightarrow> scored_peer list" where
  "route_key xxh r peers key = route_group xxh r peers key 0"

definition route_tileset :: "(bytes \<Rightarrow> u64) \<Rightarrow> hrw_router \<Rightarrow> peer list \<Rightarrow> string \<Rightarrow> scored_peer list" where
  "route_tileset xxh r peers t = route_tile_group xxh r peers t 0"

section \<open>The peer snapshot\<close>

text \<open>One gossip tick's snapshot of the routable peers, loaded by one caller at a time.\<close>

record peer_snapshot_state =
  ss_cached :: "(instant \<times> peer list) option"
  ss_loading :: bool

definition peer_snapshot_new :: peer_snapshot_state where
  "peer_snapshot_new = \<lparr>ss_cached = None, ss_loading = False\<rparr>"

definition fresh_peer_snapshot :: "peer_snapshot_state \<Rightarrow> duration \<Rightarrow> instant \<Rightarrow> peer list option" where
  "fresh_peer_snapshot st ttl now =
     (case ss_cached st of
        None \<Rightarrow> None
      | Some (stored_at, peers) \<Rightarrow> if saturating_duration_since now stored_at < ttl then Some peers else None)"

definition snapshot_store :: "instant \<Rightarrow> peer list \<Rightarrow> peer_snapshot_state" where
  "snapshot_store now peers = \<lparr>ss_cached = Some (now, peers), ss_loading = False\<rparr>"

definition snapshot_load_drop :: "peer_snapshot_state \<Rightarrow> peer_snapshot_state" where
  "snapshot_load_drop st = st\<lparr>ss_loading := False\<rparr>"

text \<open>What a turn of \<open>get_or_load\<close> meets: clock and state at the first check and at the locked one, and
  the peers its loader would find.\<close>

record snapshot_turn =
  su_state :: peer_snapshot_state
  su_now :: instant
  su_locked_state :: peer_snapshot_state
  su_locked_now :: instant
  su_loaded :: "peer list"
  su_stored_at :: instant

text \<open>A turn returns the peers, and the state if it stored; or waits for a change.\<close>

definition snapshot_get_or_load_turn :: "duration \<Rightarrow> snapshot_turn \<Rightarrow> (peer list \<times> peer_snapshot_state option) option" where
  "snapshot_get_or_load_turn ttl u =
     (case fresh_peer_snapshot (su_state u) ttl (su_now u) of
        Some peers \<Rightarrow> Some (peers, None)
      | None \<Rightarrow>
          (case fresh_peer_snapshot (su_locked_state u) ttl (su_locked_now u) of
             Some peers \<Rightarrow> Some (peers, None)
           | None \<Rightarrow>
               if ss_loading (su_locked_state u) then None
               else Some (su_loaded u, Some (snapshot_store (su_stored_at u) (su_loaded u)))))"

fun snapshot_get_or_load :: "duration \<Rightarrow> snapshot_turn list \<Rightarrow> peer list option" where
  "snapshot_get_or_load ttl [] = None"
| "snapshot_get_or_load ttl (u # us) =
     (case snapshot_get_or_load_turn ttl u of
        Some (peers, _) \<Rightarrow> Some peers
      | None \<Rightarrow> snapshot_get_or_load ttl us)"

section \<open>The tables of a peer backend\<close>

text \<open>Per peer and resource the time to retry after, and the running fetches per peer and path.\<close>

type_synonym failure_table = "(string \<times> (string \<times> instant) list) list"

record peer_rest =
  pt_failures :: failure_table
  pt_inflight :: "((string \<times> string) \<times> nat) list"

definition peer_retry_backoff :: duration where
  "peer_retry_backoff = millis 1000"

definition record_failure :: "string \<Rightarrow> string \<Rightarrow> instant \<Rightarrow> failure_table \<Rightarrow> failure_table" where
  "record_failure p resource retry_at f =
     AList.update p (AList.update resource retry_at (case map_of f p of None \<Rightarrow> [] | Some rs \<Rightarrow> rs)) f"

definition clear_failure :: "string \<Rightarrow> string \<Rightarrow> failure_table \<Rightarrow> failure_table" where
  "clear_failure p resource f =
     (case map_of f p of
        None \<Rightarrow> f
      | Some rs \<Rightarrow>
          let rs' = AList.delete resource rs
          in if rs' = [] then AList.delete p f else AList.update p rs' f)"

definition prune_failures :: "instant \<Rightarrow> failure_table \<Rightarrow> failure_table" where
  "prune_failures now f =
     filter (\<lambda>(_, rs). rs \<noteq> []) (map (\<lambda>(p, rs). (p, filter (\<lambda>(_, retry_at). now < retry_at) rs)) f)"

text \<open>The peers that may be asked, \<open>None\<close> when all of them: \<open>Cow::Borrowed\<close>.\<close>

definition available_peers :: "instant \<Rightarrow> peer list \<Rightarrow> string \<Rightarrow> failure_table \<Rightarrow> peer list option \<times> failure_table" where
  "available_peers now peers resource f =
     (let f = prune_failures now f
      in (if f = [] then None
          else if \<not> list_ex (\<lambda>(_, rs). map_of rs resource \<noteq> None) f then None
          else Some (filter (\<lambda>p. \<not> (case map_of f (pr_id p) of None \<Rightarrow> False | Some rs \<Rightarrow> map_of rs resource \<noteq> None)) peers),
          f))"

definition route_with_backoff ::
  "instant \<Rightarrow> peer list \<Rightarrow> string \<Rightarrow> (peer list \<Rightarrow> scored_peer list) \<Rightarrow> failure_table \<Rightarrow> scored_peer list \<times> failure_table" where
  "route_with_backoff now peers resource route f =
     (let preferred = route peers
      in case available_peers now peers resource f of
           (None, f) \<Rightarrow> (preferred, f)
         | (Some available, f) \<Rightarrow> (route available, f))"

definition fetch_guard_enter :: "string \<times> string \<Rightarrow> ((string \<times> string) \<times> nat) list \<Rightarrow> bool \<times> ((string \<times> string) \<times> nat) list" where
  "fetch_guard_enter key m =
     (let n = (case map_of m key of None \<Rightarrow> 0 | Some n \<Rightarrow> n) in (0 < n, AList.update key (n + 1) m))"

definition fetch_guard_drop :: "string \<times> string \<Rightarrow> ((string \<times> string) \<times> nat) list \<Rightarrow> ((string \<times> string) \<times> nat) list" where
  "fetch_guard_drop key m =
     (case map_of m key of
        None \<Rightarrow> m
      | Some n \<Rightarrow> if n - 1 = 0 then AList.delete key m else AList.update key (n - 1) m)"

section \<open>Fetching from a peer\<close>

datatype internal_tile_source = ITCache | ITBackend

fun internal_tile_source_as_str :: "internal_tile_source \<Rightarrow> string" where
  "internal_tile_source_as_str ITCache = ''cache''"
| "internal_tile_source_as_str ITBackend = ''backend''"

definition internal_tile_source_parse :: "string \<Rightarrow> internal_tile_source option" where
  "internal_tile_source_parse s = (if s = ''cache'' then Some ITCache else if s = ''backend'' then Some ITBackend else None)"

datatype internal_provider_negative = NegNotFound | NegGone

fun provider_negative_as_str :: "internal_provider_negative \<Rightarrow> string" where
  "provider_negative_as_str NegNotFound = ''not-found''"
| "provider_negative_as_str NegGone = ''gone''"

definition provider_negative_parse :: "string \<Rightarrow> internal_provider_negative option" where
  "provider_negative_parse s = (if s = ''not-found'' then Some NegNotFound else if s = ''gone'' then Some NegGone else None)"

record internal_fetch_response =
  ir_bytes :: bytes
  ir_tile_source :: "internal_tile_source option"
  ir_provider_cache_control :: "string option"
  ir_provider_age_seconds :: "u64 option"
  ir_provider_etag :: "string option"
  ir_provider_last_modified :: "string option"
  ir_content_encoding :: "string option"

datatype peer_fetch_error = PeerNotFound | PeerProviderNotFound | PeerProviderGone | PeerRetryable string | PeerFatal string

definition peer_error_retryable :: "peer_fetch_error \<Rightarrow> bool" where
  "peer_error_retryable e = (case e of PeerRetryable _ \<Rightarrow> True | _ \<Rightarrow> False)"

datatype provider_route_outcome = RouteResource internal_fetch_response | RouteNotFound | RouteGone

text \<open>What a backend is given: its own id and router, and the hash, peer directory, transport and
  clock. Its tables are part of the world, which other tasks change while it waits.\<close>

type_synonym ('x, 'm) peer_world = "('x peer_rest_scheme, 'm) reader_world"

record ('x, 'm) peer_env =
  pe_self :: string
  pe_router :: hrw_router
  pe_xxh :: "bytes \<Rightarrow> u64"
  pe_peers :: "('x, 'm) peer_world \<Rightarrow> peer list \<times> ('x, 'm) peer_world"
  pe_fetch :: "peer \<Rightarrow> string \<Rightarrow> ('x, 'm) peer_world \<Rightarrow> (peer_fetch_error + internal_fetch_response) \<times> ('x, 'm) peer_world"
  pe_now :: "('x, 'm) peer_world \<Rightarrow> instant \<times> ('x, 'm) peer_world"

abbreviation update_failures :: "(failure_table \<Rightarrow> failure_table) \<Rightarrow> ('x, 'm) peer_world \<Rightarrow> ('x, 'm) peer_world" where
  "update_failures f w \<equiv> w\<lparr>wd_rest := (wd_rest w)\<lparr>pt_failures := f (pt_failures (wd_rest w))\<rparr>\<rparr>"

abbreviation update_inflight where
  "update_inflight f w \<equiv> w\<lparr>wd_rest := (wd_rest w)\<lparr>pt_inflight := f (pt_inflight (wd_rest w))\<rparr>\<rparr>"

definition fetch_from_peer ::
  "('x, 'm) peer_env \<Rightarrow> peer \<Rightarrow> string \<Rightarrow> string \<Rightarrow> ('x, 'm) peer_world \<Rightarrow>
     (peer_fetch_error + internal_fetch_response) \<times> ('x, 'm) peer_world" where
  "fetch_from_peer P p path kind w =
     (let resource = peer_resource_label kind; key = (pr_id p, path);
          w = update_inflight (\<lambda>m. snd (fetch_guard_enter key m)) w
      in case pe_fetch P p path w of
           (result, w) \<Rightarrow>
             let w = update_inflight (fetch_guard_drop key) w
             in case result of
                  Inl e \<Rightarrow>
                    if peer_error_retryable e
                    then (case pe_now P w of (now, w) \<Rightarrow> (result, update_failures (record_failure (pr_id p) resource (now + peer_retry_backoff)) w))
                    else (result, update_failures (clear_failure (pr_id p) resource) w)
                | Inr _ \<Rightarrow> (result, update_failures (clear_failure (pr_id p) resource) w))"

definition is_self :: "('x, 'm) peer_env \<Rightarrow> peer \<Rightarrow> bool" where
  "is_self P p \<longleftrightarrow> pr_id p = pe_self P"

section \<open>Routing\<close>

definition route_now ::
  "('x, 'm) peer_env \<Rightarrow> string \<Rightarrow> (peer list \<Rightarrow> scored_peer list) \<Rightarrow> ('x, 'm) peer_world \<Rightarrow> scored_peer list \<times> ('x, 'm) peer_world" where
  "route_now P resource route w =
     (case pe_peers P w of
        (peers, w) \<Rightarrow>
          (case pe_now P w of
             (now, w) \<Rightarrow>
               (let rf = route_with_backoff now peers resource route (pt_failures (wd_rest w))
                in (fst rf, update_failures (\<lambda>_. snd rf) w))))"

definition route_tileset_for :: "('x, 'm) peer_env \<Rightarrow> tileset_id \<Rightarrow> string \<Rightarrow> ('x, 'm) peer_world \<Rightarrow> scored_peer list \<times> ('x, 'm) peer_world" where
  "route_tileset_for P t kind = route_now P (peer_resource_label kind) (\<lambda>ps. route_tileset (pe_xxh P) (pe_router P) ps t)"

definition route_tile_for :: "('x, 'm) peer_env \<Rightarrow> tileset_id \<Rightarrow> u64 \<Rightarrow> string \<Rightarrow> ('x, 'm) peer_world \<Rightarrow> scored_peer list \<times> ('x, 'm) peer_world" where
  "route_tile_for P t tile_id kind = route_now P (peer_resource_label kind) (\<lambda>ps. route_tile_group (pe_xxh P) (pe_router P) ps t tile_id)"

definition route_derived_tile :: "('x, 'm) peer_env \<Rightarrow> string \<Rightarrow> u64 \<Rightarrow> ('x, 'm) peer_world \<Rightarrow> scored_peer list \<times> ('x, 'm) peer_world" where
  "route_derived_tile P key tile_id = route_now P (peer_resource_label ''derived'') (\<lambda>ps. route_tile_group (pe_xxh P) (pe_router P) ps key tile_id)"

definition route_provider_for :: "('x, 'm) peer_env \<Rightarrow> provider_request \<Rightarrow> ('x, 'm) peer_world \<Rightarrow> scored_peer list \<times> ('x, 'm) peer_world" where
  "route_provider_for P q =
     route_now P (provider_kind_as_str (provider_kind (pq_resource q))) (\<lambda>ps. route_key (pe_xxh P) (pe_router P) ps (placement_key q))"

text \<open>The loop over the candidates of an optional fetch; \<open>None\<close> is the local fallback.\<close>

fun fetch_candidates ::
  "('x, 'm) peer_env \<Rightarrow> scored_peer list \<Rightarrow> string \<Rightarrow> string \<Rightarrow> ('x, 'm) peer_world \<Rightarrow>
     internal_fetch_response option \<times> ('x, 'm) peer_world" where
  "fetch_candidates P [] path kind w = (None, w)"
| "fetch_candidates P (c # cs) path kind w =
     (if is_self P (sp_peer c) then (None, w)
      else case fetch_from_peer P (sp_peer c) path kind w of
        (Inr response, w) \<Rightarrow> (Some response, w)
      | (Inl e, w) \<Rightarrow>
          if e = PeerNotFound then (None, w)
          else if peer_error_retryable e then fetch_candidates P cs path kind w
          else (None, w))"

definition route_fetch_optional_response_candidates ::
  "('x, 'm) peer_env \<Rightarrow> scored_peer list \<Rightarrow> string \<Rightarrow> string \<Rightarrow> ('x, 'm) peer_world \<Rightarrow>
     internal_fetch_response option \<times> ('x, 'm) peer_world" where
  "route_fetch_optional_response_candidates P candidates path kind w =
     (if candidates = [] \<or> is_self P (sp_peer (hd candidates)) then (None, w)
      else fetch_candidates P candidates path kind w)"

definition route_fetch_optional ::
  "('x, 'm) peer_env \<Rightarrow> tileset_id \<Rightarrow> string \<Rightarrow> string \<Rightarrow> ('x, 'm) peer_world \<Rightarrow> bytes option \<times> ('x, 'm) peer_world" where
  "route_fetch_optional P t path kind w =
     (case route_tileset_for P t kind w of
        (candidates, w) \<Rightarrow>
          (case route_fetch_optional_response_candidates P candidates path kind w of
             (r, w) \<Rightarrow> (map_option ir_bytes r, w)))"

definition route_derived_resource ::
  "('x, 'm) peer_env \<Rightarrow> string \<Rightarrow> u64 \<Rightarrow> string \<Rightarrow> ('x, 'm) peer_world \<Rightarrow> bytes option \<times> ('x, 'm) peer_world" where
  "route_derived_resource P key tile_id path w =
     (case route_derived_tile P key tile_id w of
        (candidates, w) \<Rightarrow>
          (case route_fetch_optional_response_candidates P candidates path ''derived'' w of
             (r, w) \<Rightarrow> (map_option ir_bytes r, w)))"

fun provider_candidates ::
  "('x, 'm) peer_env \<Rightarrow> scored_peer list \<Rightarrow> string \<Rightarrow> string \<Rightarrow> ('x, 'm) peer_world \<Rightarrow>
     provider_route_outcome option \<times> ('x, 'm) peer_world" where
  "provider_candidates P [] path kind w = (None, w)"
| "provider_candidates P (c # cs) path kind w =
     (if is_self P (sp_peer c) then (None, w)
      else case fetch_from_peer P (sp_peer c) path kind w of
        (Inr response, w) \<Rightarrow> (Some (RouteResource response), w)
      | (Inl e, w) \<Rightarrow>
          if e = PeerProviderNotFound then (Some RouteNotFound, w)
          else if e = PeerProviderGone then (Some RouteGone, w)
          else if peer_error_retryable e then provider_candidates P cs path kind w
          else (None, w))"

definition route_provider_response_candidates ::
  "('x, 'm) peer_env \<Rightarrow> scored_peer list \<Rightarrow> string \<Rightarrow> string \<Rightarrow> ('x, 'm) peer_world \<Rightarrow>
     provider_route_outcome option \<times> ('x, 'm) peer_world" where
  "route_provider_response_candidates P candidates path kind w =
     (if candidates = [] \<or> is_self P (sp_peer (hd candidates)) then (None, w)
      else provider_candidates P candidates path kind w)"

definition route_provider_request ::
  "('x, 'm) peer_env \<Rightarrow> provider_request \<Rightarrow> ('x, 'm) peer_world \<Rightarrow> provider_route_outcome option \<times> ('x, 'm) peer_world" where
  "route_provider_request P q w =
     (case route_provider_for P q w of
        (candidates, w) \<Rightarrow>
          route_provider_response_candidates P candidates (provider_internal_path (pq_resource q))
            (provider_kind_as_str (provider_kind (pq_resource q))) w)"

section \<open>Bootstrap transfers\<close>

datatype bootstrap_wire_error =
    BootstrapTooLarge | TransferTooLarge | TransferTooShort | BootstrapLengthTooLarge | TransferOverflow | TransferTruncated

definition decode_bootstrap_wire :: "bytes \<Rightarrow> bool \<Rightarrow> bootstrap_wire_error + bytes \<times> bytes option" where
  "decode_bootstrap_wire body include_metadata =
     (if \<not> include_metadata
      then (if min_bootstrap_bytes < length body then Inl BootstrapTooLarge else Inr (body, None))
      else if 8 + min_bootstrap_bytes + default_max_decompressed_bytes < length body then Inl TransferTooLarge
      else if length body < 8 then Inl TransferTooShort
      else let bootstrap_len = le_value (take 8 body)
           in if min_bootstrap_bytes < bootstrap_len then Inl BootstrapLengthTooLarge
              else case usize_checked_add 8 bootstrap_len of
                None \<Rightarrow> Inl TransferOverflow
              | Some bootstrap_end \<Rightarrow>
                  if length body < bootstrap_end then Inl TransferTruncated
                  else Inr (take bootstrap_len (drop 8 body),
                            if bootstrap_end < length body then Some (drop bootstrap_end body) else None))"

text \<open>The body the bootstrap endpoint answers with.\<close>

definition encode_bootstrap_wire :: "bytes \<times> bytes option \<Rightarrow> bytes" where
  "encode_bootstrap_wire tr =
     (case tr of
        (bootstrap, Some metadata) \<Rightarrow> le_bytes 8 (length bootstrap) @ bootstrap @ metadata
      | (bootstrap, None) \<Rightarrow> bootstrap)"

definition route_bootstrap ::
  "('x, 'm) peer_env \<Rightarrow> tileset_id \<Rightarrow> bool \<Rightarrow> ('x, 'm) peer_world \<Rightarrow>
     (bootstrap_wire_error + (bytes \<times> bytes option) option) \<times> ('x, 'm) peer_world" where
  "route_bootstrap P t include_metadata w =
     (case route_fetch_optional P t (bootstrap_path t include_metadata) ''bootstrap'' w of
        (None, w) \<Rightarrow> (Inr None, w)
      | (Some body, w) \<Rightarrow>
          (case decode_bootstrap_wire body include_metadata of
             Inl e \<Rightarrow> (Inl e, w)
           | Inr tr \<Rightarrow> (Inr (Some tr), w)))"

definition route_leaf ::
  "('x, 'm) peer_env \<Rightarrow> tileset_id \<Rightarrow> u64 \<Rightarrow> nat \<Rightarrow> ('x, 'm) peer_world \<Rightarrow> bytes option \<times> ('x, 'm) peer_world" where
  "route_leaf P t off len = route_fetch_optional P t (leaf_path t off len) ''leaf''"

definition fetch_tile_bytes ::
  "('x, 'm) peer_env \<Rightarrow> peer \<Rightarrow> tileset_id \<Rightarrow> u64 \<Rightarrow> ('x, 'm) peer_world \<Rightarrow>
     (peer_fetch_error + internal_fetch_response) \<times> ('x, 'm) peer_world" where
  "fetch_tile_bytes P p t tile_id = fetch_from_peer P p (tile_path t tile_id) ''tile''"

section \<open>The router ranks the peers\<close>

lemma insert_after_simps:
  "insert_after f x [] = [x]"
  "insert_after f x (y # ys) = (if f y \<le> f x then y # insert_after f x ys else x # y # ys)"
  by (simp_all add: insert_after_def)

lemma take_insert_after: "take k (insert_after f x (take k ys)) = take k (insert_after f x ys)"
proof (induction ys arbitrary: k)
  case (Cons y ys)
  then show ?case by (cases k) (auto simp: insert_after_simps take_Cons' min_def)
qed simp

lemma length_insert_after [simp]: "length (insert_after f x ys) = Suc (length ys)"
  by (induction ys) (simp_all add: insert_after_simps)

lemma push_pop_take:
  "(if k < length (heap_push p (take k h)) then heap_pop (heap_push p (take k h)) else heap_push p (take k h))
     = take k (insert_after scored_key p h)"
proof -
  let ?h = "heap_push p (take k h)"
  have "length ?h \<le> Suc k" by (simp add: heap_push_def)
  then have "(if k < length ?h then heap_pop ?h else ?h) = take k ?h"
    by (auto simp: heap_pop_def butlast_conv_take le_Suc_eq)
  then show ?thesis by (simp add: heap_push_def take_insert_after)
qed

definition score_peer :: "(bytes \<Rightarrow> u64) \<Rightarrow> string \<Rightarrow> u64 \<Rightarrow> peer \<Rightarrow> scored_peer" where
  "score_peer xxh key g p = \<lparr>sp_score = peer_weight xxh key g (pr_id p), sp_peer = p\<rparr>"

lemma route_group_sort:
  "route_group xxh r peers key g = take (hr_candidate_count r) (sort_key scored_key (map (score_peer xxh key g) peers))"
proof (induction peers rule: rev_induct)
  case Nil
  show ?case by (simp add: route_group_def)
next
  case (snoc p ps)
  have "route_group xxh r (ps @ [p]) key g =
      (let h = heap_push (score_peer xxh key g p) (route_group xxh r ps key g)
       in if hr_candidate_count r < length h then heap_pop h else h)"
    by (simp add: route_group_def score_peer_def)
  with snoc show ?case
    by (simp add: Let_def push_pop_take sort_key_snoc del: sort_key_simps)
qed

text \<open>The ranking of rendezvous hashing, with ties by id.\<close>

definition rank_weight :: "(bytes \<Rightarrow> u64) \<Rightarrow> string \<Rightarrow> u64 \<Rightarrow> peer \<Rightarrow> u64 \<times> string reverse" where
  "rank_weight xxh key g p = (peer_weight xxh key g (pr_id p), Reverse (pr_id p))"

definition ranked_peers :: "(bytes \<Rightarrow> u64) \<Rightarrow> u64 \<Rightarrow> string \<Rightarrow> u64 \<Rightarrow> nat \<Rightarrow> peer list \<Rightarrow> peer list" where
  "ranked_peers xxh gsz key g k ps =
     map sp_peer (route_group xxh \<lparr>hr_candidate_count = k, hr_tile_group_size = gsz\<rparr> ps key g)"

lemma insort_key_map: "insort_key f (g x) (map g ys) = map g (insort_key (\<lambda>a. f (g a)) x ys)"
  by (induction ys) simp_all

lemma sort_key_map: "sort_key f (map g xs) = map g (sort_key (\<lambda>a. f (g a)) xs)"
  by (induction xs) (simp_all add: insort_key_map)

lemma insort_key_cong: "(\<And>a b. f a \<le> f b \<longleftrightarrow> g a \<le> g b) \<Longrightarrow> insort_key f x ys = insort_key g x ys"
  by (induction ys) simp_all

lemma sort_key_cong: "(\<And>a b. f a \<le> f b \<longleftrightarrow> g a \<le> g b) \<Longrightarrow> sort_key f xs = sort_key g xs"
  by (induction xs) (simp_all add: insort_key_cong [of f g])

lemma scored_key_le:
  "scored_key (score_peer xxh key g a) \<le> scored_key (score_peer xxh key g b)
     \<longleftrightarrow> Reverse (rank_weight xxh key g a) \<le> Reverse (rank_weight xxh key g b)"
  by (auto simp: scored_key_def score_peer_def rank_weight_def less_eq_prod_def)

lemma sp_peer_score [simp]: "sp_peer (score_peer xxh key g p) = p"
  by (simp add: score_peer_def)

interpretation tile_ranking: ranking "rank_weight xxh key g" "ranked_peers xxh gsz key g" for xxh key g gsz
proof
  show "ranked_peers xxh gsz key g k ns = take k (sort_key (\<lambda>n. Reverse (rank_weight xxh key g n)) ns)" for k ns
    by (simp add: ranked_peers_def route_group_sort sort_key_map take_map comp_def
        sort_key_cong [of "\<lambda>a. scored_key (score_peer xxh key g a)", OF scored_key_le])
qed

lemma route_group_ranked:
  "route_group xxh r ps key g = map (score_peer xxh key g) (ranked_peers xxh (hr_tile_group_size r) key g (hr_candidate_count r) ps)"
  by (simp add: ranked_peers_def route_group_sort sort_key_map take_map comp_def)

lemma ranked_peers_perm:
  assumes "distinct (map pr_id ps)" and "mset ps = mset qs"
  shows "ranked_peers xxh z key g k ps = ranked_peers xxh z key g k qs"
proof -
  have "inj_on (\<lambda>n. Reverse (rank_weight xxh key g n)) (set ps)"
    using assms(1) by (auto simp: inj_on_def rank_weight_def distinct_map)
  from sort_key_inj_key_eq [of ps "sort_key (\<lambda>n. Reverse (rank_weight xxh key g n)) qs", OF _ this] assms(2)
  show ?thesis by (simp add: tile_ranking.select_sorted)
qed

lemma sp_peer_route_group:
  "sp_peer ` set (route_group xxh r ps key g) = set (ranked_peers xxh (hr_tile_group_size r) key g (hr_candidate_count r) ps)"
  by (auto simp: route_group_ranked image_image)

lemma route_group_dominates:
  assumes "c \<in> set (route_group xxh r ps key g)" and "d \<in> set ps" and "d \<notin> sp_peer ` set (route_group xxh r ps key g)"
  shows "peer_weight xxh key g (pr_id d) \<le> sp_score c"
proof -
  from assms(1) obtain a where "a \<in> set (ranked_peers xxh (hr_tile_group_size r) key g (hr_candidate_count r) ps)"
    and c: "c = score_peer xxh key g a" by (auto simp: route_group_ranked)
  from tile_ranking.select_dominates [OF this(1) assms(2)] assms(3)
  have "rank_weight xxh key g d \<le> rank_weight xxh key g a" by (simp add: sp_peer_route_group)
  with c show ?thesis by (auto simp: rank_weight_def score_peer_def less_eq_prod_def)
qed

section \<open>What the failure table suppresses\<close>

definition failure_at :: "failure_table \<Rightarrow> string \<Rightarrow> string \<Rightarrow> instant option" where
  "failure_at f p resource = (case map_of f p of None \<Rightarrow> None | Some rs \<Rightarrow> map_of rs resource)"

definition suppressed :: "failure_table \<Rightarrow> instant \<Rightarrow> string \<Rightarrow> string \<Rightarrow> bool" where
  "suppressed f now resource p = (case failure_at f p resource of None \<Rightarrow> False | Some retry_at \<Rightarrow> now < retry_at)"

definition failure_ok :: "failure_table \<Rightarrow> bool" where
  "failure_ok f \<longleftrightarrow> distinct (map fst f) \<and> list_all (\<lambda>(_, rs). distinct (map fst rs)) f"

lemma failure_at_record:
  "failure_at (record_failure p r due f) p' r' = (if p' = p \<and> r' = r then Some due else failure_at f p' r')"
  by (auto simp: failure_at_def record_failure_def update_conv' split: option.splits)

lemma failure_at_clear:
  "failure_at (clear_failure p r f) p' r' = (if p' = p \<and> r' = r then None else failure_at f p' r')"
proof (cases "map_of f p")
  case None
  then show ?thesis by (auto simp: failure_at_def clear_failure_def)
next
  case (Some rs)
  have "map_of rs r' = None" if "AList.delete r rs = []" "r' \<noteq> r"
    using delete_conv' [of r rs] that by (metis fun_upd_other map_of.simps(1))
  with Some show ?thesis by (auto simp: failure_at_def clear_failure_def Let_def update_conv' delete_conv' split: option.splits)
qed

lemma failure_ok_lookup: "failure_ok f \<Longrightarrow> map_of f p = Some rs \<Longrightarrow> distinct (map fst rs)"
  by (auto simp: failure_ok_def list_all_iff dest: map_of_SomeD)

lemma failure_ok_update: "failure_ok f \<Longrightarrow> distinct (map fst rs) \<Longrightarrow> failure_ok (AList.update p rs f)"
proof -
  assume f: "failure_ok f" and rs: "distinct (map fst rs)"
  then have "list_all (\<lambda>(_, rs). distinct (map fst rs)) (AList.update p rs f)"
    unfolding failure_ok_def by (induction f) auto
  with f show ?thesis by (simp add: failure_ok_def distinct_update)
qed

lemma failure_ok_record: "failure_ok f \<Longrightarrow> failure_ok (record_failure p r due f)"
  unfolding record_failure_def
  by (rule failure_ok_update) (auto simp: distinct_update split: option.splits dest: failure_ok_lookup)

lemma failure_ok_clear: "failure_ok f \<Longrightarrow> failure_ok (clear_failure p r f)"
proof (cases "map_of f p")
  case (Some rs)
  assume f: "failure_ok f"
  have "failure_ok (AList.delete p f)"
    using f by (auto simp: failure_ok_def list_all_iff distinct_map_filter AList.delete_eq)
  moreover have "failure_ok (AList.update p (AList.delete r rs) f)"
    using failure_ok_lookup [OF f Some] by (rule failure_ok_update [OF f distinct_delete])
  ultimately show ?thesis using Some by (simp add: clear_failure_def Let_def)
qed (simp add: clear_failure_def)

lemma map_of_filter_distinct:
  "distinct (map fst al) \<Longrightarrow> map_of (filter P al) k = (case map_of al k of None \<Rightarrow> None | Some v \<Rightarrow> if P (k, v) then Some v else None)"
  by (induction al) (auto split: option.splits simp: map_of_eq_None_iff rev_image_eqI)

lemma prune_failures_at:
  assumes "failure_ok f"
  shows "failure_at (prune_failures now f) p r =
    (case failure_at f p r of None \<Rightarrow> None | Some due \<Rightarrow> if now < due then Some due else None)"
proof -
  let ?g = "\<lambda>(p :: string, rs). (p, filter (\<lambda>(_ :: string, due). now < due) rs)"
  have fst: "map fst (map ?g f) = map fst f" by (induction f) auto
  have mo: "map_of (map ?g f) p = map_option (\<lambda>rs. filter (\<lambda>(_, due). now < due) rs) (map_of f p)" by (induction f) auto
  from assms have "distinct (map fst (map ?g f))" unfolding fst by (simp add: failure_ok_def)
  from map_of_filter_distinct [OF this] mo
  have "map_of (prune_failures now f) p =
      (case map_of f p of None \<Rightarrow> None | Some rs \<Rightarrow> let rs' = filter (\<lambda>(_, due). now < due) rs in if rs' \<noteq> [] then Some rs' else None)"
    by (simp add: prune_failures_def Let_def split: option.splits)
  moreover have "map_of (filter (\<lambda>(_, due). now < due) rs) r =
      (case map_of rs r of None \<Rightarrow> None | Some due \<Rightarrow> if now < due then Some due else None)" if "map_of f p = Some rs" for rs
    unfolding map_of_filter_distinct [OF failure_ok_lookup [OF assms that]] by (simp split: option.splits)
  ultimately show ?thesis
    by (auto simp: failure_at_def Let_def split: option.splits)
qed

lemma failure_ok_prune: "failure_ok f \<Longrightarrow> failure_ok (prune_failures now f)"
proof -
  assume f: "failure_ok f"
  have "map fst (map (\<lambda>(p, rs). (p, filter (\<lambda>(_, retry_at). now < retry_at) rs)) f) = map fst f" by (induction f) auto
  with f show ?thesis
    by (auto simp: failure_ok_def prune_failures_def list_all_iff distinct_map_filter simp del: map_map)
qed

lemma suppressed_prune: "failure_ok f \<Longrightarrow> now \<le> later \<Longrightarrow> suppressed (prune_failures now f) later r p = suppressed f later r p"
  by (auto simp: suppressed_def prune_failures_at split: option.splits)

lemma available_peers_eq:
  assumes "failure_ok f"
  shows "(case fst (available_peers now peers r f) of None \<Rightarrow> peers | Some ps \<Rightarrow> ps) = filter (\<lambda>p. \<not> suppressed f now r (pr_id p)) peers"
proof -
  let ?f = "prune_failures now f"
  have s: "suppressed f now r p \<longleftrightarrow> failure_at ?f p r \<noteq> None" for p
    by (simp add: suppressed_def prune_failures_at [OF assms] split: option.splits)
  have "failure_at ?f p r = None" if "\<not> list_ex (\<lambda>(_, rs). map_of rs r \<noteq> None) ?f" for p
    using that by (auto simp: failure_at_def list_ex_iff split: option.splits dest!: map_of_SomeD)
  then show ?thesis
    by (auto simp: available_peers_def Let_def s failure_at_def filter_id_conv split: option.splits intro!: filter_cong)
qed

text \<open>A fetch leaves its peer suppressed for the resource exactly for the back-off after a retryable failure.\<close>

lemma fetch_from_peer_suppresses:
  assumes "fetch_from_peer P p path kind w = (res, w')"
  shows "(\<exists>m. res = Inl (PeerRetryable m)) \<longrightarrow> (\<exists>t w1. t = fst (pe_now P w1) \<and>
           (\<forall>now. suppressed (pt_failures (wd_rest w')) now (peer_resource_label kind) (pr_id p) \<longleftrightarrow> now < t + peer_retry_backoff))"
    and "(\<nexists>m. res = Inl (PeerRetryable m)) \<longrightarrow>
           (\<forall>now. \<not> suppressed (pt_failures (wd_rest w')) now (peer_resource_label kind) (pr_id p))"
proof -
  obtain r w1 where f: "pe_fetch P p path (update_inflight (\<lambda>m. snd (fetch_guard_enter (pr_id p, path) m)) w) = (r, w1)" by fastforce
  obtain t w2 where n: "pe_now P (update_inflight (fetch_guard_drop (pr_id p, path)) w1) = (t, w2)" by fastforce
  have res: "res = r" and retry: "\<And>m. r = Inl (PeerRetryable m) \<Longrightarrow>
      w' = update_failures (record_failure (pr_id p) (peer_resource_label kind) (t + peer_retry_backoff)) w2"
    and clear: "\<nexists>m. r = Inl (PeerRetryable m) \<Longrightarrow>
      w' = update_failures (clear_failure (pr_id p) (peer_resource_label kind)) (update_inflight (fetch_guard_drop (pr_id p, path)) w1)"
    using assms f n by (auto simp: fetch_from_peer_def Let_def peer_error_retryable_def split: sum.splits if_splits peer_fetch_error.splits)
  show "(\<exists>m. res = Inl (PeerRetryable m)) \<longrightarrow> (\<exists>t w1. t = fst (pe_now P w1) \<and>
      (\<forall>now. suppressed (pt_failures (wd_rest w')) now (peer_resource_label kind) (pr_id p) \<longleftrightarrow> now < t + peer_retry_backoff))"
  proof (intro impI exI conjI allI)
    show "t = fst (pe_now P (update_inflight (fetch_guard_drop (pr_id p, path)) w1))" using n by simp
    show "suppressed (pt_failures (wd_rest w')) now (peer_resource_label kind) (pr_id p) \<longleftrightarrow> now < t + peer_retry_backoff"
      if "\<exists>m. res = Inl (PeerRetryable m)" for now
      using that res retry by (auto simp: suppressed_def failure_at_record)
  qed
  show "(\<nexists>m. res = Inl (PeerRetryable m)) \<longrightarrow>
      (\<forall>now. \<not> suppressed (pt_failures (wd_rest w')) now (peer_resource_label kind) (pr_id p))"
    using res clear by (auto simp: suppressed_def failure_at_clear)
qed

section \<open>One loader of the peer snapshot\<close>

text \<open>The state and the number of load guards alive.\<close>

inductive snapshot_step :: "duration \<Rightarrow> peer_snapshot_state \<times> nat \<Rightarrow> peer_snapshot_state \<times> nat \<Rightarrow> bool" for ttl :: duration where
  snapshot_begin: "fresh_peer_snapshot st ttl now = None \<Longrightarrow> \<not> ss_loading st \<Longrightarrow> snapshot_step ttl (st, n) (st\<lparr>ss_loading := True\<rparr>, Suc n)"
| snapshot_complete: "snapshot_step ttl (st, Suc n) (snapshot_store now peers, n)"
| snapshot_cancel: "snapshot_step ttl (st, Suc n) (snapshot_load_drop st, n)"

inductive_cases snapshot_stepE: "snapshot_step ttl s s'"

definition snapshot_inv :: "peer_snapshot_state \<times> nat \<Rightarrow> bool" where
  "snapshot_inv s \<longleftrightarrow> snd s = (if ss_loading (fst s) then 1 else 0)"

interpretation snapshots: transition_system "\<lambda>s. s = (peer_snapshot_new, 0)" "snapshot_step ttl" snapshot_inv for ttl
  by unfold_locales (auto simp: snapshot_inv_def peer_snapshot_new_def snapshot_store_def snapshot_load_drop_def
      elim!: snapshot_stepE split: if_splits)

lemma snapshot_single_loader:
  "reach (\<lambda>s. s = (peer_snapshot_new, 0)) (snapshot_step ttl) (st, n) \<Longrightarrow> n \<le> 1 \<and> (ss_loading st \<longleftrightarrow> n = 1)"
  using snapshots.reachable_inv [of ttl "(st, n)"] by (auto simp: snapshot_inv_def split: if_splits)

lemma snapshot_fresh:
  assumes "snapshot_get_or_load ttl us = Some peers"
  shows "\<exists>u\<in>set us. su_loaded u = peers
    \<or> (\<exists>st now stored. (st, now) \<in> {(su_state u, su_now u), (su_locked_state u, su_locked_now u)}
         \<and> ss_cached st = Some (stored, peers) \<and> saturating_duration_since now stored < ttl)"
  using assms
proof (induction us)
  case (Cons u us)
  have fresh: "\<exists>stored. ss_cached st = Some (stored, p) \<and> saturating_duration_since now stored < ttl"
    if "fresh_peer_snapshot st ttl now = Some p" for st now p
    using that by (auto simp: fresh_peer_snapshot_def split: option.splits if_splits)
  show ?case
  proof (cases "snapshot_get_or_load_turn ttl u")
    case None
    with Cons show ?thesis by auto
  next
    case (Some r)
    with Cons.prems have "fst r = peers" by (cases r) simp
    with Some consider "fresh_peer_snapshot (su_state u) ttl (su_now u) = Some peers"
      | "fresh_peer_snapshot (su_locked_state u) ttl (su_locked_now u) = Some peers" | "su_loaded u = peers"
      by (auto simp: snapshot_get_or_load_turn_def split: option.splits if_splits)
    then show ?thesis by cases (auto dest!: fresh)
  qed
qed simp

section \<open>The bootstrap frame\<close>

lemma length_le_bytes [simp]: "length (le_bytes k v) = k"
  by (induction k v rule: le_bytes.induct) simp_all

lemma le_value_le_bytes: "le_value (le_bytes k v) = v mod 256 ^ k"
proof (induction k v rule: le_bytes.induct)
  case (2 k v)
  have "unat (of_nat v :: 8 word) = v mod 256" by (simp add: unat_of_nat take_bit_eq_mod)
  moreover have "v mod 256 + 256 * (v div 256 mod 256 ^ k) = v mod 256 ^ Suc k"
    using mod_mult2_eq [of v 256 "256 ^ k"] by simp
  ultimately show ?case using 2 by (simp add: le_value_def)
qed (simp add: le_value_def)

lemma bootstrap_decode_framed:
  assumes "length bs \<le> min_bootstrap_bytes" and "length md \<le> default_max_decompressed_bytes"
  shows "decode_bootstrap_wire (encode_bootstrap_wire (bs, Some md)) True = Inr (bs, if md = [] then None else Some md)"
  using assms
  by (simp add: decode_bootstrap_wire_def encode_bootstrap_wire_def le_value_le_bytes min_bootstrap_bytes_def
      usize_checked_add_def usize_max_def Let_def)

text \<open>The first eight bytes of an archive, read as a length, are far beyond any bootstrap.\<close>

lemma magic_le_value:
  assumes "take 7 bs = [0x50, 0x4d, 0x54, 0x69, 0x6c, 0x65, 0x73]"
  shows "min_bootstrap_bytes < le_value (take 8 bs)"
proof -
  from assms have "take 8 bs = [0x50, 0x4d, 0x54, 0x69, 0x6c, 0x65, 0x73] @ take 1 (drop 7 bs)"
    using take_add [of 7 1 bs] by simp
  then show ?thesis by (simp add: le_value_def min_bootstrap_bytes_def)
qed

lemma header_magic: "header_parse bs = Inr h \<Longrightarrow> take 7 bs = [0x50, 0x4d, 0x54, 0x69, 0x6c, 0x65, 0x73] \<and> header_size \<le> length bs"
  by (auto simp: header_parse_def split: if_splits)

lemma decode_unframed:
  assumes "take 7 bs = [0x50, 0x4d, 0x54, 0x69, 0x6c, 0x65, 0x73]"
  shows "\<exists>e. decode_bootstrap_wire (encode_bootstrap_wire (bs, None)) True = Inl e"
  using magic_le_value [OF assms] by (simp add: decode_bootstrap_wire_def encode_bootstrap_wire_def Let_def)

lemma decode_transfer_ok:
  assumes h: "header_parse (take header_size A) = Inr h" and A: "length A \<le> u64_max"
    and tr: "transfer_ok A (Some tr)" and md: "snd tr \<noteq> None \<longrightarrow> md"
    and dec: "decode_bootstrap_wire (encode_bootstrap_wire tr) md = Inr tr'"
  shows "transfer_ok A (Some tr')"
proof -
  obtain bs mb where p: "tr = (bs, mb)" by fastforce
  with tr have bs: "bs = take (length bs) A" by (simp add: transfer_ok_def)
  show ?thesis
  proof (cases mb)
    case (Some m)
    have "length bs \<le> u64_max" using bs A by (metis length_take min.bounded_iff min.cobounded1 order_trans)
    then have "length bs mod 256 ^ 8 = length bs" by (simp add: u64_max_def)
    with dec md Some p have "tr' = (bs, if m = [] then None else Some m)"
      by (auto simp: decode_bootstrap_wire_def encode_bootstrap_wire_def le_value_le_bytes usize_checked_add_def Let_def
          split: if_splits)
    with tr p Some show ?thesis by (auto simp: transfer_ok_def)
  next
    case None
    show ?thesis
    proof (cases md)
      case False
      with dec None p tr show ?thesis by (auto simp: decode_bootstrap_wire_def encode_bootstrap_wire_def split: if_splits)
    next
      case True
      have "8 \<le> length bs" using dec True None p by (auto simp: decode_bootstrap_wire_def encode_bootstrap_wire_def split: if_splits)
      then have "take 7 bs = take 7 (take header_size A)"
        by (subst bs) (simp add: header_size_def min_def)
      with header_magic [OF h] decode_unframed [of bs] dec True None p show ?thesis by auto
    qed
  qed
qed

section \<open>Properties\<close>

text \<open>C29: Nodes agree on where a tile group lives: whatever order their peer sets are listed in, they
  rank the same candidates, as many as configured, none outweighed by a peer left out; a peer that is
  not a candidate can leave without moving anything, and all tiles of a group go together.\<close>

theorem peer_routing_agrees:
  assumes "distinct (map pr_id ps)" and "mset ps = mset qs"
  shows "route_tile_group xxh r ps t i = route_tile_group xxh r qs t i
       \<and> length (route_tile_group xxh r ps t i) = min (hr_candidate_count r) (length ps)
       \<and> sorted (map scored_key (route_tile_group xxh r ps t i))
       \<and> (\<forall>c d. c \<in> set (route_tile_group xxh r ps t i) \<and> d \<in> set ps \<and> d \<notin> sp_peer ` set (route_tile_group xxh r ps t i)
            \<longrightarrow> peer_weight xxh t (i div hr_tile_group_size r) (pr_id d) \<le> sp_score c)
       \<and> (x \<notin> sp_peer ` set (route_tile_group xxh r ps t i) \<longrightarrow>
            route_tile_group xxh r (removeAll x ps) t i = route_tile_group xxh r ps t i)
       \<and> (i' div hr_tile_group_size r = i div hr_tile_group_size r \<longrightarrow>
            route_tile_group xxh r ps t i' = route_tile_group xxh r ps t i)"
proof (intro conjI allI impI)
  show "route_tile_group xxh r ps t i = route_tile_group xxh r qs t i"
    by (simp add: route_tile_group_def route_group_ranked ranked_peers_perm [OF assms])
  show "length (route_tile_group xxh r ps t i) = min (hr_candidate_count r) (length ps)"
    by (simp add: route_tile_group_def route_group_ranked tile_ranking.select_length)
  show "sorted (map scored_key (route_tile_group xxh r ps t i))"
    by (simp add: route_tile_group_def route_group_sort take_map [symmetric])
  show "peer_weight xxh t (i div hr_tile_group_size r) (pr_id d) \<le> sp_score c"
    if "c \<in> set (route_tile_group xxh r ps t i) \<and> d \<in> set ps \<and> d \<notin> sp_peer ` set (route_tile_group xxh r ps t i)" for c d
    using that route_group_dominates unfolding route_tile_group_def by blast
  show "route_tile_group xxh r (removeAll x ps) t i = route_tile_group xxh r ps t i"
    if "x \<notin> sp_peer ` set (route_tile_group xxh r ps t i)"
    using that [unfolded route_tile_group_def sp_peer_route_group, THEN tile_ranking.select_removeAll]
    by (simp add: route_tile_group_def route_group_ranked)
qed (simp add: route_tile_group_def)

theorem peer_routing_agrees_witness:
  "route_tile_group (\<lambda>bs. of_nat (length bs)) (hrw_router_new 1 512) [\<lparr>pr_id = ''a'', pr_addr = []\<rparr>, \<lparr>pr_id = ''bb'', pr_addr = []\<rparr>] ''t'' 3
   = route_tile_group (\<lambda>bs. of_nat (length bs)) (hrw_router_new 1 512) [\<lparr>pr_id = ''bb'', pr_addr = []\<rparr>, \<lparr>pr_id = ''a'', pr_addr = []\<rparr>] ''t'' 3"
  using peer_routing_agrees [of "[\<lparr>pr_id = ''a'', pr_addr = []\<rparr>, \<lparr>pr_id = ''bb'', pr_addr = []\<rparr>]"
      "[\<lparr>pr_id = ''bb'', pr_addr = []\<rparr>, \<lparr>pr_id = ''a'', pr_addr = []\<rparr>]" "\<lambda>bs. of_nat (length bs)" "hrw_router_new 1 512" "''t''" 3]
  by simp



text \<open>C31: A bootstrap crosses nodes unchanged, alone or with its metadata. But an archive without
  metadata, asked for together with its metadata, is sent without the length prefix the requester
  expects, and every such transfer is refused.\<close>

theorem bootstrap_frame:
  assumes "header_parse (take header_size bs) = Inr h" and "length bs \<le> min_bootstrap_bytes"
    and "md \<noteq> []" and "length md \<le> default_max_decompressed_bytes"
  shows "decode_bootstrap_wire (encode_bootstrap_wire (bs, None)) False = Inr (bs, None)
       \<and> decode_bootstrap_wire (encode_bootstrap_wire (bs, Some md)) True = Inr (bs, Some md)
       \<and> decode_bootstrap_wire (encode_bootstrap_wire (bs, None)) True = Inl BootstrapLengthTooLarge"
proof (intro conjI)
  have "take 7 bs = [0x50, 0x4d, 0x54, 0x69, 0x6c, 0x65, 0x73]" and len: "header_size \<le> length bs"
    using header_magic [OF assms(1)] by (simp_all add: header_size_def)
  from magic_le_value [OF this(1)] assms(2) len
  show "decode_bootstrap_wire (encode_bootstrap_wire (bs, None)) True = Inl BootstrapLengthTooLarge"
    by (simp add: decode_bootstrap_wire_def encode_bootstrap_wire_def header_size_def)
qed (use assms(2-4) bootstrap_decode_framed in \<open>simp_all add: decode_bootstrap_wire_def [of _ False] encode_bootstrap_wire_def [of "(_, None)"]\<close>)

theorem bootstrap_frame_witness:
  "decode_bootstrap_wire (encode_bootstrap_wire (demo_archive, None)) True = Inl BootstrapLengthTooLarge"
proof -
  obtain h where "header_parse (take header_size demo_archive) = Inr h" using demo_header by blast
  from bootstrap_frame [OF this, of "[1]"] show ?thesis
    by (simp add: demo_archive_def min_bootstrap_bytes_def default_max_decompressed_bytes_def)
qed

end
