(* ===== verification/Tile_Resolver.thy ===== *)
theory Tile_Resolver
  imports Ishikari_Peers
begin

text \<open>
  \<^verbatim>\<open>crates/ishikari-core/src/storage/resolver.rs\<close> with the tile cache (\<^verbatim>\<open>cache.rs\<close>), the storage that
  joins chunk reads and peers (\<^verbatim>\<open>storage/pmtiles.rs\<close>), the internal endpoints of the server
  (\<^verbatim>\<open>servers/ishikari/src/server\<close> \<^verbatim>\<open>internal.rs\<close>, \<^verbatim>\<open>tileset/tile.rs\<close>, \<^verbatim>\<open>tileset/error.rs\<close>) and the peer
  transport (\<^verbatim>\<open>servers/ishikari/src/internal_transport.rs\<close>): how a node answers a tile request from its
  cache, from the peer that owns the tile, or from storage, and how it answers its peers.
\<close>

section \<open>The tile cache\<close>

record tile_cache_key =
  tk_tileset :: tileset_id
  tk_tile_id :: u64

datatype cached_tile = TileFound bytes string "string option" | TileNotFound

text \<open>Only absence expires.\<close>

definition tile_ttl_for :: "duration \<Rightarrow> cached_tile \<Rightarrow> duration option" where
  "tile_ttl_for negative_ttl v = (case v of TileFound _ _ _ \<Rightarrow> None | TileNotFound \<Rightarrow> Some negative_ttl)"

text \<open>What a node holds beside the index caches: the tables of its peer backend, the tile and tileset
  caches, the flag of the task's reads, and whatever else there is.\<close>

record ('m, 'y) node_rest = peer_rest +
  nr_tiles :: "tile_cache_key \<Rightarrow> cached_tile option"
  nr_infos :: "tileset_id \<Rightarrow> (header \<times> 'm) option"
  nr_waited :: bool
  nr_more :: 'y

type_synonym ('m, 'y) node_world = "(('m, 'y) node_rest, 'm) reader_world"

abbreviation update_rest :: "('x \<Rightarrow> 'x) \<Rightarrow> ('x, 'm) reader_world \<Rightarrow> ('x, 'm) reader_world" where
  "update_rest f w \<equiv> w\<lparr>wd_rest := f (wd_rest w)\<rparr>"

definition tile_cache_put :: "tile_cache_key \<Rightarrow> cached_tile \<Rightarrow> ('m, 'y) node_world \<Rightarrow> ('m, 'y) node_world" where
  "tile_cache_put k v w = update_rest (\<lambda>x. x\<lparr>nr_tiles := (nr_tiles x)(k \<mapsto> v)\<rparr>) w"

definition info_cache_put :: "tileset_id \<Rightarrow> header \<times> 'm \<Rightarrow> ('m, 'y) node_world \<Rightarrow> ('m, 'y) node_world" where
  "info_cache_put t i w = update_rest (\<lambda>x. x\<lparr>nr_infos := (nr_infos x)(t \<mapsto> i)\<rparr>) w"

section \<open>Tuning and cache weights\<close>

record resolver_tuning =
  tu_candidate_count :: nat
  tu_tile_group_size :: u64
  tu_chunk_size_bytes :: u64
  tu_max_fetch_chunks :: u64
  tu_chunk_fetch_merge_window :: duration
  tu_backend_fetch_concurrency :: nat
  tu_backend_fetch_max_inflight :: nat
  tu_tile_cache_max_bytes :: u64
  tu_chunk_cache_max_bytes :: u64
  tu_tile_negative_ttl :: duration

text \<open>\<open>ResolverTuningInput::resolve\<close>; \<open>None\<close> is the zero chunk size.\<close>

definition resolve_tuning :: "resolver_tuning \<Rightarrow> resolver_tuning option" where
  "resolve_tuning i =
     (if tu_chunk_size_bytes i = 0 then None
      else let concurrency = max (tu_backend_fetch_concurrency i) 1
           in Some (i\<lparr>tu_candidate_count := max (tu_candidate_count i) 1, tu_tile_group_size := max (tu_tile_group_size i) 1,
                      tu_max_fetch_chunks := max (tu_max_fetch_chunks i) 1, tu_backend_fetch_concurrency := concurrency,
                      tu_backend_fetch_max_inflight := max (tu_backend_fetch_max_inflight i) concurrency\<rparr>))"

definition effective_chunk_cache_capacity :: "u64 \<Rightarrow> u64" where
  "effective_chunk_cache_capacity requested = (if requested < 1024 * 1024 * 1024 then requested else 1024 * 1024 * 1024)"

text \<open>The weight of a cache entry: its payload and its key, a pointer and an index.\<close>

definition cache_entry_key_bytes :: nat where
  "cache_entry_key_bytes = 8 + 8"

definition cache_entry_weight :: "nat \<Rightarrow> nat" where
  "cache_entry_weight payload_bytes = min (usize_saturating_add cache_entry_key_bytes payload_bytes) u32_max"

definition tile_cache_entry_weight :: "nat option \<Rightarrow> nat" where
  "tile_cache_entry_weight payload = cache_entry_weight (case payload of None \<Rightarrow> 0 | Some n \<Rightarrow> n)"

definition tile_cache_weight :: "cached_tile \<Rightarrow> nat" where
  "tile_cache_weight v = tile_cache_entry_weight (case v of TileFound bs _ _ \<Rightarrow> Some (length bs) | TileNotFound \<Rightarrow> None)"

lemma tile_cache_weight_bounds: "cache_entry_key_bytes \<le> tile_cache_weight v \<and> tile_cache_weight v \<le> u32_max"
proof -
  have "16 \<le> min (min (16 + n) usize_max) u32_max \<and> min (min (16 + n) usize_max) u32_max \<le> u32_max" for n
    by (simp add: u32_max_def usize_max_def)
  then show ?thesis
    by (simp add: tile_cache_weight_def tile_cache_entry_weight_def cache_entry_weight_def usize_saturating_add_def cache_entry_key_bytes_def)
qed

lemma resolve_tuning_bounds:
  assumes "resolve_tuning i = Some r"
  shows "0 < tu_candidate_count r \<and> tu_tile_group_size r \<noteq> 0 \<and> tu_chunk_size_bytes r \<noteq> 0 \<and> tu_max_fetch_chunks r \<noteq> 0
    \<and> 0 < tu_backend_fetch_concurrency r \<and> tu_backend_fetch_concurrency r \<le> tu_backend_fetch_max_inflight r
    \<and> resolve_tuning r = Some r"
proof -
  let ?c = "max (tu_backend_fetch_concurrency i) 1"
  from assms have c: "tu_chunk_size_bytes i \<noteq> 0"
    and r: "r = i\<lparr>tu_candidate_count := max (tu_candidate_count i) 1, tu_tile_group_size := max (tu_tile_group_size i) 1,
      tu_max_fetch_chunks := max (tu_max_fetch_chunks i) 1, tu_backend_fetch_concurrency := ?c,
      tu_backend_fetch_max_inflight := max (tu_backend_fetch_max_inflight i) ?c\<rparr>"
    by (simp_all add: resolve_tuning_def Let_def split: if_splits)
  have "max (x :: u64) 1 \<noteq> 0" for x by (auto simp: max_def)
  with c show ?thesis unfolding r by (simp add: resolve_tuning_def Let_def max.assoc less_max_iff_disj)
qed

section \<open>Sources and errors\<close>

datatype tile_source =
  SelfTileCache | SelfChunkCache | SelfBackend | NegativeCache | FromPeerCache | FromPeerBackend | SelfMiss | PeerMiss

definition report_label :: "tile_source \<Rightarrow> string" where
  "report_label s =
     (case s of
        SelfTileCache \<Rightarrow> ''self_cache'' | SelfChunkCache \<Rightarrow> ''self_cache'' | SelfBackend \<Rightarrow> ''self_backend''
      | NegativeCache \<Rightarrow> ''miss'' | SelfMiss \<Rightarrow> ''miss'' | PeerMiss \<Rightarrow> ''miss''
      | FromPeerCache \<Rightarrow> ''peer_cache'' | FromPeerBackend \<Rightarrow> ''peer_backend'')"

definition is_l1_hit :: "tile_source \<Rightarrow> bool" where
  "is_l1_hit s \<longleftrightarrow> s = SelfTileCache"

datatype peer_tile_cache_policy = EntryAndOwner | OwnerOnly

definition cache_outcomes :: "peer_tile_cache_policy \<Rightarrow> tile_source \<Rightarrow> string list" where
  "cache_outcomes policy s =
     (case s of
        SelfTileCache \<Rightarrow> [''hit'']
      | NegativeCache \<Rightarrow> [''negative'']
      | SelfChunkCache \<Rightarrow> [''miss'', ''insert''] | SelfBackend \<Rightarrow> [''miss'', ''insert'']
      | FromPeerCache \<Rightarrow> if policy = EntryAndOwner then [''miss'', ''insert''] else [''miss'']
      | FromPeerBackend \<Rightarrow> if policy = EntryAndOwner then [''miss'', ''insert''] else [''miss'']
      | SelfMiss \<Rightarrow> [''miss'', ''negative''] | PeerMiss \<Rightarrow> [''miss'', ''negative''])"

datatype tileset_error =
    TsUpstream string | TsRetryableUpstream string | TsTimeout string | TsOverloaded string | TsMiss | TsInternal string

definition tileset_error_retryable :: "tileset_error \<Rightarrow> bool" where
  "tileset_error_retryable e = (case e of TsRetryableUpstream _ \<Rightarrow> True | TsOverloaded _ \<Rightarrow> True | _ \<Rightarrow> False)"

text \<open>The storage error in the chain decides; the text of the chain is an argument.\<close>

definition internal_tileset_error :: "(ishikari_error \<Rightarrow> string) \<Rightarrow> ishikari_error \<Rightarrow> tileset_error" where
  "internal_tileset_error chain e =
     (case flight_error_capture e of
        Some STimeout \<Rightarrow> TsTimeout (chain e)
      | Some SOverloaded \<Rightarrow> TsOverloaded (chain e)
      | Some (SBackend _) \<Rightarrow> TsRetryableUpstream (chain e)
      | _ \<Rightarrow> TsInternal (chain e))"

section \<open>The resolver\<close>

record ('m, 'y) resolver =
  rv_storage :: "(('m, 'y) node_rest, 'm) reader_env"
  rv_peers :: "(('m, 'y, unit) node_rest_ext, 'm) peer_env"
  rv_policy :: peer_tile_cache_policy
  rv_chain :: "ishikari_error \<Rightarrow> string"
  rv_turns :: nat

text \<open>The storage of the PMTiles reader: local reads, and peers for bootstraps and leaves.\<close>

definition distributed_storage :: "('m, 'y) resolver \<Rightarrow> (('m, 'y) node_rest, 'm) reader_env" where
  "distributed_storage R =
     (rv_storage R)
       \<lparr>re_fetch_bootstrap := (\<lambda>t md w. case route_bootstrap (rv_peers R) t md w of
          (Inl _, w) \<Rightarrow> (Inl (), w) | (Inr tr, w) \<Rightarrow> (Inr tr, w)),
        re_fetch_leaf := (\<lambda>t off len w. case route_leaf (rv_peers R) t off len w of (r, w) \<Rightarrow> (Inr r, w))\<rparr>"

datatype pmtiles_read_source = ReadCache | ReadBackend

definition observe_reads ::
  "(('m, 'y) node_world \<Rightarrow> 'a \<times> ('m, 'y) node_world) \<Rightarrow> ('m, 'y) node_world \<Rightarrow> ('a \<times> pmtiles_read_source) \<times> ('m, 'y) node_world" where
  "observe_reads op w =
     (case op (update_rest (\<lambda>x. x\<lparr>nr_waited := False\<rparr>) w) of
        (output, w) \<Rightarrow> ((output, if nr_waited (wd_rest w) then ReadBackend else ReadCache), w))"

datatype cached_tile_lookup = LookupFound tile_data | LookupNotFound | LookupNone

definition load_cached_tile :: "tileset_id \<Rightarrow> u64 \<Rightarrow> ('m, 'y) node_world \<Rightarrow> cached_tile_lookup" where
  "load_cached_tile t tile_id w =
     (case nr_tiles (wd_rest w) \<lparr>tk_tileset = t, tk_tile_id = tile_id\<rparr> of
        None \<Rightarrow> LookupNone
      | Some (TileFound bs ct ce) \<Rightarrow> LookupFound \<lparr>td_bytes = bs, td_content_type = ct, td_content_encoding = ce\<rparr>
      | Some TileNotFound \<Rightarrow> LookupNotFound)"

definition cache_tile_hit :: "tileset_id \<Rightarrow> u64 \<Rightarrow> tile_data \<Rightarrow> ('m, 'y) node_world \<Rightarrow> ('m, 'y) node_world" where
  "cache_tile_hit t tile_id td =
     tile_cache_put \<lparr>tk_tileset = t, tk_tile_id = tile_id\<rparr> (TileFound (td_bytes td) (td_content_type td) (td_content_encoding td))"

definition cache_tile_miss :: "tileset_id \<Rightarrow> u64 \<Rightarrow> ('m, 'y) node_world \<Rightarrow> ('m, 'y) node_world" where
  "cache_tile_miss t tile_id = tile_cache_put \<lparr>tk_tileset = t, tk_tile_id = tile_id\<rparr> TileNotFound"

definition load_local_tile ::
  "('m, 'y) resolver \<Rightarrow> tileset_id \<Rightarrow> u64 \<Rightarrow> ('m, 'y) node_world \<Rightarrow>
     (tileset_error + tile_data option \<times> pmtiles_read_source) \<times> ('m, 'y) node_world" where
  "load_local_tile R t tile_id w =
     (case observe_reads (ishikari_get_tile (rv_turns R) (distributed_storage R) t tile_id) w of
        ((Inl e, _), w) \<Rightarrow> (Inl (internal_tileset_error (rv_chain R) e), w)
      | ((Inr None, source), w) \<Rightarrow> (Inr (None, source), cache_tile_miss t tile_id w)
      | ((Inr (Some td), source), w) \<Rightarrow> (Inr (Some td, source), cache_tile_hit t tile_id td w))"

definition load_local_tile_with_source ::
  "('m, 'y) resolver \<Rightarrow> tileset_id \<Rightarrow> u64 \<Rightarrow> ('m, 'y) node_world \<Rightarrow>
     (tileset_error + tile_data option \<times> tile_source) \<times> ('m, 'y) node_world" where
  "load_local_tile_with_source R t tile_id w =
     (case load_local_tile R t tile_id w of
        (Inl e, w) \<Rightarrow> (Inl e, w)
      | (Inr (td, read_source), w) \<Rightarrow>
          (Inr (td, if td \<noteq> None \<and> read_source = ReadCache then SelfChunkCache
                    else if td \<noteq> None then SelfBackend else SelfMiss), w))"

definition peer_tileset_error :: "peer_fetch_error \<Rightarrow> tileset_error" where
  "peer_tileset_error e =
     (case e of
        PeerNotFound \<Rightarrow> TsMiss
      | PeerRetryable m \<Rightarrow> TsRetryableUpstream m
      | PeerProviderNotFound \<Rightarrow> TsUpstream ''provider resource not found''
      | PeerProviderGone \<Rightarrow> TsUpstream ''provider resource gone''
      | PeerFatal m \<Rightarrow> TsUpstream m)"

definition load_tile_from_peer ::
  "('m, 'y) resolver \<Rightarrow> peer \<Rightarrow> tileset_id \<Rightarrow> u64 \<Rightarrow> ('m, 'y) node_world \<Rightarrow>
     (tileset_error + (tile_data \<times> internal_tile_source) option) \<times> ('m, 'y) node_world" where
  "load_tile_from_peer R p t tile_id w =
     (case fetch_tile_bytes (rv_peers R) p t tile_id w of
        (Inl e, w) \<Rightarrow> (Inl (peer_tileset_error e), w)
      | (Inr response, w) \<Rightarrow>
          (case ishikari_header (rv_turns R) (distributed_storage R) t w of
             (Inl e, w) \<Rightarrow> (Inl (internal_tileset_error (rv_chain R) e), w)
           | (Inr None, w) \<Rightarrow> (Inr None, w)
           | (Inr (Some h), w) \<Rightarrow>
               let td = \<lparr>td_bytes = ir_bytes response, td_content_type = tile_content_type (hd_tile_type h),
                         td_content_encoding = content_encoding (hd_tile_compression h)\<rparr>
               in (Inr (Some (td, case ir_tile_source response of None \<Rightarrow> ITBackend | Some s \<Rightarrow> s)),
                   if rv_policy R = EntryAndOwner then cache_tile_hit t tile_id td w else w)))"

fun tile_candidates ::
  "('m, 'y) resolver \<Rightarrow> scored_peer list \<Rightarrow> tileset_id \<Rightarrow> u64 \<Rightarrow> ('m, 'y) node_world \<Rightarrow>
     (tileset_error + tile_data option \<times> tile_source) \<times> ('m, 'y) node_world" where
  "tile_candidates R [] t tile_id w = load_local_tile_with_source R t tile_id w"
| "tile_candidates R (c # cs) t tile_id w =
     (if is_self (rv_peers R) (sp_peer c) then load_local_tile_with_source R t tile_id w
      else case load_tile_from_peer R (sp_peer c) t tile_id w of
        (Inr (Some (td, peer_source)), w) \<Rightarrow>
          (Inr (Some td, case peer_source of ITCache \<Rightarrow> FromPeerCache | ITBackend \<Rightarrow> FromPeerBackend), w)
      | (Inr None, w) \<Rightarrow> tile_candidates R cs t tile_id w
      | (Inl e, w) \<Rightarrow>
          if e = TsMiss then (Inr (None, PeerMiss), cache_tile_miss t tile_id w)
          else if tileset_error_retryable e then tile_candidates R cs t tile_id w
          else (Inl e, w))"

definition route_tile ::
  "('m, 'y) resolver \<Rightarrow> tileset_id \<Rightarrow> u64 \<Rightarrow> ('m, 'y) node_world \<Rightarrow>
     (tileset_error + tile_data option \<times> tile_source) \<times> ('m, 'y) node_world" where
  "route_tile R t tile_id w =
     (case load_cached_tile t tile_id w of
        LookupFound td \<Rightarrow> (Inr (Some td, SelfTileCache), w)
      | LookupNotFound \<Rightarrow> (Inr (None, NegativeCache), w)
      | LookupNone \<Rightarrow>
          (case route_tile_for (rv_peers R) t tile_id ''tile'' w of
             (candidates, w) \<Rightarrow>
               if candidates = [] \<or> is_self (rv_peers R) (sp_peer (hd candidates))
               then load_local_tile_with_source R t tile_id w
               else tile_candidates R candidates t tile_id w))"

definition load_tile_by_id_with_source ::
  "('m, 'y) resolver \<Rightarrow> tileset_id \<Rightarrow> u64 \<Rightarrow> ('m, 'y) node_world \<Rightarrow>
     (tileset_error + tile_data option \<times> tile_source) \<times> ('m, 'y) node_world" where
  "load_tile_by_id_with_source R t tile_id w =
     (case load_cached_tile t tile_id w of
        LookupFound td \<Rightarrow> (Inr (Some td, SelfTileCache), w)
      | LookupNotFound \<Rightarrow> (Inr (None, NegativeCache), w)
      | LookupNone \<Rightarrow> load_local_tile_with_source R t tile_id w)"

section \<open>Tileset information\<close>

definition read_tileset_info ::
  "('m, 'y) resolver \<Rightarrow> tileset_id \<Rightarrow> ('m, 'y) node_world \<Rightarrow> (tileset_error + (header \<times> 'm) option) \<times> ('m, 'y) node_world" where
  "read_tileset_info R t w =
     (case ishikari_header (rv_turns R) (distributed_storage R) t w of
        (Inl e, w) \<Rightarrow> (Inl (internal_tileset_error (rv_chain R) e), w)
      | (Inr None, w) \<Rightarrow> (Inr None, w)
      | (Inr (Some h), w) \<Rightarrow>
          (case ishikari_metadata (rv_turns R) (distributed_storage R) t w of
             (Inl e, w) \<Rightarrow> (Inl (internal_tileset_error (rv_chain R) e), w)
           | (Inr None, w) \<Rightarrow> (Inr None, w)
           | (Inr (Some md), w) \<Rightarrow> (Inr (Some (h, md)), w)))"

definition load_tileset_info ::
  "('m, 'y) resolver \<Rightarrow> tileset_id \<Rightarrow> ('m, 'y) node_world \<Rightarrow> (tileset_error + (header \<times> 'm) option) \<times> ('m, 'y) node_world" where
  "load_tileset_info R t w =
     (case nr_infos (wd_rest w) t of
        Some info \<Rightarrow> (Inr (Some info), w)
      | None \<Rightarrow>
          (case read_tileset_info R t w of
             (Inl e, w) \<Rightarrow> (Inl e, w)
           | (Inr None, w) \<Rightarrow> (Inr None, w)
           | (Inr (Some info), w) \<Rightarrow> (Inr (Some info), info_cache_put t info w)))"

datatype archive_presence_result = ArchivePresent | ArchiveMissing

definition archive_presence ::
  "('m, 'y) resolver \<Rightarrow> tileset_id \<Rightarrow> ('m, 'y) node_world \<Rightarrow> (tileset_error + archive_presence_result) \<times> ('m, 'y) node_world" where
  "archive_presence R t w =
     (if nr_infos (wd_rest w) t \<noteq> None then (Inr ArchivePresent, w)
      else case ishikari_header (rv_turns R) (distributed_storage R) t w of
        (Inl e, w) \<Rightarrow> (Inl (internal_tileset_error (rv_chain R) e), w)
      | (Inr (Some _), w) \<Rightarrow> (Inr ArchivePresent, w)
      | (Inr None, w) \<Rightarrow> (Inr ArchiveMissing, w))"

section \<open>Serving peers\<close>

definition load_bootstrap_bytes ::
  "('m, 'y) resolver \<Rightarrow> tileset_id \<Rightarrow> bool \<Rightarrow> ('m, 'y) node_world \<Rightarrow>
     (tileset_error + (bytes \<times> bytes option) option) \<times> ('m, 'y) node_world" where
  "load_bootstrap_bytes R t include_metadata w =
     (case load_bootstrap_bytes_local (rv_turns R) (distributed_storage R) t include_metadata w of
        (Inl e, w) \<Rightarrow> (Inl (internal_tileset_error (rv_chain R) e), w)
      | (Inr tr, w) \<Rightarrow> (Inr tr, w))"

datatype leaf_bytes_error = LeafInvalidRange | LeafTileset tileset_error

definition load_leaf_bytes ::
  "('m, 'y) resolver \<Rightarrow> tileset_id \<Rightarrow> u64 \<Rightarrow> nat \<Rightarrow> ('m, 'y) node_world \<Rightarrow> (leaf_bytes_error + bytes option) \<times> ('m, 'y) node_world" where
  "load_leaf_bytes R t off len w =
     (case load_leaf_bytes_local (rv_turns R) (distributed_storage R) t off len w of
        (Inr leaf, w) \<Rightarrow> (Inr leaf, w)
      | (Inl InvalidLeafRange, w) \<Rightarrow> (Inl LeafInvalidRange, w)
      | (Inl (LeafReader e), w) \<Rightarrow> (Inl (LeafTileset (internal_tileset_error (rv_chain R) e)), w))"

text \<open>An answer on the internal wire: its status, the headers the transport reads, and the body in
  the chunks it arrives in, or the error that cuts it off.\<close>

record internal_reply =
  rp_status :: nat
  rp_tile_source :: "string option"
  rp_provider_negative :: "string option"
  rp_provider_cache_control :: "string option"
  rp_provider_age :: "string option"
  rp_provider_etag :: "string option"
  rp_provider_last_modified :: "string option"
  rp_content_encoding :: "string option"
  rp_content_length :: "nat option"
  rp_chunks :: "(string + bytes) list"

definition reply_error :: "nat \<Rightarrow> internal_reply" where
  "reply_error status = \<lparr>rp_status = status, rp_tile_source = None, rp_provider_negative = None, rp_provider_cache_control = None,
     rp_provider_age = None, rp_provider_etag = None, rp_provider_last_modified = None, rp_content_encoding = None,
     rp_content_length = None, rp_chunks = []\<rparr>"

definition bytes_reply :: "bytes \<Rightarrow> internal_reply" where
  "bytes_reply body = \<lparr>rp_status = 200, rp_tile_source = None, rp_provider_negative = None, rp_provider_cache_control = None,
     rp_provider_age = None, rp_provider_etag = None, rp_provider_last_modified = None, rp_content_encoding = None,
     rp_content_length = Some (length body), rp_chunks = [Inr body]\<rparr>"

definition tileset_error_status :: "tileset_error \<Rightarrow> nat" where
  "tileset_error_status e =
     (case e of
        TsUpstream _ \<Rightarrow> 502 | TsRetryableUpstream _ \<Rightarrow> 502 | TsTimeout _ \<Rightarrow> 504 | TsOverloaded _ \<Rightarrow> 503
      | TsMiss \<Rightarrow> 404 | TsInternal _ \<Rightarrow> 500)"

definition internal_tile_handler ::
  "('m, 'y) resolver \<Rightarrow> string \<Rightarrow> u64 \<Rightarrow> ('m, 'y) node_world \<Rightarrow> internal_reply \<times> ('m, 'y) node_world" where
  "internal_tile_handler R s tile_id w =
     (case tileset_id_try_new s of
        Inl _ \<Rightarrow> (reply_error 400, w)
      | Inr t \<Rightarrow>
          (case load_tile_by_id_with_source R t tile_id w of
             (Inl e, w) \<Rightarrow> (reply_error (tileset_error_status e), w)
           | (Inr (td, source), w) \<Rightarrow>
               (case (if source \<in> {SelfTileCache, SelfChunkCache} then Some ITCache
                      else if source = SelfBackend then Some ITBackend else None) of
                  None \<Rightarrow> (reply_error 404, w)
                | Some src \<Rightarrow>
                    (case td of
                       None \<Rightarrow> (reply_error 404, w)
                     | Some td \<Rightarrow>
                         ((bytes_reply (td_bytes td))\<lparr>rp_tile_source := Some (internal_tile_source_as_str src),
                            rp_content_encoding := td_content_encoding td\<rparr>, w)))))"

definition internal_bootstrap_handler ::
  "('m, 'y) resolver \<Rightarrow> string \<Rightarrow> bool \<Rightarrow> ('m, 'y) node_world \<Rightarrow> internal_reply \<times> ('m, 'y) node_world" where
  "internal_bootstrap_handler R s include_metadata w =
     (case tileset_id_try_new s of
        Inl _ \<Rightarrow> (reply_error 400, w)
      | Inr t \<Rightarrow>
          (case load_bootstrap_bytes R t include_metadata w of
             (Inl e, w) \<Rightarrow> (reply_error (tileset_error_status e), w)
           | (Inr None, w) \<Rightarrow> (reply_error 404, w)
           | (Inr (Some tr), w) \<Rightarrow> (bytes_reply (encode_bootstrap_wire tr), w)))"

definition leaf_error_status :: "leaf_bytes_error \<Rightarrow> nat" where
  "leaf_error_status e = (case e of LeafInvalidRange \<Rightarrow> 400 | LeafTileset e \<Rightarrow> tileset_error_status e)"

definition internal_leaf_handler ::
  "('m, 'y) resolver \<Rightarrow> string \<Rightarrow> u64 \<Rightarrow> nat \<Rightarrow> ('m, 'y) node_world \<Rightarrow> internal_reply \<times> ('m, 'y) node_world" where
  "internal_leaf_handler R s off len w =
     (case tileset_id_try_new s of
        Inl _ \<Rightarrow> (reply_error 400, w)
      | Inr t \<Rightarrow>
          (case load_leaf_bytes R t off len w of
             (Inl e, w) \<Rightarrow> (reply_error (leaf_error_status e), w)
           | (Inr None, w) \<Rightarrow> (reply_error 404, w)
           | (Inr (Some leaf), w) \<Rightarrow> (bytes_reply leaf, w)))"

section \<open>The peer transport\<close>

fun read_body_loop :: "nat \<Rightarrow> (string + bytes) list \<Rightarrow> bytes \<Rightarrow> peer_fetch_error + bytes" where
  "read_body_loop limit [] body = Inr body"
| "read_body_loop limit (Inl e # cs) body = Inl (PeerFatal e)"
| "read_body_loop limit (Inr chunk # cs) body =
     (case usize_checked_add (length body) (length chunk) of
        None \<Rightarrow> Inl (PeerFatal ''peer response body length overflowed usize'')
      | Some next_len \<Rightarrow>
          if limit < next_len then Inl (PeerFatal ''peer response body exceeds the route limit'')
          else read_body_loop limit cs (body @ chunk))"

definition read_bounded_body :: "nat \<Rightarrow> nat option \<Rightarrow> (string + bytes) list \<Rightarrow> peer_fetch_error + bytes" where
  "read_bounded_body limit content_length chunks =
     (if (case content_length of None \<Rightarrow> False | Some n \<Rightarrow> limit < n)
      then Inl (PeerFatal ''peer response body exceeds the route limit'')
      else read_body_loop limit chunks [])"

definition authoritative_provider_negative :: "string \<Rightarrow> nat \<Rightarrow> string option \<Rightarrow> internal_provider_negative option" where
  "authoritative_provider_negative path status marker =
     (if \<not> starts_with path ''/_internal/provider/'' then None
      else case Option.bind marker provider_negative_parse of
        None \<Rightarrow> None
      | Some NegNotFound \<Rightarrow> if status = 404 then Some NegNotFound else None
      | Some NegGone \<Rightarrow> if status = 410 then Some NegGone else None)"

text \<open>An attempt fails, at connecting or in time or otherwise, or gets an answer.\<close>

datatype transport_attempt = AttemptFailed bool string | Replied internal_reply

definition http_fetch :: "string \<Rightarrow> transport_attempt \<Rightarrow> peer_fetch_error + internal_fetch_response" where
  "http_fetch path a =
     (case a of
        AttemptFailed connect_or_timeout m \<Rightarrow> Inl (if connect_or_timeout then PeerRetryable m else PeerFatal m)
      | Replied rp \<Rightarrow>
          (case authoritative_provider_negative path (rp_status rp) (rp_provider_negative rp) of
             Some NegNotFound \<Rightarrow> Inl PeerProviderNotFound
           | Some NegGone \<Rightarrow> Inl PeerProviderGone
           | None \<Rightarrow>
               if rp_status rp = 404 then Inl PeerNotFound
               else if rp_status rp = 429 \<or> 500 \<le> rp_status rp \<and> rp_status rp < 600
               then Inl (PeerRetryable (''peer returned '' @ decimal (rp_status rp)))
               else if \<not> (200 \<le> rp_status rp \<and> rp_status rp < 300)
               then Inl (PeerFatal (''peer returned unexpected status '' @ decimal (rp_status rp)))
               else (case read_bounded_body (internal_response_body_limit path) (rp_content_length rp) (rp_chunks rp) of
                       Inl e \<Rightarrow> Inl e
                     | Inr body \<Rightarrow>
                         Inr \<lparr>ir_bytes = body, ir_tile_source = Option.bind (rp_tile_source rp) internal_tile_source_parse,
                           ir_provider_cache_control = rp_provider_cache_control rp,
                           ir_provider_age_seconds = Option.bind (rp_provider_age rp) (\<lambda>v. map_option of_nat (parse_uint u64_max v)),
                           ir_provider_etag = rp_provider_etag rp,
                           ir_provider_last_modified = rp_provider_last_modified rp, ir_content_encoding = rp_content_encoding rp\<rparr>)))"

section \<open>A node coherent with an archive\<close>

abbreviation archive_tile :: "decoders \<Rightarrow> bytes \<Rightarrow> u64 \<Rightarrow> tile_data option \<Rightarrow> bool" where
  "archive_tile dec A \<equiv> serves_tile dec default_max_decompressed_bytes (rl_max_range_bytes reader_limits_default) A
     (unat (rl_max_directory_depth reader_limits_default))"

definition tile_entry_ok :: "decoders \<Rightarrow> bytes \<Rightarrow> u64 \<Rightarrow> cached_tile \<Rightarrow> bool" where
  "tile_entry_ok dec A i v =
     (case v of
        TileFound bs ct ce \<Rightarrow> archive_tile dec A i (Some \<lparr>td_bytes = bs, td_content_type = ct, td_content_encoding = ce\<rparr>)
      | TileNotFound \<Rightarrow> archive_tile dec A i None)"

definition info_ok :: "('x, 'm) reader_env \<Rightarrow> bytes \<Rightarrow> header \<times> 'm \<Rightarrow> bool" where
  "info_ok E A info \<longleftrightarrow> header_parse (take header_size A) = Inr (fst info) \<and> ishikari_metadata_of E A (snd info)"

definition rest_ok :: "(('m, 'y) node_rest, 'm) reader_env \<Rightarrow> bytes \<Rightarrow> tileset_id \<Rightarrow> ('m, 'y) node_rest \<Rightarrow> bool" where
  "rest_ok E A t x \<longleftrightarrow>
     (\<forall>i v. nr_tiles x \<lparr>tk_tileset = t, tk_tile_id = i\<rparr> = Some v \<longrightarrow> tile_entry_ok (re_decoders E) A i v)
   \<and> (\<forall>info. nr_infos x t = Some info \<longrightarrow> info_ok E A info)"

abbreviation node_ok :: "(('m, 'y) node_rest, 'm) reader_env \<Rightarrow> bytes \<Rightarrow> tileset_id \<Rightarrow> ('m, 'y) node_world \<Rightarrow> bool" where
  "node_ok E A t \<equiv> world_ok (rest_ok E A t) E A t"

text \<open>Answers of operations that cannot fail.\<close>

definition answers :: "('w \<Rightarrow> bool) \<Rightarrow> ('a \<Rightarrow> bool) \<Rightarrow> ('w \<Rightarrow> 'a \<times> 'w) \<Rightarrow> bool" where
  "answers I Q op \<longleftrightarrow> (\<forall>w r w'. I w \<and> op w = (r, w') \<longrightarrow> I w' \<and> Q r)"

lemma answersI: "(\<And>w r w'. I w \<Longrightarrow> op w = (r, w') \<Longrightarrow> I w' \<and> Q r) \<Longrightarrow> answers I Q op"
  unfolding answers_def by blast

lemma answersD: "answers I Q op \<Longrightarrow> I w \<Longrightarrow> op w = (r, w') \<Longrightarrow> I w' \<and> Q r"
  unfolding answers_def by blast

lemma answers_mono: "answers I Q op \<Longrightarrow> (\<And>r. Q r \<Longrightarrow> Q' r) \<Longrightarrow> answers I Q' op"
  unfolding answers_def by blast

text \<open>What a peer may answer about an archive: the bytes of a tile that is there, "not found" for one
  that is not, framed transfers and leaves of its bytes.\<close>

definition tile_reply_ok :: "decoders \<Rightarrow> bytes \<Rightarrow> u64 \<Rightarrow> peer_fetch_error + internal_fetch_response \<Rightarrow> bool" where
  "tile_reply_ok dec A i r =
     (case r of
        Inr resp \<Rightarrow> (\<exists>td. archive_tile dec A i (Some td) \<and> ir_bytes resp = td_bytes td)
      | Inl e \<Rightarrow> e = PeerNotFound \<longrightarrow> archive_tile dec A i None)"

definition bootstrap_reply_ok :: "bytes \<Rightarrow> bool \<Rightarrow> peer_fetch_error + internal_fetch_response \<Rightarrow> bool" where
  "bootstrap_reply_ok A md r =
     (case r of
        Inr resp \<Rightarrow> (\<exists>tr. transfer_ok A (Some tr) \<and> (snd tr \<noteq> None \<longrightarrow> md) \<and> ir_bytes resp = encode_bootstrap_wire tr)
      | Inl _ \<Rightarrow> True)"

definition leaf_reply_ok :: "bytes \<Rightarrow> u64 \<Rightarrow> nat \<Rightarrow> peer_fetch_error + internal_fetch_response \<Rightarrow> bool" where
  "leaf_reply_ok A off len r = (case r of Inr resp \<Rightarrow> leaf_transfer_ok A off len (Some (ir_bytes resp)) | Inl _ \<Rightarrow> True)"

definition peers_serve ::
  "(('x, 'm) peer_world \<Rightarrow> bool) \<Rightarrow> decoders \<Rightarrow> bytes \<Rightarrow> tileset_id \<Rightarrow> ('x, 'm) peer_env \<Rightarrow> bool" where
  "peers_serve I dec A t P \<longleftrightarrow>
     keeps I (pe_peers P) \<and> keeps I (pe_now P)
   \<and> (\<forall>p i. answers I (tile_reply_ok dec A i) (pe_fetch P p (tile_path t i)))
   \<and> (\<forall>p md. answers I (bootstrap_reply_ok A md) (pe_fetch P p (bootstrap_path t md)))
   \<and> (\<forall>p off len. answers I (leaf_reply_ok A off len) (pe_fetch P p (leaf_path t off len)))"

definition storage_serves :: "(('m, 'y) node_rest, 'm) reader_env \<Rightarrow> bytes \<Rightarrow> tileset_id \<Rightarrow> bool" where
  "storage_serves E A t \<longleftrightarrow>
     (\<forall>off len alen. serves (node_ok E A t) (read_ok A off len alen) (re_read_range E t off len alen))
   \<and> (\<forall>off len alen w. fst (re_read_range E t off len alen w) \<noteq> Inl SNotFound)
   \<and> keeps (node_ok E A t) (re_begin_bootstrap E t) \<and> keeps (node_ok E A t) (re_begin_metadata E t)
   \<and> (\<forall>k. keeps (node_ok E A t) (re_begin_leaf E k)) \<and> (\<forall>oc. keeps (node_ok E A t) (re_end_flight E oc))"

lemma node_ok_tables [simp]:
  "node_ok E A t (w\<lparr>wd_rest := (wd_rest w)\<lparr>pt_failures := f\<rparr>\<rparr>) = node_ok E A t w"
  "node_ok E A t (w\<lparr>wd_rest := (wd_rest w)\<lparr>pt_inflight := g\<rparr>\<rparr>) = node_ok E A t w"
  "node_ok E A t (w\<lparr>wd_rest := (wd_rest w)\<lparr>nr_waited := b\<rparr>\<rparr>) = node_ok E A t w"
  by (simp_all add: world_ok_def rest_ok_def)

section \<open>Peers\<close>

lemma peers_serve_keeps:
  assumes "peers_serve I dec A t P"
  shows "keeps I (pe_peers P)" and "keeps I (pe_now P)"
  using assms by (simp_all add: peers_serve_def)

lemma fetch_from_peer_answers:
  assumes P: "peers_serve (node_ok E A t) dec A t P" and f: "answers (node_ok E A t) Q (pe_fetch P p path)"
  shows "answers (node_ok E A t) Q (fetch_from_peer P p path kind)"
proof (rule answersI)
  fix w r w' assume w: "node_ok E A t w" and op: "fetch_from_peer P p path kind w = (r, w')"
  let ?w = "update_inflight (\<lambda>m. snd (fetch_guard_enter (pr_id p, path) m)) w"
  obtain r1 w1 where 1: "pe_fetch P p path ?w = (r1, w1)" by fastforce
  have "node_ok E A t ?w" using w by simp
  from answersD [OF f this 1] have w1: "node_ok E A t w1" and Q: "Q r1" by auto
  let ?w1 = "update_inflight (fetch_guard_drop (pr_id p, path)) w1"
  obtain n w2 where 2: "pe_now P ?w1 = (n, w2)" by fastforce
  have "node_ok E A t ?w1" using w1 by simp
  from keepsD [OF peers_serve_keeps(2) [OF P] this 2] have w2: "node_ok E A t w2" .
  from op 1 2 have "r = r1"
    and "w' \<in> {update_failures (record_failure (pr_id p) (peer_resource_label kind) (n + peer_retry_backoff)) w2,
                update_failures (clear_failure (pr_id p) (peer_resource_label kind)) ?w1}"
    by (auto simp: fetch_from_peer_def Let_def split: sum.splits if_splits)
  then show "node_ok E A t w' \<and> Q r" using Q w1 w2 by (auto simp only: insert_iff singleton_iff empty_iff node_ok_tables)
qed

lemma route_now_keeps:
  assumes P: "peers_serve (node_ok E A t) dec A t P"
  shows "keeps (node_ok E A t) (route_now P resource route)"
  unfolding keeps_def
proof (intro allI impI)
  fix w r w' assume a: "node_ok E A t w \<and> route_now P resource route w = (r, w')"
  obtain ps w1 where 1: "pe_peers P w = (ps, w1)" by fastforce
  obtain n w2 where 2: "pe_now P w1 = (n, w2)" by fastforce
  from keepsD [OF peers_serve_keeps(1) [OF P] _ 1] a have "node_ok E A t w1" by blast
  from keepsD [OF peers_serve_keeps(2) [OF P] this 2] have "node_ok E A t w2" .
  moreover have "\<exists>f. w' = update_failures f w2" using a 1 2 by (auto simp: route_now_def Let_def)
  ultimately show "node_ok E A t w'" by (auto simp only: node_ok_tables)
qed

lemma fetch_candidates_answers:
  assumes P: "peers_serve (node_ok E A t) dec A t P" and f: "\<And>p. answers (node_ok E A t) Q (pe_fetch P p path)"
  shows "answers (node_ok E A t) (\<lambda>r. \<forall>resp. r = Some resp \<longrightarrow> Q (Inr resp)) (fetch_candidates P cs path kind)"
proof (induction cs)
  case Nil
  show ?case by (rule answersI) auto
next
  case (Cons c cs)
  show ?case
  proof (rule answersI)
    fix w r w' assume w: "node_ok E A t w" and op: "fetch_candidates P (c # cs) path kind w = (r, w')"
    obtain r1 w1 where 1: "fetch_from_peer P (sp_peer c) path kind w = (r1, w1)" by fastforce
    note a = answersD [OF fetch_from_peer_answers [OF P f] w 1]
    have "(r, w') = (if is_self P (sp_peer c) then (None, w)
       else case r1 of Inr resp \<Rightarrow> (Some resp, w1)
         | Inl e \<Rightarrow> if e = PeerNotFound then (None, w1)
             else if peer_error_retryable e then fetch_candidates P cs path kind w1 else (None, w1))"
      unfolding op [symmetric] fetch_candidates.simps 1 prod.case by (rule refl)
    then consider (stay) "w' = w" "r = None" | (settled) "w' = w1" "r = None \<or> (\<exists>resp. r = Some resp \<and> r1 = Inr resp)"
      | (more) "fetch_candidates P cs path kind w1 = (r, w')"
      by (cases "is_self P (sp_peer c)"; cases r1) (simp_all split: if_splits)
    then show "node_ok E A t w' \<and> (\<forall>resp. r = Some resp \<longrightarrow> Q (Inr resp))"
    proof cases
      case more
      from a answersD [OF Cons.IH _ more] show ?thesis by blast
    qed (use a w in auto)
  qed
qed

lemma route_fetch_optional_answers:
  assumes P: "peers_serve (node_ok E A t) dec A t P" and f: "\<And>p. answers (node_ok E A t) Q (pe_fetch P p path)"
  shows "answers (node_ok E A t) (\<lambda>r. \<forall>bs. r = Some bs \<longrightarrow> (\<exists>resp. Q (Inr resp) \<and> bs = ir_bytes resp)) (route_fetch_optional P t path kind)"
proof (rule answersI)
  fix w r w' assume w: "node_ok E A t w" and op: "route_fetch_optional P t path kind w = (r, w')"
  obtain cs w1 where 1: "route_tileset_for P t kind w = (cs, w1)" by fastforce
  from keepsD [OF route_now_keeps [OF P] w] 1 have w1: "node_ok E A t w1" by (simp add: route_tileset_for_def)
  obtain r2 w2 where 2: "fetch_candidates P cs path kind w1 = (r2, w2)" by fastforce
  from answersD [OF fetch_candidates_answers [OF P f] w1 2] op 1 2 w1
  show "node_ok E A t w' \<and> (\<forall>bs. r = Some bs \<longrightarrow> (\<exists>resp. Q (Inr resp) \<and> bs = ir_bytes resp))"
    by (auto simp: route_fetch_optional_def route_fetch_optional_response_candidates_def split: if_splits)
qed

lemma route_bootstrap_serves:
  assumes P: "peers_serve (node_ok E A t) dec A t P" and h: "header_parse (take header_size A) = Inr h" and A: "length A \<le> u64_max"
  shows "serves (node_ok E A t) (transfer_ok A) (route_bootstrap P t md)"
proof (rule servesI)
  fix w r w' assume w: "node_ok E A t w" and op: "route_bootstrap P t md w = (r, w')"
  obtain r1 w1 where 1: "route_fetch_optional P t (bootstrap_path t md) ''bootstrap'' w = (r1, w1)" by fastforce
  have "answers (node_ok E A t) (bootstrap_reply_ok A md) (pe_fetch P p (bootstrap_path t md))" for p
    using P by (auto simp: peers_serve_def)
  from answersD [OF route_fetch_optional_answers [OF P this] w 1]
  have w1: "node_ok E A t w1" and b: "\<And>bs. r1 = Some bs \<Longrightarrow> \<exists>resp. bootstrap_reply_ok A md (Inr resp) \<and> bs = ir_bytes resp" by auto
  from op 1 have "w' = w1" by (auto simp: route_bootstrap_def split: option.splits sum.splits)
  moreover have "transfer_ok A tr" if "r = Inr tr" for tr
  proof (cases tr)
    case (Some x)
    with that op 1 obtain body where "r1 = Some body" and dec: "decode_bootstrap_wire body md = Inr x"
      by (auto simp: route_bootstrap_def split: option.splits sum.splits)
    with b obtain tr0 where "transfer_ok A (Some tr0)" "snd tr0 \<noteq> None \<longrightarrow> md" "body = encode_bootstrap_wire tr0"
      by (fastforce simp: bootstrap_reply_ok_def)
    from decode_transfer_ok [OF h A this(1,2)] this(3) dec Some show ?thesis by simp
  qed (simp add: transfer_ok_def)
  ultimately show "node_ok E A t w' \<and> (\<forall>tr. r = Inr tr \<longrightarrow> transfer_ok A tr)" using w1 by simp
qed

lemma route_leaf_answers:
  assumes P: "peers_serve (node_ok E A t) dec A t P"
  shows "answers (node_ok E A t) (leaf_transfer_ok A off len) (route_leaf P t off len)"
proof -
  have "answers (node_ok E A t) (leaf_reply_ok A off len) (pe_fetch P p (leaf_path t off len))" for p
    using P by (auto simp: peers_serve_def)
  from route_fetch_optional_answers [OF P this] show ?thesis
    unfolding route_leaf_def by (rule answers_mono) (auto simp: leaf_reply_ok_def leaf_transfer_ok_def)
qed

section \<open>The distributed storage serves the archive\<close>

lemma distributed_storage_simps [simp]:
  "re_read_range (distributed_storage R) = re_read_range (rv_storage R)"
  "re_begin_bootstrap (distributed_storage R) = re_begin_bootstrap (rv_storage R)"
  "re_begin_metadata (distributed_storage R) = re_begin_metadata (rv_storage R)"
  "re_begin_leaf (distributed_storage R) = re_begin_leaf (rv_storage R)"
  "re_end_flight (distributed_storage R) = re_end_flight (rv_storage R)"
  "re_decoders (distributed_storage R) = re_decoders (rv_storage R)"
  "re_json (distributed_storage R) = re_json (rv_storage R)"
  "re_default_metadata (distributed_storage R) = re_default_metadata (rv_storage R)"
  by (simp_all add: distributed_storage_def)

lemma metadata_of_distributed [simp]: "ishikari_metadata_of (distributed_storage R) = ishikari_metadata_of (rv_storage R)"
  by (intro ext) (simp add: ishikari_metadata_of_def)

lemma world_ok_distributed [simp]: "world_ok X (distributed_storage R) A t = world_ok X (rv_storage R) A t"
  by (intro ext) (simp add: world_ok_def bootstrap_entry_def)

lemma distributed_storage_fetch:
  "re_fetch_bootstrap (distributed_storage R) t md w =
     (case route_bootstrap (rv_peers R) t md w of (Inl _, w) \<Rightarrow> (Inl (), w) | (Inr tr, w) \<Rightarrow> (Inr tr, w))"
  "re_fetch_leaf (distributed_storage R) t off len w = (case route_leaf (rv_peers R) t off len w of (r, w) \<Rightarrow> (Inr r, w))"
  by (simp_all add: distributed_storage_def)

text \<open>What a cluster is assumed to be: storage and peers that serve one archive, which is one.\<close>

definition cluster_serves :: "('m, 'y) resolver \<Rightarrow> bytes \<Rightarrow> tileset_id \<Rightarrow> bool" where
  "cluster_serves R A t \<longleftrightarrow>
     storage_serves (rv_storage R) A t \<and> peers_serve (node_ok (rv_storage R) A t) (re_decoders (rv_storage R)) A t (rv_peers R)
   \<and> is_ok (header_parse (take header_size A)) \<and> length A \<le> u64_max"

lemma cluster_servesD:
  assumes "cluster_serves R A t"
  shows "storage_serves (rv_storage R) A t"
    and "peers_serve (node_ok (rv_storage R) A t) (re_decoders (rv_storage R)) A t (rv_peers R)"
    and "\<exists>h. header_parse (take header_size A) = Inr h" and "length A \<le> u64_max"
  using assms by (simp_all add: cluster_serves_def is_ok_iff)

abbreviation cluster_ok :: "('m, 'y) resolver \<Rightarrow> bytes \<Rightarrow> tileset_id \<Rightarrow> ('m, 'y) node_world \<Rightarrow> bool" where
  "cluster_ok R A t \<equiv> node_ok (rv_storage R) A t"

lemma distributed_env_serves:
  assumes R: "cluster_serves R A t"
  shows "env_serves (rest_ok (rv_storage R) A t) (distributed_storage R) A t"
proof -
  note S = cluster_servesD(1) [OF R, unfolded storage_serves_def]
  from cluster_servesD(3) [OF R] obtain h where h: "header_parse (take header_size A) = Inr h" by blast
  have boot: "serves (cluster_ok R A t) (transfer_ok A) (re_fetch_bootstrap (distributed_storage R) t md)" for md
  proof (rule servesI)
    fix w r w' assume w: "cluster_ok R A t w" and op: "re_fetch_bootstrap (distributed_storage R) t md w = (r, w')"
    obtain r1 w1 where 1: "route_bootstrap (rv_peers R) t md w = (r1, w1)" by fastforce
    from servesD [OF route_bootstrap_serves [OF cluster_servesD(2) [OF R] h cluster_servesD(4) [OF R]] w 1] op 1
    show "cluster_ok R A t w' \<and> (\<forall>tr. r = Inr tr \<longrightarrow> transfer_ok A tr)"
      by (cases r1) (auto simp: distributed_storage_fetch)
  qed
  have leaf: "serves (cluster_ok R A t) (leaf_transfer_ok A off len) (re_fetch_leaf (distributed_storage R) t off len)" for off len
  proof (rule servesI)
    fix w r w' assume w: "cluster_ok R A t w" and op: "re_fetch_leaf (distributed_storage R) t off len w = (r, w')"
    obtain r1 w1 where 1: "route_leaf (rv_peers R) t off len w = (r1, w1)" by fastforce
    from answersD [OF route_leaf_answers [OF cluster_servesD(2) [OF R]] w 1] op 1
    show "cluster_ok R A t w' \<and> (\<forall>tr. r = Inr tr \<longrightarrow> leaf_transfer_ok A off len tr)"
      by (auto simp: distributed_storage_fetch)
  qed
  show ?thesis using S boot leaf unfolding env_serves_def by simp
qed

lemmas cluster_get_tile = ishikari_get_tile_serves [OF distributed_env_serves, simplified]
lemmas cluster_header = ishikari_header_serves [OF distributed_env_serves, simplified]
lemmas cluster_metadata = ishikari_metadata_serves [OF distributed_env_serves, simplified]
lemmas cluster_bootstrap_bytes = load_bootstrap_bytes_serves [OF distributed_env_serves, simplified]
lemmas cluster_leaf_bytes = load_leaf_bytes_serves [OF distributed_env_serves, simplified]

section \<open>The resolver serves the archive\<close>

lemma cached_tile_ok:
  assumes "node_ok E A t w"
  shows "load_cached_tile t i w = LookupFound td \<Longrightarrow> archive_tile (re_decoders E) A i (Some td)"
    and "load_cached_tile t i w = LookupNotFound \<Longrightarrow> archive_tile (re_decoders E) A i None"
proof -
  from assms have "tile_entry_ok (re_decoders E) A i v" if "nr_tiles (wd_rest w) \<lparr>tk_tileset = t, tk_tile_id = i\<rparr> = Some v" for v
    using that by (simp add: world_ok_def rest_ok_def)
  then show "load_cached_tile t i w = LookupFound td \<Longrightarrow> archive_tile (re_decoders E) A i (Some td)"
    and "load_cached_tile t i w = LookupNotFound \<Longrightarrow> archive_tile (re_decoders E) A i None"
    by (auto simp: load_cached_tile_def tile_entry_ok_def split: option.splits cached_tile.splits)
qed

lemma tile_data_eta [simp]:
  "\<lparr>td_bytes = td_bytes td, td_content_type = td_content_type td, td_content_encoding = td_content_encoding td\<rparr> = td"
  by (cases td) simp

lemma cache_tile_ok:
  "node_ok E A t w \<Longrightarrow> archive_tile (re_decoders E) A i (Some td) \<Longrightarrow> node_ok E A t (cache_tile_hit t i td w)"
  "node_ok E A t w \<Longrightarrow> archive_tile (re_decoders E) A i None \<Longrightarrow> node_ok E A t (cache_tile_miss t i w)"
  by (simp_all add: world_ok_def rest_ok_def cache_tile_hit_def cache_tile_miss_def tile_cache_put_def tile_entry_ok_def)

text \<open>A tile answer with the source it is labelled with.\<close>

definition tile_answer_ok :: "decoders \<Rightarrow> bytes \<Rightarrow> u64 \<Rightarrow> tile_data option \<times> tile_source \<Rightarrow> bool" where
  "tile_answer_ok dec A i a \<longleftrightarrow>
     archive_tile dec A i (fst a) \<and> (fst a = None \<longleftrightarrow> snd a \<in> {NegativeCache, SelfMiss, PeerMiss})"

lemma load_local_tile_serves:
  assumes R: "cluster_serves R A t"
  shows "serves (cluster_ok R A t) (\<lambda>a. tile_answer_ok (re_decoders (rv_storage R)) A i a \<and> snd a \<in> {SelfChunkCache, SelfBackend, SelfMiss})
    (load_local_tile_with_source R t i)"
proof (rule servesI)
  fix w r w' assume w: "cluster_ok R A t w" and op: "load_local_tile_with_source R t i w = (r, w')"
  let ?w = "update_rest (\<lambda>x. x\<lparr>nr_waited := False\<rparr>) w"
  obtain r1 w1 where g: "ishikari_get_tile (rv_turns R) (distributed_storage R) t i ?w = (r1, w1)" by fastforce
  have "cluster_ok R A t ?w" using w by simp
  from servesD [OF cluster_get_tile [OF R] this g]
  have w1: "cluster_ok R A t w1" and td: "\<And>td. r1 = Inr td \<Longrightarrow> archive_tile (re_decoders (rv_storage R)) A i td" by auto
  show "cluster_ok R A t w' \<and> (\<forall>a. r = Inr a \<longrightarrow> tile_answer_ok (re_decoders (rv_storage R)) A i a
      \<and> snd a \<in> {SelfChunkCache, SelfBackend, SelfMiss})"
  proof (cases r1)
    case (Inl e)
    with op g w1 show ?thesis by (auto simp: load_local_tile_with_source_def load_local_tile_def observe_reads_def)
  next
    case (Inr o1)
    from td [OF this] op g Inr cache_tile_ok [OF w1] show ?thesis
      by (cases o1) (auto simp: load_local_tile_with_source_def load_local_tile_def observe_reads_def tile_answer_ok_def split: if_splits)
  qed
qed

lemma peer_tile_payload:
  assumes "archive_tile dec A i (Some td)" and "header_parse (take header_size A) = Inr h"
  shows "td = \<lparr>td_bytes = td_bytes td, td_content_type = tile_content_type (hd_tile_type h),
      td_content_encoding = content_encoding (hd_tile_compression h)\<rparr>"
proof -
  from assms(1) obtain h' d loc where "archive_root dec default_max_decompressed_bytes A h' d"
    and "Some td = map_option (\<lambda>(off, len). tile_payload A h' off len) loc" by (rule serves_tileE) blast
  with assms(2) show ?thesis by (cases loc) (auto simp: archive_root_def tile_payload_def)
qed

lemma load_tile_from_peer_ok:
  assumes R: "cluster_serves R A t" and w: "cluster_ok R A t w" and op: "load_tile_from_peer R p t i w = (r, w')"
  shows "cluster_ok R A t w'" and "r = Inr (Some (td, src)) \<Longrightarrow> archive_tile (re_decoders (rv_storage R)) A i (Some td)"
    and "r = Inl TsMiss \<Longrightarrow> archive_tile (re_decoders (rv_storage R)) A i None"
proof -
  let ?D = "re_decoders (rv_storage R)"
  note P = cluster_servesD(2) [OF R]
  have "answers (cluster_ok R A t) (tile_reply_ok ?D A i) (pe_fetch (rv_peers R) p (tile_path t i))"
    using P by (auto simp: peers_serve_def)
  note f = fetch_from_peer_answers [OF P this]
  obtain r1 w1 where 1: "fetch_tile_bytes (rv_peers R) p t i w = (r1, w1)" by fastforce
  from answersD [OF f w 1 [unfolded fetch_tile_bytes_def]] have w1: "cluster_ok R A t w1" and r1: "tile_reply_ok ?D A i r1" by auto
  have miss: "internal_tileset_error chain e \<noteq> TsMiss" for chain e
    by (simp add: internal_tileset_error_def split: option.splits storage_error.splits)
  have "cluster_ok R A t w' \<and> (\<forall>td src. r = Inr (Some (td, src)) \<longrightarrow> archive_tile ?D A i (Some td))
      \<and> (r = Inl TsMiss \<longrightarrow> archive_tile ?D A i None)"
  proof (cases r1)
    case (Inl e)
    with op 1 w1 r1 show ?thesis
      by (cases e) (auto simp: load_tile_from_peer_def peer_tileset_error_def tile_reply_ok_def)
  next
    case (Inr resp)
    with r1 obtain td0 where td0: "archive_tile ?D A i (Some td0)" "ir_bytes resp = td_bytes td0" by (auto simp: tile_reply_ok_def)
    obtain r2 w2 where 2: "ishikari_header (rv_turns R) (distributed_storage R) t w1 = (r2, w2)" by fastforce
    from servesD [OF cluster_header [OF R] w1 2]
    have w2: "cluster_ok R A t w2" and h: "\<And>x. r2 = Inr x \<Longrightarrow> \<exists>h. x = Some h \<and> header_parse (take header_size A) = Inr h" by auto
    show ?thesis
    proof (cases r2)
      case e: (Inl e)
      with op 1 2 Inr w2 miss show ?thesis by (auto simp: load_tile_from_peer_def)
    next
      case x: (Inr x)
      from h [OF x] obtain h where h: "x = Some h" "header_parse (take header_size A) = Inr h" by blast
      let ?td = "\<lparr>td_bytes = ir_bytes resp, td_content_type = tile_content_type (hd_tile_type h),
          td_content_encoding = content_encoding (hd_tile_compression h)\<rparr>"
      have "archive_tile ?D A i (Some ?td)" using td0 peer_tile_payload [OF td0(1) h(2)] by simp
      with op 1 2 Inr x h(1) cache_tile_ok(1) [OF w2 this] w2 show ?thesis
        by (auto simp: load_tile_from_peer_def Let_def)
    qed
  qed
  then show "cluster_ok R A t w'" "r = Inr (Some (td, src)) \<Longrightarrow> archive_tile ?D A i (Some td)"
    "r = Inl TsMiss \<Longrightarrow> archive_tile ?D A i None" by auto
qed

lemma tile_candidates_serves:
  assumes R: "cluster_serves R A t"
  shows "serves (cluster_ok R A t) (tile_answer_ok (re_decoders (rv_storage R)) A i) (tile_candidates R cs t i)"
proof (induction cs)
  case Nil
  from load_local_tile_serves [OF R, of i] show ?case unfolding serves_def tile_candidates.simps by blast
next
  case (Cons c cs)
  show ?case
  proof (rule servesI)
    fix w r w' assume w: "cluster_ok R A t w" and op: "tile_candidates R (c # cs) t i w = (r, w')"
    obtain r1 w1 where 1: "load_tile_from_peer R (sp_peer c) t i w = (r1, w1)" by fastforce
    note p = load_tile_from_peer_ok [OF R w 1]
    let ?goal = "cluster_ok R A t w' \<and> (\<forall>a. r = Inr a \<longrightarrow> tile_answer_ok (re_decoders (rv_storage R)) A i a)"
    have more: ?goal if "tile_candidates R cs t i w1 = (r, w')" by (rule servesD [OF Cons.IH p(1) that])
    show ?goal
    proof (cases "is_self (rv_peers R) (sp_peer c)")
      case True
      with op have "load_local_tile_with_source R t i w = (r, w')" by simp
      from servesD [OF load_local_tile_serves [OF R] w this] show ?thesis by blast
    next
      case False
      show ?thesis
      proof (cases r1)
        case (Inl e)
        with op 1 False more p(1,3) cache_tile_ok(2) [OF p(1) p(3)] show ?thesis
          by (auto simp: tile_answer_ok_def split: if_splits)
      next
        case (Inr x)
        show ?thesis
        proof (cases x)
          case None
          with op 1 False Inr more show ?thesis by simp
        next
          case (Some y)
          obtain td src where y: "y = (td, src)" by fastforce
          from op 1 False Inr Some y p(1) p(2) [of td src] show ?thesis
            by (cases src) (auto simp: tile_answer_ok_def)
        qed
      qed
    qed
  qed
qed

lemma route_tile_serves:
  assumes R: "cluster_serves R A t"
  shows "serves (cluster_ok R A t) (tile_answer_ok (re_decoders (rv_storage R)) A i) (route_tile R t i)"
proof (rule servesI)
  fix w r w' assume w: "cluster_ok R A t w" and op: "route_tile R t i w = (r, w')"
  note c = cached_tile_ok [OF w, of i]
  show "cluster_ok R A t w' \<and> (\<forall>a. r = Inr a \<longrightarrow> tile_answer_ok (re_decoders (rv_storage R)) A i a)"
  proof (cases "load_cached_tile t i w")
    case LookupNone
    obtain cs w1 where 1: "route_tile_for (rv_peers R) t i ''tile'' w = (cs, w1)" by fastforce
    from keepsD [OF route_now_keeps [OF cluster_servesD(2) [OF R]] w] 1 have w1: "cluster_ok R A t w1"
      by (simp add: route_tile_for_def)
    have "load_local_tile_with_source R t i w1 = (r, w') \<or> tile_candidates R cs t i w1 = (r, w')"
      using op LookupNone 1 by (auto simp: route_tile_def split: if_splits)
    with servesD [OF load_local_tile_serves [OF R] w1] servesD [OF tile_candidates_serves [OF R] w1] show ?thesis by blast
  qed (use op w c in \<open>auto simp: route_tile_def tile_answer_ok_def\<close>)
qed

lemma load_tile_by_id_serves:
  assumes R: "cluster_serves R A t"
  shows "serves (cluster_ok R A t) (\<lambda>a. tile_answer_ok (re_decoders (rv_storage R)) A i a
      \<and> snd a \<in> {SelfTileCache, SelfChunkCache, SelfBackend, NegativeCache, SelfMiss}) (load_tile_by_id_with_source R t i)"
proof (rule servesI)
  fix w r w' assume w: "cluster_ok R A t w" and op: "load_tile_by_id_with_source R t i w = (r, w')"
  note c = cached_tile_ok [OF w, of i]
  show "cluster_ok R A t w' \<and> (\<forall>a. r = Inr a \<longrightarrow> tile_answer_ok (re_decoders (rv_storage R)) A i a
      \<and> snd a \<in> {SelfTileCache, SelfChunkCache, SelfBackend, NegativeCache, SelfMiss})"
  proof (cases "load_cached_tile t i w")
    case LookupNone
    then have "load_local_tile_with_source R t i w = (r, w')" using op by (simp add: load_tile_by_id_with_source_def)
    from servesD [OF load_local_tile_serves [OF R] w this] show ?thesis by auto
  qed (use op w c in \<open>auto simp: load_tile_by_id_with_source_def tile_answer_ok_def\<close>)
qed

lemma load_tileset_info_serves:
  assumes R: "cluster_serves R A t"
  shows "serves (cluster_ok R A t) (\<lambda>r. \<exists>info. r = Some info \<and> info_ok (rv_storage R) A info) (load_tileset_info R t)"
proof (rule servesI)
  fix w r w' assume w: "cluster_ok R A t w" and op: "load_tileset_info R t w = (r, w')"
  show "cluster_ok R A t w' \<and> (\<forall>x. r = Inr x \<longrightarrow> (\<exists>info. x = Some info \<and> info_ok (rv_storage R) A info))"
  proof (cases "nr_infos (wd_rest w) t")
    case (Some info)
    moreover from w Some have "info_ok (rv_storage R) A info" by (simp add: world_ok_def rest_ok_def)
    ultimately show ?thesis using op w by (cases info) (auto simp: load_tileset_info_def)
  next
    case None
    obtain r1 w1 where 1: "ishikari_header (rv_turns R) (distributed_storage R) t w = (r1, w1)" by fastforce
    from servesD [OF cluster_header [OF R] w 1] have w1: "cluster_ok R A t w1"
      and h: "\<And>x. r1 = Inr x \<Longrightarrow> \<exists>h. x = Some h \<and> header_parse (take header_size A) = Inr h" by auto
    obtain r2 w2 where 2: "ishikari_metadata (rv_turns R) (distributed_storage R) t w1 = (r2, w2)" by fastforce
    from servesD [OF cluster_metadata [OF R] w1 2] have w2: "cluster_ok R A t w2"
      and md: "\<And>x. r2 = Inr x \<Longrightarrow> \<exists>md. x = Some md \<and> ishikari_metadata_of (rv_storage R) A md" by auto
    have put: "cluster_ok R A t (info_cache_put t info w2)" if "info_ok (rv_storage R) A info" for info
      using w2 that by (simp add: world_ok_def rest_ok_def info_cache_put_def)
    show ?thesis
    proof (cases r1)
      case (Inl e)
      with op None 1 w1 show ?thesis by (auto simp: load_tileset_info_def read_tileset_info_def)
    next
      case (Inr x)
      from h [OF this] obtain hd where hd: "x = Some hd" "header_parse (take header_size A) = Inr hd" by blast
      show ?thesis
      proof (cases r2)
        case e: (Inl e)
        with op None 1 2 Inr hd(1) w2 show ?thesis by (auto simp: load_tileset_info_def read_tileset_info_def)
      next
        case m: (Inr m)
        from md [OF m] obtain d where d: "m = Some d" "ishikari_metadata_of (rv_storage R) A d" by blast
        have ok: "info_ok (rv_storage R) A (hd, d)" using hd(2) d(2) by (simp add: info_ok_def)
        from op None 1 2 Inr hd(1) m d(1) put [OF ok] ok show ?thesis by (auto simp: load_tileset_info_def read_tileset_info_def)
      qed
    qed
  qed
qed

lemma archive_presence_serves:
  assumes R: "cluster_serves R A t"
  shows "serves (cluster_ok R A t) (\<lambda>r. r = ArchivePresent) (archive_presence R t)"
proof (rule servesI)
  fix w r w' assume w: "cluster_ok R A t w" and op: "archive_presence R t w = (r, w')"
  obtain r1 w1 where 1: "ishikari_header (rv_turns R) (distributed_storage R) t w = (r1, w1)" by fastforce
  from servesD [OF cluster_header [OF R] w 1] op 1 w
  show "cluster_ok R A t w' \<and> (\<forall>a. r = Inr a \<longrightarrow> a = ArchivePresent)"
    by (cases r1) (auto simp: archive_presence_def split: if_splits)
qed

section \<open>The internal endpoints answer as peers are assumed to\<close>

lemma read_bounded_single: "read_bounded_body limit n [Inr b] = Inr body \<Longrightarrow> body = b"
  by (auto simp: read_bounded_body_def split: if_splits option.splits)

lemma http_fetch_reply:
  assumes "http_fetch path (Replied rp) = Inr resp" and "rp_chunks rp = [Inr b]"
  shows "ir_bytes resp = b"
  using assms by (auto simp: http_fetch_def split: option.splits internal_provider_negative.splits if_splits sum.splits
      dest: read_bounded_single)

lemma http_fetch_error: "200 \<noteq> status \<Longrightarrow> status < 200 \<or> 300 \<le> status \<Longrightarrow> \<exists>e. http_fetch path (Replied (reply_error status)) = Inl e
    \<and> (e = PeerNotFound \<longrightarrow> status = 404)"
  by (auto simp: http_fetch_def reply_error_def authoritative_provider_negative_def)

lemma http_fetch_bytes:
  assumes "http_fetch path (Replied ((bytes_reply b)\<lparr>rp_tile_source := s, rp_content_encoding := ce\<rparr>)) = Inl e"
  shows "e \<noteq> PeerNotFound"
  using assms
  by (auto simp: http_fetch_def bytes_reply_def authoritative_provider_negative_def read_bounded_body_def
      split: sum.splits if_splits option.splits)

lemma tileset_error_status_range:
  "tileset_error_status e \<noteq> 200 \<and> 300 \<le> tileset_error_status e" "tileset_error_status e = 404 \<longleftrightarrow> e = TsMiss"
  by (cases e; simp add: tileset_error_status_def)+

lemma load_tile_by_id_no_miss: "load_tile_by_id_with_source R t i w = (Inl e, w') \<Longrightarrow> e \<noteq> TsMiss"
  by (auto simp: load_tile_by_id_with_source_def load_local_tile_with_source_def load_local_tile_def internal_tileset_error_def
      split: cached_tile_lookup.splits prod.splits sum.splits option.splits storage_error.splits)

lemma internal_tile_handler_ok:
  assumes R: "cluster_serves R A t" and t: "tileset_id_try_new t = Inr t" and w: "cluster_ok R A t w"
    and op: "internal_tile_handler R t i w = (rp, w')"
  shows "cluster_ok R A t w' \<and> tile_reply_ok (re_decoders (rv_storage R)) A i (http_fetch (tile_path t i) (Replied rp))"
proof -
  obtain r1 w1 where 1: "load_tile_by_id_with_source R t i w = (r1, w1)" by fastforce
  note s = servesD [OF load_tile_by_id_serves [OF R] w 1]
  show ?thesis
  proof (cases r1)
    case (Inl e)
    with op t 1 have rp: "rp = reply_error (tileset_error_status e)" "w' = w1" by (auto simp: internal_tile_handler_def)
    obtain e' where e': "http_fetch (tile_path t i) (Replied rp) = Inl e'" "e' = PeerNotFound \<longrightarrow> tileset_error_status e = 404"
      using http_fetch_error [of "tileset_error_status e" "tile_path t i"] tileset_error_status_range(1) [of e] unfolding rp by auto
    with load_tile_by_id_no_miss [OF 1 [unfolded Inl]] s rp(2) show ?thesis
      by (simp add: tile_reply_ok_def tileset_error_status_range(2))
  next
    case (Inr a)
    obtain td src where a: "a = (td, src)" by fastforce
    from s Inr a have td: "archive_tile (re_decoders (rv_storage R)) A i td"
      and src: "td = None \<longleftrightarrow> src \<in> {NegativeCache, SelfMiss, PeerMiss}"
      and own: "src \<in> {SelfTileCache, SelfChunkCache, SelfBackend, NegativeCache, SelfMiss}" and w1: "cluster_ok R A t w1"
      by (auto simp: tile_answer_ok_def)
    show ?thesis
    proof (cases td)
      case None
      with op t 1 Inr a src own have rp: "rp = reply_error 404" "w' = w1" by (auto simp: internal_tile_handler_def)
      obtain e' where "http_fetch (tile_path t i) (Replied rp) = Inl e'" using http_fetch_error [of 404 "tile_path t i"] unfolding rp by auto
      with td None w1 rp(2) show ?thesis by (simp add: tile_reply_ok_def)
    next
      case (Some d)
      with op t 1 Inr a src own obtain k where
        rp: "rp = (bytes_reply (td_bytes d))\<lparr>rp_tile_source := Some k, rp_content_encoding := td_content_encoding d\<rparr>" "w' = w1"
        by (auto simp: internal_tile_handler_def)
      have "rp_chunks rp = [Inr (td_bytes d)]" by (simp add: rp bytes_reply_def)
      note f = http_fetch_reply [OF _ this]
      show ?thesis
      proof (cases "http_fetch (tile_path t i) (Replied rp)")
        case e: (Inl e)
        have "e \<noteq> PeerNotFound" by (rule http_fetch_bytes [OF e [unfolded rp(1)]])
        with e rp(2) w1 show ?thesis by (simp add: tile_reply_ok_def)
      next
        case resp: (Inr resp)
        from f [OF this] td Some rp(2) w1 resp show ?thesis by (auto simp: tile_reply_ok_def)
      qed
    qed
  qed
qed

lemma bootstrap_bytes_metadata:
  "load_bootstrap_bytes_local n E t md w = (Inr (Some (bs, Some m)), w') \<Longrightarrow> md"
  by (auto simp: load_bootstrap_bytes_local_def split: prod.splits sum.splits option.splits if_splits)

lemma internal_bootstrap_handler_ok:
  assumes R: "cluster_serves R A t" and t: "tileset_id_try_new t = Inr t" and w: "cluster_ok R A t w"
    and op: "internal_bootstrap_handler R t md w = (rp, w')"
  shows "cluster_ok R A t w' \<and> bootstrap_reply_ok A md (http_fetch (bootstrap_path t md) (Replied rp))"
proof -
  obtain r1 w1 where 1: "load_bootstrap_bytes_local (rv_turns R) (distributed_storage R) t md w = (r1, w1)" by fastforce
  note s = servesD [OF cluster_bootstrap_bytes [OF R] w 1]
  show ?thesis
  proof (cases "\<exists>tr. r1 = Inr (Some tr)")
    case True
    then obtain tr where tr: "r1 = Inr (Some tr)" by blast
    with op t 1 have rp: "rp = bytes_reply (encode_bootstrap_wire tr)" "w' = w1"
      by (auto simp: internal_bootstrap_handler_def load_bootstrap_bytes_def)
    obtain bs mb where p: "tr = (bs, mb)" by fastforce
    have "md" if "mb = Some m" for m using bootstrap_bytes_metadata [OF 1 [unfolded tr p that]] .
    then have "snd tr \<noteq> None \<longrightarrow> md" using p by auto
    moreover have "rp_chunks rp = [Inr (encode_bootstrap_wire tr)]" by (simp add: rp bytes_reply_def)
    ultimately show ?thesis using s tr rp(2) http_fetch_reply [OF _ \<open>rp_chunks rp = _\<close>]
      by (auto simp: bootstrap_reply_ok_def p split: sum.splits)
  next
    case False
    with op t 1 obtain st where rp: "rp = reply_error st" "st \<noteq> 200" "300 \<le> st" "w' = w1"
      using tileset_error_status_range(1)
      by (auto simp: internal_bootstrap_handler_def load_bootstrap_bytes_def split: sum.splits option.splits)
    from http_fetch_error [of st "bootstrap_path t md"] rp s show ?thesis by (auto simp: bootstrap_reply_ok_def)
  qed
qed

lemma internal_leaf_handler_ok:
  assumes R: "cluster_serves R A t" and t: "tileset_id_try_new t = Inr t" and w: "cluster_ok R A t w"
    and op: "internal_leaf_handler R t off len w = (rp, w')"
  shows "cluster_ok R A t w' \<and> leaf_reply_ok A off len (http_fetch (leaf_path t off len) (Replied rp))"
proof -
  obtain r1 w1 where 1: "load_leaf_bytes_local (rv_turns R) (distributed_storage R) t off len w = (r1, w1)" by fastforce
  note s = servesD [OF cluster_leaf_bytes [OF R] w 1]
  show ?thesis
  proof (cases "\<exists>b. r1 = Inr (Some b)")
    case True
    then obtain b where b: "r1 = Inr (Some b)" by blast
    with op t 1 have rp: "rp = bytes_reply b" "w' = w1" by (auto simp: internal_leaf_handler_def load_leaf_bytes_def)
    have "rp_chunks rp = [Inr b]" by (simp add: rp bytes_reply_def)
    with s b rp(2) http_fetch_reply [OF _ this] show ?thesis by (auto simp: leaf_reply_ok_def split: sum.splits)
  next
    case False
    with op t 1 obtain st where rp: "rp = reply_error st" "st \<noteq> 200" "300 \<le> st" "w' = w1"
      using tileset_error_status_range(1)
      by (auto simp: internal_leaf_handler_def load_leaf_bytes_def leaf_error_status_def split: sum.splits option.splits local_leaf_error.splits)
    from http_fetch_error [of st "leaf_path t off len"] rp s show ?thesis by (auto simp: leaf_reply_ok_def)
  qed
qed

section \<open>Properties\<close>

text \<open>C28: A node of the cluster answers a tile request with the tile of the archive, or its absence,
  wherever the answer comes from: its caches, the peer that owns the tile, or storage. The label of the
  source tells the two apart, the node's caches stay coherent, tileset information is the archive's, and
  what the node answers its peers, read back through the peer transport, is again what peers are
  relied on to answer.\<close>

theorem resolver_serves_archive:
  assumes R: "cluster_serves R A t" and t: "tileset_id_try_new t = Inr t"
  shows "serves (cluster_ok R A t) (tile_answer_ok (re_decoders (rv_storage R)) A i) (route_tile R t i)
       \<and> serves (cluster_ok R A t) (\<lambda>r. \<exists>info. r = Some info \<and> info_ok (rv_storage R) A info) (load_tileset_info R t)
       \<and> serves (cluster_ok R A t) (\<lambda>r. r = ArchivePresent) (archive_presence R t)
       \<and> answers (cluster_ok R A t) (\<lambda>rp. tile_reply_ok (re_decoders (rv_storage R)) A i (http_fetch (tile_path t i) (Replied rp)))
           (internal_tile_handler R t i)
       \<and> answers (cluster_ok R A t) (\<lambda>rp. bootstrap_reply_ok A md (http_fetch (bootstrap_path t md) (Replied rp)))
           (internal_bootstrap_handler R t md)
       \<and> answers (cluster_ok R A t) (\<lambda>rp. leaf_reply_ok A off len (http_fetch (leaf_path t off len) (Replied rp)))
           (internal_leaf_handler R t off len)"
  by (intro conjI route_tile_serves load_tileset_info_serves archive_presence_serves R answersI
      internal_tile_handler_ok [OF R t] internal_bootstrap_handler_ok [OF R t] internal_leaf_handler_ok [OF R t])

text \<open>A node alone with the archive and one unreachable peer.\<close>

definition lone_resolver :: "bytes \<Rightarrow> (unit, unit) resolver" where
  "lone_resolver A =
     \<lparr>rv_storage = solitary_env A,
      rv_peers = \<lparr>pe_self = ''a'', pe_router = hrw_router_new 2 512, pe_xxh = (\<lambda>bs. of_nat (length bs)),
        pe_peers = (\<lambda>w. ([\<lparr>pr_id = ''bb'', pr_addr = []\<rparr>], w)), pe_fetch = (\<lambda>p path w. (Inl (PeerRetryable []), w)), pe_now = (\<lambda>w. (0, w))\<rparr>,
      rv_policy = EntryAndOwner, rv_chain = (\<lambda>_. []), rv_turns = 1\<rparr>"

lemma lone_resolver_serves:
  assumes "header_parse (take header_size A) = Inr h" and "length A \<le> u64_max"
  shows "cluster_serves (lone_resolver A) A t"
proof -
  have "env_serves (rest_ok (solitary_env A) A t) (solitary_env A) A t" by (rule solitary_env_serves)
  then have "storage_serves (solitary_env A) A t" unfolding env_serves_def storage_serves_def by blast
  then show ?thesis using assms
    by (simp add: cluster_serves_def lone_resolver_def peers_serve_def keeps_def answers_def tile_reply_ok_def
        bootstrap_reply_ok_def leaf_reply_ok_def is_ok_iff)
qed

theorem resolver_serves_archive_witness:
  "serves (cluster_ok (lone_resolver demo_archive) demo_archive ''osm'')
     (tile_answer_ok (re_decoders (rv_storage (lone_resolver demo_archive))) demo_archive 0) (route_tile (lone_resolver demo_archive) ''osm'' 0)
   \<and> cluster_ok (lone_resolver demo_archive) demo_archive ''osm''
       \<lparr>wd_cache = \<lparr>ac_archives = Map.empty, ac_leafs = Map.empty, ac_absent = {}\<rparr>,
        wd_rest = \<lparr>pt_failures = [], pt_inflight = [], nr_tiles = Map.empty, nr_infos = Map.empty, nr_waited = False, nr_more = ()\<rparr>\<rparr>"
proof -
  obtain h where "header_parse (take header_size demo_archive) = Inr h" using demo_header by blast
  then have R: "cluster_serves (lone_resolver demo_archive) demo_archive ''osm''"
    by (rule lone_resolver_serves) (simp add: demo_archive_def u64_max_def)
  have "tileset_id_try_new ''osm'' = Inr ''osm''" by code_simp
  from resolver_serves_archive [OF R this, THEN conjunct1] show ?thesis by (simp add: world_ok_def rest_ok_def)
qed

end
