(* ===== verification/Http_Cache.thy ===== *)
theory Http_Cache
  imports Prelude
begin

text \<open>
  The HTTP cache semantics of the tile server: \<^verbatim>\<open>crates/mmpf-http/src/cache_control.rs\<close> (the
  \<open>Cache-Control\<close> tokenizer and its conservative summary), \<^verbatim>\<open>content_type.rs\<close>,
  \<^verbatim>\<open>servers/ishikari/src/server/provider_cache_policy.rs\<close> (the policy of a shared cache and the header it
  emits), \<^verbatim>\<open>server/cache.rs\<close> (default policies) and \<^verbatim>\<open>server/conditional.rs\<close> (validators and
  conditional requests). Strings are their UTF-8 bytes; \<open>u64\<close> seconds are naturals with the
  saturation written out.
\<close>

section \<open>String operations of the standard library\<close>

text \<open>\<open>str::trim\<close> removes leading and trailing characters with the Unicode \<open>White_Space\<close>
  property, given here by their encodings.\<close>

definition white_space :: "string list" where
  "white_space =
     [[CHR 0x09], [CHR 0x0A], [CHR 0x0B], [CHR 0x0C], [CHR 0x0D], [CHR 0x20], [CHR 0xC2, CHR 0x85], [CHR 0xC2, CHR 0xA0],
      [CHR 0xE1, CHR 0x9A, CHR 0x80]]
     @ map (\<lambda>c. [CHR 0xE2, CHR 0x80, c])
         [CHR 0x80, CHR 0x81, CHR 0x82, CHR 0x83, CHR 0x84, CHR 0x85, CHR 0x86, CHR 0x87, CHR 0x88, CHR 0x89, CHR 0x8A,
          CHR 0xA8, CHR 0xA9, CHR 0xAF]
     @ [[CHR 0xE2, CHR 0x81, CHR 0x9F], [CHR 0xE3, CHR 0x80, CHR 0x80]]"

text \<open>The first of some patterns that a string starts with.\<close>

fun starts_with_any :: "string list \<Rightarrow> string \<Rightarrow> string option" where
  "starts_with_any [] s = None"
| "starts_with_any (p # ps) s = (if p = [] then starts_with_any ps s else
     case strip_prefix p s of Some r \<Rightarrow> Some r | None \<Rightarrow> starts_with_any ps s)"

lemma starts_with_any_shorter: "starts_with_any ps s = Some r \<Longrightarrow> length r < length s"
  by (induction ps) (auto simp: strip_prefix_Some split: if_splits option.splits)

function strip_leading :: "string list \<Rightarrow> string \<Rightarrow> string" where
  "strip_leading ps s = (case starts_with_any ps s of None \<Rightarrow> s | Some r \<Rightarrow> strip_leading ps r)"
  by pat_completeness auto
termination
  by (relation "measure (\<lambda>(ps, s). length s)") (auto dest: starts_with_any_shorter)

declare strip_leading.simps [simp del]

definition trim :: "string \<Rightarrow> string" where
  "trim s = rev (strip_leading (map rev white_space) (rev (strip_leading white_space s)))"

definition to_ascii_lowercase :: "char \<Rightarrow> char" where
  "to_ascii_lowercase c = (let n = of_char c :: nat in if 65 \<le> n \<and> n \<le> 90 then char_of (n + 32) else c)"

definition eq_ignore_ascii_case :: "string \<Rightarrow> string \<Rightarrow> bool" where
  "eq_ignore_ascii_case a b \<longleftrightarrow> map to_ascii_lowercase a = map to_ascii_lowercase b"

fun join :: "string \<Rightarrow> string list \<Rightarrow> string" where
  "join sep [] = []"
| "join sep [s] = s"
| "join sep (s # ss) = s @ sep @ join sep ss"

definition secs :: "nat \<Rightarrow> duration" where
  "secs n = n * 1000000000"

definition as_secs :: "duration \<Rightarrow> nat" where
  "as_secs d = d div 1000000000"

section \<open>Tokenizing \<open>Cache-Control\<close>\<close>

record directive =
  di_name :: string
  di_value :: "string option"

definition quote :: char where
  "quote = CHR 0x22"

definition backslash :: char where
  "backslash = CHR 0x5C"

text \<open>The scan of \<open>Directives::next\<close> for the comma that ends a token: whether it is inside a
  quoted string and whether the last byte escapes the next.\<close>

fun directive_boundary :: "bool \<Rightarrow> bool \<Rightarrow> string \<Rightarrow> nat" where
  "directive_boundary quoted escaped [] = 0"
| "directive_boundary quoted escaped (b # bs) =
     (if escaped then Suc (directive_boundary quoted False bs)
      else if b = backslash \<and> quoted then Suc (directive_boundary quoted True bs)
      else if b = quote then Suc (directive_boundary (\<not> quoted) False bs)
      else if b = CHR '','' \<and> \<not> quoted then 0
      else Suc (directive_boundary quoted False bs))"

text \<open>The scan of \<open>normalize_value\<close> over the bytes between the outer quotes: \<open>None\<close> at an inner
  quote, otherwise whether the last byte is left escaping.\<close>

fun quoted_interior :: "bool \<Rightarrow> string \<Rightarrow> bool option" where
  "quoted_interior escaped [] = Some escaped"
| "quoted_interior escaped (b # bs) =
     (if escaped then quoted_interior False bs
      else if b = backslash then quoted_interior True bs
      else if b = quote then None
      else quoted_interior False bs)"

definition normalize_value :: "string \<Rightarrow> string" where
  "normalize_value v =
     (if length v < 2 \<or> hd v \<noteq> quote \<or> last v \<noteq> quote then v
      else case quoted_interior False (butlast (tl v)) of
        None \<Rightarrow> v
      | Some escaped \<Rightarrow> if escaped then v else butlast (tl v))"

definition directive_of_token :: "string \<Rightarrow> directive" where
  "directive_of_token token =
     (case split_once CHR ''='' token of
        Some (nm, v) \<Rightarrow> \<lparr>di_name = trim nm, di_value = Some (normalize_value (trim v))\<rparr>
      | None \<Rightarrow> \<lparr>di_name = token, di_value = None\<rparr>)"

definition directive_rest :: "string \<Rightarrow> string" where
  "directive_rest s =
     (let boundary = directive_boundary False False s
      in if boundary < length s then drop (boundary + 1) s else [])"

lemma directive_rest_shorter: "s \<noteq> [] \<Longrightarrow> length (directive_rest s) < length s"
  by (simp add: directive_rest_def Let_def)

text \<open>\<open>Directives::next\<close>: the next directive and what remains.\<close>

function directives_next :: "string \<Rightarrow> (directive \<times> string) option" where
  "directives_next s =
     (if s = [] then None
      else let token = trim (take (directive_boundary False False s) s)
           in if token = [] then directives_next (directive_rest s)
              else Some (directive_of_token token, directive_rest s))"
  by pat_completeness auto
termination
  by (relation "measure length") (auto simp: directive_rest_shorter)

declare directives_next.simps [simp del]

lemma directives_next_shorter: "directives_next s = Some (d, r) \<Longrightarrow> length r < length s"
proof (induction s rule: directives_next.induct)
  case (1 s)
  show ?case
  proof (cases "s = []")
    case False
    with 1 directive_rest_shorter [OF False] show ?thesis
      by (subst (asm) (2) directives_next.simps) (fastforce simp: Let_def split: if_splits)
  qed (use 1(2) in \<open>simp add: directives_next.simps\<close>)
qed

text \<open>The iterator run to its end.\<close>

function directives :: "string \<Rightarrow> directive list" where
  "directives s = (case directives_next s of None \<Rightarrow> [] | Some (d, r) \<Rightarrow> d # directives r)"
  by pat_completeness auto
termination
  by (relation "measure length") (auto simp: directives_next_shorter)

declare directives.simps [simp del]

definition name_eq :: "directive \<Rightarrow> string \<Rightarrow> bool" where
  "name_eq d expected = eq_ignore_ascii_case (di_name d) expected"

text \<open>\<open>parse_delta_seconds\<close> folds with saturating \<open>u64\<close> operations.\<close>

definition parse_delta_seconds :: "string \<Rightarrow> nat option" where
  "parse_delta_seconds v =
     (if v = [] \<or> \<not> list_all is_digit v then None
      else Some (foldl (\<lambda>seconds b. min u64_max (min u64_max (seconds * 10) + digit_value b)) 0 v))"

definition delta_seconds :: "directive \<Rightarrow> nat option" where
  "delta_seconds d = Option.bind (di_value d) parse_delta_seconds"

record parsed_cache_control =
  cc_no_store :: bool
  cc_no_cache :: bool
  cc_private :: bool
  cc_must_revalidate :: bool
  cc_proxy_revalidate :: bool
  cc_no_transform :: bool
  cc_immutable :: bool
  cc_max_age :: "nat option"
  cc_s_maxage :: "nat option"
  cc_stale_while_revalidate :: "nat option"

definition cache_control_default :: parsed_cache_control where
  "cache_control_default = \<lparr>cc_no_store = False, cc_no_cache = False, cc_private = False, cc_must_revalidate = False,
     cc_proxy_revalidate = False, cc_no_transform = False, cc_immutable = False,
     cc_max_age = None, cc_s_maxage = None, cc_stale_while_revalidate = None\<rparr>"

definition merge_conservative :: "nat option \<Rightarrow> nat option \<Rightarrow> nat option" where
  "merge_conservative target parsed =
     (let candidate = (case parsed of Some v \<Rightarrow> v | None \<Rightarrow> 0)
      in Some (case target of None \<Rightarrow> candidate | Some current \<Rightarrow> min current candidate))"

definition apply_directive :: "parsed_cache_control \<Rightarrow> directive \<Rightarrow> parsed_cache_control" where
  "apply_directive control d =
     (if name_eq d ''no-store'' then control\<lparr>cc_no_store := True\<rparr>
      else if name_eq d ''no-cache'' then control\<lparr>cc_no_cache := True\<rparr>
      else if name_eq d ''private'' then control\<lparr>cc_private := True\<rparr>
      else if name_eq d ''must-revalidate'' then control\<lparr>cc_must_revalidate := True\<rparr>
      else if name_eq d ''proxy-revalidate'' then control\<lparr>cc_proxy_revalidate := True\<rparr>
      else if name_eq d ''no-transform'' then control\<lparr>cc_no_transform := True\<rparr>
      else if name_eq d ''immutable'' then control\<lparr>cc_immutable := True\<rparr>
      else if name_eq d ''max-age''
      then control\<lparr>cc_max_age := merge_conservative (cc_max_age control) (delta_seconds d)\<rparr>
      else if name_eq d ''s-maxage''
      then control\<lparr>cc_s_maxage := merge_conservative (cc_s_maxage control) (delta_seconds d)\<rparr>
      else if name_eq d ''stale-while-revalidate''
      then control\<lparr>cc_stale_while_revalidate := merge_conservative (cc_stale_while_revalidate control) (delta_seconds d)\<rparr>
      else control)"

definition parse_values :: "string list \<Rightarrow> parsed_cache_control option" where
  "parse_values vs =
     (if vs = [] then None
      else Some (foldl (\<lambda>control v. foldl apply_directive control (directives v)) cache_control_default vs))"

definition conservative_delta_seconds_values :: "string list \<Rightarrow> string \<Rightarrow> nat option" where
  "conservative_delta_seconds_values vs expected =
     (let ss = map (\<lambda>d. case delta_seconds d of Some v \<Rightarrow> v | None \<Rightarrow> 0)
                 (filter (\<lambda>d. name_eq d expected) (concat (map directives vs)))
      in min_by_key id ss)"

definition conservative_delta_seconds :: "string \<Rightarrow> string \<Rightarrow> nat option" where
  "conservative_delta_seconds v expected = conservative_delta_seconds_values [v] expected"

text \<open>\<open>content_type::media_type_eq\<close>.\<close>

definition media_type_eq :: "string \<Rightarrow> string \<Rightarrow> bool" where
  "media_type_eq v expected =
     eq_ignore_ascii_case (trim (case split_once CHR '';'' v of Some (m, _) \<Rightarrow> m | None \<Rightarrow> v)) expected"

section \<open>The policy of the shared cache\<close>

text \<open>\<^verbatim>\<open>server/cache.rs\<close>.\<close>

definition cache_TILE :: string where
  "cache_TILE = ''public, max-age=3600, s-maxage=86400, stale-while-revalidate=604800''"

definition cache_TILEJSON :: string where
  "cache_TILEJSON = ''public, max-age=300, s-maxage=3600, stale-while-revalidate=86400''"

definition cache_STYLE :: string where
  "cache_STYLE = ''public, max-age=300, s-maxage=3600, stale-while-revalidate=86400''"

definition cache_PREVIEW :: string where
  "cache_PREVIEW = ''public, max-age=300''"

definition cache_GLYPH_SPRITE :: string where
  "cache_GLYPH_SPRITE = ''public, max-age=86400, s-maxage=604800, stale-while-revalidate=604800''"

definition style_positive_ttl :: duration where
  "style_positive_ttl = secs 300"

definition glyph_sprite_positive_ttl :: duration where
  "glyph_sprite_positive_ttl = secs 86400"

definition provider_negative_ttl :: duration where
  "provider_negative_ttl = secs 30"

definition max_provider_ttl :: duration where
  "max_provider_ttl = secs (7 * 86400)"

record shared_policy =
  cp_store :: bool
  cp_fresh :: duration
  cp_swr :: duration
  cp_response_cache_control :: string

record negative_cache_policy =
  ncp_store :: bool
  ncp_fresh :: duration

definition positive_ttl :: "string \<Rightarrow> duration" where
  "positive_ttl resource =
     (if resource = ''glyph'' \<or> resource = ''sprite'' then glyph_sprite_positive_ttl else style_positive_ttl)"

definition default_response_cache_control :: "string \<Rightarrow> string" where
  "default_response_cache_control resource =
     (if resource = ''style'' then cache_STYLE
      else if resource = ''glyph'' \<or> resource = ''sprite'' then cache_GLYPH_SPRITE
      else ''no-cache'')"

definition policy_defaulted :: "string \<Rightarrow> shared_policy" where
  "policy_defaulted resource = \<lparr>cp_store = True, cp_fresh = positive_ttl resource, cp_swr = 0,
     cp_response_cache_control = default_response_cache_control resource\<rparr>"

definition clamp_secs :: "nat \<Rightarrow> nat" where
  "clamp_secs s = min s (as_secs max_provider_ttl)"

text \<open>The directives \<open>normalized_cache_control\<close> collects for a shared response.\<close>

definition shared_directives :: "string \<Rightarrow> parsed_cache_control \<Rightarrow> string list" where
  "shared_directives resource control =
     (let default_fresh = as_secs (positive_ttl resource);
          max_age = (case map_option clamp_secs (cc_max_age control) of
                       Some v \<Rightarrow> v
                     | None \<Rightarrow> if cc_s_maxage control \<noteq> None then 0 else default_fresh);
          s_maxage = (case map_option clamp_secs (cc_s_maxage control) of
                        Some v \<Rightarrow> v
                      | None \<Rightarrow> (case map_option clamp_secs (cc_max_age control) of Some v \<Rightarrow> v | None \<Rightarrow> default_fresh))
      in [''public'', ''max-age='' @ decimal max_age, ''s-maxage='' @ decimal s_maxage]
         @ (if \<not> (cc_must_revalidate control \<or> cc_proxy_revalidate control)
            then (case map_option clamp_secs (cc_stale_while_revalidate control) of
                    Some swr \<Rightarrow> if 0 < swr then [''stale-while-revalidate='' @ decimal swr] else []
                  | None \<Rightarrow> [])
            else [])
         @ (if cc_must_revalidate control then [''must-revalidate'']
            else if cc_proxy_revalidate control then [''proxy-revalidate''] else [])
         @ (if cc_no_transform control then [''no-transform''] else [])
         @ (if cc_immutable control then [''immutable''] else []))"

definition normalized_cache_control :: "string \<Rightarrow> parsed_cache_control \<Rightarrow> string" where
  "normalized_cache_control resource control =
     (if cc_no_store control then ''no-store''
      else if cc_no_cache control then ''no-cache''
      else if cc_private control
      then ''private, max-age='' @ decimal (case map_option clamp_secs (cc_max_age control) of Some v \<Rightarrow> v | None \<Rightarrow> 0)
      else join '', '' (shared_directives resource control))"

definition has_explicit_freshness :: "parsed_cache_control option \<Rightarrow> bool" where
  "has_explicit_freshness control =
     (case control of None \<Rightarrow> False | Some c \<Rightarrow> cc_max_age c \<noteq> None \<or> cc_s_maxage c \<noteq> None)"

definition shared_freshness :: "parsed_cache_control \<Rightarrow> nat option" where
  "shared_freshness control = (case cc_s_maxage control of None \<Rightarrow> cc_max_age control | Some s \<Rightarrow> Some s)"

definition cache_policy_with_freshness_values :: "string \<Rightarrow> string list \<Rightarrow> shared_policy \<times> bool" where
  "cache_policy_with_freshness_values resource upstream =
     (let control = parse_values upstream; explicit = has_explicit_freshness control
      in case control of
           None \<Rightarrow> (policy_defaulted resource, False)
         | Some control \<Rightarrow>
             (let response_cache_control = normalized_cache_control resource control
              in if cc_no_store control \<or> cc_no_cache control \<or> cc_private control
                 then (\<lparr>cp_store = False, cp_fresh = 0, cp_swr = 0,
                        cp_response_cache_control = response_cache_control\<rparr>, explicit)
                 else
                   (let clamp = (\<lambda>s. min (secs s) max_provider_ttl);
                        fresh = (case shared_freshness control of Some s \<Rightarrow> clamp s | None \<Rightarrow> positive_ttl resource);
                        swr = (if cc_must_revalidate control \<or> cc_proxy_revalidate control then 0
                               else case map_option clamp (cc_stale_while_revalidate control) of Some d \<Rightarrow> d | None \<Rightarrow> 0)
                    in (\<lparr>cp_store = True, cp_fresh = fresh, cp_swr = swr,
                         cp_response_cache_control = response_cache_control\<rparr>, explicit))))"

definition cache_policy_values :: "string \<Rightarrow> string list \<Rightarrow> shared_policy" where
  "cache_policy_values resource upstream = fst (cache_policy_with_freshness_values resource upstream)"

text \<open>\<open>cache_policy\<close> iterates an \<open>Option\<close>: no field or one.\<close>

definition cache_policy_of :: "string \<Rightarrow> string option \<Rightarrow> shared_policy" where
  "cache_policy_of resource upstream =
     cache_policy_values resource (case upstream of None \<Rightarrow> [] | Some v \<Rightarrow> [v])"

definition negative_cache_policy_with_freshness_values :: "string list \<Rightarrow> negative_cache_policy \<times> bool" where
  "negative_cache_policy_with_freshness_values upstream =
     (let control = parse_values upstream; explicit = has_explicit_freshness control
      in case control of
           None \<Rightarrow> (\<lparr>ncp_store = True, ncp_fresh = provider_negative_ttl\<rparr>, False)
         | Some control \<Rightarrow>
             if cc_no_store control \<or> cc_no_cache control \<or> cc_private control
             then (\<lparr>ncp_store = False, ncp_fresh = 0\<rparr>, explicit)
             else (\<lparr>ncp_store = True,
                    ncp_fresh = min (case map_option secs (shared_freshness control) of
                                       Some d \<Rightarrow> d | None \<Rightarrow> provider_negative_ttl) provider_negative_ttl\<rparr>, explicit))"

definition negative_cache_policy_values :: "string list \<Rightarrow> negative_cache_policy" where
  "negative_cache_policy_values upstream = fst (negative_cache_policy_with_freshness_values upstream)"

section \<open>Validators and conditional requests\<close>

text \<open>A \<open>SystemTime\<close> is an integer number of nanoseconds from the epoch.\<close>

type_synonym system_time = int

record validators =
  va_etag :: "string option"
  va_last_modified :: "system_time option"

definition derived_etag :: "string \<Rightarrow> validators" where
  "derived_etag etag = \<lparr>va_etag = Some etag, va_last_modified = None\<rparr>"

text \<open>\<open>{:016x}\<close> of a \<open>u64\<close>: sixteen lower-case hexadecimal digits.\<close>

definition lower_hex_digit :: "nat \<Rightarrow> char" where
  "lower_hex_digit n = (if n < 10 then char_of (48 + n) else char_of (87 + n))"

fun hex_fixed :: "nat \<Rightarrow> nat \<Rightarrow> string" where
  "hex_fixed 0 n = []"
| "hex_fixed (Suc k) n = hex_fixed k (n div 16) @ [lower_hex_digit (n mod 16)]"

text \<open>\<open>for_derived_body\<close>; the seeded \<open>XxHash64\<close> of the body is a parameter.\<close>

definition for_derived_body :: "(u64 \<Rightarrow> bytes \<Rightarrow> u64) \<Rightarrow> bytes \<Rightarrow> validators" where
  "for_derived_body xxhash body = derived_etag ([quote] @ hex_fixed 16 (unat (xxhash 0x49534b52 body)) @ [quote])"

text \<open>The two request headers a conditional request carries: each physical value of
  \<open>If-None-Match\<close>, and the first of \<open>If-Modified-Since\<close>, with \<open>to_str\<close> applied (\<open>None\<close> for a value
  that is not visible ASCII).\<close>

record conditional_headers =
  rq_if_none_match :: "string option list"
  rq_if_modified_since :: "string option option"

fun split_entity_tag_scan :: "bool \<Rightarrow> string \<Rightarrow> string \<Rightarrow> string list" where
  "split_entity_tag_scan quoted acc [] = [trim acc]"
| "split_entity_tag_scan quoted acc (b # bs) =
     (if b = quote then split_entity_tag_scan (\<not> quoted) (acc @ [b]) bs
      else if b = CHR '','' \<and> \<not> quoted then trim acc # split_entity_tag_scan quoted [] bs
      else split_entity_tag_scan quoted (acc @ [b]) bs)"

definition split_entity_tag_list :: "string \<Rightarrow> string list" where
  "split_entity_tag_list v = split_entity_tag_scan False [] v"

definition strip_weak :: "string \<Rightarrow> string" where
  "strip_weak etag = (case strip_prefix ''W/'' etag of Some r \<Rightarrow> r | None \<Rightarrow> etag)"

definition if_none_match_matches :: "string \<Rightarrow> string option \<Rightarrow> bool" where
  "if_none_match_matches v etag =
     list_ex (\<lambda>candidate. candidate = ''*'' \<or>
        (case etag of None \<Rightarrow> False | Some e \<Rightarrow> strip_weak candidate = strip_weak e)) (split_entity_tag_list v)"

definition truncate_to_seconds :: "system_time \<Rightarrow> system_time" where
  "truncate_to_seconds t = (if 0 \<le> t then t div 1000000000 * 1000000000 else t)"

text \<open>\<open>not_modified\<close>; \<open>parse_http_date\<close> of the \<open>httpdate\<close> crate is a parameter.\<close>

definition not_modified :: "(string \<Rightarrow> system_time option) \<Rightarrow> validators \<Rightarrow> conditional_headers \<Rightarrow> bool" where
  "not_modified parse_http_date va rq =
     (if rq_if_none_match rq \<noteq> []
      then list_ex (\<lambda>v. if_none_match_matches v (va_etag va)) (List.map_filter id (rq_if_none_match rq))
      else case rq_if_modified_since rq of
        Some ims \<Rightarrow>
          (case va_last_modified va of
             None \<Rightarrow> False
           | Some last_modified \<Rightarrow>
               (case Option.bind ims parse_http_date of
                  None \<Rightarrow> False
                | Some since \<Rightarrow> truncate_to_seconds last_modified \<le> since))
      | None \<Rightarrow> False)"

section \<open>Trimming and tokenizing\<close>

definition graphic :: "char \<Rightarrow> bool" where
  "graphic c \<longleftrightarrow> 32 < (of_char c :: nat) \<and> (of_char c :: nat) < 127"

lemma starts_with_any_None:
  "(\<And>p. p \<in> set ps \<Longrightarrow> p \<noteq> [] \<Longrightarrow> s \<noteq> [] \<Longrightarrow> hd p \<noteq> hd s) \<Longrightarrow> starts_with_any ps s = None"
proof (induction ps)
  case (Cons p ps)
  then have "p \<noteq> [] \<Longrightarrow> strip_prefix p s = None"
    by (cases "strip_prefix p s") (use Cons.prems [of p] in \<open>auto simp: strip_prefix_Some\<close>)
  with Cons show ?case by simp
qed simp

lemma white_space_not_graphic: "p \<in> set white_space \<Longrightarrow> p \<noteq> [] \<and> \<not> graphic (hd p) \<and> \<not> graphic (last p)"
  by (auto simp: white_space_def graphic_def)

lemma trim_graphic [simp]: "s \<noteq> [] \<Longrightarrow> graphic (hd s) \<Longrightarrow> graphic (last s) \<Longrightarrow> trim s = s"
proof -
  assume s: "s \<noteq> []" "graphic (hd s)" "graphic (last s)"
  have "starts_with_any white_space s = None"
    by (rule starts_with_any_None) (use s(2) white_space_not_graphic in metis)
  moreover have "starts_with_any (map rev white_space) (rev s) = None"
    by (rule starts_with_any_None)
      (use s in \<open>auto simp: hd_rev dest: white_space_not_graphic\<close>)
  ultimately show ?thesis by (simp add: trim_def strip_leading.simps)
qed

lemma trim_Nil [simp]: "trim [] = []"
  by code_simp

lemma trim_space [simp]: "trim (CHR '' '' # s) = trim s"
proof -
  have "starts_with_any white_space (CHR '' '' # s) = Some s"
    by (simp add: white_space_def)
  then show ?thesis by (simp add: trim_def strip_leading.simps [of _ "CHR '' '' # s"])
qed

text \<open>A token a sender writes: visible characters without comma or quote.\<close>

definition plain :: "string \<Rightarrow> bool" where
  "plain s \<longleftrightarrow> list_all (\<lambda>c. c \<noteq> CHR '','' \<and> c \<noteq> quote) s"

definition token_ok :: "string \<Rightarrow> bool" where
  "token_ok t \<longleftrightarrow> t \<noteq> [] \<and> list_all graphic t \<and> plain t"

lemma token_trim [simp]: "token_ok t \<Longrightarrow> trim t = t"
  by (simp add: token_ok_def list_all_iff)

lemma directive_boundary_plain:
  "plain t \<Longrightarrow> directive_boundary False False (t @ CHR '','' # r) = length t"
  "plain t \<Longrightarrow> directive_boundary False False t = length t"
  by (induction t) (auto simp: plain_def quote_def)

lemma directives_Nil [simp]: "directives [] = []"
  by (simp add: directives.simps directives_next.simps)

lemma directives_plain:
  assumes "plain t" "trim t \<noteq> []"
  shows "directives (t @ CHR '','' # r) = directive_of_token (trim t) # directives r"
    "directives t = [directive_of_token (trim t)]"
proof -
  from assms(2) have "t \<noteq> []" by auto
  with assms show "directives (t @ CHR '','' # r) = directive_of_token (trim t) # directives r"
    "directives t = [directive_of_token (trim t)]"
    by (simp_all add: directives.simps [of "t @ _"] directives.simps [of t] directives_next.simps [of "t @ _"]
        directives_next.simps [of t] directive_boundary_plain directive_rest_def Let_def)
qed

lemma plain_space [simp]: "plain (CHR '' '' # t) = plain t"
  by (simp add: plain_def quote_def)

lemma directives_join:
  assumes "list_all token_ok ts"
  shows "directives (join '', '' ts) = map directive_of_token ts \<and> directives (CHR '' '' # join '', '' ts) = map directive_of_token ts"
  using assms
proof (induction "'', ''" ts rule: join.induct)
  case 1
  have "directives '' '' = []" by code_simp
  then show ?case by simp
next
  case (2 t)
  then have "plain t" "trim t \<noteq> []" by (simp_all add: token_ok_def)
  with 2 directives_plain(2) [of t] directives_plain(2) [of "CHR '' '' # t"] show ?case by simp
next
  case (3 t u ts)
  then have "plain t" "trim t \<noteq> []" by (simp_all add: token_ok_def)
  with 3 directives_plain(1) [of t] directives_plain(1) [of "CHR '' '' # t"] show ?case by simp
qed

section \<open>The summary is conservative\<close>

text \<open>What a set of directives asks for, without regard to order and repetition.\<close>

definition directive_secs :: "directive \<Rightarrow> nat" where
  "directive_secs d = (case delta_seconds d of Some v \<Rightarrow> v | None \<Rightarrow> 0)"

definition least_secs :: "directive set \<Rightarrow> string \<Rightarrow> nat option" where
  "least_secs D nm =
     (let ss = directive_secs ` {d \<in> D. name_eq d nm} in if ss = {} then None else Some (Min ss))"

definition asks :: "directive set \<Rightarrow> string \<Rightarrow> bool" where
  "asks D nm \<longleftrightarrow> (\<exists>d\<in>D. name_eq d nm)"

definition control_spec :: "directive set \<Rightarrow> parsed_cache_control" where
  "control_spec D = \<lparr>cc_no_store = asks D ''no-store'', cc_no_cache = asks D ''no-cache'', cc_private = asks D ''private'',
     cc_must_revalidate = asks D ''must-revalidate'', cc_proxy_revalidate = asks D ''proxy-revalidate'',
     cc_no_transform = asks D ''no-transform'', cc_immutable = asks D ''immutable'',
     cc_max_age = least_secs D ''max-age'', cc_s_maxage = least_secs D ''s-maxage'',
     cc_stale_while_revalidate = least_secs D ''stale-while-revalidate''\<rparr>"

lemma least_secs_empty [simp]: "least_secs {} nm = None"
  by (simp add: least_secs_def)

lemma least_secs_insert:
  assumes "finite D"
  shows "least_secs (insert d D) nm =
    (if name_eq d nm then merge_conservative (least_secs D nm) (delta_seconds d) else least_secs D nm)"
proof -
  define S where "S = directive_secs ` {e \<in> D. name_eq e nm}"
  have old: "least_secs D nm = (if S = {} then None else Some (Min S))" by (simp only: least_secs_def S_def Let_def)
  have "directive_secs ` {e \<in> insert d D. name_eq e nm} = (if name_eq d nm then insert (directive_secs d) S else S)"
    by (auto simp: S_def)
  then have new: "least_secs (insert d D) nm =
      (if name_eq d nm then Some (Min (insert (directive_secs d) S)) else least_secs D nm)"
    by (simp only: least_secs_def S_def Let_def if_distrib [of "\<lambda>x. x = _"] split: if_split) simp
  from assms have "finite S" by (simp add: S_def)
  then show ?thesis
    by (cases "S = {}") (simp_all add: old new merge_conservative_def directive_secs_def min.commute)
qed

lemma asks_insert: "asks (insert d D) nm \<longleftrightarrow> name_eq d nm \<or> asks D nm"
  by (auto simp: asks_def)

lemma apply_directive_spec: "finite D \<Longrightarrow> apply_directive (control_spec D) d = control_spec (insert d D)"
  by (simp add: apply_directive_def control_spec_def asks_insert least_secs_insert name_eq_def
      eq_ignore_ascii_case_def to_ascii_lowercase_def)

lemma foldl_apply_directive: "finite D \<Longrightarrow> foldl apply_directive (control_spec D) ds = control_spec (set ds \<union> D)"
  by (induction ds arbitrary: D) (simp_all add: apply_directive_spec)

lemma control_spec_empty: "cache_control_default = control_spec {}"
  by (simp add: control_spec_def cache_control_default_def asks_def)

definition field_directives :: "string list \<Rightarrow> directive set" where
  "field_directives vs = (\<Union>v\<in>set vs. set (directives v))"

lemma parse_values_spec: "parse_values vs = (if vs = [] then None else Some (control_spec (field_directives vs)))"
proof -
  have "foldl (\<lambda>control v. foldl apply_directive control (directives v)) (control_spec D) vs
      = control_spec (field_directives vs \<union> D)" if "finite D" for D
    using that by (induction vs arbitrary: D) (simp_all add: field_directives_def foldl_apply_directive Un_ac)
  from this [of "{}"] show ?thesis by (simp add: parse_values_def control_spec_empty)
qed

lemma min_by_key_id: "min_by_key id xs = (if xs = [] then None else Some (Min (set xs)))"
proof (cases "min_by_key id xs")
  case (Some y)
  with min_by_key_Some [OF Some] show ?thesis by (cases xs) (auto intro: Min_eqI [symmetric])
qed simp

lemma conservative_delta_spec: "conservative_delta_seconds_values vs nm = least_secs (field_directives vs) nm"
proof -
  have "set (filter (\<lambda>d. name_eq d nm) (concat (map directives vs))) = {d \<in> field_directives vs. name_eq d nm}"
    by (auto simp: field_directives_def)
  then show ?thesis
    by (auto simp: conservative_delta_seconds_values_def least_secs_def min_by_key_id directive_secs_def Let_def
        filter_empty_conv field_directives_def)
qed

section \<open>Reading back an emitted header\<close>

lemma parse_delta_seconds_value:
  "v \<noteq> [] \<Longrightarrow> list_all is_digit v \<Longrightarrow> parse_delta_seconds v = Some (min u64_max (digits_value v))"
proof -
  have "foldl (\<lambda>seconds b. min u64_max (min u64_max (seconds * 10) + digit_value b)) 0 v = min u64_max (digits_value v)"
    by (induction v rule: rev_induct) (auto simp: digits_value_def min_def)
  then show "v \<noteq> [] \<Longrightarrow> list_all is_digit v \<Longrightarrow> ?thesis" by (simp add: parse_delta_seconds_def)
qed

lemma decimal_graphic: "list_all graphic (decimal n)"
  using decimal_digits [of n] by (auto simp: list_all_iff is_digit_def graphic_def)

lemma decimal_plain: "plain (decimal n)"
  using decimal_digits [of n] by (auto simp: plain_def list_all_iff is_digit_def quote_def)

lemma trim_decimal [simp]: "trim (decimal n) = decimal n"
  using decimal_graphic [of n] by (simp add: list_all_iff)

lemma normalize_decimal [simp]: "normalize_value (decimal n) = decimal n"
  using decimal_plain [of n] hd_in_set [of "decimal n"] by (auto simp: normalize_value_def plain_def list_all_iff)

abbreviation seconds_directive :: "string \<Rightarrow> nat \<Rightarrow> directive" where
  "seconds_directive nm n \<equiv> \<lparr>di_name = nm, di_value = Some (decimal n)\<rparr>"

abbreviation flag_directive :: "string \<Rightarrow> directive" where
  "flag_directive nm \<equiv> \<lparr>di_name = nm, di_value = None\<rparr>"

lemma directive_of_seconds:
  assumes "nm \<noteq> []" "list_all (\<lambda>c. graphic c \<and> c \<noteq> CHR ''='') nm"
  shows "directive_of_token (nm @ ''='' @ decimal n) = seconds_directive nm n"
proof -
  from assms(2) have "CHR ''='' \<notin> set nm" by (auto simp: list_all_iff)
  with assms show ?thesis
    by (simp add: directive_of_token_def split_once_append list_all_iff)
qed

lemma emitted_tokens:
  "directive_of_token (''max-age='' @ decimal n) = seconds_directive ''max-age'' n"
  "directive_of_token (''s-maxage='' @ decimal n) = seconds_directive ''s-maxage'' n"
  "directive_of_token (''stale-while-revalidate='' @ decimal n) = seconds_directive ''stale-while-revalidate'' n"
  using directive_of_seconds [of "''max-age''" n] directive_of_seconds [of "''s-maxage''" n]
    directive_of_seconds [of "''stale-while-revalidate''" n] by (simp_all add: graphic_def)

lemma emitted_flags:
  "directive_of_token ''public'' = flag_directive ''public''"
  "directive_of_token ''must-revalidate'' = flag_directive ''must-revalidate''"
  "directive_of_token ''proxy-revalidate'' = flag_directive ''proxy-revalidate''"
  "directive_of_token ''no-transform'' = flag_directive ''no-transform''"
  "directive_of_token ''immutable'' = flag_directive ''immutable''"
  "directive_of_token ''private'' = flag_directive ''private''"
  "directive_of_token ''no-store'' = flag_directive ''no-store''"
  "directive_of_token ''no-cache'' = flag_directive ''no-cache''"
  by (simp_all add: directive_of_token_def)

lemma emitted_ok:
  "token_ok (''max-age='' @ decimal n)" "token_ok (''s-maxage='' @ decimal n)"
  "token_ok (''stale-while-revalidate='' @ decimal n)"
  "token_ok ''public''" "token_ok ''must-revalidate''" "token_ok ''proxy-revalidate''" "token_ok ''no-transform''"
  "token_ok ''immutable''" "token_ok ''private''" "token_ok ''no-store''" "token_ok ''no-cache''"
  using decimal_graphic [of n] decimal_plain [of n]
  by (simp_all add: token_ok_def plain_def graphic_def quote_def)

lemma directive_secs_seconds [simp]: "directive_secs (seconds_directive nm n) = min u64_max n"
  by (simp add: directive_secs_def delta_seconds_def parse_delta_seconds_value)

lemma name_eq_seconds [simp]: "name_eq \<lparr>di_name = nm, di_value = v\<rparr> e = eq_ignore_ascii_case nm e"
  by (simp add: name_eq_def)

definition lower_case :: "string \<Rightarrow> bool" where
  "lower_case s \<longleftrightarrow> map to_ascii_lowercase s = s"

lemma eq_ignore_lower_case: "lower_case a \<Longrightarrow> lower_case b \<Longrightarrow> eq_ignore_ascii_case a b \<longleftrightarrow> a = b"
  by (simp add: lower_case_def eq_ignore_ascii_case_def)

lemma lower_names [simp]:
  "lower_case ''public''" "lower_case ''max-age''" "lower_case ''s-maxage''" "lower_case ''stale-while-revalidate''"
  "lower_case ''must-revalidate''" "lower_case ''proxy-revalidate''" "lower_case ''no-transform''"
  "lower_case ''immutable''" "lower_case ''private''" "lower_case ''no-store''" "lower_case ''no-cache''"
  by (simp_all add: lower_case_def to_ascii_lowercase_def)

text \<open>What the emitted header of a shared response says.\<close>

definition emitted_max_age :: "string \<Rightarrow> parsed_cache_control \<Rightarrow> nat" where
  "emitted_max_age resource c =
     (case cc_max_age c of Some v \<Rightarrow> clamp_secs v
      | None \<Rightarrow> if cc_s_maxage c \<noteq> None then 0 else as_secs (positive_ttl resource))"

definition emitted_s_maxage :: "string \<Rightarrow> parsed_cache_control \<Rightarrow> nat" where
  "emitted_s_maxage resource c =
     (case shared_freshness c of Some v \<Rightarrow> clamp_secs v | None \<Rightarrow> as_secs (positive_ttl resource))"

definition emitted_swr :: "parsed_cache_control \<Rightarrow> nat option" where
  "emitted_swr c =
     (if cc_must_revalidate c \<or> cc_proxy_revalidate c then None
      else case cc_stale_while_revalidate c of
        None \<Rightarrow> None | Some v \<Rightarrow> if clamp_secs v = 0 then None else Some (clamp_secs v))"

definition emitted_control :: "string \<Rightarrow> parsed_cache_control \<Rightarrow> parsed_cache_control" where
  "emitted_control resource c = cache_control_default
     \<lparr>cc_must_revalidate := cc_must_revalidate c, cc_proxy_revalidate := cc_proxy_revalidate c \<and> \<not> cc_must_revalidate c,
      cc_no_transform := cc_no_transform c, cc_immutable := cc_immutable c,
      cc_max_age := Some (emitted_max_age resource c), cc_s_maxage := Some (emitted_s_maxage resource c),
      cc_stale_while_revalidate := emitted_swr c\<rparr>"

lemma shared_directives_emitted:
  "shared_directives resource c =
     [''public'', ''max-age='' @ decimal (emitted_max_age resource c), ''s-maxage='' @ decimal (emitted_s_maxage resource c)]
     @ (case emitted_swr c of None \<Rightarrow> [] | Some s \<Rightarrow> [''stale-while-revalidate='' @ decimal s])
     @ (if cc_must_revalidate c then [''must-revalidate'']
        else if cc_proxy_revalidate c then [''proxy-revalidate''] else [])
     @ (if cc_no_transform c then [''no-transform''] else [])
     @ (if cc_immutable c then [''immutable''] else [])"
  by (auto simp: shared_directives_def emitted_max_age_def emitted_s_maxage_def emitted_swr_def shared_freshness_def Let_def
      split: option.splits)

lemma clamp_secs_bound: "clamp_secs v \<le> 604800"
  by (simp add: clamp_secs_def max_provider_ttl_def secs_def as_secs_def)

lemma clamp_secs_idem: "v \<le> 604800 \<Longrightarrow> clamp_secs v = v"
  by (simp add: clamp_secs_def max_provider_ttl_def secs_def as_secs_def)

lemma positive_ttl_secs: "positive_ttl resource = secs (as_secs (positive_ttl resource))" "as_secs (positive_ttl resource) \<le> 604800"
  by (simp_all add: positive_ttl_def style_positive_ttl_def glyph_sprite_positive_ttl_def secs_def as_secs_def)

lemma emitted_bounds:
  "emitted_max_age resource c \<le> 604800" "emitted_s_maxage resource c \<le> 604800"
  "emitted_swr c = Some s \<Longrightarrow> s \<le> 604800 \<and> s \<noteq> 0"
  using clamp_secs_bound positive_ttl_secs(2)
  by (auto simp: emitted_max_age_def emitted_s_maxage_def emitted_swr_def split: option.splits if_splits)

lemma u64_min [simp]: "v \<le> 604800 \<Longrightarrow> min u64_max v = v"
  by (simp add: u64_max_def)

text \<open>Selecting the directives of a name from a set given by cases.\<close>

definition named :: "string \<Rightarrow> directive set \<Rightarrow> directive set" where
  "named nm D = {d \<in> D. name_eq d nm}"

lemma named_simps:
  "named nm (A \<union> B) = named nm A \<union> named nm B"
  "named nm (insert x A) = (if name_eq x nm then insert x (named nm A) else named nm A)"
  "named nm (if b then A else B) = (if b then named nm A else named nm B)"
  "named nm (case opt of None \<Rightarrow> A | Some s \<Rightarrow> F s) = (case opt of None \<Rightarrow> named nm A | Some s \<Rightarrow> named nm (F s))"
  "named nm {} = {}"
  by (auto simp: named_def split: option.split)

lemma asks_named: "asks D nm \<longleftrightarrow> named nm D \<noteq> {}"
  by (auto simp: asks_def named_def)

lemma least_secs_named:
  "named nm D = {d} \<Longrightarrow> least_secs D nm = Some (directive_secs d)"
  "named nm D = {} \<Longrightarrow> least_secs D nm = None"
  by (simp_all add: least_secs_def named_def)

lemma control_spec_emitted: "control_spec (directive_of_token ` set (shared_directives resource c)) = emitted_control resource c"
proof -
  let ?D = "directive_of_token ` set (shared_directives resource c)"
  have D: "?D = {flag_directive ''public'', seconds_directive ''max-age'' (emitted_max_age resource c),
        seconds_directive ''s-maxage'' (emitted_s_maxage resource c)}
      \<union> (case emitted_swr c of None \<Rightarrow> {} | Some s \<Rightarrow> {seconds_directive ''stale-while-revalidate'' s})
      \<union> (if cc_must_revalidate c then {flag_directive ''must-revalidate''}
         else if cc_proxy_revalidate c then {flag_directive ''proxy-revalidate''} else {})
      \<union> (if cc_no_transform c then {flag_directive ''no-transform''} else {})
      \<union> (if cc_immutable c then {flag_directive ''immutable''} else {})"
    unfolding shared_directives_emitted
    by (simp only: set_append image_Un list.set image_insert image_empty emitted_tokens emitted_flags Un_assoc
        option.case_distrib [of "\<lambda>xs. directive_of_token ` set xs"] if_distrib [of "\<lambda>xs. directive_of_token ` set xs"])
  have max_age: "named ''max-age'' ?D = {seconds_directive ''max-age'' (emitted_max_age resource c)}"
    and s_maxage: "named ''s-maxage'' ?D = {seconds_directive ''s-maxage'' (emitted_s_maxage resource c)}"
    and swr: "named ''stale-while-revalidate'' ?D =
      (case emitted_swr c of None \<Rightarrow> {} | Some s \<Rightarrow> {seconds_directive ''stale-while-revalidate'' s})"
    unfolding D named_simps by (simp_all add: eq_ignore_lower_case split: option.split)
  have secs: "least_secs ?D ''max-age'' = Some (emitted_max_age resource c)"
      "least_secs ?D ''s-maxage'' = Some (emitted_s_maxage resource c)"
    using emitted_bounds(1,2) [of resource c]
    by (simp_all add: least_secs_named(1) [OF max_age] least_secs_named(1) [OF s_maxage])
  have swr: "least_secs ?D ''stale-while-revalidate'' = emitted_swr c"
    using emitted_bounds(3) [of c] swr
    by (cases "emitted_swr c") (simp_all add: least_secs_named)
  have "asks ?D ''no-store'' = False" "asks ?D ''no-cache'' = False" "asks ?D ''private'' = False"
    "asks ?D ''must-revalidate'' = cc_must_revalidate c"
    "asks ?D ''proxy-revalidate'' = (cc_proxy_revalidate c \<and> \<not> cc_must_revalidate c)"
    "asks ?D ''no-transform'' = cc_no_transform c" "asks ?D ''immutable'' = cc_immutable c"
    unfolding D asks_named named_simps by (simp_all add: eq_ignore_lower_case split: option.split)
  with secs swr show ?thesis
    by (simp add: control_spec_def emitted_control_def cache_control_default_def)
qed

lemma shared_directives_ok: "list_all token_ok (shared_directives resource c)"
  unfolding shared_directives_emitted using emitted_ok by (simp split: option.splits)

lemma parse_emitted: "parse_values [join '', '' (shared_directives resource c)] = Some (emitted_control resource c)"
  using control_spec_emitted [of resource c] directives_join [OF shared_directives_ok [of resource c]]
  by (simp add: parse_values_spec field_directives_def)

lemma emitted_idem:
  "emitted_max_age resource (emitted_control resource c) = emitted_max_age resource c"
  "emitted_s_maxage resource (emitted_control resource c) = emitted_s_maxage resource c"
  "emitted_swr (emitted_control resource c) = emitted_swr c"
proof -
  let ?e = "emitted_control resource c"
  have f: "cc_max_age ?e = Some (emitted_max_age resource c)" "cc_s_maxage ?e = Some (emitted_s_maxage resource c)"
    "cc_stale_while_revalidate ?e = emitted_swr c"
    "cc_must_revalidate ?e \<or> cc_proxy_revalidate ?e \<longleftrightarrow> cc_must_revalidate c \<or> cc_proxy_revalidate c"
    by (auto simp: emitted_control_def)
  from f(1,2) emitted_bounds(1,2) [of resource c]
  show "emitted_max_age resource ?e = emitted_max_age resource c" "emitted_s_maxage resource ?e = emitted_s_maxage resource c"
    by (simp_all add: emitted_max_age_def [of _ ?e] emitted_s_maxage_def [of _ ?e] shared_freshness_def clamp_secs_idem)
  show "emitted_swr ?e = emitted_swr c"
  proof (cases "emitted_swr c")
    case None
    with f show ?thesis by (simp add: emitted_swr_def [of ?e])
  next
    case (Some s)
    then have "\<not> (cc_must_revalidate c \<or> cc_proxy_revalidate c)" by (auto simp: emitted_swr_def)
    with Some f emitted_bounds(3) [OF Some] show ?thesis by (simp add: emitted_swr_def [of ?e] clamp_secs_idem)
  qed
qed

lemma emitted_control_idem: "emitted_control resource (emitted_control resource c) = emitted_control resource c"
  by (subst emitted_control_def) (simp only: emitted_idem, simp add: emitted_control_def)

lemma parse_private:
  "n \<le> 604800 \<Longrightarrow> parse_values [''private, max-age='' @ decimal n] = Some (cache_control_default\<lparr>cc_private := True, cc_max_age := Some n\<rparr>)"
proof -
  have "directives (''private, max-age='' @ decimal n) = [flag_directive ''private'', seconds_directive ''max-age'' n]"
    using directives_join [of "[''private'', ''max-age='' @ decimal n]"] emitted_ok emitted_tokens emitted_flags by simp
  moreover assume "n \<le> 604800"
  ultimately show ?thesis
    by (simp add: parse_values_def apply_directive_def eq_ignore_lower_case merge_conservative_def cache_control_default_def
        delta_seconds_def parse_delta_seconds_value)
qed

lemma parse_bypass:
  "parse_values [''no-store''] = Some (cache_control_default\<lparr>cc_no_store := True\<rparr>)"
  "parse_values [''no-cache''] = Some (cache_control_default\<lparr>cc_no_cache := True\<rparr>)"
  using directives_join [of "[''no-store'']"] directives_join [of "[''no-cache'']"] emitted_ok emitted_flags
  by (simp_all add: parse_values_def apply_directive_def eq_ignore_lower_case)

section \<open>Policies\<close>

text \<open>The policy of a parsed header.\<close>

definition control_policy :: "string \<Rightarrow> parsed_cache_control \<Rightarrow> shared_policy" where
  "control_policy resource c =
     (if cc_no_store c \<or> cc_no_cache c \<or> cc_private c
      then \<lparr>cp_store = False, cp_fresh = 0, cp_swr = 0, cp_response_cache_control = normalized_cache_control resource c\<rparr>
      else \<lparr>cp_store = True, cp_fresh = secs (emitted_s_maxage resource c),
            cp_swr = secs (case emitted_swr c of None \<Rightarrow> 0 | Some s \<Rightarrow> s),
            cp_response_cache_control = normalized_cache_control resource c\<rparr>)"

lemma secs_clamp: "min (secs v) max_provider_ttl = secs (clamp_secs v)"
  by (simp add: clamp_secs_def max_provider_ttl_def secs_def as_secs_def min_def)

lemma secs_0 [simp]: "secs 0 = 0"
  by (simp add: secs_def)

lemma secs_mono [simp]: "secs a \<le> secs b \<longleftrightarrow> a \<le> b"
  by (simp add: secs_def)

lemma cache_policy_parsed:
  "parse_values vs = Some c \<Longrightarrow> cache_policy_with_freshness_values resource vs = (control_policy resource c, has_explicit_freshness (Some c))"
  using positive_ttl_secs(1) [of resource]
  by (auto simp: cache_policy_with_freshness_values_def control_policy_def emitted_s_maxage_def emitted_swr_def secs_clamp Let_def
      split: option.splits)

lemma control_policy_emitted:
  assumes "\<not> (cc_no_store c \<or> cc_no_cache c \<or> cc_private c)"
  shows "control_policy resource (emitted_control resource c) = control_policy resource c"
proof -
  have e: "\<not> (cc_no_store (emitted_control resource c) \<or> cc_no_cache (emitted_control resource c) \<or> cc_private (emitted_control resource c))"
    by (simp add: emitted_control_def cache_control_default_def)
  have "shared_directives resource (emitted_control resource c) = shared_directives resource c"
    unfolding shared_directives_emitted emitted_idem by (simp add: emitted_control_def cache_control_default_def)
  with assms e show ?thesis
    by (simp add: control_policy_def emitted_idem normalized_cache_control_def)
qed

definition control_negative :: "parsed_cache_control \<Rightarrow> negative_cache_policy" where
  "control_negative c =
     (if cc_no_store c \<or> cc_no_cache c \<or> cc_private c then \<lparr>ncp_store = False, ncp_fresh = 0\<rparr>
      else \<lparr>ncp_store = True,
            ncp_fresh = (case shared_freshness c of Some s \<Rightarrow> min (secs s) provider_negative_ttl
                         | None \<Rightarrow> provider_negative_ttl)\<rparr>)"

lemma policies_of_fields:
  "vs = [] \<Longrightarrow> cache_policy_values resource vs = policy_defaulted resource
     \<and> negative_cache_policy_values vs = \<lparr>ncp_store = True, ncp_fresh = provider_negative_ttl\<rparr> \<and> field_directives vs = {}"
  "vs \<noteq> [] \<Longrightarrow> cache_policy_values resource vs = control_policy resource (control_spec (field_directives vs))
     \<and> negative_cache_policy_values vs = control_negative (control_spec (field_directives vs))"
  using cache_policy_parsed [of vs "control_spec (field_directives vs)" resource] parse_values_spec [of vs]
  by (auto simp: cache_policy_values_def negative_cache_policy_values_def cache_policy_with_freshness_values_def [of _ "[]"]
      negative_cache_policy_with_freshness_values_def control_negative_def field_directives_def Let_def split: option.split)

lemma control_policy_bounds:
  "cp_fresh (policy_defaulted resource) \<le> max_provider_ttl" "cp_fresh (control_policy resource c) \<le> max_provider_ttl"
  "cp_swr (control_policy resource c) \<le> max_provider_ttl" "ncp_fresh (control_negative c) \<le> provider_negative_ttl"
  "cp_store (policy_defaulted resource)" "cp_swr (policy_defaulted resource) = 0"
  using positive_ttl_secs [of resource] emitted_bounds(1,2) [of resource c] emitted_bounds(3) [of c]
  by (auto simp: policy_defaulted_def control_policy_def control_negative_def max_provider_ttl_def secs_def split: option.split)

lemma policy_windows:
  "cp_fresh (cache_policy_values resource vs) \<le> max_provider_ttl \<and> cp_swr (cache_policy_values resource vs) \<le> max_provider_ttl"
  and negative_window: "ncp_fresh (negative_cache_policy_values vs) \<le> provider_negative_ttl"
  using policies_of_fields [of vs] control_policy_bounds by (cases "vs = []"; simp)+

lemma shared_freshness_least:
  assumes "finite D" "d \<in> D" "name_eq d ''s-maxage'' \<or> name_eq d ''max-age'' \<and> \<not> (\<exists>e\<in>D. name_eq e ''s-maxage'')"
  shows "\<exists>m. shared_freshness (control_spec D) = Some m \<and> m \<le> directive_secs d"
proof -
  have least: "\<exists>m. least_secs D nm = Some m \<and> m \<le> directive_secs d" if "name_eq d nm" for nm
    using that assms(1,2) by (auto simp: least_secs_def Let_def)
  have none: "least_secs D nm = None" if "\<not> (\<exists>e\<in>D. name_eq e nm)" for nm
    using that by (auto simp: least_secs_def Let_def)
  have f: "shared_freshness (control_spec D) = (case least_secs D ''s-maxage'' of None \<Rightarrow> least_secs D ''max-age'' | Some s \<Rightarrow> Some s)"
    by (simp add: shared_freshness_def control_spec_def split: option.split)
  from assms(3) show ?thesis
  proof
    assume "name_eq d ''s-maxage''"
    from least [OF this] f show ?thesis by auto
  next
    assume "name_eq d ''max-age'' \<and> \<not> (\<exists>e\<in>D. name_eq e ''s-maxage'')"
    with least [of "''max-age''"] none [of "''s-maxage''"] f show ?thesis by auto
  qed
qed

text \<open>C33: The summary of \<open>Cache-Control\<close> is conservative: one pass over every physical field computes what the
  set of their directives asks for. A flag is set exactly when some field has the directive, a lifetime is the least value
  of its directives (a missing or malformed value counts zero), equal to the separate computation
  \<open>conservative_delta_seconds_values\<close>; so neither the order of fields and directives nor their repetition
  can extend freshness. The header is absent exactly when there is no field.\<close>

theorem cache_control_conservative:
  "parse_values vs = (if vs = [] then None else Some (control_spec (field_directives vs)))
    \<and> (\<forall>nm. conservative_delta_seconds_values vs nm = least_secs (field_directives vs) nm)"
  using parse_values_spec conservative_delta_spec by blast





section \<open>Conditional requests\<close>

text \<open>An entity tag of RFC 9110: an optional weakness mark and a quoted opaque tag.\<close>

definition quoted_tag :: "string \<Rightarrow> string" where
  "quoted_tag opaque = [quote] @ opaque @ [quote]"

definition entity_tag :: "bool \<times> string \<Rightarrow> string" where
  "entity_tag t = (if fst t then ''W/'' else []) @ quoted_tag (snd t)"

definition opaque_ok :: "string \<Rightarrow> bool" where
  "opaque_ok s \<longleftrightarrow> list_all (\<lambda>c. graphic c \<and> c \<noteq> quote) s"

lemma strip_weak_entity_tag [simp]: "strip_weak (entity_tag t) = quoted_tag (snd t)"
  by (simp add: strip_weak_def entity_tag_def quoted_tag_def quote_def)

lemma quoted_tag_inj [simp]: "quoted_tag a = quoted_tag b \<longleftrightarrow> a = b"
  by (simp add: quoted_tag_def)

lemma entity_tag_not_star [simp]: "entity_tag t \<noteq> ''*''" "''*'' \<noteq> entity_tag t"
  by (simp_all add: entity_tag_def quoted_tag_def quote_def)

lemma trim_entity_tag [simp]: "trim (entity_tag t) = entity_tag t"
  by (rule trim_graphic) (simp_all add: entity_tag_def quoted_tag_def quote_def graphic_def)

lemma scan_opaque:
  "opaque_ok s \<Longrightarrow> split_entity_tag_scan True acc (s @ quote # r) = split_entity_tag_scan False (acc @ s @ [quote]) r"
  by (induction s arbitrary: acc) (simp_all add: opaque_ok_def)

lemma scan_entity_tag:
  "opaque_ok (snd t) \<Longrightarrow> split_entity_tag_scan False acc (entity_tag t @ r) = split_entity_tag_scan False (acc @ entity_tag t) r"
  using scan_opaque [of "snd t" _ r] by (simp add: entity_tag_def quoted_tag_def, simp add: quote_def)

lemma split_entity_tags:
  assumes "ts \<noteq> []" "list_all (\<lambda>t. opaque_ok (snd t)) ts" "acc = [] \<or> acc = '' ''"
  shows "split_entity_tag_scan False acc (join '', '' (map entity_tag ts)) = map entity_tag ts"
  using assms
proof (induction ts arbitrary: acc)
  case (Cons t ts)
  then have t: "opaque_ok (snd t)" and tr: "trim (acc @ entity_tag t) = entity_tag t" by auto
  show ?case
  proof (cases ts)
    case Nil
    with scan_entity_tag [OF t, of acc "[]"] tr show ?thesis by simp
  next
    case (Cons u us)
    with Cons.IH [of "'' ''"] Cons.prems scan_entity_tag [OF t, of acc] tr show ?thesis by (simp add: quote_def)
  qed
qed simp

lemma if_none_match_entity_tags:
  assumes "ts \<noteq> []" "list_all (\<lambda>t. opaque_ok (snd t)) ts"
  shows "if_none_match_matches (join '', '' (map entity_tag ts)) (map_option entity_tag etag)
    \<longleftrightarrow> (\<exists>e t. etag = Some e \<and> t \<in> set ts \<and> snd t = snd e)"
  using split_entity_tags [OF assms, of "[]"]
  by (cases etag) (force simp: if_none_match_matches_def split_entity_tag_list_def list_ex_iff)+

lemma hex_fixed_inj: "a < 16 ^ k \<Longrightarrow> b < 16 ^ k \<Longrightarrow> hex_fixed k a = hex_fixed k b \<Longrightarrow> a = b"
proof (induction k arbitrary: a b)
  case (Suc k)
  have d: "lower_hex_digit x = lower_hex_digit y \<Longrightarrow> x = y" if "x < 16" "y < 16" for x y :: nat
    using that arg_cong [of "lower_hex_digit x" "lower_hex_digit y" "of_char :: char \<Rightarrow> nat"]
    by (auto simp: lower_hex_digit_def of_char_of split: if_splits)
  from Suc.prems have "a div 16 = b div 16" by (intro Suc.IH) auto
  moreover from Suc.prems d [of "a mod 16" "b mod 16"] have "a mod 16 = b mod 16" by simp
  ultimately show ?case by (metis div_mult_mod_eq)
qed simp

lemma hex_fixed_opaque: "opaque_ok (hex_fixed k n)"
  by (induction k arbitrary: n)
    (auto simp: opaque_ok_def lower_hex_digit_def graphic_def quote_def of_char_of dest: arg_cong [of _ _ "of_char :: char \<Rightarrow> nat"])

text \<open>C36: Conditional requests. When a request carries \<open>If-None-Match\<close>, in one or more fields of entity tags, it is
  answered 304 exactly when some listed tag has the opaque part of the representation's tag, weak or strong, whatever
  the date says; commas inside tags do not split them, and \<open>*\<close> matches always. Without it, a date matches when the
  modification time, to the second, is not later, so an echoed date always matches. A tag made for a derived body
  matches the tag of another body exactly when their hashes agree.\<close>

theorem conditional_requests:
  assumes "tss \<noteq> []" "list_all (\<lambda>ts. ts \<noteq> [] \<and> list_all (\<lambda>t. opaque_ok (snd t)) ts) tss"
  shows "(not_modified parse_http_date \<lparr>va_etag = map_option entity_tag etag, va_last_modified = lm\<rparr>
        \<lparr>rq_if_none_match = map (\<lambda>ts. Some (join '', '' (map entity_tag ts))) tss, rq_if_modified_since = ims\<rparr>
      \<longleftrightarrow> (\<exists>e ts t. etag = Some e \<and> ts \<in> set tss \<and> t \<in> set ts \<and> snd t = snd e))
    \<and> not_modified parse_http_date va \<lparr>rq_if_none_match = [Some ''*''], rq_if_modified_since = ims\<rparr>
    \<and> (parse_http_date date = Some (truncate_to_seconds m) \<longrightarrow>
        not_modified parse_http_date \<lparr>va_etag = tag, va_last_modified = Some m\<rparr>
          \<lparr>rq_if_none_match = [], rq_if_modified_since = Some (Some date)\<rparr>)
    \<and> (\<exists>tag. va_etag (for_derived_body xxhash body) = Some tag \<and>
        (not_modified parse_http_date (for_derived_body xxhash other) \<lparr>rq_if_none_match = [Some tag], rq_if_modified_since = ims\<rparr>
          \<longleftrightarrow> xxhash 0x49534b52 body = xxhash 0x49534b52 other))"
proof -
  have tags: "not_modified parse_http_date \<lparr>va_etag = map_option entity_tag etag, va_last_modified = lm\<rparr>
      \<lparr>rq_if_none_match = map (\<lambda>ts. Some (join '', '' (map entity_tag ts))) tss, rq_if_modified_since = ims\<rparr>
    \<longleftrightarrow> (\<exists>e ts t. etag = Some e \<and> ts \<in> set tss \<and> t \<in> set ts \<and> snd t = snd e)"
    using assms if_none_match_entity_tags [where etag = etag]
    by (auto simp: not_modified_def list_ex_iff list_all_iff map_filter_def)
  have star: "not_modified parse_http_date va \<lparr>rq_if_none_match = [Some ''*''], rq_if_modified_since = ims\<rparr>"
    by (simp add: not_modified_def map_filter_def if_none_match_matches_def split_entity_tag_list_def quote_def graphic_def)
  have date: "not_modified parse_http_date \<lparr>va_etag = tag, va_last_modified = Some m\<rparr>
      \<lparr>rq_if_none_match = [], rq_if_modified_since = Some (Some date)\<rparr>"
    if "parse_http_date date = Some (truncate_to_seconds m)"
    using that by (simp add: not_modified_def)
  let ?tag = "\<lambda>b. (False, hex_fixed 16 (unat (xxhash 0x49534b52 b)))"
  have tag: "for_derived_body xxhash b = \<lparr>va_etag = Some (entity_tag (?tag b)), va_last_modified = None\<rparr>" for b
    by (simp add: for_derived_body_def derived_etag_def entity_tag_def quoted_tag_def)
  have "hex_fixed 16 (unat v) = hex_fixed 16 (unat w) \<longleftrightarrow> v = w" for v w :: u64
    using hex_fixed_inj [of "unat v" 16 "unat w"] unat_u64_le [of v] unat_u64_le [of w] by (auto simp: u64_max_def word_unat_eq_iff)
  then have derived: "\<exists>tag. va_etag (for_derived_body xxhash body) = Some tag \<and>
      (not_modified parse_http_date (for_derived_body xxhash other) \<lparr>rq_if_none_match = [Some tag], rq_if_modified_since = ims\<rparr>
        \<longleftrightarrow> xxhash 0x49534b52 body = xxhash 0x49534b52 other)"
    using if_none_match_entity_tags [of "[?tag body]" "Some (?tag other)"] hex_fixed_opaque
    by (simp add: tag not_modified_def map_filter_def)
  show ?thesis using tags star date derived by blast
qed

theorem conditional_requests_witness:
  "not_modified (\<lambda>d. Some 7) \<lparr>va_etag = Some (entity_tag (False, ''a,b'')), va_last_modified = Some 9000000000\<rparr>
     \<lparr>rq_if_none_match = [Some (join '', '' [entity_tag (False, ''x''), entity_tag (True, ''a,b'')])], rq_if_modified_since = None\<rparr>"
proof -
  let ?tss = "[[(False, ''x''), (True, ''a,b'')]]"
  have "list_all (\<lambda>ts. ts \<noteq> [] \<and> list_all (\<lambda>t. opaque_ok (snd t)) ts) ?tss"
    by (simp add: opaque_ok_def graphic_def quote_def)
  from conditional_requests [THEN conjunct1, OF _ this, of "\<lambda>d. Some 7" "Some (False, ''a,b'')" "Some 9000000000" None]
  show ?thesis by auto
qed

end
