(* ===== verification/Provider_Cache.thy ===== *)
theory Provider_Cache
  imports Tile_Resolver Http_Cache
begin

text \<open>
  The provider resources of a tile server, styles, glyphs and sprites fetched from their origin:
  \<^verbatim>\<open>servers/ishikari/src/server/upstream.rs\<close> (cache, freshness, single flight, stale revalidation and
  admission), \<^verbatim>\<open>server/upstream/fetch.rs\<close> (the origin requests over HTTP and object stores),
  \<^verbatim>\<open>server/provider_body.rs\<close> and \<^verbatim>\<open>server/provider.rs\<close>. Requests run as tasks whose turns, one
  operation on the shared cache each, interleave in any order; the clock, the origin, the date codec, the
  JSON and gzip decoders are arguments. The windows added to instants are at most fourteen days, so
  instants are unbounded.
\<close>

section \<open>Headers and bodies\<close>

text \<open>A \<open>HeaderMap\<close>: names with the result of \<open>to_str\<close> on each physical value, in order.\<close>

type_synonym header_map = "(string \<times> string option) list"

definition header_str_values :: "header_map \<Rightarrow> string \<Rightarrow> string list" where
  "header_str_values hs nm = List.map_filter (\<lambda>(n, v). if n = nm then v else None) hs"

definition header_value :: "header_map \<Rightarrow> string \<Rightarrow> string option" where
  "header_value hs nm = Option.bind (map_of hs nm) id"

definition joined_header_values :: "header_map \<Rightarrow> string \<Rightarrow> string option" where
  "joined_header_values hs nm =
     (let vs = header_str_values hs nm in if vs = [] then None else Some (join '', '' vs))"

type_synonym http_error = "nat \<times> string"

datatype body_validation = BytesBody | JsonBody

text \<open>The third-party codecs: HTTP dates, a gzip stream's output with the error that ends it, the JSON
  check, and the text of a status.\<close>

record provider_codecs =
  pd_parse_date :: "string \<Rightarrow> system_time option"
  pd_fmt_date :: "system_time \<Rightarrow> string"
  pd_gunzip :: "bytes \<Rightarrow> bytes \<times> string option"
  pd_json_error :: "bytes \<Rightarrow> string option"
  pd_status_text :: "nat \<Rightarrow> string"

text \<open>\<open>read_to_end\<close> of a decoder behind \<open>take\<close>: an error past the limit is not met.\<close>

definition read_limited :: "bytes \<times> string option \<Rightarrow> nat \<Rightarrow> string + bytes" where
  "read_limited out limit =
     (if limit \<le> length (fst out) then Inr (take limit (fst out))
      else case snd out of Some e \<Rightarrow> Inl e | None \<Rightarrow> Inr (fst out))"

definition decode_provider_body ::
  "provider_codecs \<Rightarrow> bytes \<Rightarrow> string option \<Rightarrow> usize \<Rightarrow> string \<Rightarrow> http_error + bytes" where
  "decode_provider_body C body ce max_bytes resource =
     (case (case map_option trim ce of
              Some v \<Rightarrow> if v \<noteq> [] \<and> \<not> eq_ignore_ascii_case v ''identity'' then Some v else None
            | None \<Rightarrow> None) of
        None \<Rightarrow> if max_bytes < length body then Inl (502, resource @ '' body too large'') else Inr body
      | Some encoding \<Rightarrow>
          if \<not> eq_ignore_ascii_case encoding ''gzip'' \<and> \<not> eq_ignore_ascii_case encoding ''x-gzip''
          then Inl (502, resource @ '' upstream content-encoding unsupported: '' @ encoding)
          else (case read_limited (pd_gunzip C body) (usize_saturating_add max_bytes 1) of
                  Inl e \<Rightarrow> Inl (502, resource @ '' upstream gzip invalid: '' @ e)
                | Inr decoded \<Rightarrow>
                    if max_bytes < length decoded then Inl (502, resource @ '' decoded body too large'') else Inr decoded))"

definition validate_body ::
  "provider_codecs \<Rightarrow> bytes \<Rightarrow> string option \<Rightarrow> body_validation \<Rightarrow> usize \<Rightarrow> string \<Rightarrow> http_error + unit" where
  "validate_body C body ce validation max_bytes resource =
     (if validation = JsonBody
      then (case decode_provider_body C body ce max_bytes resource of
              Inl e \<Rightarrow> Inl e
            | Inr decoded \<Rightarrow>
                (case pd_json_error C decoded of
                   Some e \<Rightarrow> Inl (502, resource @ '' JSON invalid: '' @ e)
                 | None \<Rightarrow> Inr ()))
      else Inr ())"

definition content_type_matches :: "string \<Rightarrow> string list \<Rightarrow> bool" where
  "content_type_matches v accepted = list_ex (media_type_eq v) accepted"

definition validate_content_type :: "string option \<Rightarrow> string list \<Rightarrow> string \<Rightarrow> http_error + unit" where
  "validate_content_type content_type accepted resource =
     (if accepted = [] then Inr ()
      else case content_type of
        None \<Rightarrow> Inr ()
      | Some ct \<Rightarrow>
          if content_type_matches ct accepted then Inr ()
          else Inl (502, resource @ '' upstream content-type unsupported: '' @ ct))"

section \<open>Resources and cache entries\<close>

definition provider_fetch_concurrency :: usize where
  "provider_fetch_concurrency = 16"

definition provider_fetch_max_inflight :: usize where
  "provider_fetch_max_inflight = 128"

definition provider_fetch_timeout :: duration where
  "provider_fetch_timeout = secs 15"

definition stale_revalidation_failure_cooldown :: duration where
  "stale_revalidation_failure_cooldown = secs 5"

record fetched_resource =
  fe_bytes :: bytes
  fe_policy :: shared_policy
  fe_validators :: validators
  fe_content_encoding :: "string option"
  fe_initial_age :: duration

record fetched_negative =
  fn_status :: nat
  fn_policy :: negative_cache_policy
  fn_initial_age :: duration

datatype origin_outcome = Modified fetched_resource | NotModified fetched_resource | OriginNegative fetched_negative

record cached_representation =
  rr_bytes :: bytes
  rr_cache_control :: string
  rr_validators :: validators
  rr_content_encoding :: "string option"

record served_resource =
  pr_bytes :: bytes
  pr_cache_control :: string
  pr_age_seconds :: nat
  pr_validators :: validators
  pr_content_encoding :: "string option"

datatype flight_outcome = FlightError http_error | FlightResource served_resource

record found_entry =
  fo_bytes :: bytes
  fo_cache_control :: string
  fo_validators :: validators
  fo_content_encoding :: "string option"
  fo_age_at_insert :: duration
  fo_stored_at :: instant
  fo_fresh_until :: instant
  fo_stale_until :: instant

datatype cached_provider_fetch =
    ProviderFound found_entry
  | ProviderNegative (neg_status: nat) (neg_fresh_until: instant) (neg_stale_until: instant)

datatype freshness = Fresh | Stale | Expired

record provider_key =
  pk_resource :: string
  pk_accepted_content_types :: "string list"
  pk_body_validation :: body_validation
  pk_url :: string

record provider_cache =
  pc_entries :: "provider_key \<Rightarrow> cached_provider_fetch option"
  pc_failed :: "provider_key \<Rightarrow> instant option"
  pc_inflight :: "(provider_key, flight_outcome) single_flight"
  pc_fetch_inflight :: usize
  pc_metrics :: "(string \<times> string) list"

definition provider_cache_new :: provider_cache where
  "provider_cache_new = \<lparr>pc_entries = Map.empty, pc_failed = Map.empty, pc_inflight = single_flight_default,
     pc_fetch_inflight = 0, pc_metrics = []\<rparr>"

definition resource_fetched :: "fetched_resource \<Rightarrow> served_resource" where
  "resource_fetched fetched = \<lparr>pr_bytes = fe_bytes fetched, pr_cache_control = cp_response_cache_control (fe_policy fetched),
     pr_age_seconds = as_secs (fe_initial_age fetched), pr_validators = fe_validators fetched,
     pr_content_encoding = fe_content_encoding fetched\<rparr>"

definition entry_freshness :: "instant \<Rightarrow> cached_provider_fetch \<Rightarrow> freshness" where
  "entry_freshness now e =
     (let (fresh_until, stale_until) =
        (case e of ProviderFound f \<Rightarrow> (fo_fresh_until f, fo_stale_until f) | ProviderNegative _ fu su \<Rightarrow> (fu, su))
      in if now < fresh_until then Fresh else if now < stale_until then Stale else Expired)"

definition provider_negative_error :: "nat \<Rightarrow> http_error" where
  "provider_negative_error status = (status, if status = 410 then ''gone'' else ''not found'')"

definition entry_into_result :: "instant \<Rightarrow> cached_provider_fetch \<Rightarrow> http_error + served_resource" where
  "entry_into_result now e =
     (case e of
        ProviderFound f \<Rightarrow>
          Inr \<lparr>pr_bytes = fo_bytes f, pr_cache_control = fo_cache_control f,
               pr_age_seconds = as_secs (duration_saturating_add (saturating_duration_since now (fo_stored_at f)) (fo_age_at_insert f)),
               pr_validators = fo_validators f, pr_content_encoding = fo_content_encoding f\<rparr>
      | ProviderNegative status _ _ \<Rightarrow> Inl (provider_negative_error status))"

definition cache_outcome :: "cached_provider_fetch \<Rightarrow> freshness \<Rightarrow> string" where
  "cache_outcome e fr =
     (case e of ProviderFound _ \<Rightarrow> if fr = Stale then ''stale_hit'' else ''hit'' | ProviderNegative _ _ _ \<Rightarrow> ''negative_hit'')"

definition entry_representation :: "cached_provider_fetch \<Rightarrow> cached_representation option" where
  "entry_representation e =
     (case e of
        ProviderFound f \<Rightarrow> Some \<lparr>rr_bytes = fo_bytes f, rr_cache_control = fo_cache_control f,
                               rr_validators = fo_validators f, rr_content_encoding = fo_content_encoding f\<rparr>
      | ProviderNegative _ _ _ \<Rightarrow> None)"

text \<open>The weight of an entry; the size of a key's own fields is a parameter.\<close>

definition provider_fetch_cache_weight :: "usize \<Rightarrow> provider_key \<Rightarrow> cached_provider_fetch \<Rightarrow> nat" where
  "provider_fetch_cache_weight key_size key e =
     min (usize_saturating_add (usize_saturating_add key_size (length (pk_url key)))
            (case e of ProviderFound f \<Rightarrow> length (fo_bytes f) | ProviderNegative _ _ _ \<Rightarrow> 0)) u32_max"

definition record_provider_cache :: "string \<Rightarrow> string \<Rightarrow> provider_cache \<Rightarrow> provider_cache" where
  "record_provider_cache resource outcome c = c\<lparr>pc_metrics := pc_metrics c @ [(resource, outcome)]\<rparr>"

section \<open>Operations of the cache\<close>

definition provider_get :: "instant \<Rightarrow> provider_key \<Rightarrow> provider_cache \<Rightarrow> (cached_provider_fetch \<times> freshness) option" where
  "provider_get now key c =
     (case pc_entries c key of
        None \<Rightarrow> None
      | Some e \<Rightarrow> (case entry_freshness now e of Expired \<Rightarrow> None | fr \<Rightarrow> Some (e, fr)))"

definition stale_representation :: "instant \<Rightarrow> provider_key \<Rightarrow> provider_cache \<Rightarrow> cached_representation option" where
  "stale_representation now key c =
     (case provider_get now key c of Some (e, Stale) \<Rightarrow> entry_representation e | _ \<Rightarrow> None)"

definition forget_failure :: "provider_key \<Rightarrow> provider_cache \<Rightarrow> provider_cache" where
  "forget_failure key c = c\<lparr>pc_failed := (pc_failed c)(key := None)\<rparr>"

definition provider_invalidate :: "provider_key \<Rightarrow> provider_cache \<Rightarrow> provider_cache" where
  "provider_invalidate key c = forget_failure key (c\<lparr>pc_entries := (pc_entries c)(key := None)\<rparr>)"

definition put_found :: "instant \<Rightarrow> provider_key \<Rightarrow> fetched_resource \<Rightarrow> provider_cache \<Rightarrow> bool \<times> provider_cache" where
  "put_found now key fetched c =
     (let c = forget_failure key c; p = fe_policy fetched
      in if \<not> cp_store p then (False, provider_invalidate key c)
         else
           (let fresh_remaining = cp_fresh p - fe_initial_age fetched;
                retention_remaining = duration_saturating_add (cp_fresh p) (cp_swr p) - fe_initial_age fetched
            in if retention_remaining = 0 then (False, provider_invalidate key c)
               else (True, c\<lparr>pc_entries := (pc_entries c)(key \<mapsto> ProviderFound
                       \<lparr>fo_bytes = fe_bytes fetched, fo_cache_control = cp_response_cache_control p,
                        fo_validators = fe_validators fetched, fo_content_encoding = fe_content_encoding fetched,
                        fo_age_at_insert = fe_initial_age fetched, fo_stored_at = now,
                        fo_fresh_until = now + fresh_remaining, fo_stale_until = now + retention_remaining\<rparr>)\<rparr>)))"

definition put_negative :: "instant \<Rightarrow> provider_key \<Rightarrow> fetched_negative \<Rightarrow> provider_cache \<Rightarrow> bool \<times> provider_cache" where
  "put_negative now key negative c =
     (let c = forget_failure key c
      in if \<not> ncp_store (fn_policy negative) then (False, provider_invalidate key c)
         else
           (let fresh = ncp_fresh (fn_policy negative) - fn_initial_age negative
            in if fresh = 0 then (False, provider_invalidate key c)
               else (True, c\<lparr>pc_entries := (pc_entries c)(key \<mapsto>
                       ProviderNegative (fn_status negative) (now + fresh) (now + fresh))\<rparr>)))"

definition stale_revalidation_allowed :: "instant \<Rightarrow> provider_key \<Rightarrow> provider_cache \<Rightarrow> bool \<times> provider_cache" where
  "stale_revalidation_allowed now key c =
     (case pc_failed c key of
        None \<Rightarrow> (True, c)
      | Some retry_at \<Rightarrow> if now < retry_at then (False, c) else (True, forget_failure key c))"

definition mark_stale_revalidation_failure :: "instant \<Rightarrow> provider_key \<Rightarrow> provider_cache \<Rightarrow> provider_cache" where
  "mark_stale_revalidation_failure now key c =
     (case map_option (entry_freshness now) (pc_entries c key) of
        Some Stale \<Rightarrow> c\<lparr>pc_failed := (pc_failed c)(key \<mapsto> now + stale_revalidation_failure_cooldown)\<rparr>
      | Some Expired \<Rightarrow> provider_invalidate key c
      | _ \<Rightarrow> forget_failure key c)"

text \<open>\<open>ProviderFetchSlot::try_reserve\<close> and its drop.\<close>

definition slot_try_reserve :: "provider_cache \<Rightarrow> bool \<times> provider_cache" where
  "slot_try_reserve c =
     (if provider_fetch_max_inflight \<le> pc_fetch_inflight c then (False, c)
      else (True, c\<lparr>pc_fetch_inflight := pc_fetch_inflight c + 1\<rparr>))"

definition slot_drop :: "provider_cache \<Rightarrow> provider_cache" where
  "slot_drop c = c\<lparr>pc_fetch_inflight := pc_fetch_inflight c - 1\<rparr>"

definition begin_fetch :: "provider_key \<Rightarrow> provider_cache \<Rightarrow> flight_role \<times> provider_cache" where
  "begin_fetch key c = (case flight_begin key (pc_inflight c) of (role, sf) \<Rightarrow> (role, c\<lparr>pc_inflight := sf\<rparr>))"

definition drop_guard :: "provider_key \<Rightarrow> flight_outcome option \<Rightarrow> provider_cache \<Rightarrow> provider_cache" where
  "drop_guard key outcome c = c\<lparr>pc_inflight := flight_drop key outcome (pc_inflight c)\<rparr>"

definition store_leader_result ::
  "instant \<Rightarrow> provider_key \<Rightarrow> http_error + origin_outcome \<Rightarrow> provider_cache \<Rightarrow> (http_error + served_resource) \<times> provider_cache" where
  "store_leader_result now key result c =
     (let resource = pk_resource key;
          store = (\<lambda>fetched stored_outcome.
            (let response = resource_fetched fetched; (stored, c) = put_found now key fetched c;
                 c = record_provider_cache resource (if stored then stored_outcome else ''uncacheable'') c
             in (Inr response, drop_guard key (Some (FlightResource response)) c)))
      in case result of
           Inr (OriginNegative negative) \<Rightarrow>
             (let error = provider_negative_error (fn_status negative); (stored, c) = put_negative now key negative c;
                  c = record_provider_cache resource (if stored then ''negative_insert'' else ''negative_uncacheable'') c
              in (Inl error, drop_guard key (Some (FlightError error)) c))
         | Inr (Modified fetched) \<Rightarrow> store fetched ''insert''
         | Inr (NotModified fetched) \<Rightarrow> store fetched ''revalidated''
         | Inl error \<Rightarrow> (Inl error, drop_guard key (Some (FlightError error)) (record_provider_cache resource ''error'' c)))"

section \<open>The origin\<close>

text \<open>What a request to an HTTP origin meets: a failure to send, of some kind, or a response with its headers
  and the chunks of its body, and the clock readings taken when its age is computed.\<close>

record http_response =
  ht_status :: nat
  ht_headers :: header_map
  ht_content_length :: "nat option"
  ht_chunks :: "(string + bytes) list"
  ht_received :: system_time
  ht_elapsed :: duration

text \<open>The conditional header of a request: an entity tag, or else a date.\<close>

datatype conditional_request = Unconditional | IfNoneMatch string | IfModifiedSince system_time

definition revalidation_request :: "cached_representation option \<Rightarrow> conditional_request" where
  "revalidation_request revalidate =
     (case revalidate of
        None \<Rightarrow> Unconditional
      | Some cached \<Rightarrow>
          (case va_etag (rr_validators cached) of
             Some etag \<Rightarrow> IfNoneMatch etag
           | None \<Rightarrow>
               (case va_last_modified (rr_validators cached) of
                  Some t \<Rightarrow> IfModifiedSince t
                | None \<Rightarrow> Unconditional)))"

record object_meta =
  os_size :: nat
  os_content_type :: "string option"
  os_cache_control :: "string option"
  os_content_encoding :: "string option"
  os_last_modified :: system_time
  os_e_tag :: "string option"
  os_body :: "string + bytes"

datatype object_get = ObjectFound object_meta | ObjectNotModified | ObjectNotFound | ObjectFailed

record provider_origin =
  po_scheme :: "string \<Rightarrow> string option"
  po_semaphore_closed :: bool
  po_timed_out :: bool
  po_http :: "string \<Rightarrow> conditional_request \<Rightarrow> string + http_response"
  po_resolve_ok :: "string \<Rightarrow> bool"
  po_get_object :: "string \<Rightarrow> conditional_request \<Rightarrow> object_get"

definition provider_body_too_large :: "string \<Rightarrow> http_error" where
  "provider_body_too_large resource = (502, resource @ '' body too large'')"

definition provider_bad_gateway :: "string \<Rightarrow> string \<Rightarrow> http_error" where
  "provider_bad_gateway resource what = (502, resource @ '' upstream '' @ what)"

definition corrected_initial_age :: "provider_codecs \<Rightarrow> header_map \<Rightarrow> system_time \<Rightarrow> duration \<Rightarrow> duration" where
  "corrected_initial_age C hs response_received response_delay =
     (let ages = List.map_filter (\<lambda>v. parse_uint u64_max (trim v)) (header_str_values hs ''age'');
          age_value = (if ages = [] then 0 else secs (foldr max ages 0));
          apparent_age = (case Option.bind (header_value hs ''date'') (pd_parse_date C) of
                            Some date \<Rightarrow> if date \<le> response_received then nat (response_received - date) else 0
                          | None \<Rightarrow> 0)
      in max apparent_age (duration_saturating_add age_value response_delay))"

definition revalidated_provider_resource ::
  "provider_codecs \<Rightarrow> cached_representation \<Rightarrow> string \<Rightarrow> header_map option \<Rightarrow> system_time \<Rightarrow> duration \<Rightarrow> fetched_resource" where
  "revalidated_provider_resource C cached resource headers now response_delay =
     (let hs = (case headers of Some h \<Rightarrow> h | None \<Rightarrow> []);
          ccs = header_str_values hs ''cache-control'';
          policy = (if ccs = [] then cache_policy_of resource (Some (rr_cache_control cached)) else cache_policy_values resource ccs);
          etag = (case header_value hs ''etag'' of Some v \<Rightarrow> Some v | None \<Rightarrow> va_etag (rr_validators cached));
          lm = (case Option.bind (header_value hs ''last-modified'') (pd_parse_date C) of
                  Some t \<Rightarrow> Some t | None \<Rightarrow> va_last_modified (rr_validators cached));
          ce = (case joined_header_values hs ''content-encoding'' of
                  Some v \<Rightarrow> if eq_ignore_ascii_case (trim v) ''identity'' then None else Some (trim v)
                | None \<Rightarrow> rr_content_encoding cached);
          age = (case headers of Some h \<Rightarrow> corrected_initial_age C h now response_delay | None \<Rightarrow> 0)
      in \<lparr>fe_bytes = rr_bytes cached, fe_policy = policy, fe_validators = \<lparr>va_etag = etag, va_last_modified = lm\<rparr>,
          fe_content_encoding = ce, fe_initial_age = age\<rparr>)"

definition require_complete_provider_status :: "provider_codecs \<Rightarrow> nat \<Rightarrow> string \<Rightarrow> http_error + unit" where
  "require_complete_provider_status C status resource =
     (if status = 200 then Inr () else Inl (502, resource @ '' upstream returned '' @ pd_status_text C status))"

fun read_provider_body :: "usize \<Rightarrow> string \<Rightarrow> (string + bytes) list \<Rightarrow> bytes \<Rightarrow> http_error + bytes" where
  "read_provider_body max_bytes resource [] body = Inr body"
| "read_provider_body max_bytes resource (Inl e # cs) body = Inl (provider_bad_gateway resource ''body failed'')"
| "read_provider_body max_bytes resource (Inr chunk # cs) body =
     (if max_bytes < usize_saturating_add (length body) (length chunk) then Inl (provider_body_too_large resource)
      else read_provider_body max_bytes resource cs (body @ chunk))"

definition not_identity :: "string option \<Rightarrow> string option" where
  "not_identity ce = (case ce of Some v \<Rightarrow> if eq_ignore_ascii_case (trim v) ''identity'' then None else Some v | None \<Rightarrow> None)"

definition fetch_http_provider ::
  "provider_codecs \<Rightarrow> provider_origin \<Rightarrow> string \<Rightarrow> usize \<Rightarrow> string \<Rightarrow> string list \<Rightarrow> cached_representation option
   \<Rightarrow> http_error + origin_outcome" where
  "fetch_http_provider C G url max_bytes resource accepted revalidate =
     (case po_http G url (revalidation_request revalidate) of
        Inl kind \<Rightarrow> Inl (provider_bad_gateway resource ''GET failed'')
      | Inr response \<Rightarrow>
          (let status = ht_status response; hs = ht_headers response; ccs = header_str_values hs ''cache-control'';
               age = corrected_initial_age C hs (ht_received response) (ht_elapsed response)
           in if status = 304
              then (case revalidate of
                      None \<Rightarrow> Inl (502, resource @ '' upstream returned an unsolicited 304'')
                    | Some cached \<Rightarrow>
                        Inr (NotModified (revalidated_provider_resource C cached resource (Some hs)
                               (ht_received response) (ht_elapsed response))))
              else if status = 404 \<or> status = 410
              then (let (policy, explicit) = negative_cache_policy_with_freshness_values ccs
                    in Inr (OriginNegative \<lparr>fn_status = status, fn_policy = policy, fn_initial_age = (if explicit then age else 0)\<rparr>))
              else (case require_complete_provider_status C status resource of
                      Inl e \<Rightarrow> Inl e
                    | Inr _ \<Rightarrow>
                        if (case ht_content_length response of None \<Rightarrow> False | Some n \<Rightarrow> max_bytes < n)
                        then Inl (provider_body_too_large resource)
                        else (case validate_content_type (header_value hs ''content-type'') accepted resource of
                                Inl e \<Rightarrow> Inl e
                              | Inr _ \<Rightarrow>
                                  (let (policy, explicit) = cache_policy_with_freshness_values resource ccs
                                   in case read_provider_body max_bytes resource (ht_chunks response) [] of
                                        Inl e \<Rightarrow> Inl e
                                      | Inr body \<Rightarrow>
                                          Inr (Modified
                                            \<lparr>fe_bytes = body, fe_policy = policy,
                                             fe_validators = \<lparr>va_etag = header_value hs ''etag'',
                                               va_last_modified = Option.bind (header_value hs ''last-modified'') (pd_parse_date C)\<rparr>,
                                             fe_content_encoding = not_identity (joined_header_values hs ''content-encoding''),
                                             fe_initial_age = (if explicit then age else 0)\<rparr>))))))"

definition fetch_object_store_provider ::
  "provider_codecs \<Rightarrow> provider_origin \<Rightarrow> string \<Rightarrow> usize \<Rightarrow> string \<Rightarrow> string list \<Rightarrow> cached_representation option
   \<Rightarrow> http_error + origin_outcome" where
  "fetch_object_store_provider C G url max_bytes resource accepted revalidate =
     (if \<not> po_resolve_ok G url then Inl (provider_bad_gateway resource ''store init failed'')
      else case (po_get_object G url (revalidation_request revalidate), revalidate) of
        (ObjectNotModified, Some cached) \<Rightarrow>
          Inr (NotModified (revalidated_provider_resource C cached resource None 0 0))
      | (ObjectNotModified, None) \<Rightarrow> Inl (provider_bad_gateway resource ''GET failed'')
      | (ObjectNotFound, _) \<Rightarrow>
          Inr (OriginNegative \<lparr>fn_status = 404, fn_policy = negative_cache_policy_values [], fn_initial_age = 0\<rparr>)
      | (ObjectFailed, _) \<Rightarrow> Inl (provider_bad_gateway resource ''GET failed'')
      | (ObjectFound m, _) \<Rightarrow>
          if max_bytes < os_size m then Inl (provider_body_too_large resource)
          else (case validate_content_type (os_content_type m) accepted resource of
                  Inl e \<Rightarrow> Inl e
                | Inr _ \<Rightarrow>
                    (case os_body m of
                       Inl e \<Rightarrow> Inl (provider_bad_gateway resource ''body failed'')
                     | Inr body \<Rightarrow>
                         if max_bytes < length body then Inl (provider_body_too_large resource)
                         else Inr (Modified
                           \<lparr>fe_bytes = body, fe_policy = cache_policy_of resource (os_cache_control m),
                            fe_validators = \<lparr>va_etag = os_e_tag m,
                              va_last_modified = (if os_last_modified m \<noteq> 0 then Some (os_last_modified m) else None)\<rparr>,
                            fe_content_encoding = not_identity (os_content_encoding m), fe_initial_age = 0\<rparr>))))"

text \<open>\<open>fetch_limited_bytes_uncached\<close>, given whether a fetch slot was reserved. One deadline covers it all.\<close>

definition fetch_limited_bytes_uncached ::
  "provider_codecs \<Rightarrow> provider_origin \<Rightarrow> bool \<Rightarrow> provider_key \<Rightarrow> usize \<Rightarrow> cached_representation option
   \<Rightarrow> http_error + origin_outcome" where
  "fetch_limited_bytes_uncached C G reserved key max_bytes revalidate =
     (let resource = pk_resource key
      in if \<not> reserved then Inl (503, resource @ '' upstream fetch queue full'')
         else if po_timed_out G then Inl (504, resource @ '' upstream timed out'')
         else if po_semaphore_closed G then Inl (503, resource @ '' upstream fetch unavailable'')
         else case po_scheme G (pk_url key) of
           None \<Rightarrow> Inl (502, resource @ '' upstream URL invalid'')
         | Some scheme \<Rightarrow>
             (case (if scheme = ''http'' \<or> scheme = ''https''
                    then fetch_http_provider C G (pk_url key) max_bytes resource (pk_accepted_content_types key) revalidate
                    else fetch_object_store_provider C G (pk_url key) max_bytes resource (pk_accepted_content_types key) revalidate) of
                Inl e \<Rightarrow> Inl e
              | Inr (Modified fetched) \<Rightarrow>
                  (case validate_body C (fe_bytes fetched) (fe_content_encoding fetched) (pk_body_validation key) max_bytes resource of
                     Inl e \<Rightarrow> Inl e
                   | Inr _ \<Rightarrow> Inr (Modified fetched))
              | Inr fetched \<Rightarrow> Inr fetched))"

section \<open>Requests as tasks\<close>

text \<open>A task between two operations on the shared cache. A request looks the key up and returns a hit; after
  a stale hit it first tries to start a background revalidation. After a miss it stands for election, and leads
  (checks again, reserves a slot, fetches, stores) or follows. A background task only leads.\<close>

datatype provider_task =
    Looking provider_key usize bool bool
  | HitAllowed provider_key usize cached_provider_fetch
  | HitElecting provider_key usize cached_provider_fetch
  | HitLeading provider_key usize cached_provider_fetch
  | HitStale provider_key usize cached_provider_fetch
  | HitReturning provider_key cached_provider_fetch
  | Electing provider_key usize bool
  | Checking provider_key usize bool
  | Admitting provider_key usize "cached_representation option"
  | Fetching provider_key usize "cached_representation option" bool
  | FailedRevalidation provider_key http_error
  | Following provider_key usize nat
  | Answered provider_key "http_error + served_resource"
  | BackgroundDone

text \<open>\<open>spawn_stale_revalidation\<close> after a stale hit: what the request becomes, the background task it spawns, and
  the cache.\<close>

definition stale_revalidation_turn ::
  "instant \<Rightarrow> provider_task \<Rightarrow> provider_cache \<Rightarrow> (provider_task \<times> provider_task list \<times> provider_cache) option" where
  "stale_revalidation_turn now task c =
     (case task of
        HitAllowed key mx e \<Rightarrow>
          (case stale_revalidation_allowed now key c of
             (allowed, c) \<Rightarrow> Some (if allowed then HitElecting key mx e else HitReturning key e, [], c))
      | HitElecting key mx e \<Rightarrow>
          (case begin_fetch key c of
             (LeadsFlight, c) \<Rightarrow> Some (HitLeading key mx e, [], c)
           | (FollowsFlight _, c) \<Rightarrow> Some (HitReturning key e, [], c))
      | HitLeading key mx e \<Rightarrow>
          (case stale_revalidation_allowed now key c of
             (allowed, c) \<Rightarrow> if allowed then Some (HitStale key mx e, [], c) else Some (HitReturning key e, [], drop_guard key None c))
      | HitStale key mx e \<Rightarrow>
          (case stale_representation now key c of
             Some stale \<Rightarrow> Some (HitReturning key e, [Admitting key mx (Some stale)], c)
           | None \<Rightarrow> Some (HitReturning key e, [], drop_guard key None c))
      | _ \<Rightarrow> None)"

text \<open>One turn of a task: what it becomes, a task it spawns, and the cache.\<close>

definition provider_turn ::
  "provider_codecs \<Rightarrow> provider_origin \<Rightarrow> instant \<Rightarrow> provider_task \<Rightarrow> provider_cache
   \<Rightarrow> (provider_task \<times> provider_task list \<times> provider_cache) option" where
  "provider_turn C G now task c =
     (case task of
        Looking key mx missed joined \<Rightarrow>
          (case provider_get now key c of
             Some (e, fr) \<Rightarrow>
               (let c = (if joined then c else record_provider_cache (pk_resource key) (cache_outcome e fr) c)
                in Some (if fr = Stale then HitAllowed key mx e else HitReturning key e, [], c))
           | None \<Rightarrow> Some (Electing key mx joined, [], if missed then c else record_provider_cache (pk_resource key) ''miss'' c))
      | HitAllowed key mx e \<Rightarrow> stale_revalidation_turn now task c
      | HitElecting key mx e \<Rightarrow> stale_revalidation_turn now task c
      | HitLeading key mx e \<Rightarrow> stale_revalidation_turn now task c
      | HitStale key mx e \<Rightarrow> stale_revalidation_turn now task c
      | HitReturning key e \<Rightarrow> Some (Answered key (entry_into_result now e), [], c)
      | Electing key mx joined \<Rightarrow>
          (case begin_fetch key c of
             (LeadsFlight, c) \<Rightarrow> Some (Checking key mx joined, [], c)
           | (FollowsFlight ch, c) \<Rightarrow>
               Some (Following key mx ch, [], if joined then c else record_provider_cache (pk_resource key) ''singleflight_join'' c))
      | Checking key mx joined \<Rightarrow>
          (if provider_get now key c \<noteq> None then Some (Looking key mx True joined, [], drop_guard key None c)
           else Some (Admitting key mx None, [], c))
      | Admitting key mx revalidate \<Rightarrow>
          (case slot_try_reserve c of (reserved, c) \<Rightarrow> Some (Fetching key mx revalidate reserved, [], c))
      | Fetching key mx revalidate reserved \<Rightarrow>
          (let result = fetch_limited_bytes_uncached C G reserved key mx revalidate;
               c = (if reserved then slot_drop c else c)
           in case (revalidate, result) of
                (Some _, Inl error) \<Rightarrow> Some (FailedRevalidation key error, [], mark_stale_revalidation_failure now key c)
              | (Some _, Inr _) \<Rightarrow> Some (BackgroundDone, [], snd (store_leader_result now key result c))
              | (None, _) \<Rightarrow>
                  (case store_leader_result now key result c of (answer, c) \<Rightarrow> Some (Answered key answer, [], c)))
      | FailedRevalidation key error \<Rightarrow> Some (BackgroundDone, [], snd (store_leader_result now key (Inl error) c))
      | Following key mx ch \<Rightarrow>
          (case flight_wait ch (pc_inflight c) of
             None \<Rightarrow> None
           | Some None \<Rightarrow> Some (Looking key mx True True, [], c)
           | Some (Some (FlightError error)) \<Rightarrow> Some (Answered key (Inl error), [], c)
           | Some (Some (FlightResource resource)) \<Rightarrow> Some (Answered key (Inr resource), [], c))
      | Answered key answer \<Rightarrow> None
      | BackgroundDone \<Rightarrow> None)"

text \<open>The key a task holds the flight of, and the slots it holds.\<close>

definition task_leads :: "provider_task \<Rightarrow> provider_key option" where
  "task_leads task =
     (case task of
        HitLeading key _ _ \<Rightarrow> Some key | HitStale key _ _ \<Rightarrow> Some key | Checking key _ _ \<Rightarrow> Some key
      | Admitting key _ _ \<Rightarrow> Some key | Fetching key _ _ _ \<Rightarrow> Some key | FailedRevalidation key _ \<Rightarrow> Some key
      | _ \<Rightarrow> None)"

definition task_slots :: "provider_task \<Rightarrow> nat" where
  "task_slots task = (case task of Fetching _ _ _ reserved \<Rightarrow> if reserved then 1 else 0 | _ \<Rightarrow> 0)"

text \<open>A request whose client leaves is dropped where it awaits: its guard and slot are released.\<close>

definition provider_cancel :: "provider_task \<Rightarrow> provider_cache \<Rightarrow> provider_cache option" where
  "provider_cancel task c =
     (case task of
        Fetching key mx None reserved \<Rightarrow> Some (drop_guard key None (if reserved then slot_drop c else c))
      | Following key mx ch \<Rightarrow> Some c
      | _ \<Rightarrow> None)"

text \<open>The node's tasks over its clock and cache, with a record of what the origin answered: key, instant of
  storing and outcome.\<close>

record provider_system =
  ps_clock :: instant
  ps_cache :: provider_cache
  ps_tasks :: "provider_task list"
  ps_origin :: "(provider_key \<times> instant \<times> origin_outcome) list"

definition origin_event :: "provider_codecs \<Rightarrow> provider_origin \<Rightarrow> instant \<Rightarrow> provider_task \<Rightarrow> (provider_key \<times> instant \<times> origin_outcome) list" where
  "origin_event C G now task =
     (case task of
        Fetching key mx revalidate reserved \<Rightarrow>
          (case fetch_limited_bytes_uncached C G reserved key mx revalidate of Inr out \<Rightarrow> [(key, now, out)] | Inl _ \<Rightarrow> [])
      | _ \<Rightarrow> [])"

inductive provider_step :: "provider_codecs \<Rightarrow> provider_system \<Rightarrow> provider_system \<Rightarrow> bool"
  for C :: provider_codecs
  where
    provider_tick: "provider_step C s (s\<lparr>ps_clock := ps_clock s + d\<rparr>)"
  | provider_request: "provider_step C s (s\<lparr>ps_tasks := Looking key mx False False # ps_tasks s\<rparr>)"
  | provider_evict: "provider_step C s
      (s\<lparr>ps_cache := (ps_cache s)\<lparr>pc_entries := pc_entries (ps_cache s) |` K, pc_failed := pc_failed (ps_cache s) |` K'\<rparr>\<rparr>)"
  | provider_run: "ps_tasks s = us @ task # vs \<Longrightarrow> provider_turn C G (ps_clock s) task (ps_cache s) = Some (task', spawned, c) \<Longrightarrow>
      provider_step C s (s\<lparr>ps_cache := c, ps_tasks := spawned @ us @ task' # vs,
        ps_origin := ps_origin s @ origin_event C G (ps_clock s) task\<rparr>)"
  | provider_leave: "ps_tasks s = us @ task # vs \<Longrightarrow> provider_cancel task (ps_cache s) = Some c \<Longrightarrow>
      provider_step C s (s\<lparr>ps_cache := c, ps_tasks := us @ vs\<rparr>)"

definition provider_init :: "provider_system \<Rightarrow> bool" where
  "provider_init s \<longleftrightarrow> ps_cache s = provider_cache_new \<and> ps_tasks s = [] \<and> ps_origin s = []"

section \<open>Peers and clients\<close>

text \<open>\<open>HeaderValue::from_str\<close> accepts visible ASCII, spaces and tabs.\<close>

definition header_value_ok :: "string \<Rightarrow> bool" where
  "header_value_ok s \<longleftrightarrow> list_all (\<lambda>c. 32 \<le> (of_char c :: nat) \<and> (of_char c :: nat) < 127 \<or> (of_char c :: nat) = 9) s"

definition valid_header :: "string option \<Rightarrow> string option" where
  "valid_header v = (case v of Some s \<Rightarrow> if header_value_ok s then Some s else None | None \<Rightarrow> None)"

definition last_modified_http_date :: "provider_codecs \<Rightarrow> validators \<Rightarrow> string option" where
  "last_modified_http_date C va = map_option (pd_fmt_date C) (va_last_modified va)"

text \<open>\<open>from_bytes\<close> with \<open>expect\<close>: a policy that is no header value panics. A peer reads the values that are
  visible ASCII.\<close>

definition header_bytes_ok :: "string \<Rightarrow> bool" where
  "header_bytes_ok s \<longleftrightarrow> list_all (\<lambda>c. 32 \<le> (of_char c :: nat) \<and> (of_char c :: nat) \<noteq> 127 \<or> (of_char c :: nat) = 9) s"

definition apply_internal_headers :: "provider_codecs \<Rightarrow> served_resource \<Rightarrow> internal_reply \<Rightarrow> internal_reply option" where
  "apply_internal_headers C r reply =
     (if \<not> header_bytes_ok (pr_cache_control r) then None
      else Some (reply
        \<lparr>rp_provider_cache_control := valid_header (Some (pr_cache_control r)), rp_provider_age := Some (decimal (pr_age_seconds r)),
         rp_provider_etag := valid_header (va_etag (pr_validators r)),
         rp_provider_last_modified := valid_header (last_modified_http_date C (pr_validators r)),
         rp_content_encoding := valid_header (pr_content_encoding r)\<rparr>))"

definition internal_response :: "provider_codecs \<Rightarrow> served_resource \<Rightarrow> internal_reply option" where
  "internal_response C r = apply_internal_headers C r (bytes_reply (pr_bytes r))"

definition from_peer :: "provider_codecs \<Rightarrow> internal_fetch_response \<Rightarrow> string + served_resource" where
  "from_peer C response =
     (case ir_provider_cache_control response of
        None \<Rightarrow> Inl ''peer provider response is missing cache policy''
      | Some cache_control \<Rightarrow>
          (case ir_provider_age_seconds response of
             None \<Rightarrow> Inl ''peer provider response is missing age''
           | Some age \<Rightarrow>
               Inr \<lparr>pr_bytes = ir_bytes response, pr_cache_control = cache_control, pr_age_seconds = unat age,
                 pr_validators = \<lparr>va_etag = ir_provider_etag response,
                   va_last_modified = Option.bind (ir_provider_last_modified response) (pd_parse_date C)\<rparr>,
                 pr_content_encoding = ir_content_encoding response\<rparr>))"

record public_reply =
  pu_status :: nat
  pu_content_type :: "string option"
  pu_cache_control :: "string option"
  pu_age :: "string option"
  pu_etag :: "string option"
  pu_last_modified :: "string option"
  pu_content_encoding :: "string option"
  pu_body :: bytes

definition validators_apply :: "provider_codecs \<Rightarrow> validators \<Rightarrow> public_reply \<Rightarrow> public_reply" where
  "validators_apply C va reply =
     reply\<lparr>pu_etag := valid_header (va_etag va), pu_last_modified := valid_header (last_modified_http_date C va)\<rparr>"

definition apply_cache_metadata :: "provider_codecs \<Rightarrow> served_resource \<Rightarrow> public_reply \<Rightarrow> public_reply option" where
  "apply_cache_metadata C r reply =
     (if \<not> header_bytes_ok (pr_cache_control r) then None
      else Some (validators_apply C (pr_validators r)
        (reply\<lparr>pu_cache_control := Some (pr_cache_control r), pu_age := Some (decimal (pr_age_seconds r))\<rparr>)))"

definition apply_content_encoding :: "served_resource \<Rightarrow> public_reply \<Rightarrow> public_reply" where
  "apply_content_encoding r reply = reply\<lparr>pu_content_encoding := valid_header (pr_content_encoding r)\<rparr>"

definition public_reply_new :: "nat \<Rightarrow> string option \<Rightarrow> bytes \<Rightarrow> public_reply" where
  "public_reply_new status ctype body = \<lparr>pu_status = status, pu_content_type = ctype, pu_cache_control = None, pu_age = None,
     pu_etag = None, pu_last_modified = None, pu_content_encoding = None, pu_body = body\<rparr>"

definition not_modified_response :: "provider_codecs \<Rightarrow> served_resource \<Rightarrow> public_reply option" where
  "not_modified_response C r = apply_cache_metadata C r (public_reply_new 304 None [])"

definition public_response :: "provider_codecs \<Rightarrow> served_resource \<Rightarrow> conditional_headers \<Rightarrow> bytes \<Rightarrow> string \<Rightarrow> public_reply option" where
  "public_response C r rq body ctype =
     (if not_modified (pd_parse_date C) (pr_validators r) rq then not_modified_response C r
      else map_option (apply_content_encoding r) (apply_cache_metadata C r (public_reply_new 200 (Some ctype) body)))"

text \<open>\<open>internal_provider_fetch_error\<close>: a local 404 or 410 is marked on the internal wire.\<close>

definition internal_provider_fetch_error :: "http_error \<Rightarrow> internal_reply" where
  "internal_provider_fetch_error e =
     (if fst e = 404 then (reply_error 404)\<lparr>rp_provider_negative := Some (provider_negative_as_str NegNotFound)\<rparr>
      else if fst e = 410 then (reply_error 410)\<lparr>rp_provider_negative := Some (provider_negative_as_str NegGone)\<rparr>
      else reply_error (fst e))"

definition peer_outcome :: "provider_codecs \<Rightarrow> provider_route_outcome option \<Rightarrow> http_error + served_resource option" where
  "peer_outcome C outcome =
     (case outcome of
        None \<Rightarrow> Inr None
      | Some RouteNotFound \<Rightarrow> Inl (404, ''not found'')
      | Some RouteGone \<Rightarrow> Inl (410, ''gone'')
      | Some (RouteResource response) \<Rightarrow> (case from_peer C response of Inr r \<Rightarrow> Inr (Some r) | Inl _ \<Rightarrow> Inr None))"

section \<open>What the operations change\<close>

lemma ops_inflight [simp]:
  "pc_inflight (record_provider_cache r o' c) = pc_inflight c" "pc_inflight (forget_failure key c) = pc_inflight c"
  "pc_inflight (provider_invalidate key c) = pc_inflight c" "pc_inflight (slot_drop c) = pc_inflight c"
  "pc_inflight (snd (put_found now key f c)) = pc_inflight c" "pc_inflight (snd (put_negative now key n c)) = pc_inflight c"
  "pc_inflight (snd (stale_revalidation_allowed now key c)) = pc_inflight c"
  "pc_inflight (mark_stale_revalidation_failure now key c) = pc_inflight c"
  "pc_inflight (snd (slot_try_reserve c)) = pc_inflight c"
  "pc_inflight (drop_guard key outcome c) = flight_drop key outcome (pc_inflight c)"
  by (simp_all add: record_provider_cache_def forget_failure_def provider_invalidate_def slot_drop_def put_found_def put_negative_def
      stale_revalidation_allowed_def mark_stale_revalidation_failure_def slot_try_reserve_def drop_guard_def Let_def
      split: option.split freshness.split)

lemma ops_slots [simp]:
  "pc_fetch_inflight (record_provider_cache r o' c) = pc_fetch_inflight c" "pc_fetch_inflight (forget_failure key c) = pc_fetch_inflight c"
  "pc_fetch_inflight (provider_invalidate key c) = pc_fetch_inflight c" "pc_fetch_inflight (slot_drop c) = pc_fetch_inflight c - 1"
  "pc_fetch_inflight (snd (put_found now key f c)) = pc_fetch_inflight c"
  "pc_fetch_inflight (snd (put_negative now key n c)) = pc_fetch_inflight c"
  "pc_fetch_inflight (snd (stale_revalidation_allowed now key c)) = pc_fetch_inflight c"
  "pc_fetch_inflight (mark_stale_revalidation_failure now key c) = pc_fetch_inflight c"
  "pc_fetch_inflight (drop_guard key outcome c) = pc_fetch_inflight c"
  "pc_fetch_inflight (snd (begin_fetch key c)) = pc_fetch_inflight c"
  by (simp_all add: record_provider_cache_def forget_failure_def provider_invalidate_def slot_drop_def put_found_def put_negative_def
      stale_revalidation_allowed_def mark_stale_revalidation_failure_def drop_guard_def begin_fetch_def Let_def
      split: option.split freshness.split prod.split)

lemma ops_entries [simp]:
  "pc_entries (record_provider_cache r o' c) = pc_entries c" "pc_entries (forget_failure key c) = pc_entries c"
  "pc_entries (provider_invalidate key c) = (pc_entries c)(key := None)" "pc_entries (slot_drop c) = pc_entries c"
  "pc_entries (snd (stale_revalidation_allowed now key c)) = pc_entries c"
  "pc_entries (drop_guard key outcome c) = pc_entries c" "pc_entries (snd (begin_fetch key c)) = pc_entries c"
  "pc_entries (snd (slot_try_reserve c)) = pc_entries c"
  by (simp_all add: record_provider_cache_def forget_failure_def provider_invalidate_def slot_drop_def slot_try_reserve_def
      stale_revalidation_allowed_def drop_guard_def begin_fetch_def Let_def split: option.split prod.split)

text \<open>The cache after storing a leader's result, before its guard is dropped.\<close>

definition stored_cache :: "instant \<Rightarrow> provider_key \<Rightarrow> http_error + origin_outcome \<Rightarrow> provider_cache \<Rightarrow> provider_cache" where
  "stored_cache now key result c =
     (case result of
        Inr (OriginNegative n) \<Rightarrow> snd (put_negative now key n c)
      | Inr (Modified f) \<Rightarrow> snd (put_found now key f c)
      | Inr (NotModified f) \<Rightarrow> snd (put_found now key f c)
      | Inl _ \<Rightarrow> c)"

lemma stored_cache_kept [simp]:
  "pc_inflight (stored_cache now key result c) = pc_inflight c" "pc_fetch_inflight (stored_cache now key result c) = pc_fetch_inflight c"
  by (simp_all add: stored_cache_def split: sum.split origin_outcome.split)

definition leader_answer :: "http_error + origin_outcome \<Rightarrow> http_error + served_resource" where
  "leader_answer result =
     (case result of
        Inr (OriginNegative n) \<Rightarrow> Inl (provider_negative_error (fn_status n))
      | Inr (Modified f) \<Rightarrow> Inr (resource_fetched f)
      | Inr (NotModified f) \<Rightarrow> Inr (resource_fetched f)
      | Inl e \<Rightarrow> Inl e)"

definition leader_outcome :: "http_error + origin_outcome \<Rightarrow> flight_outcome" where
  "leader_outcome result = (case leader_answer result of Inl e \<Rightarrow> FlightError e | Inr r \<Rightarrow> FlightResource r)"

lemma store_leader_result_cases:
  obtains m where "store_leader_result now key result c =
    (leader_answer result, drop_guard key (Some (leader_outcome result)) (record_provider_cache (pk_resource key) m (stored_cache now key result c)))"
proof -
  have "\<exists>m. store_leader_result now key result c =
    (leader_answer result, drop_guard key (Some (leader_outcome result)) (record_provider_cache (pk_resource key) m (stored_cache now key result c)))"
    unfolding store_leader_result_def leader_answer_def leader_outcome_def stored_cache_def Let_def
    by (simp split: sum.split origin_outcome.split prod.split) blast
  with that show thesis by blast
qed

lemma allowed_kept:
  "stale_revalidation_allowed now key c = (b, c') \<Longrightarrow>
     pc_inflight c' = pc_inflight c \<and> pc_fetch_inflight c' = pc_fetch_inflight c \<and> pc_entries c' = pc_entries c"
  by (auto simp: stale_revalidation_allowed_def split: option.splits if_splits)

lemma begin_kept:
  "begin_fetch key c = (role, c') \<Longrightarrow> flight_begin key (pc_inflight c) = (role, pc_inflight c')
     \<and> pc_fetch_inflight c' = pc_fetch_inflight c \<and> pc_entries c' = pc_entries c"
  by (auto simp: begin_fetch_def split: prod.splits)

lemma reserve_kept:
  "slot_try_reserve c = (b, c') \<Longrightarrow> pc_inflight c' = pc_inflight c \<and> pc_entries c' = pc_entries c"
  by (auto simp: slot_try_reserve_def split: if_splits)

section \<open>Flights and slots\<close>

definition leads :: "provider_task list \<Rightarrow> provider_key list" where
  "leads ts = List.map_filter task_leads ts"

definition follows :: "provider_task list \<Rightarrow> nat set" where
  "follows ts = {ch. \<exists>key mx. Following key mx ch \<in> set ts}"

lemma leads_simps [simp]:
  "leads [] = []" "leads (ts @ us) = leads ts @ leads us"
  "leads (t # ts) = (case task_leads t of None \<Rightarrow> [] | Some k \<Rightarrow> [k]) @ leads ts"
  by (simp_all add: leads_def map_filter_simps split: option.split) (simp add: map_filter_def)

lemma follows_simps [simp]:
  "follows [] = {}" "follows (ts @ us) = follows ts \<union> follows us" "follows (t # u # ts) = follows [t] \<union> follows (u # ts)"
  by (auto simp: follows_def)

lemma tasks_around:
  "follows (us @ task # vs) = follows [task] \<union> follows (us @ vs)"
  "follows (spawned @ us @ task' # vs) = follows (spawned @ [task']) \<union> follows (us @ vs)"
  "mset (leads (us @ task # vs)) = mset (leads [task]) + mset (leads (us @ vs))"
  "mset (leads (spawned @ us @ task' # vs)) = mset (leads (spawned @ [task'])) + mset (leads (us @ vs))"
  by (auto simp: follows_def)

lemma follows_single: "follows [t] = (case t of Following _ _ ch \<Rightarrow> {ch} | _ \<Rightarrow> {})"
  by (auto simp: follows_def split: provider_task.split)

text \<open>What a turn does to the flight table: nothing, an election won or lost, or a guard dropped.\<close>

lemma turn_flights:
  assumes "provider_turn C G now task c = Some (task', spawned, c')"
  shows "pc_inflight c' = pc_inflight c \<and> leads (spawned @ [task']) = leads [task] \<and> follows (spawned @ [task']) \<subseteq> follows [task]
    \<or> (\<exists>key. leads [task] = [] \<and> leads (spawned @ [task']) = [key] \<and> follows (spawned @ [task']) = {}
        \<and> flight_begin key (pc_inflight c) = (LeadsFlight, pc_inflight c'))
    \<or> (\<exists>key ch. leads [task] = [] \<and> leads (spawned @ [task']) = [] \<and> follows (spawned @ [task']) \<subseteq> {ch}
        \<and> flight_begin key (pc_inflight c) = (FollowsFlight ch, pc_inflight c'))
    \<or> (\<exists>key outcome. leads [task] = [key] \<and> leads (spawned @ [task']) = [] \<and> follows (spawned @ [task']) = {}
        \<and> pc_inflight c' = flight_drop key outcome (pc_inflight c))"
proof (cases task)
  case (Fetching key mx rv reserved)
  let ?r = "fetch_limited_bytes_uncached C G reserved key mx rv" and ?c = "if reserved then slot_drop c else c"
  obtain m where "store_leader_result now key ?r ?c =
      (leader_answer ?r, drop_guard key (Some (leader_outcome ?r)) (record_provider_cache (pk_resource key) m (stored_cache now key ?r ?c)))"
    by (rule store_leader_result_cases)
  with assms Fetching show ?thesis
    by (auto simp: provider_turn_def stale_revalidation_turn_def task_leads_def follows_single Let_def split: option.splits sum.splits)
next
  case (FailedRevalidation key e)
  obtain m where "store_leader_result now key (Inl e) c =
      (leader_answer (Inl e), drop_guard key (Some (leader_outcome (Inl e))) (record_provider_cache (pk_resource key) m (stored_cache now key (Inl e) c)))"
    by (rule store_leader_result_cases)
  with assms FailedRevalidation show ?thesis
    by (auto simp: provider_turn_def stale_revalidation_turn_def task_leads_def follows_single)
next
  case (HitAllowed key mx e)
  with assms show ?thesis
    by (auto simp: provider_turn_def stale_revalidation_turn_def task_leads_def follows_single dest!: allowed_kept split: prod.splits if_splits)
next
  case (HitLeading key mx e)
  with assms show ?thesis
    by (auto simp: provider_turn_def stale_revalidation_turn_def task_leads_def follows_single dest!: allowed_kept split: prod.splits if_splits)
next
  case (Admitting key mx rv)
  with assms show ?thesis
    by (auto simp: provider_turn_def stale_revalidation_turn_def task_leads_def follows_single dest!: reserve_kept split: prod.splits)
qed (use assms in \<open>auto simp: provider_turn_def stale_revalidation_turn_def task_leads_def follows_single Let_def dest!: begin_kept
  split: option.splits prod.splits if_splits flight_role.splits flight_outcome.splits\<close>)

definition flights_ok :: "provider_system \<Rightarrow> bool" where
  "flights_ok s \<longleftrightarrow> (\<exists>L F. flight_reach L F (pc_inflight (ps_cache s)) \<and> mset L = mset (leads (ps_tasks s)) \<and> follows (ps_tasks s) \<subseteq> F)"

definition slots_ok :: "provider_system \<Rightarrow> bool" where
  "slots_ok s \<longleftrightarrow> pc_fetch_inflight (ps_cache s) = sum_list (map task_slots (ps_tasks s))
     \<and> pc_fetch_inflight (ps_cache s) \<le> provider_fetch_max_inflight"

lemma flights_drop:
  assumes "flight_reach L F sf" "mset L = add_mset key M"
  shows "flight_reach (remove1 key L) F (flight_drop key outcome sf) \<and> mset (remove1 key L) = M"
proof -
  from assms(2) have "key \<in> set L" by (metis set_mset_mset union_single_eq_member)
  with assms flight_reach_drop show ?thesis by fastforce
qed

text \<open>Replacing a task by others keeps the table and the tasks in step.\<close>

lemma flights_replace:
  assumes "flight_reach L F sf" "mset L = mset (leads [task]) + M" "follows [task] \<subseteq> F" "H \<subseteq> F"
    and "sf' = sf \<and> leads ts = leads [task] \<and> follows ts \<subseteq> follows [task]
      \<or> (\<exists>key. leads [task] = [] \<and> leads ts = [key] \<and> follows ts = {} \<and> flight_begin key sf = (LeadsFlight, sf'))
      \<or> (\<exists>key ch. leads [task] = [] \<and> leads ts = [] \<and> follows ts \<subseteq> {ch} \<and> flight_begin key sf = (FollowsFlight ch, sf'))
      \<or> (\<exists>key outcome. leads [task] = [key] \<and> leads ts = [] \<and> follows ts = {} \<and> sf' = flight_drop key outcome sf)"
  shows "\<exists>L F. flight_reach L F sf' \<and> mset L = mset (leads ts) + M \<and> follows ts \<union> H \<subseteq> F"
  using assms(5)
proof (elim disjE exE conjE)
  assume n: "sf' = sf" "leads ts = leads [task]" "follows ts \<subseteq> follows [task]"
  from n(3) assms(3,4) have "follows ts \<union> H \<subseteq> F" by blast
  with assms(1,2) show ?thesis unfolding n(1,2) by blast
next
  fix key assume n: "leads [task] = []" "leads ts = [key]" "follows ts = {}" "flight_begin key sf = (LeadsFlight, sf')"
  from flight_reach_lead [OF assms(1) n(4)] assms(2,4) show ?thesis unfolding n(1-3)
    by (intro exI [of _ "key # L"] exI [of _ F]) simp
next
  fix key ch assume n: "leads [task] = []" "leads ts = []" "follows ts \<subseteq> {ch}" "flight_begin key sf = (FollowsFlight ch, sf')"
  from n(3) assms(4) have "follows ts \<union> H \<subseteq> insert ch F" by blast
  with flight_reach_follow [OF assms(1) n(4)] assms(2) show ?thesis unfolding n(1,2) by blast
next
  fix key outcome assume n: "leads [task] = [key]" "leads ts = []" "follows ts = {}" "sf' = flight_drop key outcome sf"
  from assms(2) have "mset L = add_mset key M" unfolding n(1) by simp
  from flights_drop [OF assms(1) this] assms(4) show ?thesis unfolding n(2-4)
    by (intro exI [of _ "remove1 key L"] exI [of _ F]) simp
qed

lemma cancel_flights:
  assumes "provider_cancel task c = Some c'"
  shows "pc_inflight c' = pc_inflight c \<and> leads [] = leads [task] \<and> follows [] \<subseteq> follows [task]
    \<or> (\<exists>key outcome. leads [task] = [key] \<and> leads [] = [] \<and> follows [] = {} \<and> pc_inflight c' = flight_drop key outcome (pc_inflight c))"
  using assms by (auto simp: provider_cancel_def task_leads_def split: provider_task.splits option.splits if_splits)

lemma step_flights:
  assumes "provider_step C s t" "flights_ok s"
  shows "flights_ok t"
  using assms(1)
proof cases
  case (provider_run us task vs G task' spawned c)
  from assms(2) obtain L F where LF: "flight_reach L F (pc_inflight (ps_cache s))"
    "mset L = mset (leads [task]) + mset (leads (us @ vs))" "follows [task] \<union> follows (us @ vs) \<subseteq> F"
    unfolding flights_ok_def provider_run(2) tasks_around by blast
  then have "follows [task] \<subseteq> F" "follows (us @ vs) \<subseteq> F" by blast+
  note replaced = flights_replace [OF LF(1,2) this turn_flights [OF provider_run(3)]]
  have "ps_tasks t = spawned @ us @ task' # vs" "ps_cache t = c" by (simp_all add: provider_run(1))
  with replaced show ?thesis by (simp only: flights_ok_def tasks_around)
next
  case (provider_leave us task vs c)
  from assms(2) obtain L F where LF: "flight_reach L F (pc_inflight (ps_cache s))"
    "mset L = mset (leads [task]) + mset (leads (us @ vs))" "follows [task] \<union> follows (us @ vs) \<subseteq> F"
    unfolding flights_ok_def provider_leave(2) tasks_around by blast
  then have "follows [task] \<subseteq> F" "follows (us @ vs) \<subseteq> F" by blast+
  from flights_replace [OF LF(1,2) this, of _ "[]"] cancel_flights [OF provider_leave(3)]
  have "\<exists>L F. flight_reach L F (pc_inflight c) \<and> mset L = mset (leads []) + mset (leads (us @ vs)) \<and> follows [] \<union> follows (us @ vs) \<subseteq> F"
    by blast
  then show ?thesis unfolding flights_ok_def provider_leave(1) by simp
qed (use assms(2) tasks_around(1) [of "[]"] in \<open>auto simp: flights_ok_def task_leads_def follows_single\<close>)

lemma turn_slots:
  assumes "provider_turn C G now task c = Some (task', spawned, c')" "task_slots task \<le> pc_fetch_inflight c"
  shows "pc_fetch_inflight c' + task_slots task = pc_fetch_inflight c + sum_list (map task_slots (spawned @ [task']))
    \<and> (pc_fetch_inflight c \<le> provider_fetch_max_inflight \<longrightarrow> pc_fetch_inflight c' \<le> provider_fetch_max_inflight)"
proof (cases task)
  case (Fetching key mx rv reserved)
  let ?r = "fetch_limited_bytes_uncached C G reserved key mx rv" and ?c = "if reserved then slot_drop c else c"
  obtain m where "store_leader_result now key ?r ?c =
      (leader_answer ?r, drop_guard key (Some (leader_outcome ?r)) (record_provider_cache (pk_resource key) m (stored_cache now key ?r ?c)))"
    by (rule store_leader_result_cases)
  with assms Fetching show ?thesis
    by (auto simp: provider_turn_def stale_revalidation_turn_def task_slots_def Let_def split: option.splits sum.splits)
next
  case (FailedRevalidation key e)
  obtain m where "store_leader_result now key (Inl e) c =
      (leader_answer (Inl e), drop_guard key (Some (leader_outcome (Inl e))) (record_provider_cache (pk_resource key) m (stored_cache now key (Inl e) c)))"
    by (rule store_leader_result_cases)
  with assms FailedRevalidation show ?thesis by (auto simp: provider_turn_def stale_revalidation_turn_def task_slots_def)
next
  case (HitAllowed key mx e)
  with assms show ?thesis
    by (auto simp: provider_turn_def stale_revalidation_turn_def task_slots_def dest!: allowed_kept split: prod.splits if_splits)
next
  case (HitLeading key mx e)
  with assms show ?thesis
    by (auto simp: provider_turn_def stale_revalidation_turn_def task_slots_def dest!: allowed_kept split: prod.splits if_splits)
next
  case (HitElecting key mx e)
  with assms show ?thesis
    by (auto simp: provider_turn_def stale_revalidation_turn_def task_slots_def dest!: begin_kept split: prod.splits flight_role.splits)
next
  case (Electing key mx joined)
  with assms show ?thesis
    by (auto simp: provider_turn_def stale_revalidation_turn_def task_slots_def dest!: begin_kept split: prod.splits flight_role.splits)
qed (use assms in \<open>auto simp: provider_turn_def stale_revalidation_turn_def task_slots_def slot_try_reserve_def Let_def
  split: option.splits prod.splits if_splits flight_outcome.splits\<close>)

lemma step_slots:
  assumes "provider_step C s t" "slots_ok s"
  shows "slots_ok t"
  using assms(1)
proof cases
  case (provider_run us task vs G task' spawned c)
  with assms(2) turn_slots [OF provider_run(3)] show ?thesis by (auto simp: slots_ok_def)
next
  case (provider_leave us task vs c)
  with assms(2) show ?thesis
    by (auto simp: slots_ok_def provider_cancel_def task_slots_def split: provider_task.splits option.splits if_splits)
qed (use assms(2) in \<open>auto simp: slots_ok_def task_slots_def\<close>)

section \<open>Where entries come from\<close>

definition origin_ok :: "string \<Rightarrow> origin_outcome \<Rightarrow> bool" where
  "origin_ok resource out =
     (case out of
        Modified f \<Rightarrow> \<exists>vs. fe_policy f = cache_policy_values resource vs
      | NotModified f \<Rightarrow> \<exists>vs. fe_policy f = cache_policy_values resource vs
      | OriginNegative n \<Rightarrow> fn_status n \<in> {404, 410} \<and> (\<exists>vs. fn_policy n = negative_cache_policy_values vs))"

lemma revalidated_resource:
  "fe_bytes (revalidated_provider_resource C cached resource h now d) = rr_bytes cached"
  "\<exists>vs. fe_policy (revalidated_provider_resource C cached resource h now d) = cache_policy_values resource vs"
  by (auto simp: revalidated_provider_resource_def cache_policy_of_def Let_def)

lemma fetch_http_ok:
  assumes "fetch_http_provider C G url mx resource accepted rv = Inr out"
  shows "origin_ok resource out \<and> (\<forall>f. out = NotModified f \<longrightarrow> (\<exists>cached. rv = Some cached \<and> fe_bytes f = rr_bytes cached))"
proof -
  have "\<exists>vs. fst (cache_policy_with_freshness_values resource us) = cache_policy_values resource vs"
    "\<exists>vs. fst (negative_cache_policy_with_freshness_values us) = negative_cache_policy_values vs" for us
    by (auto simp: cache_policy_values_def negative_cache_policy_values_def)
  with assms show ?thesis
    by (auto simp: fetch_http_provider_def origin_ok_def revalidated_resource Let_def prod.case_eq_if
        split: sum.splits option.splits if_splits)
qed

lemma fetch_object_ok:
  assumes "fetch_object_store_provider C G url mx resource accepted rv = Inr out"
  shows "origin_ok resource out \<and> (\<forall>f. out = NotModified f \<longrightarrow> (\<exists>cached. rv = Some cached \<and> fe_bytes f = rr_bytes cached))"
  using assms
  by (auto simp: fetch_object_store_provider_def origin_ok_def revalidated_resource cache_policy_of_def
      split: sum.splits option.splits if_splits object_get.splits)

lemma fetch_uncached_ok:
  assumes "fetch_limited_bytes_uncached C G reserved key mx rv = Inr out"
  shows "origin_ok (pk_resource key) out \<and> (\<forall>f. out = NotModified f \<longrightarrow> (\<exists>cached. rv = Some cached \<and> fe_bytes f = rr_bytes cached))"
proof -
  from assms obtain scheme where
    "(if scheme = ''http'' \<or> scheme = ''https''
      then fetch_http_provider C G (pk_url key) mx (pk_resource key) (pk_accepted_content_types key) rv
      else fetch_object_store_provider C G (pk_url key) mx (pk_resource key) (pk_accepted_content_types key) rv) = Inr out"
    by (fastforce simp: fetch_limited_bytes_uncached_def Let_def split: if_split_asm option.splits sum.splits origin_outcome.splits)
  then show ?thesis using fetch_http_ok fetch_object_ok by (simp split: if_splits)
qed

type_synonym origin_log = "(provider_key \<times> instant \<times> origin_outcome) list"

text \<open>The entry \<open>put_found\<close> makes of a fetched resource.\<close>

definition found_of :: "fetched_resource \<Rightarrow> instant \<Rightarrow> found_entry" where
  "found_of f t = \<lparr>fo_bytes = fe_bytes f, fo_cache_control = cp_response_cache_control (fe_policy f), fo_validators = fe_validators f,
     fo_content_encoding = fe_content_encoding f, fo_age_at_insert = fe_initial_age f, fo_stored_at = t,
     fo_fresh_until = t + (cp_fresh (fe_policy f) - fe_initial_age f),
     fo_stale_until = t + (duration_saturating_add (cp_fresh (fe_policy f)) (cp_swr (fe_policy f)) - fe_initial_age f)\<rparr>"

definition entry_from :: "origin_log \<Rightarrow> provider_key \<Rightarrow> cached_provider_fetch \<Rightarrow> bool" where
  "entry_from lg key e =
     (case e of
        ProviderFound fo \<Rightarrow> \<exists>t f. {(key, t, Modified f), (key, t, NotModified f)} \<inter> set lg \<noteq> {} \<and> cp_store (fe_policy f) \<and> fo = found_of f t
      | ProviderNegative st fu su \<Rightarrow> \<exists>t n. (key, t, OriginNegative n) \<in> set lg \<and> ncp_store (fn_policy n) \<and> st = fn_status n
          \<and> fu = t + (ncp_fresh (fn_policy n) - fn_initial_age n) \<and> su = fu)"

definition delivered :: "origin_log \<Rightarrow> provider_key \<Rightarrow> bytes \<Rightarrow> bool" where
  "delivered lg key bs \<longleftrightarrow> (\<exists>t f. (key, t, Modified f) \<in> set lg \<and> fe_bytes f = bs)"

definition outcome_ok :: "origin_log \<Rightarrow> instant \<Rightarrow> provider_key \<times> instant \<times> origin_outcome \<Rightarrow> bool" where
  "outcome_ok lg now ev =
     (case ev of (key, t, out) \<Rightarrow> t \<le> now \<and> origin_ok (pk_resource key) out \<and> (\<forall>f. out = NotModified f \<longrightarrow> delivered lg key (fe_bytes f)))"

definition task_revalidates :: "provider_task \<Rightarrow> (provider_key \<times> cached_representation) option" where
  "task_revalidates task =
     (case task of Admitting key _ (Some r) \<Rightarrow> Some (key, r) | Fetching key _ (Some r) _ \<Rightarrow> Some (key, r) | _ \<Rightarrow> None)"

definition task_ok :: "origin_log \<Rightarrow> provider_task \<Rightarrow> bool" where
  "task_ok lg task = (case task_revalidates task of Some (key, r) \<Rightarrow> delivered lg key (rr_bytes r) | None \<Rightarrow> True)"

definition entries_ok :: "origin_log \<Rightarrow> provider_cache \<Rightarrow> bool" where
  "entries_ok lg c \<longleftrightarrow> (\<forall>key e. pc_entries c key = Some e \<longrightarrow> entry_from lg key e)"

definition provenance_ok :: "provider_system \<Rightarrow> bool" where
  "provenance_ok s \<longleftrightarrow> list_all (outcome_ok (ps_origin s) (ps_clock s)) (ps_origin s) \<and> entries_ok (ps_origin s) (ps_cache s)
     \<and> list_all (task_ok (ps_origin s)) (ps_tasks s)"

lemma delivered_mono: "delivered lg key bs \<Longrightarrow> delivered (lg @ new) key bs"
  by (auto simp: delivered_def)

lemma entry_from_mono: "entry_from lg key e \<Longrightarrow> set lg \<subseteq> set lg' \<Longrightarrow> entry_from lg' key e"
  by (cases e) (auto simp: entry_from_def)

lemma outcome_ok_mono: "outcome_ok lg now ev \<Longrightarrow> now \<le> now' \<Longrightarrow> outcome_ok (lg @ new) now' ev"
  by (auto simp: outcome_ok_def intro: delivered_mono)

lemma task_ok_mono: "task_ok lg task \<Longrightarrow> task_ok (lg @ new) task"
  by (auto simp: task_ok_def intro: delivered_mono split: option.splits)

lemma put_found_entries:
  "pc_entries (snd (put_found now key f c)) k = Some e \<Longrightarrow>
     pc_entries c k = Some e \<or> k = key \<and> cp_store (fe_policy f) \<and> e = ProviderFound (found_of f now)"
  by (auto simp: put_found_def found_of_def Let_def split: if_splits)

lemma put_negative_entries:
  "pc_entries (snd (put_negative now key n c)) k = Some e \<Longrightarrow>
     pc_entries c k = Some e \<or> k = key \<and> entry_from [(key, now, OriginNegative n)] key e"
  by (auto simp: put_negative_def entry_from_def Let_def split: if_splits)

lemma stored_entries:
  "pc_entries (stored_cache now key result c) k = Some e \<Longrightarrow>
     pc_entries c k = Some e \<or> k = key \<and> (\<exists>out. result = Inr out \<and> entry_from [(key, now, out)] key e)"
  by (auto simp: stored_cache_def entry_from_def dest!: put_found_entries put_negative_entries
      split: sum.splits origin_outcome.splits)

lemma marked_entries:
  "pc_entries (mark_stale_revalidation_failure now key c) k = Some e \<Longrightarrow> pc_entries c k = Some e"
  by (auto simp: mark_stale_revalidation_failure_def split: option.splits freshness.splits if_splits)

lemma turn_entries:
  assumes "provider_turn C G now task c = Some (task', spawned, c')" "pc_entries c' k = Some e"
  shows "pc_entries c k = Some e \<or> entry_from (origin_event C G now task) k e"
proof (cases task)
  case (Fetching key mx rv reserved)
  let ?r = "fetch_limited_bytes_uncached C G reserved key mx rv" and ?c = "if reserved then slot_drop c else c"
  obtain m where "store_leader_result now key ?r ?c =
      (leader_answer ?r, drop_guard key (Some (leader_outcome ?r)) (record_provider_cache (pk_resource key) m (stored_cache now key ?r ?c)))"
    by (rule store_leader_result_cases)
  with assms Fetching have "pc_entries (stored_cache now key ?r ?c) k = Some e \<or> pc_entries (mark_stale_revalidation_failure now key ?c) k = Some e"
    by (auto simp: provider_turn_def stale_revalidation_turn_def Let_def split: option.splits sum.splits)
  moreover have "pc_entries ?c = pc_entries c" by simp
  ultimately show ?thesis
    using stored_entries [of now key ?r ?c k e] marked_entries [of now key ?c k e] Fetching
    by (auto simp: origin_event_def)
next
  case (FailedRevalidation key err)
  obtain m where "store_leader_result now key (Inl err) c =
      (leader_answer (Inl err), drop_guard key (Some (leader_outcome (Inl err))) (record_provider_cache (pk_resource key) m (stored_cache now key (Inl err) c)))"
    by (rule store_leader_result_cases)
  with assms FailedRevalidation show ?thesis by (auto simp: provider_turn_def stale_revalidation_turn_def stored_cache_def)
qed (use assms in \<open>auto simp: provider_turn_def stale_revalidation_turn_def Let_def dest!: allowed_kept begin_kept reserve_kept
  split: option.splits prod.splits if_splits flight_role.splits flight_outcome.splits\<close>)

lemma turn_tasks:
  assumes "provider_turn C G now task c = Some (task', spawned, c')" "entries_ok lg c" "list_all (outcome_ok lg now) lg" "task_ok lg task"
  shows "list_all (task_ok lg) (spawned @ [task'])"
proof (cases task)
  case (HitStale key mx e)
  have "delivered lg key (rr_bytes r)" if "stale_representation now key c = Some r" for r
  proof -
    from that obtain fo where fo: "pc_entries c key = Some (ProviderFound fo)" "rr_bytes r = fo_bytes fo"
      by (auto simp: stale_representation_def provider_get_def entry_representation_def
          split: option.splits freshness.splits cached_provider_fetch.splits)
    with assms(2) have "entry_from lg key (ProviderFound fo)" by (simp add: entries_ok_def)
    then obtain t f where "{(key, t, Modified f), (key, t, NotModified f)} \<inter> set lg \<noteq> {}" "fo = found_of f t"
      by (auto simp: entry_from_def)
    moreover from this(2) have "fo_bytes fo = fe_bytes f" by (simp add: found_of_def)
    ultimately show ?thesis using assms(3) fo by (fastforce simp: delivered_def outcome_ok_def list_all_iff)
  qed
  with HitStale assms(1) show ?thesis
    by (auto simp: provider_turn_def stale_revalidation_turn_def task_ok_def task_revalidates_def split: option.splits)
qed (use assms(1,4) in \<open>auto simp: provider_turn_def stale_revalidation_turn_def task_ok_def task_revalidates_def Let_def
  split: option.splits prod.splits if_splits flight_role.splits flight_outcome.splits sum.splits\<close>)

lemma event_recorded:
  assumes "ev \<in> set (origin_event C G now task)" "task_ok lg task"
  shows "outcome_ok (lg @ origin_event C G now task) now ev"
proof -
  from assms(1) obtain key mx rv reserved out where t: "task = Fetching key mx rv reserved"
    "fetch_limited_bytes_uncached C G reserved key mx rv = Inr out" "ev = (key, now, out)"
    by (auto simp: origin_event_def split: provider_task.splits sum.splits dest!: sym [of "Inr _"])
  have "delivered lg key (fe_bytes f)" if "out = NotModified f" for f
    using that fetch_uncached_ok [OF t(2)] assms(2) t(1) by (auto simp: task_ok_def task_revalidates_def)
  then show ?thesis using fetch_uncached_ok [OF t(2)] by (auto simp: t(3) outcome_ok_def intro: delivered_mono)
qed

lemma step_provenance:
  assumes "provider_step C s t" "provenance_ok s"
  shows "provenance_ok t"
  using assms(1)
proof cases
  case (provider_tick d)
  with assms(2) outcome_ok_mono [of "ps_origin s" "ps_clock s" _ _ "[]"] show ?thesis
    by (auto simp: provenance_ok_def list_all_iff)
next
  case (provider_evict K K')
  with assms(2) show ?thesis by (auto simp: provenance_ok_def entries_ok_def restrict_map_def split: if_splits)
next
  case (provider_run us task vs G task' spawned c)
  let ?ev = "origin_event C G (ps_clock s) task"
  from assms(2) provider_run(2) have ok: "entries_ok (ps_origin s) (ps_cache s)" "list_all (outcome_ok (ps_origin s) (ps_clock s)) (ps_origin s)"
    "list_all (task_ok (ps_origin s)) (us @ vs)" "task_ok (ps_origin s) task"
    by (auto simp: provenance_ok_def)
  have "entries_ok (ps_origin s @ ?ev) c"
    using ok(1) turn_entries [OF provider_run(3)] entry_from_mono unfolding entries_ok_def by (metis Un_upper1 Un_upper2 set_append)
  moreover have "list_all (task_ok (ps_origin s @ ?ev)) (spawned @ us @ task' # vs)"
    using turn_tasks [OF provider_run(3) ok(1,2,4)] ok(3) task_ok_mono by (auto simp: list_all_iff)
  moreover have "list_all (outcome_ok (ps_origin s @ ?ev) (ps_clock s)) (ps_origin s @ ?ev)"
    using ok(2) event_recorded [OF _ ok(4)] outcome_ok_mono by (auto simp: list_all_iff)
  ultimately show ?thesis by (simp add: provenance_ok_def provider_run(1))
next
  case (provider_leave us task vs c)
  with assms(2) have "pc_entries c = pc_entries (ps_cache s)"
    by (auto simp: provider_cancel_def split: provider_task.splits option.splits)
  with assms(2) provider_leave(1,2) show ?thesis by (simp add: provenance_ok_def entries_ok_def)
qed (use assms(2) in \<open>simp add: provenance_ok_def task_ok_def task_revalidates_def\<close>)

definition provider_inv :: "provider_system \<Rightarrow> bool" where
  "provider_inv s \<longleftrightarrow> flights_ok s \<and> slots_ok s \<and> provenance_ok s"

interpretation providers: transition_system provider_init "provider_step C" provider_inv
proof unfold_locales
  show "provider_inv s" if "provider_init s" for s
  proof -
    from that have "flight_reach [] {} (pc_inflight (ps_cache s))"
      by (simp add: provider_init_def provider_cache_new_def flight_reach_start)
    with that show ?thesis
      by (auto simp: provider_inv_def provider_init_def flights_ok_def slots_ok_def provenance_ok_def entries_ok_def provider_cache_new_def)
  qed
  show "provider_inv t" if "provider_inv s" "provider_step C s t" for s t
    using that step_flights step_slots step_provenance by (auto simp: provider_inv_def)
qed

section \<open>Serving within the policy\<close>

lemma fortnight: "2 * max_provider_ttl \<le> duration_max" "provider_negative_ttl \<le> duration_max"
  by (simp_all add: max_provider_ttl_def provider_negative_ttl_def secs_def duration_max_def)

lemma found_freshness:
  assumes "t \<le> now" "cp_fresh (fe_policy f) + cp_swr (fe_policy f) \<le> duration_max"
  defines "age \<equiv> (now - t) + fe_initial_age f"
  shows "entry_freshness now (ProviderFound (found_of f t)) =
    (if age < cp_fresh (fe_policy f) then Fresh else if age < cp_fresh (fe_policy f) + cp_swr (fe_policy f) then Stale else Expired)"
  using assms by (auto simp: entry_freshness_def found_of_def duration_saturating_add_def)

lemma found_answer:
  assumes "t \<le> now" "(now - t) + fe_initial_age f \<le> duration_max"
  shows "entry_into_result now (ProviderFound (found_of f t)) =
    Inr ((resource_fetched f)\<lparr>pr_age_seconds := as_secs ((now - t) + fe_initial_age f)\<rparr>)"
  using assms by (simp add: entry_into_result_def found_of_def resource_fetched_def duration_saturating_add_def saturating_duration_since_def)

lemma get_Some_iff:
  "provider_get now key c = Some (e, fr) \<longleftrightarrow> pc_entries c key = Some e \<and> entry_freshness now e = fr \<and> fr \<noteq> Expired"
  by (auto simp: provider_get_def split: option.splits freshness.splits)


text \<open>One node, one request for a style that has no \<open>Cache-Control\<close>, and its fetch.\<close>

definition sty_codecs :: provider_codecs where
  "sty_codecs = \<lparr>pd_parse_date = (\<lambda>_. None), pd_fmt_date = (\<lambda>_. []), pd_gunzip = (\<lambda>b. (b, None)), pd_json_error = (\<lambda>_. None),
     pd_status_text = (\<lambda>_. [])\<rparr>"

definition sty_key :: provider_key where
  "sty_key = \<lparr>pk_resource = ''style'', pk_accepted_content_types = [], pk_body_validation = BytesBody, pk_url = ''u''\<rparr>"

definition sty_response :: http_response where
  "sty_response = \<lparr>ht_status = 200, ht_headers = [], ht_content_length = None, ht_chunks = [Inr [7]], ht_received = 0, ht_elapsed = 0\<rparr>"

definition sty_origin :: provider_origin where
  "sty_origin = \<lparr>po_scheme = (\<lambda>_. Some ''http''), po_semaphore_closed = False, po_timed_out = False,
     po_http = (\<lambda>_ _. Inr sty_response), po_resolve_ok = (\<lambda>_. True), po_get_object = (\<lambda>_ _. ObjectNotFound)\<rparr>"

definition sty_fetched :: fetched_resource where
  "sty_fetched = \<lparr>fe_bytes = [7], fe_policy = policy_defaulted ''style'', fe_validators = \<lparr>va_etag = None, va_last_modified = None\<rparr>,
     fe_content_encoding = None, fe_initial_age = 0\<rparr>"

lemma sty_fetch:
  "fetch_limited_bytes_uncached sty_codecs sty_origin True sty_key 9 None = Inr (Modified sty_fetched)"
  by (simp add: fetch_limited_bytes_uncached_def sty_origin_def sty_key_def fetch_http_provider_def sty_response_def
      header_str_values_def header_value_def joined_header_values_def map_filter_simps require_complete_provider_status_def
      validate_content_type_def cache_policy_with_freshness_values_def parse_values_def has_explicit_freshness_def
      not_identity_def usize_saturating_add_def usize_max_def validate_body_def sty_fetched_def Let_def)

definition sty_state :: "provider_task list \<Rightarrow> provider_cache \<Rightarrow> (provider_key \<times> instant \<times> origin_outcome) list \<Rightarrow> provider_system" where
  "sty_state ts c lg = \<lparr>ps_clock = 0, ps_cache = c, ps_tasks = ts, ps_origin = lg\<rparr>"

lemma sty_run:
  assumes "reach provider_init (provider_step sty_codecs) (sty_state [task] c lg)"
    "provider_turn sty_codecs sty_origin 0 task c = Some (task', [], c')"
  shows "reach provider_init (provider_step sty_codecs) (sty_state [task'] c' (lg @ origin_event sty_codecs sty_origin 0 task))"
  using reach_step [OF assms(1) provider_run [of "sty_state [task] c lg" "[]" task "[]" _ sty_origin task' "[]" c']] assms(2)
  by (simp add: sty_state_def)

lemma sty_reaches:
  "\<exists>c t. reach provider_init (provider_step sty_codecs) (sty_state [t] c [(sty_key, 0, Modified sty_fetched)])
     \<and> pc_entries c sty_key = Some (ProviderFound (found_of sty_fetched 0))"
proof -
  let ?R = "\<lambda>t c lg. reach provider_init (provider_step sty_codecs) (sty_state [t] c lg)"
  let ?turn = "provider_turn sty_codecs sty_origin 0"
  let ?c0 = "record_provider_cache ''style'' ''miss'' provider_cache_new"
  let ?r = "fetch_limited_bytes_uncached sty_codecs sty_origin True sty_key 9 None"
  obtain c1 where c1: "begin_fetch sty_key ?c0 = (LeadsFlight, c1)" "pc_entries c1 = Map.empty" "pc_fetch_inflight c1 = 0"
    by (simp add: begin_fetch_def flight_begin_def record_provider_cache_def provider_cache_new_def single_flight_default_def)
  obtain c2 where c2: "slot_try_reserve c1 = (True, c2)" "pc_entries c2 = Map.empty"
    using c1 by (simp add: slot_try_reserve_def provider_fetch_max_inflight_def)
  obtain m where m: "store_leader_result 0 sty_key ?r (slot_drop c2) = (leader_answer ?r,
      drop_guard sty_key (Some (leader_outcome ?r)) (record_provider_cache (pk_resource sty_key) m (stored_cache 0 sty_key ?r (slot_drop c2))))"
    by (rule store_leader_result_cases)
  define c3 where "c3 = snd (store_leader_result 0 sty_key ?r (slot_drop c2))"
  have turns: "?turn (Looking sty_key 9 False False) provider_cache_new = Some (Electing sty_key 9 False, [], ?c0)"
    "?turn (Electing sty_key 9 False) ?c0 = Some (Checking sty_key 9 False, [], c1)"
    "?turn (Checking sty_key 9 False) c1 = Some (Admitting sty_key 9 None, [], c1)"
    "?turn (Admitting sty_key 9 None) c1 = Some (Fetching sty_key 9 None True, [], c2)"
    "?turn (Fetching sty_key 9 None True) c2 = Some (Answered sty_key (leader_answer ?r), [], c3)"
    using c1 c2 m by (simp_all add: provider_turn_def stale_revalidation_turn_def provider_get_def provider_cache_new_def sty_key_def c3_def)
  have events: "origin_event sty_codecs sty_origin 0 (Looking sty_key 9 False False) = []"
    "origin_event sty_codecs sty_origin 0 (Electing sty_key 9 False) = []"
    "origin_event sty_codecs sty_origin 0 (Checking sty_key 9 False) = []"
    "origin_event sty_codecs sty_origin 0 (Admitting sty_key 9 None) = []"
    "origin_event sty_codecs sty_origin 0 (Fetching sty_key 9 None True) = [(sty_key, 0, Modified sty_fetched)]"
    by (simp_all add: origin_event_def sty_fetch)
  have "reach provider_init (provider_step sty_codecs) (sty_state [] provider_cache_new [])"
    by (rule reach_init) (simp add: provider_init_def sty_state_def)
  from reach_step [OF this provider_request [of _ _ sty_key 9]] have "?R (Looking sty_key 9 False False) provider_cache_new []"
    by (simp add: sty_state_def)
  from sty_run [OF sty_run [OF sty_run [OF sty_run [OF sty_run [OF this turns(1)] turns(2)] turns(3)] turns(4)] turns(5)]
  have "?R (Answered sty_key (leader_answer ?r)) c3 [(sty_key, 0, Modified sty_fetched)]" by (simp add: events)
  moreover have "pc_entries c3 sty_key = Some (ProviderFound (found_of sty_fetched 0))"
    unfolding c3_def m
    by (simp add: stored_cache_def sty_fetch put_found_def found_of_def sty_fetched_def policy_defaulted_def positive_ttl_def
        style_positive_ttl_def secs_def duration_saturating_add_def duration_max_def)
  ultimately show ?thesis by blast
qed


section \<open>No request is stranded\<close>

lemma turn_stuck:
  "provider_turn C G now task c = None \<Longrightarrow> task = BackgroundDone \<or> (\<exists>key a. task = Answered key a)
     \<or> (\<exists>key mx ch. task = Following key mx ch \<and> flight_wait ch (pc_inflight c) = None)"
  by (cases task)
    (auto simp: provider_turn_def stale_revalidation_turn_def Let_def split: option.splits prod.splits if_splits flight_role.splits flight_outcome.splits sum.splits)

lemma leads_in: "key \<in> set (leads ts) \<longleftrightarrow> (\<exists>task\<in>set ts. task_leads task = Some key)"
  by (induction ts) (auto split: option.splits)

text \<open>C38: The requests of provider resources never get in each other's way. Under every interleaving at most one
  task leads the flight of a key, so at most one origin fetch runs per key; the flight table holds exactly the
  led keys; slots are counted exactly and bound the fetches under way by 128; and every unfinished request can
  take a turn, whatever the origin answers, or follows a flight whose leader can.\<close>

theorem provider_requests_progress:
  assumes "reach provider_init (provider_step C) s"
  shows "distinct (leads (ps_tasks s)) \<and> set (leads (ps_tasks s)) = dom (sf_entries (pc_inflight (ps_cache s)))
    \<and> pc_fetch_inflight (ps_cache s) = sum_list (map task_slots (ps_tasks s)) \<and> pc_fetch_inflight (ps_cache s) \<le> 128
    \<and> (\<forall>task\<in>set (ps_tasks s). task = BackgroundDone \<or> (\<exists>key a. task = Answered key a)
        \<or> provider_turn C G (ps_clock s) task (ps_cache s) \<noteq> None
        \<or> (\<exists>key mx ch k leader. task = Following key mx ch \<and> sf_entries (pc_inflight (ps_cache s)) k = Some ch
            \<and> leader \<in> set (ps_tasks s) \<and> task_leads leader = Some k \<and> provider_turn C G (ps_clock s) leader (ps_cache s) \<noteq> None))"
proof -
  from providers.reachable_inv [OF assms] obtain L F where LF: "flight_reach L F (pc_inflight (ps_cache s))"
    "mset L = mset (leads (ps_tasks s))" "follows (ps_tasks s) \<subseteq> F" and sl: "slots_ok s"
    by (auto simp: provider_inv_def flights_ok_def)
  note inv = flight_reach_inv [OF LF(1)]
  from inv LF(2) have d: "distinct (leads (ps_tasks s)) \<and> set (leads (ps_tasks s)) = dom (sf_entries (pc_inflight (ps_cache s)))"
    by (metis mset_eq_imp_distinct_iff mset_eq_setD)
  from sl have slots: "pc_fetch_inflight (ps_cache s) = sum_list (map task_slots (ps_tasks s)) \<and> pc_fetch_inflight (ps_cache s) \<le> 128"
    by (simp add: slots_ok_def provider_fetch_max_inflight_def)
  have "task = BackgroundDone \<or> (\<exists>key a. task = Answered key a) \<or> provider_turn C G (ps_clock s) task (ps_cache s) \<noteq> None
      \<or> (\<exists>key mx ch k leader. task = Following key mx ch \<and> sf_entries (pc_inflight (ps_cache s)) k = Some ch
          \<and> leader \<in> set (ps_tasks s) \<and> task_leads leader = Some k \<and> provider_turn C G (ps_clock s) leader (ps_cache s) \<noteq> None)"
    if t: "task \<in> set (ps_tasks s)" for task
  proof (cases "provider_turn C G (ps_clock s) task (ps_cache s)")
    case None
    from turn_stuck [OF this] show ?thesis
    proof (elim disjE exE conjE)
      fix key mx ch assume f: "task = Following key mx ch" "flight_wait ch (pc_inflight (ps_cache s)) = None"
      with t LF(3) have "ch \<in> F" by (auto simp: follows_def)
      with inv f(2) obtain k where k: "sf_entries (pc_inflight (ps_cache s)) k = Some ch" by (auto simp: ran_def)
      with d obtain leader where l: "leader \<in> set (ps_tasks s)" "task_leads leader = Some k" using leads_in by (metis domI)
      have "provider_turn C G (ps_clock s) leader (ps_cache s) \<noteq> None"
      proof
        assume "provider_turn C G (ps_clock s) leader (ps_cache s) = None"
        from turn_stuck [OF this] l(2) show False by (auto simp: task_leads_def)
      qed
      with f k l show ?thesis by blast
    qed auto
  qed auto
  with d slots show ?thesis by blast
qed

theorem provider_requests_progress_witness:
  "\<exists>s. reach provider_init (provider_step sty_codecs) s \<and> ps_origin s = [(sty_key, 0, Modified sty_fetched)]
     \<and> distinct (leads (ps_tasks s)) \<and> pc_fetch_inflight (ps_cache s) \<le> 128"
proof -
  from sty_reaches obtain c t where r: "reach provider_init (provider_step sty_codecs) (sty_state [t] c [(sty_key, 0, Modified sty_fetched)])"
    by blast
  let ?s = "sty_state [t] c [(sty_key, 0, Modified sty_fetched)]"
  have "distinct (leads (ps_tasks ?s))" "pc_fetch_inflight (ps_cache ?s) \<le> 128" "ps_origin ?s = [(sty_key, 0, Modified sty_fetched)]"
    using provider_requests_progress [OF r, of sty_origin] by (blast, blast) (simp add: sty_state_def)
  with r show ?thesis by blast
qed

section \<open>Forwarding to peers\<close>

lemma header_value_ok_append [simp]: "header_value_ok (a @ b) \<longleftrightarrow> header_value_ok a \<and> header_value_ok b"
  by (simp add: header_value_ok_def)

lemma header_value_ok_token: "token_ok t \<Longrightarrow> header_value_ok t"
  by (auto simp: header_value_ok_def token_ok_def list_all_iff graphic_def)

lemma header_value_ok_join: "list_all token_ok ts \<Longrightarrow> header_value_ok (join '', '' ts)"
  by (induction "'', ''" ts rule: join.induct) (auto simp: header_value_ok_token, simp_all add: header_value_ok_def)

lemma header_bytes_of_value: "header_value_ok s \<Longrightarrow> header_bytes_ok s"
  by (auto simp: header_value_ok_def header_bytes_ok_def list_all_iff)

lemma normalized_header_ok: "header_value_ok (normalized_cache_control resource c)"
  using header_value_ok_join [OF shared_directives_ok] header_value_ok_join [of "[''private'', ''max-age='' @ decimal n]" for n] emitted_ok(1,9)
  by (auto simp: normalized_cache_control_def header_value_ok_def)

lemma policy_header_ok: "header_value_ok (cp_response_cache_control (cache_policy_values resource vs))"
proof (cases "vs = []")
  case True
  then show ?thesis
    by (simp add: cache_policy_values_def cache_policy_with_freshness_values_def parse_values_def policy_defaulted_def
        default_response_cache_control_def header_value_ok_def cache_STYLE_def cache_GLYPH_SPRITE_def)
next
  case False
  with policies_of_fields(2) [of vs resource] normalized_header_ok show ?thesis by (auto simp: control_policy_def)
qed

lemma body_limit_bound: "internal_response_body_limit path \<le> usize_max"
  by (simp add: internal_response_body_limit_def usize_max_def max_internal_bootstrap_response_bytes_def
      max_internal_glyph_response_bytes_def max_internal_json_response_bytes_def max_internal_sprite_response_bytes_def
      max_internal_binary_response_bytes_def min_bootstrap_bytes_def default_max_decompressed_bytes_def Let_def)



section \<open>A lifetime the origin did not set\<close>

text \<open>C40: A response without explicit freshness gets the node's own default lifetime. On a full response the
  transported age is not charged against it, and the body is stored. On a 304 with the same headers it is: the confirmed
  body is refused, and its entry is removed, once the transported age exceeds the default windows.\<close>

theorem revalidation_charges_default_lifetime:
  assumes "header_str_values hs ''cache-control'' = ccs" "ccs \<noteq> []" "\<not> has_explicit_freshness (parse_values ccs)"
    and "cp_store (cache_policy_values resource ccs)"
    and "cp_fresh (cache_policy_values resource ccs) + cp_swr (cache_policy_values resource ccs) \<le> corrected_initial_age C hs received delay"
  shows "(\<exists>c'. put_found now key (revalidated_provider_resource C cached resource (Some hs) received delay) c = (False, c')
        \<and> pc_entries c' key = None)
    \<and> (\<forall>f response. fetch_http_provider C G url mx resource accepted None = Inr (Modified f)
        \<and> po_http G url Unconditional = Inr response \<and> ht_headers response = hs \<longrightarrow>
        fe_initial_age f = 0 \<and> fst (put_found now key f c))"
proof -
  let ?p = "cache_policy_values resource ccs"
  have b: "cp_fresh ?p + cp_swr ?p \<le> duration_max" using policy_windows [of resource ccs] fortnight(1) by simp
  have r: "fe_policy (revalidated_provider_resource C cached resource (Some hs) received delay) = ?p"
    "fe_initial_age (revalidated_provider_resource C cached resource (Some hs) received delay) = corrected_initial_age C hs received delay"
    using assms(1,2) by (auto simp: revalidated_provider_resource_def Let_def)
  have "put_found now key (revalidated_provider_resource C cached resource (Some hs) received delay) c
      = (False, provider_invalidate key (forget_failure key c))"
    using r assms(4,5) b by (simp add: put_found_def duration_saturating_add_def)
  then have evicts: "\<exists>c'. put_found now key (revalidated_provider_resource C cached resource (Some hs) received delay) c = (False, c')
      \<and> pc_entries c' key = None" by simp
  have e: "cache_policy_with_freshness_values resource ccs = (?p, False)"
    using assms(2,3) cache_policy_parsed [of ccs _ resource] by (simp add: parse_values_spec cache_policy_values_def)
  have "fe_policy f = ?p \<and> fe_initial_age f = 0"
    if "fetch_http_provider C G url mx resource accepted None = Inr (Modified f)" "po_http G url Unconditional = Inr response"
      "ht_headers response = hs" for f response
    using that e assms(1) by (auto simp: fetch_http_provider_def revalidation_request_def Let_def split: sum.splits option.splits if_splits prod.splits)
  moreover have "0 < cp_fresh ?p"
    using assms(2-4) by (auto simp: policies_of_fields(2) control_policy_def emitted_s_maxage_def shared_freshness_def has_explicit_freshness_def
        parse_values_spec positive_ttl_def style_positive_ttl_def glyph_sprite_positive_ttl_def secs_def as_secs_def split: option.splits if_splits)
  moreover have "fst (put_found now key f c)" if "fe_policy f = ?p" "fe_initial_age f = 0" "0 < cp_fresh ?p" for f
    using that assms(4) b by (simp add: put_found_def duration_saturating_add_def Let_def)
  ultimately show ?thesis using evicts by blast
qed

theorem revalidation_charges_default_lifetime_witness:
  "\<not> fst (put_found 0 sty_key (revalidated_provider_resource sty_codecs
     \<lparr>rr_bytes = [7], rr_cache_control = [], rr_validators = \<lparr>va_etag = None, va_last_modified = None\<rparr>, rr_content_encoding = None\<rparr>
     ''style'' (Some [(''cache-control'', Some ''stale-while-revalidate=60''), (''age'', Some ''900'')]) 0 0) provider_cache_new)"
proof -
  let ?hs = "[(''cache-control'', Some ''stale-while-revalidate=60''), (''age'', Some ''900'')]"
  have v: "header_str_values ?hs ''cache-control'' = [''stale-while-revalidate=60'']" "header_str_values ?hs ''age'' = [''900'']" "header_value ?hs ''date'' = None"
    by (simp_all add: header_str_values_def header_value_def map_filter_simps)
  have "decimal 60 = ''60''" by code_simp
  then have d: "directives ''stale-while-revalidate=60'' = [seconds_directive ''stale-while-revalidate'' 60]"
    using directives_join [of "[''stale-while-revalidate='' @ decimal 60]"] emitted_ok(3) [of 60] emitted_tokens(3) [of 60] by simp
  let ?cc = "cache_control_default\<lparr>cc_stale_while_revalidate := Some 60\<rparr>"
  have p: "parse_values [''stale-while-revalidate=60''] = Some ?cc"
    by (simp add: parse_values_def d apply_directive_def eq_ignore_lower_case merge_conservative_def delta_seconds_def
        parse_delta_seconds_value cache_control_default_def)
  have pol: "cache_policy_values ''style'' [''stale-while-revalidate=60''] = control_policy ''style'' ?cc"
    using cache_policy_parsed [OF p] by (simp add: cache_policy_values_def)
  have t: "trim ''900'' = ''900''" by (rule trim_graphic) (simp_all add: graphic_def)
  have age: "corrected_initial_age sty_codecs ?hs 0 0 = secs 900"
    by (simp add: corrected_initial_age_def v map_filter_simps t parse_uint_def strip_plus_def is_digit_def digits_value_def digit_value_def
        u64_max_def secs_def duration_saturating_add_def duration_max_def)
  have h1: "header_str_values ?hs ''cache-control'' \<noteq> []" by (simp add: v)
  have h2: "\<not> has_explicit_freshness (parse_values (header_str_values ?hs ''cache-control''))"
    by (simp add: v p has_explicit_freshness_def cache_control_default_def)
  have h3: "cp_store (cache_policy_values ''style'' (header_str_values ?hs ''cache-control''))"
    by (simp add: v pol control_policy_def cache_control_default_def)
  have h4: "cp_fresh (cache_policy_values ''style'' (header_str_values ?hs ''cache-control''))
      + cp_swr (cache_policy_values ''style'' (header_str_values ?hs ''cache-control'')) \<le> corrected_initial_age sty_codecs ?hs 0 0"
    unfolding age by (simp add: v pol control_policy_def cache_control_default_def emitted_s_maxage_def emitted_swr_def shared_freshness_def
        positive_ttl_def style_positive_ttl_def clamp_secs_def max_provider_ttl_def secs_def as_secs_def)
  let ?rep = "\<lparr>rr_bytes = [7], rr_cache_control = [], rr_validators = \<lparr>va_etag = None, va_last_modified = None\<rparr>, rr_content_encoding = None\<rparr>"
  obtain c' where "put_found 0 sty_key (revalidated_provider_resource sty_codecs ?rep ''style'' (Some ?hs) 0 0) provider_cache_new = (False, c')"
    using revalidation_charges_default_lifetime [OF refl h1 h2 h3 h4, of 0 sty_key ?rep provider_cache_new] by blast
  then show ?thesis by simp
qed

end
